(* ===== verification/Prelude.thy ===== *)
theory Prelude
  imports Main "HOL-Library.Word" "HOL-Library.Multiset"
begin

text \<open>
  Shared vocabulary of the placefs development: Go's fixed-width integers, byte slices,
  errors as values, the sequencing of fallible state-changing calls, and the generic list
  and arithmetic facts the component theories use.

  Unsigned integers are words of their width. Go's \<open>int64\<close> (and \<open>int\<close>, which is
  64 bits wide on the supported platforms) is an \<open>int\<close> kept inside the signed range by
  \<open>i64\<close>, which is written wherever the source does arithmetic that could leave the range.
\<close>

named_theorems go_arith \<open>facts that remove or bound the wrap-around of Go integers\<close>
named_theorems go_flow \<open>facts about the sequencing of fallible calls\<close>

section \<open>Go integers and byte slices\<close>

type_synonym byte = "8 word"
type_synonym bytes = "byte list"
type_synonym u16 = "16 word"
type_synonym u32 = "32 word"
type_synonym u64 = "64 word"

definition i64 :: "int \<Rightarrow> int" where
  "i64 x = sint (word_of_int x :: 64 word)"

definition in_i64 :: "int \<Rightarrow> bool" where
  "in_i64 x \<longleftrightarrow> - (2 ^ 63) \<le> x \<and> x < 2 ^ 63"

definition int64_of_u64 :: "u64 \<Rightarrow> int" where
  "int64_of_u64 w = sint w"

definition u64_of_int64 :: "int \<Rightarrow> u64" where
  "u64_of_int64 x = word_of_int x"

definition u32_of_int64 :: "int \<Rightarrow> u32" where
  "u32_of_int64 x = word_of_int x"

text \<open>Go's integer division truncates towards zero.\<close>

definition go_div :: "int \<Rightarrow> int \<Rightarrow> int" where
  "go_div a b = sgn a * sgn b * (\<bar>a\<bar> div \<bar>b\<bar>)"

definition go_mod :: "int \<Rightarrow> int \<Rightarrow> int" where
  "go_mod a b = a - b * go_div a b"

section \<open>Errors and sequencing\<close>

text \<open>
  A Go error is either (or wraps) a \<open>syscall.Errno\<close>, or it carries only text. A run-time
  panic is a value of its own, so that no model function hides one.
\<close>

datatype goerr = Errno nat | ErrText string | Panic string

abbreviation "EPERM \<equiv> Errno 1"
abbreviation "ENOENT \<equiv> Errno 2"
abbreviation "EIO \<equiv> Errno 5"
abbreviation "EEXIST \<equiv> Errno 17"
abbreviation "ENOTDIR \<equiv> Errno 20"
abbreviation "EISDIR \<equiv> Errno 21"
abbreviation "EINVAL \<equiv> Errno 22"
abbreviation "ENOSPC \<equiv> Errno 28"
abbreviation "ENOTEMPTY \<equiv> Errno 39"

text \<open>
  A state-changing call returns the new state together with an error or a value: a failed
  call may have changed the state. \<open>andThen\<close> is Go's \<open>if err != nil { return err }\<close>.
\<close>

type_synonym ('s, 'a) outcome = "'s \<times> (goerr + 'a)"

definition andThen :: "('s, 'a) outcome \<Rightarrow> ('s \<Rightarrow> 'a \<Rightarrow> ('s, 'b) outcome) \<Rightarrow> ('s, 'b) outcome" where
  "andThen r k = (case r of (s, Inl e) \<Rightarrow> (s, Inl e) | (s, Inr x) \<Rightarrow> k s x)"

text \<open>The same for pure fallible calls.\<close>

definition bindE :: "goerr + 'a \<Rightarrow> ('a \<Rightarrow> goerr + 'b) \<Rightarrow> goerr + 'b" where
  "bindE r k = (case r of Inl e \<Rightarrow> Inl e | Inr x \<Rightarrow> k x)"

lemma andThen_Inl [simp, go_flow]: "andThen (s, Inl e) k = (s, Inl e)"
  by (simp add: andThen_def)

lemma andThen_Inr [simp, go_flow]: "andThen (s, Inr x) k = k s x"
  by (simp add: andThen_def)

lemma andThen_ok:
  "andThen r k = (t, Inr y) \<longleftrightarrow> (\<exists>s x. r = (s, Inr x) \<and> k s x = (t, Inr y))"
  by (cases r; cases "snd r") (auto simp: andThen_def)

lemma andThen_cases:
  assumes "andThen r k = (t, z)"
  obtains (err) e where "r = (t, Inl e)" "z = Inl e"
  | (ok) s x where "r = (s, Inr x)" "k s x = (t, z)"
  using assms by (cases r; cases "snd r") (auto simp: andThen_def)

lemma bindE_Inl [simp, go_flow]: "bindE (Inl e) k = Inl e"
  by (simp add: bindE_def)

lemma bindE_Inr [simp, go_flow]: "bindE (Inr x) k = k x"
  by (simp add: bindE_def)

lemma bindE_ok: "bindE r k = Inr y \<longleftrightarrow> (\<exists>x. r = Inr x \<and> k x = Inr y)"
  by (cases r) auto

section \<open>Arithmetic facts\<close>

lemma i64_signed_take_bit: "i64 x = signed_take_bit 63 x"
  by (simp add: i64_def sint_sbintrunc')

lemma i64_id [go_arith]: "in_i64 x \<Longrightarrow> i64 x = x"
  unfolding in_i64_def i64_signed_take_bit
  by (rule signed_take_bit_int_eq_self) auto

lemma i64_range: "in_i64 (i64 x)"
proof -
  have "- (2 ^ (LENGTH(64) - 1)) \<le> sint (word_of_int x :: 64 word)"
    by (rule sint_ge)
  moreover have "sint (word_of_int x :: 64 word) < 2 ^ (LENGTH(64) - 1)"
    by (rule sint_lt)
  ultimately show ?thesis by (simp add: in_i64_def i64_def)
qed

lemma in_i64_nonneg: "0 \<le> x \<Longrightarrow> x < 2 ^ 63 \<Longrightarrow> in_i64 x"
  by (simp add: in_i64_def)

lemma i64_small [go_arith]: "0 \<le> x \<Longrightarrow> x < 2 ^ 63 \<Longrightarrow> i64 x = x"
  by (rule i64_id) (simp add: in_i64_def)

lemma int64_u64_id [go_arith]: "in_i64 x \<Longrightarrow> int64_of_u64 (u64_of_int64 x) = x"
  using i64_id by (simp add: int64_of_u64_def u64_of_int64_def i64_def)

lemma in_i64_of_u64: "in_i64 (int64_of_u64 w)"
  using i64_range [of "uint w"] by (simp add: i64_def int64_of_u64_def)

lemma go_div_nonneg [go_arith]: "0 \<le> a \<Longrightarrow> 0 < b \<Longrightarrow> go_div a b = a div b"
  by (cases "a = 0") (auto simp: go_div_def)

lemma go_mod_nonneg [go_arith]: "0 \<le> a \<Longrightarrow> 0 < b \<Longrightarrow> go_mod a b = a mod b"
  by (simp add: go_mod_def go_div_nonneg minus_mult_div_eq_mod)

lemma unat_u32_of_int64:
  assumes "0 \<le> x" "x < 2 ^ 32"
  shows "unat (u32_of_int64 x) = nat x" "uint (u32_of_int64 x) = x"
proof -
  show u: "uint (u32_of_int64 x) = x"
    using assms by (simp add: u32_of_int64_def uint_word_of_int)
  show "unat (u32_of_int64 x) = nat x"
    using u by (metis unat_eq_nat_uint)
qed

lemma word_less_Suc:
  fixes b c :: "'a::len word"
  shows "b + 1 \<noteq> 0 \<Longrightarrow> c < b + 1 \<longleftrightarrow> c \<le> b"
proof -
  assume "b + 1 \<noteq> 0"
  then have "unat (b + 1) = Suc (unat b)" using unatSuc [of b] by (simp add: add.commute)
  then show ?thesis by (simp add: word_less_nat_alt word_le_nat_alt less_Suc_eq_le)
qed

lemma word_max_Suc: "b + 1 = 0 \<Longrightarrow> c \<le> (b :: 'a::len word)"
  by (metis max_word_wrap word_order.extremum)

section \<open>List facts\<close>

lemma take_length_append [simp]: "n = length xs \<Longrightarrow> take n (xs @ ys) = xs"
  by simp

lemma drop_length_append [simp]: "n = length xs \<Longrightarrow> drop n (xs @ ys) = ys"
  by simp

text \<open>Sorting by a key that is injective on the list has only one result.\<close>

lemma sorted_key_unique:
  fixes f :: "'a \<Rightarrow> 'k::linorder"
  assumes "mset xs = mset ys" "distinct (map f xs)"
    "sorted_wrt (\<lambda>a b. f a \<le> f b) xs" "sorted_wrt (\<lambda>a b. f a \<le> f b) ys"
  shows "xs = ys"
proof -
  have "inj_on f (set xs)" using assms(2) by (simp add: distinct_map)
  moreover have "mset (map f xs) = mset (map f ys)" using assms(1) by (metis mset_map)
  moreover have "sorted (map f xs)" "sorted (map f ys)"
    using assms(3,4) by (simp_all add: sorted_wrt_map)
  ultimately have "map f xs = map f ys" by (metis properties_for_sort sorted_sort_id)
  moreover have "set xs = set ys" using assms(1) by (metis set_mset_mset)
  ultimately show ?thesis
    using \<open>inj_on f (set xs)\<close> by (metis inj_on_Un Un_absorb map_inj_on)
qed

end
