(* ===== verification/Encoding.thy ===== *)
theory Encoding
  imports Prelude "HOL-Library.List_Lexorder"
begin

text \<open>
  The little- and big-endian integer codecs of Go's \<open>encoding/binary\<close> that every on-disk
  format of placefs uses (segment records, fragment values, node records, database keys).
\<close>

primrec le_enc :: "nat \<Rightarrow> nat \<Rightarrow> bytes" where
  "le_enc 0 x = []"
| "le_enc (Suc n) x = word_of_nat x # le_enc n (x div 256)"

primrec le_dec :: "bytes \<Rightarrow> nat" where
  "le_dec [] = 0"
| "le_dec (b # bs) = unat b + 256 * le_dec bs"

definition be_enc :: "nat \<Rightarrow> nat \<Rightarrow> bytes" where
  "be_enc n x = rev (le_enc n x)"

definition be_dec :: "bytes \<Rightarrow> nat" where
  "be_dec bs = le_dec (rev bs)"

text \<open>\<open>binary.LittleEndian.PutUint16/32/64\<close> and \<open>binary.BigEndian.PutUint32/64\<close>.\<close>

definition le16 :: "u16 \<Rightarrow> bytes" where "le16 w = le_enc 2 (unat w)"
definition le32 :: "u32 \<Rightarrow> bytes" where "le32 w = le_enc 4 (unat w)"
definition le64 :: "u64 \<Rightarrow> bytes" where "le64 w = le_enc 8 (unat w)"
definition be32 :: "u32 \<Rightarrow> bytes" where "be32 w = be_enc 4 (unat w)"
definition be64 :: "u64 \<Rightarrow> bytes" where "be64 w = be_enc 8 (unat w)"

text \<open>
  \<open>binary.LittleEndian.Uint64(buf[off:])\<close> and its kin: \<open>None\<close> is the run-time panic
  when fewer bytes are left than the integer takes.
\<close>

definition gslice :: "nat \<Rightarrow> nat \<Rightarrow> bytes \<Rightarrow> bytes option" where
  "gslice off n buf = (if off + n \<le> length buf then Some (take n (drop off buf)) else None)"

definition le16_at :: "nat \<Rightarrow> bytes \<Rightarrow> u16 option" where
  "le16_at off buf = map_option (\<lambda>bs. word_of_nat (le_dec bs)) (gslice off 2 buf)"
definition le32_at :: "nat \<Rightarrow> bytes \<Rightarrow> u32 option" where
  "le32_at off buf = map_option (\<lambda>bs. word_of_nat (le_dec bs)) (gslice off 4 buf)"
definition le64_at :: "nat \<Rightarrow> bytes \<Rightarrow> u64 option" where
  "le64_at off buf = map_option (\<lambda>bs. word_of_nat (le_dec bs)) (gslice off 8 buf)"
definition be32_at :: "nat \<Rightarrow> bytes \<Rightarrow> u32 option" where
  "be32_at off buf = map_option (\<lambda>bs. word_of_nat (be_dec bs)) (gslice off 4 buf)"
definition be64_at :: "nat \<Rightarrow> bytes \<Rightarrow> u64 option" where
  "be64_at off buf = map_option (\<lambda>bs. word_of_nat (be_dec bs)) (gslice off 8 buf)"
definition byte_at :: "nat \<Rightarrow> bytes \<Rightarrow> byte option" where
  "byte_at off buf = (if off < length buf then Some (buf ! off) else None)"

section \<open>Round trips\<close>

lemma length_le_enc [simp]: "length (le_enc n x) = n"
  by (induction n arbitrary: x) auto

lemma length_be_enc [simp]: "length (be_enc n x) = n"
  by (simp add: be_enc_def)

lemma unat_word_of_nat8 [simp]: "unat (word_of_nat x :: byte) = x mod 256"
  by (simp add: unat_of_nat)

lemma le_dec_enc: "le_dec (le_enc n x) = x mod 256 ^ n"
  by (induction n arbitrary: x) (auto simp: mod_mult2_eq)

lemma be_dec_enc: "be_dec (be_enc n x) = x mod 256 ^ n"
  by (simp add: be_dec_def be_enc_def le_dec_enc)

lemma le_enc_dec: "le_enc (length bs) (le_dec bs) = bs"
proof (induction bs)
  case (Cons b bs)
  have b: "unat b < 256" using unsigned_less [of b, where 'a = nat] by simp
  then have "unat (word_of_nat (unat b + 256 * le_dec bs) :: byte) = unat b"
    by (simp del: of_nat_add of_nat_mult)
  then have "(word_of_nat (unat b + 256 * le_dec bs) :: byte) = b"
    by (simp only: word_unat_eq_iff)
  with Cons b show ?case by (simp del: of_nat_add of_nat_mult)
qed simp

lemma le_dec_bound: "le_dec bs < 256 ^ length bs"
proof (induction bs)
  case (Cons b bs)
  have "unat b < 256" using unsigned_less [of b, where 'a = nat] by simp
  with Cons show ?case by simp
qed simp

lemma length_codecs [simp]:
  "length (le16 a) = 2" "length (le32 b) = 4" "length (le64 c) = 8"
  "length (be32 b) = 4" "length (be64 c) = 8"
  by (simp_all add: le16_def le32_def le64_def be32_def be64_def)

lemma word_of_nat_mod_pow:
  "word_of_nat (unat (w :: 'a::len word) mod 2 ^ LENGTH('a)) = w"
  using unsigned_less [of w, where 'a = nat] by simp

lemma codec_dec [simp]:
  "word_of_nat (le_dec (le16 a)) = a" "word_of_nat (le_dec (le32 b)) = b"
  "word_of_nat (le_dec (le64 c)) = c"
  "word_of_nat (be_dec (be32 b)) = b" "word_of_nat (be_dec (be64 c)) = c"
  using word_of_nat_mod_pow [of a] word_of_nat_mod_pow [of b] word_of_nat_mod_pow [of c]
  by (simp_all add: le16_def le32_def le64_def be32_def be64_def le_dec_enc be_dec_enc)

text \<open>Reading a field back out of a record that was built by concatenation.\<close>

lemma gslice_append1: "off = length xs \<Longrightarrow> n = length ys \<Longrightarrow> gslice off n (xs @ ys @ zs) = Some ys"
  by (simp add: gslice_def)

lemma gslice_append2: "length xs \<le> off \<Longrightarrow> gslice off n (xs @ ys) = gslice (off - length xs) n ys"
  by (auto simp: gslice_def)

lemma gslice_append3: "off + n \<le> length xs \<Longrightarrow> gslice off n (xs @ ys) = gslice off n xs"
  by (simp add: gslice_def)

lemma gslice_Cons: "0 < off \<Longrightarrow> gslice off n (b # bs) = gslice (off - 1) n bs"
  by (cases off) (auto simp: gslice_def)

lemma gslice_0 [simp]: "n = length ys \<Longrightarrow> gslice 0 n (ys @ zs) = Some ys"
  by (simp add: gslice_def)

lemma gslice_0_self [simp]: "n = length ys \<Longrightarrow> gslice 0 n ys = Some ys"
  by (simp add: gslice_def)

section \<open>Big-endian encoding preserves the order\<close>

lemma append_less_append:
  fixes xs ys :: "'a::linorder list"
  shows "length xs = length ys \<Longrightarrow> xs @ us < ys @ vs \<longleftrightarrow> xs < ys \<or> xs = ys \<and> us < vs"
  by (induction xs ys rule: list_induct2) auto

lemma append_le_append:
  fixes xs ys :: "'a::linorder list"
  shows "length xs = length ys \<Longrightarrow> xs @ us \<le> ys @ vs \<longleftrightarrow> xs < ys \<or> xs = ys \<and> us \<le> vs"
  by (induction xs ys rule: list_induct2) auto

lemma less_iff_div_mod:
  "(x::nat) < y \<longleftrightarrow> x div 256 < y div 256 \<or> x div 256 = y div 256 \<and> x mod 256 < y mod 256"
proof -
  have "x = 256 * (x div 256) + x mod 256" "y = 256 * (y div 256) + y mod 256"
    by simp_all
  moreover have "x mod 256 < 256" "y mod 256 < 256" by simp_all
  ultimately show ?thesis by linarith
qed

lemma be_enc_Suc: "be_enc (Suc n) x = be_enc n (x div 256) @ [word_of_nat x]"
  by (simp add: be_enc_def)

lemma be_enc_inject:
  "x < 256 ^ n \<Longrightarrow> y < 256 ^ n \<Longrightarrow> be_enc n x = be_enc n y \<longleftrightarrow> x = y"
  by (metis be_dec_enc mod_less)

lemma be_enc_less:
  "x < 256 ^ n \<Longrightarrow> y < 256 ^ n \<Longrightarrow> be_enc n x < be_enc n y \<longleftrightarrow> x < y"
proof (induction n arbitrary: x y)
  case 0
  then show ?case by simp
next
  case (Suc n)
  have d: "x div 256 < 256 ^ n" "y div 256 < 256 ^ n"
    using Suc.prems by (simp_all add: div_less_iff_less_mult mult.commute)
  have "(word_of_nat x :: byte) < word_of_nat y \<longleftrightarrow> x mod 256 < y mod 256"
    by (simp add: word_less_nat_alt)
  moreover have "x < y \<longleftrightarrow> x div 256 < y div 256 \<or> x div 256 = y div 256 \<and> x mod 256 < y mod 256"
    by (rule less_iff_div_mod)
  ultimately show ?case
    using Suc.IH [OF d] be_enc_inject [OF d]
    by (simp add: be_enc_Suc append_less_append)
qed

lemma unat_u64_bound: "unat (w :: u64) < 256 ^ 8"
  using unsigned_less [of w, where 'a = nat] by simp

lemma unat_u32_bound: "unat (w :: u32) < 256 ^ 4"
  using unsigned_less [of w, where 'a = nat] by simp

lemma be64_less [simp]: "be64 a < be64 b \<longleftrightarrow> a < b"
  unfolding be64_def word_less_nat_alt by (rule be_enc_less [OF unat_u64_bound unat_u64_bound])

lemma be32_less [simp]: "be32 a < be32 b \<longleftrightarrow> a < b"
  unfolding be32_def word_less_nat_alt by (rule be_enc_less [OF unat_u32_bound unat_u32_bound])

lemma be64_inject [simp]: "be64 a = be64 b \<longleftrightarrow> a = b"
  by (metis codec_dec(5))

lemma be32_inject [simp]: "be32 a = be32 b \<longleftrightarrow> a = b"
  by (metis codec_dec(4))

lemma le64_inject [simp]: "le64 a = le64 b \<longleftrightarrow> a = b"
  by (metis codec_dec(3))

end
