(* ===== verification/Keys.thy ===== *)
theory Keys
  imports Encoding "HOL-Library.Sublist"
begin

text \<open>
  The keyspace of the metadata database (\<open>src/kv/keys.go\<close>): one-byte tags, big-endian
  inode, stripe and sequence numbers, and the upper bounds that turn a prefix into the
  half-open key range an iterator scans.
\<close>

unbundle bit_operations_syntax

section \<open>Key constructors\<close>

definition tagStoreMeta :: byte where "tagStoreMeta = 77"
definition tagNode :: byte where "tagNode = 110"
definition tagDirent :: byte where "tagDirent = 100"
definition tagStripe :: byte where "tagStripe = 115"

lemmas tag_defs = tagStoreMeta_def tagNode_def tagDirent_def tagStripe_def

definition StoreNextInodeKey :: bytes where
  "StoreNextInodeKey = [tagStoreMeta, 110, 105]"

definition NodeKey :: "u64 \<Rightarrow> bytes" where
  "NodeKey inode = tagNode # be64 inode"

definition DirentKey :: "u64 \<Rightarrow> bytes \<Rightarrow> bytes" where
  "DirentKey parent name = tagDirent # be64 parent @ name"

definition DirentPrefix :: "u64 \<Rightarrow> bytes" where
  "DirentPrefix parent = tagDirent # be64 parent"

definition DirentParentFromKey :: "bytes \<Rightarrow> u64 option" where
  "DirentParentFromKey k = be64_at 1 k"

definition DirentNameFromKey :: "bytes \<Rightarrow> bytes option" where
  "DirentNameFromKey k = (if 9 \<le> length k then Some (drop 9 k) else None)"

definition LegacyStripeKey :: "u64 \<Rightarrow> u32 \<Rightarrow> bytes" where
  "LegacyStripeKey inode stripeID = tagStripe # be64 inode @ be32 stripeID"

definition FragmentKey :: "u64 \<Rightarrow> u32 \<Rightarrow> u64 \<Rightarrow> bytes" where
  "FragmentKey inode stripeID seq = tagStripe # be64 inode @ be32 stripeID @ be64 seq"

definition FragmentStripePrefix :: "u64 \<Rightarrow> u32 \<Rightarrow> bytes" where
  "FragmentStripePrefix inode stripeID = tagStripe # be64 inode @ be32 stripeID"

definition StripePrefix :: "u64 \<Rightarrow> bytes" where
  "StripePrefix inode = tagStripe # be64 inode"

definition StripeAllPrefix :: bytes where
  "StripeAllPrefix = [tagStripe]"

definition StripeIDFromFragmentKey :: "bytes \<Rightarrow> u32 option" where
  "StripeIDFromFragmentKey k = be32_at 9 k"

definition StripeInodeFromFragmentKey :: "bytes \<Rightarrow> u64 option" where
  "StripeInodeFromFragmentKey k = be64_at 1 k"

definition SeqFromFragmentKey :: "bytes \<Rightarrow> u64 option" where
  "SeqFromFragmentKey k = be64_at 13 k"

definition IsFragmentKey :: "bytes \<Rightarrow> bool" where
  "IsFragmentKey k \<longleftrightarrow> length k = 21"

definition IsLegacyStripeKey :: "bytes \<Rightarrow> bool" where
  "IsLegacyStripeKey k \<longleftrightarrow> length k = 13"

text \<open>
  The loop of \<open>PrefixUpperBound\<close> walks from the last byte to the first: it increments the
  byte and stops unless the increment wrapped to zero. \<open>bump\<close> is that loop on the
  reversed slice; the bytes it has passed are cut off by \<open>end[:i+1]\<close>.
\<close>

fun bump :: "bytes \<Rightarrow> bytes option" where
  "bump [] = None"
| "bump (b # bs) = (if b + 1 \<noteq> 0 then Some ((b + 1) # bs) else bump bs)"

definition PrefixUpperBound :: "bytes \<Rightarrow> bytes option" where
  "PrefixUpperBound pre = map_option rev (bump (rev pre))"

text \<open>The half-open range \<open>[lo, hi)\<close> of an iterator; no upper bound scans to the end.\<close>

definition in_range :: "bytes \<Rightarrow> bytes option \<Rightarrow> bytes \<Rightarrow> bool" where
  "in_range lo hi k \<longleftrightarrow> lo \<le> k \<and> (case hi of None \<Rightarrow> True | Some h \<Rightarrow> k < h)"

text \<open>
  The range that \<open>fragmentsInRange\<close> scans: from the first stripe's prefix to the prefix of
  the stripe after the last, or to the end of the inode when the last stripe id is the
  largest 32-bit number.
\<close>

definition stripe_range_hi :: "u64 \<Rightarrow> u32 \<Rightarrow> bytes option" where
  "stripe_range_hi inode lst =
     (if lst = NOT 0 then PrefixUpperBound (StripePrefix inode)
      else Some (FragmentStripePrefix inode (lst + 1)))"

lemmas key_defs = StoreNextInodeKey_def NodeKey_def DirentKey_def DirentPrefix_def
  LegacyStripeKey_def FragmentKey_def FragmentStripePrefix_def StripePrefix_def
  StripeAllPrefix_def

section \<open>Prefix ranges\<close>

lemma bump_append:
  "bump (xs @ ys) = (case bump xs of Some u \<Rightarrow> Some (u @ ys) | None \<Rightarrow> bump ys)"
  by (induction xs) auto

lemma PrefixUpperBound_Nil [simp]: "PrefixUpperBound [] = None"
  by (simp add: PrefixUpperBound_def)

lemma PrefixUpperBound_Cons:
  "PrefixUpperBound (b # p) = (case PrefixUpperBound p of
     Some u \<Rightarrow> Some (b # u) | None \<Rightarrow> if b + 1 \<noteq> 0 then Some [b + 1] else None)"
  by (auto simp: PrefixUpperBound_def bump_append split: option.splits)

text \<open>
  An iterator over \<open>[prefix, PrefixUpperBound(prefix))\<close> sees exactly the keys that start
  with the prefix; and the bound is the least slice above all of them.
\<close>

lemma prefix_range:
  "in_range p (PrefixUpperBound p) k \<longleftrightarrow> prefix p k"
proof (induction p arbitrary: k)
  case Nil
  then show ?case by (simp add: in_range_def)
next
  case (Cons b p)
  show ?case
  proof (cases k)
    case Nil
    then show ?thesis by (simp add: in_range_def)
  next
    case (Cons c k')
    have *: "prefix p k' \<longleftrightarrow> p \<le> k' \<and> (\<forall>u. PrefixUpperBound p = Some u \<longrightarrow> k' < u)"
      using Cons.IH [of k'] by (auto simp: in_range_def split: option.splits)
    show ?thesis
      by (cases "PrefixUpperBound p")
        (auto simp: Cons * in_range_def PrefixUpperBound_Cons word_less_Suc
          dest: word_max_Suc [of b c])
  qed
qed

lemma all_prefix_Cons: "(\<forall>k. prefix (b # p) k \<longrightarrow> P k) \<longleftrightarrow> (\<forall>k. prefix p k \<longrightarrow> P (b # k))"
  by (auto simp: prefix_def)

lemma PrefixUpperBound_least:
  "(\<forall>k. prefix p k \<longrightarrow> k < x) \<longleftrightarrow> (\<exists>u. PrefixUpperBound p = Some u \<and> u \<le> x)"
proof (induction p arbitrary: x)
  case Nil
  then show ?case by (auto intro: exI [of _ x])
next
  case (Cons b p)
  show ?case
  proof (cases x)
    case Nil
    then show ?thesis by (auto simp: PrefixUpperBound_Cons split: option.splits)
  next
    case (Cons c x')
    have "(\<forall>k. prefix (b # p) k \<longrightarrow> k < x) \<longleftrightarrow> b < c \<or> b = c \<and> (\<forall>k. prefix p k \<longrightarrow> k < x')"
      unfolding Cons all_prefix_Cons by (auto dest: spec [of _ p])
    also have "\<dots> \<longleftrightarrow> (\<exists>u. PrefixUpperBound (b # p) = Some u \<and> u \<le> x)"
      using Cons.IH [of x'] word_less_Suc [of b c] word_max_Suc [of b c]
      by (cases "PrefixUpperBound p") (auto simp: Cons PrefixUpperBound_Cons)
    finally show ?thesis .
  qed
qed


section \<open>Keys are read back, distinct and ordered\<close>

lemma length_keys [simp]:
  "length (NodeKey i) = 9" "length (DirentKey i nm) = 9 + length nm" "length (DirentPrefix i) = 9"
  "length (LegacyStripeKey i s) = 13" "length (FragmentKey i s q) = 21"
  "length (FragmentStripePrefix i s) = 13" "length (StripePrefix i) = 9"
  by (simp_all add: key_defs)

lemma key_kinds [simp]:
  "IsFragmentKey (FragmentKey i s q)" "\<not> IsLegacyStripeKey (FragmentKey i s q)"
  "IsLegacyStripeKey (LegacyStripeKey i s)" "\<not> IsFragmentKey (LegacyStripeKey i s)"
  by (simp_all add: IsFragmentKey_def IsLegacyStripeKey_def)

lemma FragmentKey_fields [simp]:
  "StripeInodeFromFragmentKey (FragmentKey i s q) = Some i"
  "StripeIDFromFragmentKey (FragmentKey i s q) = Some s"
  "SeqFromFragmentKey (FragmentKey i s q) = Some q"
  by (simp_all add: StripeInodeFromFragmentKey_def StripeIDFromFragmentKey_def SeqFromFragmentKey_def
      FragmentKey_def be64_at_def be32_at_def gslice_Cons gslice_append2)

lemma LegacyStripeKey_fields [simp]:
  "StripeInodeFromFragmentKey (LegacyStripeKey i s) = Some i"
  "StripeIDFromFragmentKey (LegacyStripeKey i s) = Some s"
  by (simp_all add: StripeInodeFromFragmentKey_def StripeIDFromFragmentKey_def
      LegacyStripeKey_def be64_at_def be32_at_def gslice_Cons gslice_append2)

lemma DirentKey_fields [simp]:
  "DirentParentFromKey (DirentKey i nm) = Some i" "DirentNameFromKey (DirentKey i nm) = Some nm"
  by (simp_all add: DirentParentFromKey_def DirentNameFromKey_def DirentKey_def be64_at_def gslice_Cons)

lemma key_inject [simp]:
  "NodeKey i = NodeKey j \<longleftrightarrow> i = j"
  "DirentKey i nm = DirentKey j nm' \<longleftrightarrow> i = j \<and> nm = nm'"
  "FragmentKey i s q = FragmentKey i' s' q' \<longleftrightarrow> i = i' \<and> s = s' \<and> q = q'"
  "LegacyStripeKey i s = LegacyStripeKey i' s' \<longleftrightarrow> i = i' \<and> s = s'"
  by (auto simp: key_defs append_eq_append_conv)

lemma key_distinct [simp]:
  "NodeKey i \<noteq> DirentKey j nm" "DirentKey j nm \<noteq> NodeKey i"
  "NodeKey i \<noteq> FragmentKey j s q" "FragmentKey j s q \<noteq> NodeKey i"
  "NodeKey i \<noteq> StoreNextInodeKey" "StoreNextInodeKey \<noteq> NodeKey i"
  "DirentKey i nm \<noteq> FragmentKey j s q" "FragmentKey j s q \<noteq> DirentKey i nm"
  "DirentKey i nm \<noteq> StoreNextInodeKey" "StoreNextInodeKey \<noteq> DirentKey i nm"
  "FragmentKey i s q \<noteq> StoreNextInodeKey" "StoreNextInodeKey \<noteq> FragmentKey i s q"
  by (simp_all add: key_defs tag_defs)

lemma FragmentKey_less:
  "FragmentKey i s q < FragmentKey i' s' q' \<longleftrightarrow>
     i < i' \<or> i = i' \<and> (s < s' \<or> s = s' \<and> q < q')"
  by (simp add: FragmentKey_def append_less_append)

text \<open>Every 21-byte key under the stripe tag is a fragment key.\<close>

lemma be_dec_u64: "length bs = 8 \<Longrightarrow> be64 (word_of_nat (be_dec bs)) = bs"
  using le_dec_bound [of "rev bs"] le_enc_dec [of "rev bs"]
  by (simp add: be64_def be_enc_def be_dec_def unat_of_nat)

lemma be_dec_u32: "length bs = 4 \<Longrightarrow> be32 (word_of_nat (be_dec bs)) = bs"
  using le_dec_bound [of "rev bs"] le_enc_dec [of "rev bs"]
  by (simp add: be32_def be_enc_def be_dec_def unat_of_nat)

lemma fragment_key_cases:
  assumes "prefix StripeAllPrefix k" "IsFragmentKey k"
  obtains i s q where "k = FragmentKey i s q"
proof -
  from assms obtain r where k: "k = tagStripe # r" "length r = 20"
    by (auto simp: StripeAllPrefix_def IsFragmentKey_def prefix_def)
  define a b c where abc: "a = take 8 r" "b = take 4 (drop 8 r)" "c = drop 12 r"
  have "r = a @ b @ c"
    using append_take_drop_id [of 4 "drop 8 r"] by (simp add: abc)
  moreover have "length a = 8" "length b = 4" "length c = 8"
    using k by (simp_all add: abc)
  ultimately have "k = FragmentKey (word_of_nat (be_dec a)) (word_of_nat (be_dec b)) (word_of_nat (be_dec c))"
    using k by (simp add: FragmentKey_def be_dec_u64 be_dec_u32)
  then show ?thesis by (rule that)
qed

lemma prefix_FragmentKey [simp]:
  "prefix StripeAllPrefix (FragmentKey i s q)"
  "prefix (StripePrefix j) (FragmentKey i s q) \<longleftrightarrow> i = j"
  "prefix (FragmentStripePrefix j t) (FragmentKey i s q) \<longleftrightarrow> i = j \<and> s = t"
proof -
  show "prefix StripeAllPrefix (FragmentKey i s q)"
    by (simp add: StripeAllPrefix_def FragmentKey_def)
  show "prefix (StripePrefix j) (FragmentKey i s q) \<longleftrightarrow> i = j"
    by (auto simp: StripePrefix_def FragmentKey_def prefix_def append_eq_append_conv)
  show "prefix (FragmentStripePrefix j t) (FragmentKey i s q) \<longleftrightarrow> i = j \<and> s = t"
    by (auto simp: FragmentStripePrefix_def FragmentKey_def prefix_def append_eq_append_conv)
qed

lemma stripe_prefix_all:
  "prefix (StripePrefix i) k \<Longrightarrow> prefix StripeAllPrefix k"
  "prefix (FragmentStripePrefix i s) k \<Longrightarrow> prefix (StripePrefix i) k"
  by (auto simp: StripePrefix_def StripeAllPrefix_def FragmentStripePrefix_def prefix_def)

lemma stripe_range_FragmentKey:
  "in_range (FragmentStripePrefix inode first) (stripe_range_hi inode lst) (FragmentKey i s q)
   \<longleftrightarrow> i = inode \<and> first \<le> s \<and> s \<le> lst"
proof -
  have lo: "FragmentStripePrefix inode first \<le> FragmentKey i s q \<longleftrightarrow>
      inode < i \<or> inode = i \<and> first \<le> s"
    using append_le_append [of "be32 first" "be32 s" "[]" "be64 q"]
    by (auto simp: FragmentStripePrefix_def FragmentKey_def append_le_append)
  show ?thesis
  proof (cases "lst = NOT 0")
    case True
    have "in_range (StripePrefix inode) (PrefixUpperBound (StripePrefix inode)) (FragmentKey i s q)
       \<longleftrightarrow> i = inode"
      by (simp add: prefix_range)
    moreover have "StripePrefix inode \<le> FragmentKey i s q \<longleftrightarrow> inode \<le> i"
      using append_le_append [of "be64 inode" "be64 i" "[]" "be32 s @ be64 q"]
      by (auto simp: StripePrefix_def FragmentKey_def)
    ultimately show ?thesis
      using lo True by (auto simp: stripe_range_hi_def in_range_def word_order.extremum)
  next
    case False
    then have "s < lst + 1 \<longleftrightarrow> s \<le> lst"
      using word_less_Suc [of lst s] max_word_wrap [of lst] by auto
    then show ?thesis
      using lo False append_less_append [of "be32 s" "be32 (lst + 1)" "be64 q" "[]"]
      by (auto simp: stripe_range_hi_def in_range_def FragmentKey_def FragmentStripePrefix_def
          append_less_append)
  qed
qed


section \<open>Properties\<close>

text \<open>
  C38: the iterator range from a prefix to its \<open>PrefixUpperBound\<close> holds exactly the keys
  with that prefix, and the bound is the least byte slice above all of them (none exists
  when the bound is nil).
\<close>

theorem PrefixUpperBound_exact:
  "(in_range p (PrefixUpperBound p) k \<longleftrightarrow> prefix p k) \<and>
   ((\<forall>k. prefix p k \<longrightarrow> k < x) \<longleftrightarrow> (\<exists>u. PrefixUpperBound p = Some u \<and> u \<le> x))"
  using prefix_range PrefixUpperBound_least by blast

theorem PrefixUpperBound_exact_witness:
  "in_range [115, 255] (PrefixUpperBound [115, 255]) [115, 255, 7] \<and> PrefixUpperBound [115, 255] = Some [116]"
proof -
  have "in_range [115, 255] (PrefixUpperBound [115, 255]) [115, 255, 7]"
    using PrefixUpperBound_exact [of "[115, 255]" "[115, 255, 7]"] by simp
  moreover have "PrefixUpperBound [115, 255] = Some [116]" by (simp add: PrefixUpperBound_def)
  ultimately show ?thesis by simp
qed

text \<open>
  Fragment keys sort by inode, then stripe, then sequence number, and the range that
  \<open>fragmentsInRange\<close> scans holds exactly the fragment keys of the inode whose stripe lies
  between the first and the last, also at the largest stripe id.
\<close>

theorem FragmentKey_scan:
  "(FragmentKey i s q < FragmentKey i' s' q' \<longleftrightarrow> i < i' \<or> i = i' \<and> (s < s' \<or> s = s' \<and> q < q')) \<and>
   (in_range (FragmentStripePrefix inode first) (stripe_range_hi inode lst) (FragmentKey i s q)
     \<longleftrightarrow> i = inode \<and> first \<le> s \<and> s \<le> lst)"
  using FragmentKey_less stripe_range_FragmentKey by blast

end
