(* ===== verification/Decimal.thy ===== *)
theory Decimal
  imports Prelude "HOL-Library.Sublist"
begin

text \<open>
  Decimal numbers as strings: what \<open>strconv.FormatInt\<close> / \<open>%d\<close> print for a natural number
  and what \<open>strconv.ParseUint\<close> in base ten accepts. Used for segment file names and for
  the byte-size flags.
\<close>

definition digit_char :: "nat \<Rightarrow> char" where
  "digit_char d = char_of (48 + d)"

definition is_digit :: "char \<Rightarrow> bool" where
  "is_digit c \<longleftrightarrow> 48 \<le> (of_char c :: nat) \<and> (of_char c :: nat) \<le> 57"

definition digit_val :: "char \<Rightarrow> nat" where
  "digit_val c = of_char c - 48"

fun format_nat :: "nat \<Rightarrow> string" where
  "format_nat n = (if n < 10 then [digit_char n] else format_nat (n div 10) @ [digit_char (n mod 10)])"

declare format_nat.simps [simp del]

definition dec_value :: "string \<Rightarrow> nat" where
  "dec_value s = foldl (\<lambda>a c. 10 * a + digit_val c) 0 s"

text \<open>\<open>strconv.ParseUint(s, 10, bits)\<close>; \<open>None\<close> is a syntax or range error.\<close>

definition parse_uint :: "nat \<Rightarrow> string \<Rightarrow> nat option" where
  "parse_uint bits s =
     (if s = [] \<or> \<not> list_all is_digit s then None
      else if dec_value s < 2 ^ bits then Some (dec_value s) else None)"

definition pad_zero :: "nat \<Rightarrow> string \<Rightarrow> string" where
  "pad_zero n s = replicate (n - length s) (CHR ''0'') @ s"

lemma of_char_digit_char: "d < 10 \<Longrightarrow> of_char (digit_char d) = (48 + d :: nat)"
  by (simp add: digit_char_def)

lemma digit_char_props [simp]:
  "d < 10 \<Longrightarrow> is_digit (digit_char d)" "d < 10 \<Longrightarrow> digit_val (digit_char d) = d"
  by (simp_all add: is_digit_def digit_val_def of_char_digit_char)

lemma format_nat_not_Nil [simp]: "format_nat n \<noteq> []"
  by (subst format_nat.simps) simp

lemma format_nat_digits: "list_all is_digit (format_nat n)"
proof (induction n rule: format_nat.induct)
  case (1 n)
  then show ?case by (subst format_nat.simps) simp
qed

lemma dec_value_snoc [simp]: "dec_value (s @ [c]) = 10 * dec_value s + digit_val c"
  by (simp add: dec_value_def)

lemma dec_value_format [simp]: "dec_value (format_nat n) = n"
proof (induction n rule: format_nat.induct)
  case (1 n)
  show ?case
  proof (cases "n < 10")
    case True
    then show ?thesis by (subst format_nat.simps) (simp add: dec_value_def)
  next
    case False
    with 1 show ?thesis by (subst format_nat.simps) simp
  qed
qed

lemma foldl_zeros:
  "foldl (\<lambda>a c. 10 * a + digit_val c) 0 (replicate n (CHR ''0'')) = 0"
proof (induction n)
  case (Suc n)
  have "digit_val (CHR ''0'') = 0" by (simp add: digit_val_def)
  with Suc show ?case by simp
qed simp

lemma dec_value_pad [simp]: "dec_value (pad_zero n s) = dec_value s"
  by (simp add: dec_value_def pad_zero_def foldl_zeros)

lemma parse_uint_format: "n < 2 ^ bits \<Longrightarrow> parse_uint bits (format_nat n) = Some n"
  by (simp add: parse_uint_def format_nat_digits)

lemma parse_uint_pad:
  "n < 2 ^ bits \<Longrightarrow> parse_uint bits (pad_zero k (format_nat n)) = Some n"
proof -
  assume "n < 2 ^ bits"
  moreover have "list_all is_digit (pad_zero k (format_nat n))"
    using format_nat_digits [of n] by (auto simp: pad_zero_def list_all_iff is_digit_def)
  moreover have "pad_zero k (format_nat n) \<noteq> []" by (simp add: pad_zero_def)
  ultimately show ?thesis by (simp add: parse_uint_def)
qed

end
