(* ===== verification/Segment.thy ===== *)
theory Segment
  imports Encoding Decimal "HOL-Library.AList"
begin

text \<open>
  The L1 substrate (\<open>src/segment/segment.go\<close>): append-only files of checksummed records,
  the scan that finds where the valid records end, and the per-tier set of segment files
  with rotation, removal and tail repair.

  A directory is an association list from file names to files. A file carries, besides its
  bytes, how many of them the last successful \<open>fsync\<close> covered and whether its directory
  entry has been made durable. Every system call can fail: the script of its results is
  threaded through the operations (an empty script means that every further call succeeds).
\<close>

unbundle bit_operations_syntax

section \<open>Data\<close>

type_synonym Tier = byte

definition TierHot :: Tier where "TierHot = 1"
definition TierCold :: Tier where "TierCold = 2"
definition TierMem :: Tier where "TierMem = 3"

lemmas tier_defs = TierHot_def TierCold_def TierMem_def

definition Tier_String :: "Tier \<Rightarrow> string" where
  "Tier_String t = (if t = TierHot then ''hot'' else if t = TierCold then ''cold''
     else if t = TierMem then ''mem'' else ''tier('' @ format_nat (unat t) @ '')'')"

record Locator =
  locTier :: Tier
  locSegmentID :: u32
  locOffset :: int
  locLength :: int

definition recordMagic :: u32 where "recordMagic = 0x45534C50"
definition recordVersion :: byte where "recordVersion = 1"
definition headerSize :: nat where "headerSize = 40"
definition trailerSize :: nat where "trailerSize = 4"

definition FramedSize :: "nat \<Rightarrow> int" where
  "FramedSize payloadLen = int (headerSize + payloadLen + trailerSize)"

record RecordHeader =
  hInode :: u64
  hStripeID :: u32
  hSeq :: u64
  hLogicalOff :: int
  hLength :: u32

record osfile =
  fData :: bytes
  fSynced :: nat
  fLinked :: bool

type_synonym dir = "(string \<times> osfile) list"

record Segment =
  segID :: u32
  segPos :: nat
  segSize :: int
  segOpen :: bool

record SegSet =
  ssDir :: dir
  ssTier :: Tier
  ssMaxSize :: int
  ssSegments :: "(u32 \<times> Segment) list"
  ssActive :: "u32 option"
  ssNextID :: u32

section \<open>System calls\<close>

datatype sysresult = Done | Fails goerr | Partial nat goerr

type_synonym os = "sysresult list"

fun sys_next :: "os \<Rightarrow> sysresult \<times> os" where
  "sys_next [] = (Done, [])"
| "sys_next (r # rs) = (r, rs)"

text \<open>A system call whose only outcomes are success and failure.\<close>

definition sys :: "os \<Rightarrow> (os, unit) outcome" where
  "sys osq = (case sys_next osq of
     (Done, osq') \<Rightarrow> (osq', Inr ())
   | (Fails e, osq') \<Rightarrow> (osq', Inl e)
   | (Partial n e, osq') \<Rightarrow> (osq', Inl e))"

text \<open>Linux refuses to grow a file past the largest signed 64-bit offset.\<close>

definition max_file_size :: nat where "max_file_size = 2 ^ 63 - 1"
abbreviation "EFBIG \<equiv> Errno 27"

definition file_write :: "nat \<Rightarrow> bytes \<Rightarrow> osfile \<Rightarrow> osfile" where
  "file_write pos d f = f\<lparr>fData := take pos (fData f) @ replicate (pos - length (fData f)) 0
     @ d @ drop (pos + length d) (fData f)\<rparr>"

definition file_sync :: "osfile \<Rightarrow> osfile" where
  "file_sync f = f\<lparr>fSynced := length (fData f)\<rparr>"

definition file_truncate :: "nat \<Rightarrow> osfile \<Rightarrow> osfile" where
  "file_truncate n f = f\<lparr>fData := take n (fData f) @ replicate (n - length (fData f)) 0,
     fSynced := min n (fSynced f)\<rparr>"

definition empty_file :: osfile where
  "empty_file = \<lparr>fData = [], fSynced = 0, fLinked = False\<rparr>"

definition segFileName :: "u32 \<Rightarrow> string" where
  "segFileName i = pad_zero 10 (format_nat (unat i)) @ ''.seg''"

definition parseSegName :: "string \<Rightarrow> u32 option" where
  "parseSegName name = (if suffix ''.seg'' name
     then map_option word_of_nat (parse_uint 32 (take (length name - 4) name)) else None)"

definition the_file :: "dir \<Rightarrow> u32 \<Rightarrow> osfile" where
  "the_file d i = (case map_of d (segFileName i) of Some f \<Rightarrow> f | None \<Rightarrow> empty_file)"

definition put_file :: "u32 \<Rightarrow> osfile \<Rightarrow> dir \<Rightarrow> dir" where
  "put_file i f d = AList.update (segFileName i) f d"

section \<open>Records\<close>

text \<open>\<open>hash/crc32.ChecksumIEEE\<close>, bit by bit (reflected polynomial).\<close>

definition crc_shift :: "u32 \<Rightarrow> u32" where
  "crc_shift c = (if bit c 0 then drop_bit 1 c XOR 0xEDB88320 else drop_bit 1 c)"

definition crc_byte :: "u32 \<Rightarrow> byte \<Rightarrow> u32" where
  "crc_byte c b = (crc_shift ^^ 8) (c XOR ucast b)"

definition crc32 :: "bytes \<Rightarrow> u32" where
  "crc32 bs = NOT (foldl crc_byte (NOT 0) bs)"

definition header_tail :: "RecordHeader \<Rightarrow> bytes" where
  "header_tail h = [recordVersion, 0] @ le16 0 @ le64 (hInode h) @ le32 (hStripeID h)
     @ le64 (hSeq h) @ le64 (u64_of_int64 (hLogicalOff h)) @ le32 (hLength h)"

definition frame :: "RecordHeader \<Rightarrow> bytes \<Rightarrow> bytes" where
  "frame h payload = le32 recordMagic @ header_tail h @ payload
     @ le32 (crc32 (header_tail h @ payload))"

text \<open>One step of the scan loop: the record that starts at \<open>pos\<close>, with the position after it.\<close>

definition scan_record :: "bytes \<Rightarrow> nat \<Rightarrow> (RecordHeader \<times> nat) option" where
  "scan_record data pos =
     (if length data - pos < headerSize + trailerSize then None
      else if le32_at pos data \<noteq> Some recordMagic then None
      else if byte_at (pos + 4) data \<noteq> Some recordVersion then None
      else (case (le64_at (pos + 8) data, le32_at (pos + 16) data, le64_at (pos + 20) data,
                  le64_at (pos + 28) data, le32_at (pos + 36) data) of
        (Some ino, Some sid, Some sq, Some lo, Some ln) \<Rightarrow>
          (let h = \<lparr>hInode = ino, hStripeID = sid, hSeq = sq,
                    hLogicalOff = int64_of_u64 lo, hLength = ln\<rparr>;
               crcOff = pos + headerSize + unat ln;
               recordEnd = crcOff + trailerSize
           in if recordEnd > length data then None
              else if le32_at crcOff data \<noteq> Some (crc32 (take (crcOff - (pos + 4)) (drop (pos + 4) data)))
              then None else Some (h, recordEnd))
      | _ \<Rightarrow> None))"

lemma scan_record_progress: "scan_record data pos = Some (h, e) \<Longrightarrow> pos < e \<and> e \<le> length data"
  by (auto simp: scan_record_def Let_def headerSize_def trailerSize_def split: if_splits option.splits)

text \<open>
  \<open>Segment.Scan\<close> on the bytes read: \<open>visit\<close> is threaded with a state of the caller's and
  may stop the scan with an error.
\<close>

function scan_loop :: "('v \<Rightarrow> RecordHeader \<Rightarrow> int \<Rightarrow> 'v \<times> goerr option) \<Rightarrow> bytes \<Rightarrow> nat \<Rightarrow> 'v
    \<Rightarrow> 'v \<times> (goerr + int)" where
  "scan_loop visit data pos v =
     (if pos < length data then
        (case scan_record data pos of
           None \<Rightarrow> (v, Inr (int pos))
         | Some (h, recordEnd) \<Rightarrow>
             (case visit v h (int (pos + headerSize)) of
                (v', Some e) \<Rightarrow> (v', Inl e)
              | (v', None) \<Rightarrow> scan_loop visit data recordEnd v'))
      else (v, Inr (int pos)))"
  by pat_completeness auto
termination
proof (relation "measure (\<lambda>(visit, data, pos, v). length data - pos)", goal_cases)
  case 1
  show ?case by simp
next
  case (2 visit data pos v x h e y v')
  then show ?case using scan_record_progress [of data pos h e] by auto
qed

declare scan_loop.simps [simp del]


section \<open>Operations on one segment\<close>

text \<open>
  A \<open>*Segment\<close> is the entry of its set under its id; a pointer whose entry is gone is a
  closed file, on which \<open>os.File\<close> methods return \<open>os.ErrInvalid\<close>.
\<close>

definition seg_of :: "SegSet \<Rightarrow> u32 \<Rightarrow> Segment option" where
  "seg_of ss i = map_of (ssSegments ss) i"

definition ErrInvalidFile :: goerr where
  "ErrInvalidFile = ErrText ''invalid argument''"

definition put_seg :: "u32 \<Rightarrow> Segment \<Rightarrow> osfile \<Rightarrow> SegSet \<Rightarrow> SegSet" where
  "put_seg i s f ss = ss\<lparr>ssDir := put_file i f (ssDir ss),
     ssSegments := AList.update i s (ssSegments ss)\<rparr>"

definition Segment_Size :: "SegSet \<Rightarrow> u32 \<Rightarrow> int" where
  "Segment_Size ss i = (case seg_of ss i of Some s \<Rightarrow> segSize s | None \<Rightarrow> 0)"

definition Segment_ReadAt :: "SegSet \<Rightarrow> os \<Rightarrow> u32 \<Rightarrow> nat \<Rightarrow> int \<Rightarrow> (os, bytes) outcome" where
  "Segment_ReadAt ss osq i n off = (case seg_of ss i of
     None \<Rightarrow> (osq, Inl ErrInvalidFile)
   | Some s \<Rightarrow>
       if \<not> segOpen s then (osq, Inl ErrInvalidFile)
       else if off < 0 then (osq, Inl (ErrText ''negative offset''))
       else if n = 0 then (osq, Inr [])
       else andThen (sys osq) (\<lambda>osq' _. case gslice (nat off) n (fData (the_file (ssDir ss) i)) of
              Some bs \<Rightarrow> (osq', Inr bs)
            | None \<Rightarrow> (osq', Inl (ErrText ''EOF''))))"

definition Segment_Append :: "SegSet \<Rightarrow> os \<Rightarrow> u32 \<Rightarrow> RecordHeader \<Rightarrow> bytes
    \<Rightarrow> (SegSet \<times> os, int) outcome" where
  "Segment_Append ss osq i h payload =
     (if unat (hLength h) \<noteq> length payload
      then ((ss, osq), Inl (ErrText ''segment: header length differs from payload''))
      else case seg_of ss i of
        None \<Rightarrow> ((ss, osq), Inl ErrInvalidFile)
      | Some s \<Rightarrow>
          if \<not> segOpen s then ((ss, osq), Inl ErrInvalidFile)
          else let buf = frame h payload; f = the_file (ssDir ss) i in
            if segPos s + length buf > max_file_size then ((ss, osq), Inl EFBIG)
            else (case sys_next osq of
                (Done, osq') \<Rightarrow>
                  ((put_seg i (s\<lparr>segPos := segPos s + length buf,
                                 segSize := i64 (segSize s + int (length buf))\<rparr>)
                      (file_write (segPos s) buf f) ss, osq'),
                   Inr (i64 (segSize s + int headerSize)))
              | (Fails e, osq') \<Rightarrow> ((ss, osq'), Inl e)
              | (Partial n e, osq') \<Rightarrow>
                  ((put_seg i (s\<lparr>segPos := segPos s + length (take n buf)\<rparr>)
                      (file_write (segPos s) (take n buf) f) ss, osq'),
                   Inl e)))"

definition Segment_Sync :: "SegSet \<Rightarrow> os \<Rightarrow> u32 \<Rightarrow> (SegSet \<times> os, unit) outcome" where
  "Segment_Sync ss osq i = (case seg_of ss i of
     None \<Rightarrow> ((ss, osq), Inr ())
   | Some s \<Rightarrow>
       if \<not> segOpen s then ((ss, osq), Inr ())
       else (case sys osq of
           (osq', Inl e) \<Rightarrow> ((ss, osq'), Inl e)
         | (osq', Inr _) \<Rightarrow>
             ((ss\<lparr>ssDir := put_file i (file_sync (the_file (ssDir ss) i)) (ssDir ss)\<rparr>, osq'), Inr ())))"

definition Segment_Close :: "SegSet \<Rightarrow> os \<Rightarrow> u32 \<Rightarrow> (SegSet \<times> os, unit) outcome" where
  "Segment_Close ss osq i = (case seg_of ss i of
     None \<Rightarrow> ((ss, osq), Inr ())
   | Some s \<Rightarrow>
       if \<not> segOpen s then ((ss, osq), Inr ())
       else (case sys osq of (osq', r) \<Rightarrow>
         ((ss\<lparr>ssSegments := AList.update i (s\<lparr>segOpen := False\<rparr>) (ssSegments ss)\<rparr>, osq'), r)))"

text \<open>\<open>truncate\<close>: the file is cut, then the descriptor is moved, then the size is set and synced.\<close>

definition Segment_truncate :: "SegSet \<Rightarrow> os \<Rightarrow> u32 \<Rightarrow> int \<Rightarrow> (SegSet \<times> os, unit) outcome" where
  "Segment_truncate ss osq i sz = (case seg_of ss i of
     None \<Rightarrow> ((ss, osq), Inl ErrInvalidFile)
   | Some s \<Rightarrow>
       if sz = segSize s then ((ss, osq), Inr ())
       else if sz > segSize s then ((ss, osq), Inl (ErrText ''segment: truncate grow not supported''))
       else if \<not> segOpen s \<or> sz < 0 then ((ss, osq), Inl ErrInvalidFile)
       else (case sys osq of
           (osq1, Inl e) \<Rightarrow> ((ss, osq1), Inl e)
         | (osq1, Inr _) \<Rightarrow>
             (let ss1 = ss\<lparr>ssDir := put_file i (file_truncate (nat sz) (the_file (ssDir ss) i)) (ssDir ss)\<rparr>
              in case sys osq1 of
                (osq2, Inl e) \<Rightarrow> ((ss1, osq2), Inl e)
              | (osq2, Inr _) \<Rightarrow>
                  (let ss2 = ss1\<lparr>ssSegments := AList.update i (s\<lparr>segPos := nat sz, segSize := sz\<rparr>)
                         (ssSegments ss1)\<rparr>
                   in Segment_Sync ss2 osq2 i))))"

definition Segment_Scan :: "('v \<Rightarrow> RecordHeader \<Rightarrow> int \<Rightarrow> 'v \<times> goerr option) \<Rightarrow> SegSet \<Rightarrow> os \<Rightarrow> u32 \<Rightarrow> 'v
    \<Rightarrow> (os \<times> 'v, int) outcome" where
  "Segment_Scan visit ss osq i v =
     (if Segment_Size ss i = 0 then ((osq, v), Inr 0)
      else (case Segment_ReadAt ss osq i (nat (Segment_Size ss i)) 0 of
          (osq', Inl e) \<Rightarrow> ((osq', v), Inl e)
        | (osq', Inr data) \<Rightarrow>
            (case scan_loop visit data 0 v of (v', r) \<Rightarrow> ((osq', v'), r))))"

section \<open>Operations on a set\<close>

text \<open>
  \<open>openSegment\<close> and \<open>fsyncDir\<close>. A close whose result the code ignores takes no entry of
  the script.
\<close>

definition openSegment :: "dir \<Rightarrow> os \<Rightarrow> u32 \<Rightarrow> (dir \<times> os, Segment) outcome" where
  "openSegment d osq i = (case sys osq of
     (osq1, Inl e) \<Rightarrow> ((d, osq1), Inl e)
   | (osq1, Inr _) \<Rightarrow>
       (let d1 = (case map_of d (segFileName i) of None \<Rightarrow> put_file i empty_file d | Some _ \<Rightarrow> d);
            n = length (fData (the_file d1 i))
        in case sys osq1 of
             (osq2, Inl e) \<Rightarrow> ((d1, osq2), Inl e)
           | (osq2, Inr _) \<Rightarrow>
               (case sys osq2 of
                  (osq3, Inl e) \<Rightarrow> ((d1, osq3), Inl e)
                | (osq3, Inr _) \<Rightarrow>
                    ((d1, osq3), Inr \<lparr>segID = i, segPos = n, segSize = int n, segOpen = True\<rparr>))))"

definition link_all :: "dir \<Rightarrow> dir" where
  "link_all d = map (\<lambda>(nm, f). (nm, f\<lparr>fLinked := True\<rparr>)) d"

definition fsyncDir :: "dir \<Rightarrow> os \<Rightarrow> (dir \<times> os, unit) outcome" where
  "fsyncDir d osq = (case sys osq of
     (osq1, Inl e) \<Rightarrow> ((d, osq1), Inl e)
   | (osq1, Inr _) \<Rightarrow>
       (case sys osq1 of
          (osq2, Inl e) \<Rightarrow> ((d, snd (sys_next osq2)), Inl e)
        | (osq2, Inr _) \<Rightarrow> (case sys osq2 of (osq3, r) \<Rightarrow> ((link_all d, osq3), r))))"

definition Set_rotate :: "SegSet \<Rightarrow> os \<Rightarrow> (SegSet \<times> os, u32) outcome" where
  "Set_rotate ss osq =
     (let i = ssNextID ss; ss0 = ss\<lparr>ssNextID := i + 1\<rparr>
      in case openSegment (ssDir ss0) osq i of
           ((d1, osq1), Inl e) \<Rightarrow> ((ss0\<lparr>ssDir := d1\<rparr>, osq1), Inl e)
         | ((d1, osq1), Inr seg) \<Rightarrow>
             (case fsyncDir d1 osq1 of
                ((d2, osq2), Inl e) \<Rightarrow> ((ss0\<lparr>ssDir := d2\<rparr>, osq2), Inl e)
              | ((d2, osq2), Inr _) \<Rightarrow>
                  ((ss0\<lparr>ssDir := d2, ssSegments := AList.update i seg (ssSegments ss0),
                        ssActive := Some i\<rparr>, osq2), Inr i)))"

definition Set_Active :: "SegSet \<Rightarrow> os \<Rightarrow> int \<Rightarrow> (SegSet \<times> os, u32) outcome" where
  "Set_Active ss osq recordSize = (case ssActive ss of
     Some a \<Rightarrow>
       if i64 (Segment_Size ss a + recordSize) \<le> ssMaxSize ss then ((ss, osq), Inr a)
       else andThen (Segment_Sync ss osq a) (\<lambda>(ss1, osq1) _. Set_rotate ss1 osq1)
   | None \<Rightarrow> Set_rotate ss osq)"

definition Set_ActiveID :: "SegSet \<Rightarrow> u32 option" where
  "Set_ActiveID ss = ssActive ss"

definition Set_Get :: "SegSet \<Rightarrow> u32 \<Rightarrow> Segment option" where
  "Set_Get ss i = seg_of ss i"

definition Set_All :: "SegSet \<Rightarrow> u32 list" where
  "Set_All ss = sort (remdups (map fst (ssSegments ss)))"

definition Set_Remove :: "SegSet \<Rightarrow> os \<Rightarrow> u32 \<Rightarrow> (SegSet \<times> os, unit) outcome" where
  "Set_Remove ss osq i = (case seg_of ss i of
     None \<Rightarrow> ((ss, osq), Inr ())
   | Some s \<Rightarrow>
       (let ss1 = ss\<lparr>ssSegments := AList.delete i (ssSegments ss),
                    ssActive := (if ssActive ss = Some i then None else ssActive ss)\<rparr>
        in case sys osq of
             (osq1, Inl e) \<Rightarrow> ((ss1, osq1), Inl e)
           | (osq1, Inr _) \<Rightarrow>
               (if map_of (ssDir ss1) (segFileName i) = None then ((ss1, osq1), Inl ENOENT)
                else case fsyncDir (AList.delete (segFileName i) (ssDir ss1)) osq1 of
                  ((d, osq2), r) \<Rightarrow> ((ss1\<lparr>ssDir := d\<rparr>, osq2), r))))"

definition Set_RepairTail :: "SegSet \<Rightarrow> os \<Rightarrow> (SegSet \<times> os, unit) outcome" where
  "Set_RepairTail ss osq = (case ssActive ss of
     None \<Rightarrow> ((ss, osq), Inr ())
   | Some a \<Rightarrow>
       (case Segment_Scan (\<lambda>v h off. (v, None)) ss osq a () of
          ((osq1, _), Inl e) \<Rightarrow> ((ss, osq1), Inl e)
        | ((osq1, _), Inr truncAt) \<Rightarrow>
            if truncAt < Segment_Size ss a then Segment_truncate ss osq1 a truncAt
            else ((ss, osq1), Inr ())))"

fun Set_SyncIds :: "SegSet \<Rightarrow> os \<Rightarrow> u32 list \<Rightarrow> (SegSet \<times> os, unit) outcome" where
  "Set_SyncIds ss osq [] = ((ss, osq), Inr ())"
| "Set_SyncIds ss osq (i # is) =
     andThen (Segment_Sync ss osq i) (\<lambda>(ss1, osq1) _. Set_SyncIds ss1 osq1 is)"

definition Set_SyncAll :: "SegSet \<Rightarrow> os \<Rightarrow> (SegSet \<times> os, unit) outcome" where
  "Set_SyncAll ss osq = Set_SyncIds ss osq (map fst (ssSegments ss))"

text \<open>
  \<open>ScanAll\<close> visits the records of every segment in the order of the ids and cuts the torn tail
  of each; the loop is over the ids that \<open>All\<close> returned.
\<close>

fun Set_ScanIds :: "(u32 \<Rightarrow> 'v \<Rightarrow> RecordHeader \<Rightarrow> int \<Rightarrow> 'v \<times> goerr option) \<Rightarrow> SegSet \<Rightarrow> os \<Rightarrow> 'v
    \<Rightarrow> u32 list \<Rightarrow> (SegSet \<times> os \<times> 'v, unit) outcome" where
  "Set_ScanIds visit ss osq v [] = ((ss, osq, v), Inr ())"
| "Set_ScanIds visit ss osq v (i # is) = (case Set_Get ss i of
     None \<Rightarrow> Set_ScanIds visit ss osq v is
   | Some _ \<Rightarrow>
       (case Segment_Scan (visit i) ss osq i v of
          ((osq1, v1), Inl e) \<Rightarrow> ((ss, osq1, v1), Inl e)
        | ((osq1, v1), Inr truncAt) \<Rightarrow>
            if truncAt < Segment_Size ss i
            then (case Segment_truncate ss osq1 i truncAt of
                    ((ss2, osq2), Inl e) \<Rightarrow> ((ss2, osq2, v1), Inl e)
                  | ((ss2, osq2), Inr _) \<Rightarrow> Set_ScanIds visit ss2 osq2 v1 is)
            else Set_ScanIds visit ss osq1 v1 is))"

definition Set_ScanAll :: "(u32 \<Rightarrow> 'v \<Rightarrow> RecordHeader \<Rightarrow> int \<Rightarrow> 'v \<times> goerr option) \<Rightarrow> SegSet \<Rightarrow> os \<Rightarrow> 'v
    \<Rightarrow> (SegSet \<times> os \<times> 'v, unit) outcome" where
  "Set_ScanAll visit ss osq v = Set_ScanIds visit ss osq v (Set_All ss)"

text \<open>\<open>CloseAll\<close> closes every segment and reports the first error; the set is empty afterwards.\<close>

fun Set_CloseIds :: "SegSet \<Rightarrow> os \<Rightarrow> u32 list \<Rightarrow> goerr option \<Rightarrow> (SegSet \<times> os) \<times> goerr option" where
  "Set_CloseIds ss osq [] firstErr = ((ss, osq), firstErr)"
| "Set_CloseIds ss osq (i # is) firstErr = (case Segment_Close ss osq i of
     ((ss1, osq1), r) \<Rightarrow> Set_CloseIds ss1 osq1 is
       (case (r, firstErr) of (Inl e, None) \<Rightarrow> Some e | _ \<Rightarrow> firstErr))"

definition Set_CloseAll :: "SegSet \<Rightarrow> os \<Rightarrow> (SegSet \<times> os, unit) outcome" where
  "Set_CloseAll ss osq = (case Set_CloseIds ss osq (map fst (ssSegments ss)) None of
     ((ss1, osq1), firstErr) \<Rightarrow> ((ss1\<lparr>ssSegments := [], ssActive := None\<rparr>, osq1),
        case firstErr of Some e \<Rightarrow> Inl e | None \<Rightarrow> Inr ()))"

fun OpenSet_ids :: "SegSet \<Rightarrow> os \<Rightarrow> u32 list \<Rightarrow> (SegSet \<times> os, unit) outcome" where
  "OpenSet_ids ss osq [] = ((ss, osq), Inr ())"
| "OpenSet_ids ss osq (i # is) = (case openSegment (ssDir ss) osq i of
     ((d, osq1), Inl e) \<Rightarrow> ((ss\<lparr>ssDir := d\<rparr>, osq1), Inl e)
   | ((d, osq1), Inr seg) \<Rightarrow>
       OpenSet_ids (ss\<lparr>ssDir := d, ssSegments := AList.update i seg (ssSegments ss),
         ssNextID := (if i + 1 > ssNextID ss then i + 1 else ssNextID ss)\<rparr>) osq1 is)"

definition OpenSet :: "dir \<Rightarrow> os \<Rightarrow> Tier \<Rightarrow> int \<Rightarrow> (SegSet \<times> os, unit) outcome" where
  "OpenSet d osq tier maxSize =
     (let ss0 = \<lparr>ssDir = d, ssTier = tier, ssMaxSize = maxSize, ssSegments = [],
                 ssActive = None, ssNextID = 0\<rparr>
      in andThen (case sys osq of (osq1, r) \<Rightarrow> ((ss0, osq1), r)) (\<lambda>(ss1, osq1) _.
         andThen (case sys osq1 of (osq2, r) \<Rightarrow> ((ss1, osq2), r)) (\<lambda>(ss2, osq2) _.
           let ids = sort (List.map_filter parseSegName (map fst (ssDir ss2)))
           in andThen (OpenSet_ids ss2 osq2 ids) (\<lambda>(ss3, osq3) _.
                ((ss3\<lparr>ssActive := (if ids = [] then None else Some (last ids))\<rparr>, osq3), Inr ())))))"

end
