(* ===== verification/Segment_Records.thy ===== *)
theory Segment_Records
  imports Segment
begin

text \<open>
  Correctness of the record format of \<open>src/segment/segment.go\<close>: a framed record is read
  back exactly, a torn record is never accepted, so a scan of a segment returns precisely
  the records that were written whole.
\<close>

lemmas record_sizes = headerSize_def trailerSize_def

definition wf_record :: "RecordHeader \<times> bytes \<Rightarrow> bool" where
  "wf_record r \<longleftrightarrow> unat (hLength (fst r)) = length (snd r) \<and> in_i64 (hLogicalOff (fst r))"

definition frames :: "(RecordHeader \<times> bytes) list \<Rightarrow> bytes" where
  "frames rs = concat (map (\<lambda>(h, p). frame h p) rs)"

text \<open>The segment bytes that a run of complete appends produces.\<close>

definition whole :: "bytes \<Rightarrow> bool" where
  "whole d \<longleftrightarrow> (\<exists>rs. list_all wf_record rs \<and> d = frames rs)"

text \<open>The headers a scan visits, with the payload offsets, when it starts at \<open>pos\<close>.\<close>

fun visits :: "nat \<Rightarrow> (RecordHeader \<times> bytes) list \<Rightarrow> (RecordHeader \<times> int) list" where
  "visits pos [] = []"
| "visits pos ((h, p) # rs) = (h, int (pos + headerSize)) # visits (pos + length (frame h p)) rs"

definition collect :: "(RecordHeader \<times> int) list \<Rightarrow> RecordHeader \<Rightarrow> int
    \<Rightarrow> (RecordHeader \<times> int) list \<times> goerr option" where
  "collect v h off = (v @ [(h, off)], None)"

lemma length_header_tail [simp]: "length (header_tail h) = 36"
  by (simp add: header_tail_def)

lemma length_frame [simp]: "length (frame h p) = 44 + length p"
  by (simp add: frame_def)

lemma frames_simps [simp]:
  "frames [] = []" "frames ((h, p) # rs) = frame h p @ frames rs" "frames (xs @ ys) = frames xs @ frames ys"
  by (simp_all add: frames_def)

lemma at_shift:
  "le64_at (length xs + k) (xs @ zs) = le64_at k zs"
  "le32_at (length xs + k) (xs @ zs) = le32_at k zs"
  "byte_at (length xs + k) (xs @ zs) = byte_at k zs"
  by (simp_all add: le64_at_def le32_at_def byte_at_def gslice_append2 nth_append)

lemma at_shift0: "le32_at (length xs) (xs @ zs) = le32_at 0 zs"
  using at_shift(2) [of xs 0] by simp

lemma header_fields:
  assumes "length zs \<ge> 4"
  shows "le32_at 0 (le32 recordMagic @ header_tail h @ zs) = Some recordMagic"
    "byte_at 4 (le32 recordMagic @ header_tail h @ zs) = Some recordVersion"
    "le64_at 8 (le32 recordMagic @ header_tail h @ zs) = Some (hInode h)"
    "le32_at 16 (le32 recordMagic @ header_tail h @ zs) = Some (hStripeID h)"
    "le64_at 20 (le32 recordMagic @ header_tail h @ zs) = Some (hSeq h)"
    "le64_at 28 (le32 recordMagic @ header_tail h @ zs) = Some (u64_of_int64 (hLogicalOff h))"
    "le32_at 36 (le32 recordMagic @ header_tail h @ zs) = Some (hLength h)"
  by (simp_all add: header_tail_def le32_at_def le64_at_def byte_at_def gslice_append2 nth_append
      gslice_Cons)

lemma scan_record_frame:
  assumes "wf_record (h, p)"
  shows "scan_record (xs @ frame h p @ ys) (length xs) = Some (h, length xs + length (frame h p))"
proof -
  let ?zs = "p @ le32 (crc32 (header_tail h @ p)) @ ys"
  have d: "frame h p @ ys = le32 recordMagic @ header_tail h @ ?zs" by (simp add: frame_def)
  have n: "length ?zs \<ge> 4" by simp
  have len: "unat (hLength h) = length p" and lo: "in_i64 (hLogicalOff h)"
    using assms by (simp_all add: wf_record_def)
  have crc: "le32_at (40 + length p) (frame h p @ ys) = Some (crc32 (header_tail h @ p))"
    by (simp add: frame_def le32_at_def gslice_append2)
  have body: "take (36 + length p) (drop 4 (frame h p @ ys)) = header_tail h @ p"
    by (simp add: frame_def)
  have h: "\<lparr>hInode = hInode h, hStripeID = hStripeID h, hSeq = hSeq h,
       hLogicalOff = int64_of_u64 (u64_of_int64 (hLogicalOff h)), hLength = hLength h\<rparr> = h"
    using lo by (simp add: int64_u64_id)
  show ?thesis
    using header_fields [OF n, of h] crc body len h
    by (simp add: scan_record_def record_sizes Let_def at_shift at_shift0 add.assoc flip: d)
qed

lemma scan_record_torn:
  assumes "wf_record (h, p)" "n < length (frame h p)"
  shows "scan_record (xs @ take n (frame h p)) (length xs) = None"
proof (cases "n < 44")
  case True
  then show ?thesis using assms by (simp add: scan_record_def record_sizes)
next
  case False
  define m where "m = n - 40"
  define zs where "zs = take m (p @ le32 (crc32 (header_tail h @ p)))"
  have t: "take n (frame h p) = le32 recordMagic @ header_tail h @ zs"
    using False by (simp add: frame_def zs_def m_def)
  have z: "length zs = m" "m \<ge> 4" using assms(2) False by (simp_all add: zs_def m_def)
  have "unat (hLength h) = length p" using assms(1) by (simp add: wf_record_def)
  moreover have "m < length p + 4" using assms(2) False by (simp add: m_def)
  ultimately show ?thesis
    using header_fields [of zs h] z
    by (simp add: t scan_record_def record_sizes Let_def at_shift at_shift0 add.assoc)
qed


section \<open>A scan finds exactly the whole records\<close>

lemma scan_loop_frames:
  assumes "list_all wf_record rs"
  shows "scan_loop (\<lambda>v h off. (g v h off, None)) (xs @ frames rs @ ts) (length xs) v
    = scan_loop (\<lambda>v h off. (g v h off, None)) (xs @ frames rs @ ts) (length xs + length (frames rs))
        (foldl (\<lambda>v (h, off). g v h off) v (visits (length xs) rs))"
  using assms
proof (induction rs arbitrary: xs v)
  case Nil
  then show ?case by simp
next
  case (Cons r rs)
  obtain h p where r: "r = (h, p)" by (cases r)
  have "scan_record (xs @ frame h p @ frames rs @ ts) (length xs) = Some (h, length xs + length (frame h p))"
    using Cons.prems r by (intro scan_record_frame) auto
  moreover have "length xs < length (xs @ frame h p @ frames rs @ ts)" by simp
  ultimately have "scan_loop (\<lambda>v h off. (g v h off, None)) (xs @ frame h p @ frames rs @ ts) (length xs) v
     = scan_loop (\<lambda>v h off. (g v h off, None)) ((xs @ frame h p) @ frames rs @ ts) (length (xs @ frame h p))
         (g v h (int (length xs + headerSize)))"
    by (subst scan_loop.simps) simp
  also have "\<dots> = scan_loop (\<lambda>v h off. (g v h off, None)) ((xs @ frame h p) @ frames rs @ ts)
      (length (xs @ frame h p) + length (frames rs))
      (foldl (\<lambda>v (h, off). g v h off) (g v h (int (length xs + headerSize)))
         (visits (length (xs @ frame h p)) rs))"
    using Cons.prems r by (intro Cons.IH) auto
  finally show ?case by (simp add: r add.assoc)
qed

lemma scan_loop_torn:
  assumes "wf_record (h, p)" "n < length (frame h p)"
  shows "scan_loop visit (xs @ take n (frame h p)) (length xs) v = (v, Inr (int (length xs)))"
  using scan_record_torn [OF assms, of xs] by (subst scan_loop.simps) simp

lemma foldl_collect: "foldl (\<lambda>v (h, off). v @ [(h, off)]) v ws = v @ ws"
  by (induction ws arbitrary: v) auto

lemma scan_loop_recovers:
  assumes "list_all wf_record rs" "wf_record (h, p)" "n < length (frame h p)"
  shows "scan_loop (\<lambda>v h off. (g v h off, None)) (frames rs @ take n (frame h p)) 0 v
    = (foldl (\<lambda>v (h, off). g v h off) v (visits 0 rs), Inr (int (length (frames rs))))"
  using scan_loop_frames [OF assms(1), of g "[]" "take n (frame h p)" v]
    scan_loop_torn [OF assms(2,3), of _ "frames rs"]
  by simp

lemma scan_loop_whole:
  assumes "list_all wf_record rs"
  shows "scan_loop (\<lambda>v h off. (g v h off, None)) (frames rs) 0 v
    = (foldl (\<lambda>v (h, off). g v h off) v (visits 0 rs), Inr (int (length (frames rs))))"
  using scan_loop_frames [OF assms, of g "[]" "[]" v] by (simp add: scan_loop.simps)

text \<open>A prefix of whole records that ends anywhere: some records, then a torn one.\<close>

definition cut_point :: "nat \<Rightarrow> (RecordHeader \<times> bytes) list \<Rightarrow> (RecordHeader \<times> bytes) list \<Rightarrow> bool" where
  "cut_point c rs ks \<longleftrightarrow> prefix ks rs \<and> length (frames ks) \<le> c \<and>
     (take c (frames rs) = frames ks \<or>
      (\<exists>h p n. wf_record (h, p) \<and> n < length (frame h p) \<and>
         take c (frames rs) = frames ks @ take n (frame h p))) \<and>
     (\<forall>js. prefix js rs \<longrightarrow> length (frames js) \<le> c \<longrightarrow> length (frames js) \<le> length (frames ks))"

lemma cut_point_Cons:
  assumes "cut_point (c - length (frame h p)) rs ks" "length (frame h p) \<le> c"
  shows "cut_point c ((h, p) # rs) ((h, p) # ks)"
proof -
  have "length (frames js) \<le> length (frames ((h, p) # ks))"
    if "prefix js ((h, p) # rs)" "length (frames js) \<le> c" for js
    using that assms by (cases js) (auto simp: cut_point_def le_diff_conv2)
  with assms show ?thesis by (auto simp: cut_point_def)
qed

lemma cut_point_exists:
  assumes "list_all wf_record rs"
  shows "\<exists>ks. cut_point c rs ks"
  using assms
proof (induction rs arbitrary: c)
  case Nil
  then show ?case by (simp add: cut_point_def)
next
  case (Cons r rs)
  obtain h p where r: "r = (h, p)" by (cases r)
  show ?case
  proof (cases "c < length (frame h p)")
    case True
    have "wf_record (h, p)" using Cons.prems r by simp
    with True have "cut_point c (r # rs) []"
      unfolding cut_point_def r by (auto simp: prefix_Cons)
    then show ?thesis by blast
  next
    case False
    obtain ks where "cut_point (c - length (frame h p)) rs ks" using Cons.IH Cons.prems by auto
    with False show ?thesis unfolding r by (meson cut_point_Cons leI)
  qed
qed

lemma scan_loop_cut:
  assumes "list_all wf_record rs" "cut_point c rs ks"
  shows "scan_loop (\<lambda>v h off. (g v h off, None)) (take c (frames rs)) 0 v
    = (foldl (\<lambda>v (h, off). g v h off) v (visits 0 ks), Inr (int (length (frames ks))))"
proof -
  have "list_all wf_record ks" using assms by (auto simp: cut_point_def prefix_def)
  then show ?thesis
    using assms(2) scan_loop_whole [of ks g v] scan_loop_recovers [of ks _ _ _ g v]
    by (auto simp: cut_point_def)
qed

end
