(* ===== verification/Segment_Sets.thy ===== *)
theory Segment_Sets
  imports Segment_Records
begin

text \<open>
  Correctness of the segment sets of \<open>src/segment/segment.go\<close>: the invariant that ties a
  segment's cached size and descriptor position to its file, the append-only growth that
  every operation of the write path respects, what \<open>fsync\<close> makes durable, and tail repair
  after a crash. The write path's contract towards the index is the locale \<open>append_log\<close>.
\<close>

section \<open>Invariant and views\<close>

text \<open>A file holds whole records, and the last \<open>fsync\<close> covered whole records.\<close>

definition file_ok :: "osfile \<Rightarrow> bool" where
  "file_ok f \<longleftrightarrow> length (fData f) \<le> max_file_size \<and> (\<exists>js rs. list_all wf_record (js @ rs) \<and>
     fData f = frames (js @ rs) \<and> fSynced f = length (frames js))"

definition dir_ok :: "dir \<Rightarrow> bool" where
  "dir_ok d \<longleftrightarrow> (\<forall>i f. map_of d (segFileName i) = Some f \<longrightarrow> file_ok f)"

definition seg_ok :: "dir \<Rightarrow> u32 \<Rightarrow> Segment \<Rightarrow> bool" where
  "seg_ok d i s \<longleftrightarrow> segID s = i \<and> segOpen s \<and> (\<exists>f. map_of d (segFileName i) = Some f \<and>
     fLinked f \<and> segPos s = length (fData f) \<and> segSize s = int (length (fData f)))"

definition set_ok :: "SegSet \<Rightarrow> bool" where
  "set_ok ss \<longleftrightarrow> dir_ok (ssDir ss) \<and>
     (\<forall>i s. seg_of ss i = Some s \<longrightarrow> seg_ok (ssDir ss) i s) \<and>
     (\<forall>a. ssActive ss = Some a \<longrightarrow> (\<exists>s. seg_of ss a = Some s))"

text \<open>The bytes a reader can reach through the set, and how many of them are durable.\<close>

definition set_data :: "SegSet \<Rightarrow> u32 \<Rightarrow> bytes option" where
  "set_data ss i = (case seg_of ss i of
     Some s \<Rightarrow> (if segOpen s then Some (fData (the_file (ssDir ss) i)) else None) | None \<Rightarrow> None)"

definition set_durable :: "SegSet \<Rightarrow> u32 \<Rightarrow> nat" where
  "set_durable ss i = (case map_of (ssDir ss) (segFileName i) of
     Some f \<Rightarrow> (if fLinked f then fSynced f else 0) | None \<Rightarrow> 0)"

text \<open>
  \<open>t\<close> holds everything \<open>s\<close> holds: segments only grow at the end and durable bytes stay
  durable. Stated over the two views, so that the contract below can use it.
\<close>

definition log_extends :: "('s \<Rightarrow> u32 \<Rightarrow> bytes option) \<Rightarrow> ('s \<Rightarrow> u32 \<Rightarrow> nat) \<Rightarrow> 's \<Rightarrow> 's \<Rightarrow> bool" where
  "log_extends data durable s t \<longleftrightarrow>
     (\<forall>i d. data s i = Some d \<longrightarrow> (\<exists>d'. data t i = Some d' \<and> prefix d d')) \<and>
     (\<forall>i. durable s i \<le> durable t i)"

abbreviation "set_extends \<equiv> log_extends set_data set_durable"

text \<open>The bytes \<open>p\<close> can be read at offset \<open>off\<close> of segment \<open>i\<close>; they survive a crash.\<close>

definition log_stored :: "('s \<Rightarrow> u32 \<Rightarrow> bytes option) \<Rightarrow> 's \<Rightarrow> u32 \<Rightarrow> int \<Rightarrow> bytes \<Rightarrow> bool" where
  "log_stored data s i off p \<longleftrightarrow> 0 \<le> off \<and>
     (\<exists>d. data s i = Some d \<and> gslice (nat off) (length p) d = Some p)"

definition log_durable :: "('s \<Rightarrow> u32 \<Rightarrow> nat) \<Rightarrow> 's \<Rightarrow> u32 \<Rightarrow> int \<Rightarrow> int \<Rightarrow> bool" where
  "log_durable durable s i off n \<longleftrightarrow> 0 \<le> off \<and> off + n \<le> int (durable s i)"

text \<open>Scripts in which no write stops half way.\<close>

definition no_partial :: "os \<Rightarrow> bool" where
  "no_partial osq \<longleftrightarrow> (\<forall>n e. Partial n e \<notin> set osq)"

section \<open>Names\<close>

lemma parse_segFileName [simp]: "parseSegName (segFileName i) = Some i"
proof -
  have "unat i < 2 ^ 32" using unsigned_less [of i, where 'a = nat] by simp
  then show ?thesis
    by (simp add: parseSegName_def segFileName_def suffix_def parse_uint_pad)
qed

lemma segFileName_inject [simp]: "segFileName i = segFileName j \<longleftrightarrow> i = j"
  by (metis option.inject parse_segFileName)

section \<open>Elementary facts\<close>

lemma sys_next_no_partial:
  "no_partial osq \<Longrightarrow> sys_next osq = (r, osq') \<Longrightarrow> no_partial osq' \<and> (\<forall>n e. r \<noteq> Partial n e)"
  by (cases osq) (auto simp: no_partial_def)

lemma sys_no_partial: "no_partial osq \<Longrightarrow> sys osq = (osq', r) \<Longrightarrow> no_partial osq'"
  by (cases osq) (auto simp: no_partial_def sys_def split: sysresult.splits)

lemma the_file_put [simp]: "the_file (put_file i f d) j = (if i = j then f else the_file d j)"
  by (auto simp: the_file_def put_file_def update_conv')

lemma map_of_put_file [simp]:
  "map_of (put_file i f d) (segFileName j) = (if i = j then Some f else map_of d (segFileName j))"
  by (auto simp: put_file_def update_conv')

lemma the_file_Some: "map_of d (segFileName i) = Some f \<Longrightarrow> the_file d i = f"
  by (simp add: the_file_def)

lemma seg_of_simps [simp]:
  "seg_of (ss\<lparr>ssDir := d\<rparr>) i = seg_of ss i"
  "seg_of (ss\<lparr>ssNextID := n\<rparr>) i = seg_of ss i"
  "seg_of (ss\<lparr>ssActive := a\<rparr>) i = seg_of ss i"
  "seg_of (ss\<lparr>ssSegments := AList.update j s (ssSegments ss)\<rparr>) i = (if i = j then Some s else seg_of ss i)"
  "seg_of (put_seg j s f ss) i = (if i = j then Some s else seg_of ss i)"
  by (simp_all add: seg_of_def put_seg_def update_conv')

lemma put_seg_simps [simp]:
  "ssDir (put_seg j s f ss) = put_file j f (ssDir ss)" "ssActive (put_seg j s f ss) = ssActive ss"
  "ssTier (put_seg j s f ss) = ssTier ss" "ssMaxSize (put_seg j s f ss) = ssMaxSize ss"
  "ssNextID (put_seg j s f ss) = ssNextID ss"
  by (simp_all add: put_seg_def)

lemma file_write_end [simp]: "file_write (length (fData f)) d f = f\<lparr>fData := fData f @ d\<rparr>"
  by (simp add: file_write_def)

lemma whole_Nil [simp]: "whole []"
  by (auto simp: whole_def intro: exI [of _ "[]"])

lemma file_okI:
  "length (fData f) \<le> max_file_size \<Longrightarrow> list_all wf_record (js @ rs) \<Longrightarrow> fData f = frames (js @ rs) \<Longrightarrow>
    fSynced f = length (frames js) \<Longrightarrow> file_ok f"
  unfolding file_ok_def by blast

lemma file_okE:
  assumes "file_ok f"
  obtains js rs where "length (fData f) \<le> max_file_size" "list_all wf_record (js @ rs)" "fData f = frames (js @ rs)"
    "fSynced f = length (frames js)"
  using assms unfolding file_ok_def by blast

lemma file_okD: "file_ok f \<Longrightarrow> whole (fData f) \<and> fSynced f \<le> length (fData f) \<and> length (fData f) \<le> max_file_size"
  unfolding whole_def by (erule file_okE) (metis frames_simps(3) le_add1 length_append)

lemma file_ok_append:
  assumes "file_ok f" "wf_record (h, p)" "length (fData f) + length (frame h p) \<le> max_file_size"
  shows "file_ok (f\<lparr>fData := fData f @ frame h p\<rparr>)"
  using assms(1)
proof (rule file_okE)
  fix js rs
  assume "list_all wf_record (js @ rs)" "fData f = frames (js @ rs)" "fSynced f = length (frames js)"
  then show ?thesis using assms(2,3) by (intro file_okI [of _ js "rs @ [(h, p)]"]) simp_all
qed

lemma file_ok_sync: "file_ok f \<Longrightarrow> file_ok (file_sync f)"
  by (erule file_okE, rule_tac js = "js @ rs" and rs = "[]" in file_okI) (simp_all add: file_sync_def)

lemma file_ok_empty: "fData f = [] \<Longrightarrow> fSynced f = 0 \<Longrightarrow> file_ok f"
  by (rule file_okI [of _ "[]" "[]"]) simp_all

lemma file_ok_cong: "fData g = fData f \<Longrightarrow> fSynced g = fSynced f \<Longrightarrow> file_ok g = file_ok f"
  by (simp add: file_ok_def)

lemma log_extends_refl [simp]: "log_extends data durable s s"
  by (simp add: log_extends_def)

lemma log_extends_trans [trans]:
  "log_extends data durable s t \<Longrightarrow> log_extends data durable t u \<Longrightarrow> log_extends data durable s u"
  unfolding log_extends_def by (meson order_trans prefix_order.trans)

lemmas set_extends_trans = log_extends_trans [of set_data set_durable]

lemma prefix_gslice: "prefix d d' \<Longrightarrow> gslice off n d = Some bs \<Longrightarrow> gslice off n d' = Some bs"
  by (auto simp: prefix_def gslice_append3 gslice_def split: if_splits)

lemma log_stored_extends:
  "log_extends data durable s t \<Longrightarrow> log_stored data s i off p \<Longrightarrow> log_stored data t i off p"
  unfolding log_extends_def log_stored_def by (metis prefix_gslice)

lemma log_durable_extends:
  "log_extends data durable s t \<Longrightarrow> log_durable durable s i off n \<Longrightarrow> log_durable durable t i off n"
  unfolding log_extends_def log_durable_def by (metis order_trans of_nat_mono)

lemma set_okD:
  assumes "set_ok ss" "seg_of ss i = Some s"
  obtains f where "map_of (ssDir ss) (segFileName i) = Some f" "fLinked f" "segOpen s" "segID s = i"
    "segPos s = length (fData f)" "segSize s = int (length (fData f))" "file_ok f"
    "fSynced f \<le> length (fData f)" "length (fData f) \<le> max_file_size" "the_file (ssDir ss) i = f"
proof -
  have "seg_ok (ssDir ss) i s" "dir_ok (ssDir ss)" using assms by (auto simp: set_ok_def)
  then show ?thesis using that by (auto simp: seg_ok_def dir_ok_def the_file_Some dest: file_okD)
qed

lemma set_ok_put_seg:
  assumes "set_ok ss" "file_ok f" "fLinked f" "segID s = i" "segOpen s"
    "segPos s = length (fData f)" "segSize s = int (length (fData f))"
  shows "set_ok (put_seg i s f ss)"
proof -
  have "dir_ok (put_file i f (ssDir ss))"
    using assms by (auto simp: set_ok_def dir_ok_def)
  moreover have "seg_ok (put_file i f (ssDir ss)) j t" if "seg_of (put_seg i s f ss) j = Some t" for j t
    using that assms by (cases "i = j") (auto simp: set_ok_def seg_ok_def)
  ultimately show ?thesis using assms(1) by (auto simp: set_ok_def)
qed

lemma set_ok_put_file:
  assumes ok: "set_ok ss" and s: "seg_of ss i = Some s"
  shows "set_ok (ss\<lparr>ssDir := put_file i (file_sync (the_file (ssDir ss) i)) (ssDir ss)\<rparr>)"
proof -
  obtain g where g: "map_of (ssDir ss) (segFileName i) = Some g" "file_ok g" "the_file (ssDir ss) i = g"
    using ok s by (rule set_okD)
  have "dir_ok (put_file i (file_sync g) (ssDir ss))"
    using ok file_ok_sync [OF g(2)] by (simp add: set_ok_def dir_ok_def)
  moreover have "seg_ok (put_file i (file_sync g) (ssDir ss)) j t" if t: "seg_of ss j = Some t" for j t
  proof -
    have "seg_ok (ssDir ss) j t" using ok t by (simp add: set_ok_def)
    then show ?thesis using g(1) by (cases "i = j") (auto simp: seg_ok_def file_sync_def)
  qed
  ultimately show ?thesis using ok g(3) by (simp add: set_ok_def)
qed

lemma set_data_ok: "set_ok ss \<Longrightarrow> seg_of ss i = Some s \<Longrightarrow> set_data ss i = Some (fData (the_file (ssDir ss) i))"
  by (erule (1) set_okD) (simp add: set_data_def)

section \<open>Append\<close>

lemma Segment_Append_ok:
  assumes "set_ok ss" "no_partial osq" "in_i64 (hLogicalOff h)"
    and "Segment_Append ss osq i h p = ((ss', osq'), r)"
  shows "set_ok ss' \<and> no_partial osq' \<and> set_extends ss ss' \<and> ssActive ss' = ssActive ss"
proof -
  consider "ss' = ss" "no_partial osq'"
    | s f where "seg_of ss i = Some s" "map_of (ssDir ss) (segFileName i) = Some f" "fLinked f"
      "unat (hLength h) = length p" "length (fData f) + length (frame h p) \<le> max_file_size"
      "no_partial osq'" "segOpen s" "file_ok f" "segID s = i"
      "ss' = put_seg i (s\<lparr>segPos := length (fData f) + length (frame h p),
          segSize := i64 (int (length (fData f)) + int (length (frame h p)))\<rparr>)
          (f\<lparr>fData := fData f @ frame h p\<rparr>) ss"
    using assms sys_next_no_partial [OF assms(2)]
    by (fastforce simp: Segment_Append_def Let_def split: if_splits option.splits prod.splits sysresult.splits
        elim: set_okD)
  then show ?thesis
  proof cases
    case 1
    with assms show ?thesis by simp
  next
    case 2
    have wh: "file_ok (f\<lparr>fData := fData f @ frame h p\<rparr>)"
      using 2 assms(3) by (intro file_ok_append) (auto simp: wf_record_def)
    have sz: "i64 (int (length (fData f)) + int (length (frame h p))) = int (length (fData f) + length (frame h p))"
      using 2(5) by (subst i64_small) (auto simp: max_file_size_def)
    have "set_ok ss'"
      unfolding 2(10) using assms(1) wh sz 2 by (intro set_ok_put_seg) auto
    moreover have "set_extends ss ss'"
      using 2 the_file_Some [OF 2(2)]
      by (auto simp: log_extends_def set_data_def set_durable_def split: if_splits option.splits)
    ultimately show ?thesis using 2 by simp
  qed
qed


text \<open>A successful append returns the offset at which exactly the payload can be read back.\<close>

lemma Segment_Append_reads:
  assumes "set_ok ss" "Segment_Append ss osq i h p = ((ss', osq'), Inr off)"
  shows "0 \<le> off \<and> unat (hLength h) = length p \<and>
    (\<exists>d. set_data ss i = Some d \<and> set_data ss' i = Some (d @ frame h p) \<and> off = int (length d + headerSize)
       \<and> length d + length (frame h p) \<le> max_file_size)"
proof -
  obtain s where s: "seg_of ss i = Some s" "unat (hLength h) = length p"
    "segPos s + length (frame h p) \<le> max_file_size" "off = i64 (segSize s + int headerSize)"
    and ss': "ss' = put_seg i (s\<lparr>segPos := segPos s + length (frame h p),
          segSize := i64 (segSize s + int (length (frame h p)))\<rparr>)
          (file_write (segPos s) (frame h p) (the_file (ssDir ss) i)) ss"
    using assms(2)
    by (auto simp: Segment_Append_def Let_def not_less split: if_splits option.splits prod.splits sysresult.splits)
  obtain f where f: "map_of (ssDir ss) (segFileName i) = Some f" "segPos s = length (fData f)"
    "segSize s = int (length (fData f))" "segOpen s" "the_file (ssDir ss) i = f"
    using assms(1) s(1) by (rule set_okD)
  have "off = int (length (fData f) + headerSize)"
    using s f by (simp add: record_sizes i64_small max_file_size_def)
  moreover have "set_data ss i = Some (fData f)" "set_data ss' i = Some (fData f @ frame h p)"
    using s f by (simp_all add: set_data_def ss')
  ultimately show ?thesis using s f by simp
qed

lemma payload_in_frame: "gslice (length d + headerSize) (length p) (d @ frame h p @ e) = Some p"
  by (simp add: frame_def record_sizes gslice_append2)

section \<open>Sync and rotation\<close>

lemma Segment_Sync_ok:
  assumes "set_ok ss" "no_partial osq" "Segment_Sync ss osq i = ((ss', osq'), r)"
  shows "set_ok ss' \<and> no_partial osq' \<and> set_extends ss ss' \<and> ssActive ss' = ssActive ss \<and>
    (\<forall>j. set_data ss' j = set_data ss j) \<and>
    (\<forall>d. r = Inr () \<longrightarrow> set_data ss i = Some d \<longrightarrow> set_durable ss' i = length d)"
proof -
  consider "ss' = ss" "no_partial osq'" "r = Inr () \<longrightarrow> set_data ss i = None"
    | s where "seg_of ss i = Some s" "no_partial osq'"
      "ss' = ss\<lparr>ssDir := put_file i (file_sync (the_file (ssDir ss) i)) (ssDir ss)\<rparr>"
    using assms(3) sys_no_partial [OF assms(2)] assms(2)
    by (auto simp: Segment_Sync_def set_data_def split: option.splits if_splits prod.splits sum.splits)
  then show ?thesis
  proof cases
    case 1
    with assms show ?thesis by auto
  next
    case 2
    obtain f where f: "map_of (ssDir ss) (segFileName i) = Some f" "fLinked f"
      "fSynced f \<le> length (fData f)" "segOpen s" "the_file (ssDir ss) i = f"
      using assms(1) 2(1) by (rule set_okD)
    have "set_ok ss'" unfolding 2(3) using assms(1) 2(1) by (rule set_ok_put_file)
    then show ?thesis using f 2
      by (auto simp: log_extends_def set_data_def set_durable_def file_sync_def split: option.splits)
  qed
qed


text \<open>Opening files and syncing the directory change no bytes of existing files.\<close>

fun file_grows :: "osfile option \<Rightarrow> osfile option \<Rightarrow> bool" where
  "file_grows (Some f) (Some f') = (fData f' = fData f \<and> fSynced f' = fSynced f \<and> (fLinked f \<longrightarrow> fLinked f'))"
| "file_grows (Some f) None = False"
| "file_grows None (Some f') = (fData f' = [] \<and> fSynced f' = 0)"
| "file_grows None None = True"

definition dir_grows :: "dir \<Rightarrow> dir \<Rightarrow> bool" where
  "dir_grows d d' \<longleftrightarrow> (\<forall>i. file_grows (map_of d (segFileName i)) (map_of d' (segFileName i)))"

lemma dir_growsD: "dir_grows d d' \<Longrightarrow> file_grows (map_of d (segFileName i)) (map_of d' (segFileName i))"
  by (simp add: dir_grows_def)

lemma file_grows_refl [simp]: "file_grows a a"
  by (cases a) auto

lemma file_grows_link: "file_grows a b \<Longrightarrow> file_grows a (map_option (\<lambda>f. f\<lparr>fLinked := True\<rparr>) b)"
  by (cases a; cases b) auto

lemma dir_grows_refl [simp]: "dir_grows d d"
  by (simp add: dir_grows_def)

lemma map_of_link_all: "map_of (link_all d) n = map_option (\<lambda>f. f\<lparr>fLinked := True\<rparr>) (map_of d n)"
  by (induction d) (auto simp: link_all_def)

lemma dir_grows_link: "dir_grows d d' \<Longrightarrow> dir_grows d (link_all d')"
  by (simp add: dir_grows_def map_of_link_all file_grows_link)

lemma dir_grows_empty: "map_of d (segFileName i) = None \<Longrightarrow> dir_grows d (put_file i empty_file d)"
  by (auto simp: dir_grows_def empty_file_def)

lemma openSegment_cases:
  assumes "no_partial osq" "openSegment d osq i = ((d', osq'), r)"
  shows "dir_grows d d' \<and> no_partial osq' \<and>
    (\<forall>seg. r = Inr seg \<longrightarrow> (\<exists>f. map_of d' (segFileName i) = Some f \<and>
       seg = \<lparr>segID = i, segPos = length (fData f), segSize = int (length (fData f)), segOpen = True\<rparr>))"
proof -
  obtain q1 r1 q2 r2 q3 r3 where q: "sys osq = (q1, r1)" "sys q1 = (q2, r2)" "sys q2 = (q3, r3)"
    by fastforce
  have np1: "no_partial q1" by (rule sys_no_partial [OF assms(1) q(1)])
  have np2: "no_partial q2" by (rule sys_no_partial [OF np1 q(2)])
  have np3: "no_partial q3" by (rule sys_no_partial [OF np2 q(3)])
  define d1 where "d1 = (case map_of d (segFileName i) of None \<Rightarrow> put_file i empty_file d | Some _ \<Rightarrow> d)"
  obtain f where f: "map_of d1 (segFileName i) = Some f" and g: "dir_grows d d1"
    unfolding d1_def by (cases "map_of d (segFileName i)") (auto simp: dir_grows_empty)
  have n: "the_file d1 i = f" using f by (rule the_file_Some)
  consider e where "r = Inl e" "d' = d" "osq' = q1" | e where "r = Inl e" "d' = d1" "osq' = q2"
    | e where "r = Inl e" "d' = d1" "osq' = q3"
    | "r = Inr \<lparr>segID = i, segPos = length (fData f), segSize = int (length (fData f)), segOpen = True\<rparr>"
      "d' = d1" "osq' = q3"
    using assms(2) q n unfolding openSegment_def d1_def [symmetric]
    by (cases r1; cases r2; cases r3) (auto simp: Let_def)
  then show ?thesis using np1 np2 np3 g f by cases auto
qed

lemma fsyncDir_cases:
  assumes "no_partial osq" "fsyncDir d osq = ((d', osq'), r)"
  shows "(d' = d \<or> d' = link_all d) \<and> no_partial osq' \<and> (r = Inr () \<longrightarrow> d' = link_all d)"
proof -
  obtain q1 r1 q2 r2 q3 r3 q4 r4
    where q: "sys osq = (q1, r1)" "sys q1 = (q2, r2)" "sys q2 = (q3, r3)" "sys_next q2 = (r4, q4)"
    by fastforce
  have np1: "no_partial q1" by (rule sys_no_partial [OF assms(1) q(1)])
  have np2: "no_partial q2" by (rule sys_no_partial [OF np1 q(2)])
  have np: "no_partial q3" "no_partial q4"
    using sys_no_partial [OF np2 q(3)] sys_next_no_partial [OF np2 q(4)] by simp_all
  show ?thesis
    using assms(2) q np1 np
    by (cases r1; cases r2; cases r3) (auto simp: fsyncDir_def)
qed

lemma dir_ok_grows: "dir_ok d \<Longrightarrow> dir_grows d d' \<Longrightarrow> dir_ok d'"
  unfolding dir_ok_def
proof (intro allI impI)
  fix i f
  assume *: "\<forall>i f. map_of d (segFileName i) = Some f \<longrightarrow> file_ok f" "dir_grows d d'" "map_of d' (segFileName i) = Some f"
  show "file_ok f"
    using dir_growsD [OF *(2), of i] *(1) [rule_format, of i] *(3) file_ok_cong [of f] file_ok_empty [of f]
    by (cases "map_of d (segFileName i)") auto
qed

lemma seg_ok_grows: "seg_ok d i s \<Longrightarrow> dir_grows d d' \<Longrightarrow> seg_ok d' i s"
  using dir_growsD [of d d' i] by (cases "map_of d' (segFileName i)") (auto simp: seg_ok_def)

lemma set_extends_dir:
  assumes "set_ok ss" "dir_grows (ssDir ss) d" "\<And>j s. seg_of ss j = Some s \<Longrightarrow> \<exists>s'. seg_of t j = Some s' \<and> segOpen s'"
    "ssDir t = d"
  shows "set_extends ss t"
proof -
  have "\<exists>d'. set_data t i = Some d' \<and> prefix dt d'" if dt: "set_data ss i = Some dt" for i dt
  proof -
    obtain s where s: "seg_of ss i = Some s" using dt by (auto simp: set_data_def split: option.splits)
    obtain f where f: "map_of (ssDir ss) (segFileName i) = Some f" "segOpen s" "the_file (ssDir ss) i = f"
      using assms(1) s by (rule set_okD)
    obtain s' where "seg_of t i = Some s'" "segOpen s'" using assms(3) s by blast
    then show ?thesis
      using dir_growsD [OF assms(2), of i] f dt s assms(4)
      by (cases "map_of d (segFileName i)") (auto simp: set_data_def the_file_Some)
  qed
  moreover have "set_durable ss i \<le> set_durable t i" for i
    using dir_growsD [OF assms(2), of i] assms(4)
    by (cases "map_of (ssDir ss) (segFileName i)"; cases "map_of d (segFileName i)")
      (auto simp: set_durable_def)
  ultimately show ?thesis by (simp add: log_extends_def)
qed

lemma Set_rotate_ok:
  assumes "set_ok ss" "no_partial osq" "Set_rotate ss osq = ((ss', osq'), r)"
  shows "set_ok ss' \<and> no_partial osq' \<and> set_extends ss ss' \<and>
    (\<forall>i. r = Inr i \<longrightarrow> ssActive ss' = Some i \<and> (\<exists>d. set_data ss' i = Some d))"
proof -
  let ?i = "ssNextID ss"
  obtain d1 q1 r1 where o1: "openSegment (ssDir ss) osq ?i = ((d1, q1), r1)" by (metis prod.exhaust)
  note op = openSegment_cases [OF assms(2) o1]
  have segs: "\<And>j s. seg_of ss j = Some s \<Longrightarrow> \<exists>s'. seg_of ss j = Some s' \<and> segOpen s'"
    using assms(1) by (blast elim: set_okD)
  show ?thesis
  proof (cases r1)
    case (Inl e)
    then have ss': "ss' = ss\<lparr>ssNextID := ?i + 1, ssDir := d1\<rparr>" "r = Inl e" "osq' = q1"
      using assms(3) o1 by (auto simp: Set_rotate_def Let_def)
    have "set_ok ss'" using assms(1) op
      by (auto simp: set_ok_def ss'(1) intro: dir_ok_grows seg_ok_grows)
    moreover have "set_extends ss ss'"
      using assms(1) op segs ss' by (intro set_extends_dir) auto
    ultimately show ?thesis using op ss' by simp
  next
    case (Inr seg)
    obtain d2 q2 r2 where o2: "fsyncDir d1 q1 = ((d2, q2), r2)" by (metis prod.exhaust)
    have fs: "(d2 = d1 \<or> d2 = link_all d1) \<and> no_partial q2 \<and> (r2 = Inr () \<longrightarrow> d2 = link_all d1)"
      using fsyncDir_cases [OF _ o2] op by blast
    have gr: "dir_grows (ssDir ss) d2" using op fs by (auto intro: dir_grows_link)
    obtain f where f: "map_of d1 (segFileName ?i) = Some f"
      "seg = \<lparr>segID = ?i, segPos = length (fData f), segSize = int (length (fData f)), segOpen = True\<rparr>"
      using op Inr by auto
    show ?thesis
    proof (cases r2)
      case (Inl e)
      then have ss': "ss' = ss\<lparr>ssNextID := ?i + 1, ssDir := d2\<rparr>" "r = Inl e" "osq' = q2"
        using assms(3) o1 o2 Inr by (auto simp: Set_rotate_def Let_def)
      have "set_ok ss'" using assms(1) gr
        by (auto simp: set_ok_def ss'(1) intro: dir_ok_grows seg_ok_grows)
      moreover have "set_extends ss ss'"
        using assms(1) gr segs ss' by (intro set_extends_dir) auto
      ultimately show ?thesis using fs ss' by simp
    next
      case (Inr u)
      then have ss': "ss' = ss\<lparr>ssNextID := ?i + 1, ssDir := d2,
            ssSegments := AList.update ?i seg (ssSegments ss), ssActive := Some ?i\<rparr>"
          "r = Inr ?i" "osq' = q2"
        using assms(3) o1 o2 \<open>r1 = Inr seg\<close> by (auto simp: Set_rotate_def Let_def)
      have "seg_ok d2 ?i seg"
        using f fs Inr by (simp add: seg_ok_def map_of_link_all)
      moreover have sg: "seg_of ss' j = (if j = ?i then Some seg else seg_of ss j)" for j
        by (simp add: ss' seg_of_def update_conv')
      ultimately have "set_ok ss'" using assms(1) gr
        by (auto simp: set_ok_def ss'(1) intro: dir_ok_grows seg_ok_grows split: if_splits)
      moreover have "set_extends ss ss'"
        using assms(1) gr segs sg f by (intro set_extends_dir) (auto simp: ss'(1))
      moreover have "set_data ss' ?i \<noteq> None" using sg f by (simp add: set_data_def)
      ultimately show ?thesis using fs ss'(2,3) by (auto simp: ss'(1))
    qed
  qed
qed

lemma Set_Active_ok:
  assumes "set_ok ss" "no_partial osq" "Set_Active ss osq n = ((ss', osq'), r)"
  shows "set_ok ss' \<and> no_partial osq' \<and> set_extends ss ss' \<and>
    (\<forall>i. r = Inr i \<longrightarrow> ssActive ss' = Some i \<and> (\<exists>d. set_data ss' i = Some d))"
proof (cases "ssActive ss")
  case None
  then show ?thesis using Set_rotate_ok [OF assms(1,2)] assms(3) by (simp add: Set_Active_def)
next
  case (Some a)
  show ?thesis
  proof (cases "i64 (Segment_Size ss a + n) \<le> ssMaxSize ss")
    case True
    obtain s where s: "seg_of ss a = Some s" using assms(1) Some by (auto simp: set_ok_def)
    then have "set_data ss a \<noteq> None" using set_data_ok [OF assms(1) s] by simp
    then show ?thesis using True Some assms by (auto simp: Set_Active_def)
  next
    case False
    then have at: "andThen (Segment_Sync ss osq a) (\<lambda>(ss1, osq1) _. Set_rotate ss1 osq1) = ((ss', osq'), r)"
      using assms(3) Some by (simp add: Set_Active_def)
    obtain ss1 q1 r1 where sy: "Segment_Sync ss osq a = ((ss1, q1), r1)" by (metis prod.exhaust)
    note s1 = Segment_Sync_ok [OF assms(1,2) sy]
    show ?thesis
    proof (cases r1)
      case (Inl e)
      then show ?thesis using at sy s1 by auto
    next
      case (Inr u)
      then have "Set_rotate ss1 q1 = ((ss', osq'), r)" using at sy by simp
      with Set_rotate_ok [of ss1 q1 ss' osq' r] s1 show ?thesis
        by (blast intro: set_extends_trans)
    qed
  qed
qed


section \<open>The contract of the write path\<close>

text \<open>
  What the index relies on when it appends: a state predicate kept by every call, growth
  only at the end, the payload readable at the offset an append returns, and everything of
  a segment durable once it has been synced.
\<close>

locale append_log =
  fixes ok :: "'s \<Rightarrow> bool" and quiet :: "'o \<Rightarrow> bool"
    and data :: "'s \<Rightarrow> u32 \<Rightarrow> bytes option" and durable :: "'s \<Rightarrow> u32 \<Rightarrow> nat"
    and active :: "'s \<Rightarrow> 'o \<Rightarrow> int \<Rightarrow> ('s \<times> 'o, u32) outcome"
    and append :: "'s \<Rightarrow> 'o \<Rightarrow> u32 \<Rightarrow> RecordHeader \<Rightarrow> bytes \<Rightarrow> ('s \<times> 'o, int) outcome"
    and sync :: "'s \<Rightarrow> 'o \<Rightarrow> u32 \<Rightarrow> ('s \<times> 'o, unit) outcome"
  assumes active_keeps: "ok s \<Longrightarrow> quiet q \<Longrightarrow> active s q n = ((s', q'), ra) \<Longrightarrow>
      ok s' \<and> quiet q' \<and> log_extends data durable s s'"
    and append_keeps: "ok s \<Longrightarrow> quiet q \<Longrightarrow> in_i64 (hLogicalOff h) \<Longrightarrow>
      append s q i h p = ((s', q'), rp) \<Longrightarrow> ok s' \<and> quiet q' \<and> log_extends data durable s s'"
    and append_stores: "ok s \<Longrightarrow> append s q i h p = ((s', q'), Inr off) \<Longrightarrow> log_stored data s' i off p"
    and append_bounds: "ok s \<Longrightarrow> append s q i h p = ((s', q'), Inr off) \<Longrightarrow> off + int (length p) < 2 ^ 63"
    and sync_keeps: "ok s \<Longrightarrow> quiet q \<Longrightarrow> sync s q i = ((s', q'), ry) \<Longrightarrow>
      ok s' \<and> quiet q' \<and> log_extends data durable s s'"
    and sync_durable: "ok s \<Longrightarrow> quiet q \<Longrightarrow> sync s q i = ((s', q'), Inr ()) \<Longrightarrow>
      data s i = Some d \<Longrightarrow> durable s' i = length d"
begin

lemma stored_in_bounds:
  "log_stored data s i off p \<Longrightarrow> data s i = Some d \<Longrightarrow> off + int (length p) \<le> int (length d)"
  by (auto simp: log_stored_def gslice_def split: if_splits)

lemma sync_makes_durable:
  assumes "ok s" "quiet q" "log_stored data s i off p" "sync s q i = ((s', q'), Inr ())"
  shows "log_durable durable s' i off (int (length p))"
proof -
  obtain d where d: "data s i = Some d" using assms(3) by (auto simp: log_stored_def)
  have "durable s' i = length d" using sync_durable assms d by blast
  then show ?thesis
    using stored_in_bounds [OF assms(3) d] assms(3) by (simp add: log_durable_def log_stored_def)
qed

text \<open>Append, then sync: the payload is stored and durable, whatever was stored before still is.\<close>

lemma append_sync:
  assumes "ok s" "quiet q" "in_i64 (hLogicalOff h)"
    and "append s q i h p = ((s1, q1), Inr off)" "sync s1 q1 i = ((s2, q2), Inr ())"
  shows "ok s2 \<and> log_stored data s2 i off p \<and> log_durable durable s2 i off (int (length p)) \<and>
    log_extends data durable s s2"
proof -
  have 1: "ok s1" "quiet q1" "log_extends data durable s s1"
    using append_keeps [OF assms(1-4)] by auto
  have 2: "ok s2" "log_extends data durable s1 s2" using sync_keeps [OF 1(1,2) assms(5)] by auto
  have st: "log_stored data s1 i off p" using append_stores assms(1,4) by blast
  show ?thesis
    using 2 log_stored_extends [OF 2(2) st] sync_makes_durable [OF 1(1,2) st assms(5)]
      log_extends_trans [OF 1(3) 2(2)] by blast
qed

end

interpretation segs: append_log set_ok no_partial set_data set_durable Set_Active Segment_Append Segment_Sync
proof unfold_locales
  fix s q n s' q' r
  assume "set_ok s" "no_partial q" "Set_Active s q n = ((s', q'), r)"
  then show "set_ok s' \<and> no_partial q' \<and> set_extends s s'" using Set_Active_ok by blast
next
  fix s q h i p s' q' r
  assume "set_ok s" "no_partial q" "in_i64 (hLogicalOff h)" "Segment_Append s q i h p = ((s', q'), r)"
  then show "set_ok s' \<and> no_partial q' \<and> set_extends s s'" using Segment_Append_ok by blast
next
  fix s q i h p s' q' off
  assume a: "set_ok s" "Segment_Append s q i h p = ((s', q'), Inr off)"
  then obtain d where d: "set_data s' i = Some (d @ frame h p)" "off = int (length d + headerSize)"
    "0 \<le> off" "length d + length (frame h p) \<le> max_file_size"
    using Segment_Append_reads [OF a] by blast
  have "nat off = length d + headerSize" unfolding d(2) by simp
  then show "log_stored set_data s' i off p"
    using d(1,3) payload_in_frame [of d p h "[]"] by (simp add: log_stored_def)
  show "off + int (length p) < 2 ^ 63" using d(2,4) by (simp add: record_sizes max_file_size_def)
next
  fix s q i s' q' r
  assume "set_ok s" "no_partial q" "Segment_Sync s q i = ((s', q'), r)"
  then show "set_ok s' \<and> no_partial q' \<and> set_extends s s'" using Segment_Sync_ok by blast
next
  fix s q i s' q' d
  assume "set_ok s" "no_partial q" "Segment_Sync s q i = ((s', q'), Inr ())" "set_data s i = Some d"
  then show "set_durable s' i = length d" using Segment_Sync_ok by blast
qed

end
