(* ===== verification/Segment_Recovery.thy ===== *)
theory Segment_Recovery
  imports Segment_Sets
begin

text \<open>
  Crash recovery of a segment set (\<open>RepairTail\<close>, \<open>Segment.Scan\<close>, \<open>truncate\<close> of
  \<open>src/segment/segment.go\<close>), and what a write that stops half way does to a segment.
\<close>

lemma prefix_by_frames:
  assumes "prefix js rs" "prefix ks rs" "length (frames js) \<le> length (frames ks)"
  shows "prefix js ks"
proof (rule ccontr)
  assume "\<not> prefix js ks"
  then have "strict_prefix ks js" using assms(1,2) by (metis prefix_same_cases strict_prefix_def)
  then obtain r rs' where "js = ks @ r # rs'" by (metis strict_prefixE')
  then show False using assms(3) by (cases r) simp
qed

text \<open>The active segment as \<open>OpenSet\<close> finds it after a crash that cut its file at byte \<open>c\<close>.\<close>

definition torn_active :: "SegSet \<Rightarrow> u32 \<Rightarrow> (RecordHeader \<times> bytes) list \<Rightarrow> nat \<Rightarrow> bool" where
  "torn_active ss a rs c \<longleftrightarrow> ssActive ss = Some a \<and> list_all wf_record rs \<and> c \<le> length (frames rs) \<and>
     (\<exists>s f. seg_of ss a = Some s \<and> segOpen s \<and> map_of (ssDir ss) (segFileName a) = Some f \<and>
        fData f = take c (frames rs) \<and> segSize s = int c \<and> segPos s = c)"

lemma Segment_Scan_torn:
  assumes "torn_active ss a rs c" "cut_point c rs ks"
    and "Segment_Scan (\<lambda>v h off. (v, None)) ss osq a () = ((osq1, u), Inr t)"
  shows "t = int (length (frames ks))"
proof -
  obtain s f where s: "seg_of ss a = Some s" "segOpen s" "map_of (ssDir ss) (segFileName a) = Some f"
      "fData f = take c (frames rs)" "segSize s = int c" "list_all wf_record rs" "c \<le> length (frames rs)"
    using assms(1) by (auto simp: torn_active_def)
  have "scan_loop (\<lambda>v h off. (v, None)) (fData f) 0 () = ((), Inr (int (length (frames ks))))"
    using scan_loop_cut [OF s(6) assms(2), of "\<lambda>v h off. v" "()"] s(4) by simp
  moreover have "length (frames ks) \<le> c" using assms(2) by (simp add: cut_point_def)
  moreover have "length (fData f) = c" using s by simp
  ultimately show ?thesis
    using assms(3) s(1,2,5) the_file_Some [OF s(3)]
    by (auto simp: Segment_Scan_def Segment_Size_def Segment_ReadAt_def andThen_def
        split: if_splits prod.splits sum.splits option.splits)
qed

lemma Segment_truncate_result:
  assumes "seg_of ss a = Some s" "segOpen s" "segSize s = int c" "map_of (ssDir ss) (segFileName a) = Some f"
    "length (fData f) = c" "m < c"
    and "Segment_truncate ss osq a (int m) = ((ss', osq'), Inr ())"
  shows "set_data ss' a = Some (take m (fData f)) \<and> set_durable ss' a = (if fLinked f then m else 0) \<and>
    seg_of ss' a = Some (s\<lparr>segPos := m, segSize := int m\<rparr>) \<and> (\<forall>i. i \<noteq> a \<longrightarrow> set_data ss' i = set_data ss i)"
  using assms the_file_Some [OF assms(4)]
  by (auto simp: Segment_truncate_def Segment_Sync_def Let_def set_data_def set_durable_def
      file_truncate_def file_sync_def split: prod.splits sum.splits if_splits option.splits)

lemma RepairTail_torn:
  assumes t: "torn_active ss a rs c" and js: "prefix js rs" "length (frames js) \<le> c"
    and r: "Set_RepairTail ss osq = ((ss', osq'), Inr ())"
  shows "\<exists>ks. prefix js ks \<and> prefix ks rs \<and> set_data ss' a = Some (frames ks) \<and>
    Segment_Size ss' a = int (length (frames ks))"
proof -
  obtain s f where s: "seg_of ss a = Some s" "segOpen s" "map_of (ssDir ss) (segFileName a) = Some f"
      "fData f = take c (frames rs)" "segSize s = int c" "list_all wf_record rs" "c \<le> length (frames rs)"
      "ssActive ss = Some a"
    using t by (auto simp: torn_active_def)
  obtain ks where ks: "cut_point c rs ks" using cut_point_exists s by blast
  then have k: "prefix ks rs" "length (frames ks) \<le> c" "prefix js ks" "prefix (frames ks) (frames rs)"
    using js by (auto simp: cut_point_def prefix_def intro: prefix_by_frames [unfolded prefix_def])
  then have tk: "take (length (frames ks)) (fData f) = frames ks"
    using s(4) by (auto simp: prefix_def)
  have len: "length (fData f) = c" using s by simp
  obtain osq1 u t where sc: "Segment_Scan (\<lambda>v h off. (v, None)) ss osq a () = ((osq1, u), Inr t)"
    using r s(8) by (auto simp: Set_RepairTail_def split: prod.splits sum.splits)
  have t_eq: "t = int (length (frames ks))" by (rule Segment_Scan_torn [OF t ks sc])
  show ?thesis
  proof (cases "length (frames ks) < c")
    case True
    then have "Segment_truncate ss osq1 a (int (length (frames ks))) = ((ss', osq'), Inr ())"
      using r s sc t_eq by (simp add: Set_RepairTail_def Segment_Size_def)
    from Segment_truncate_result [OF s(1,2,5,3) len True this]
    show ?thesis using k tk by (auto simp: Segment_Size_def)
  next
    case False
    then have "ss' = ss" "length (frames ks) = c"
      using r s sc t_eq k by (auto simp: Set_RepairTail_def Segment_Size_def)
    then show ?thesis
      using k s tk len the_file_Some [OF s(3)] by (auto simp: Segment_Size_def set_data_def)
  qed
qed

lemma RepairTail_no_faults:
  assumes "torn_active ss a rs c"
  shows "\<exists>ss'. Set_RepairTail ss [] = ((ss', []), Inr ())"
proof -
  obtain s f where s: "seg_of ss a = Some s" "segOpen s" "map_of (ssDir ss) (segFileName a) = Some f"
      "fData f = take c (frames rs)" "segSize s = int c" "list_all wf_record rs" "c \<le> length (frames rs)"
      "ssActive ss = Some a"
    using assms by (auto simp: torn_active_def)
  obtain ks where ks: "cut_point c rs ks" using cut_point_exists s by blast
  have "length (fData f) = c" using s by simp
  moreover have "scan_loop (\<lambda>v h off. (v, None)) (fData f) 0 () = ((), Inr (int (length (frames ks))))"
    using scan_loop_cut [OF s(6) ks, of "\<lambda>v h off. v" "()"] s(4) by simp
  ultimately show ?thesis
    using s the_file_Some [OF s(3)]
    by (auto simp: Set_RepairTail_def Segment_Scan_def Segment_Size_def Segment_ReadAt_def sys_def
        gslice_def Segment_truncate_def Segment_Sync_def Let_def)
qed


section \<open>A write that stops half way\<close>

text \<open>
  \<open>AppendCtx\<close> advances \<open>size\<close> only when the whole record was written, but the
  descriptor has moved by what was written. From then on the two disagree.
\<close>

lemma Segment_Append_partial:
  assumes ok: "set_ok ss" and a: "Segment_Append ss (Partial n e # osq) i h p = ((ss1, osq1), r)"
    and s: "seg_of ss i = Some s" and h: "unat (hLength h) = length p"
    and sz: "segPos s + length (frame h p) \<le> max_file_size"
  shows "r = Inl e \<and> osq1 = osq \<and>
    seg_of ss1 i = Some (s\<lparr>segPos := segPos s + length (take n (frame h p))\<rparr>) \<and>
    fData (the_file (ssDir ss1) i) = fData (the_file (ssDir ss) i) @ take n (frame h p)"
proof -
  obtain f where f: "segPos s = length (fData f)" "segOpen s" "the_file (ssDir ss) i = f"
    using ok s by (rule set_okD)
  show ?thesis using a s f h sz by (auto simp: Segment_Append_def Let_def)
qed

lemma Segment_Append_shifted:
  assumes s: "seg_of ss i = Some s" and o: "segOpen s" and sz: "segSize s = int m" "segPos s = m + k"
    and d: "length (fData (the_file (ssDir ss) i)) = m + k"
    and a: "Segment_Append ss osq i h p = ((ss', osq'), Inr off)"
  shows "off = int (m + headerSize) \<and> log_stored set_data ss' i (off + int k) p"
proof -
  let ?f = "the_file (ssDir ss) i"
  have b: "m + k + length (frame h p) \<le> max_file_size" "unat (hLength h) = length p"
    and off: "off = i64 (int m + int headerSize)"
    and ss': "ss' = put_seg i (s\<lparr>segPos := m + k + length (frame h p),
          segSize := i64 (int m + int (length (frame h p)))\<rparr>) (file_write (m + k) (frame h p) ?f) ss"
    using a s o sz
    by (auto simp: Segment_Append_def Let_def not_less split: if_splits prod.splits sysresult.splits)
  have o1: "off = int (m + headerSize)"
    using b off by (simp add: i64_small record_sizes max_file_size_def)
  have "file_write (m + k) (frame h p) ?f = ?f\<lparr>fData := fData ?f @ frame h p\<rparr>"
    using file_write_end [of ?f "frame h p"] d by simp
  then have "set_data ss' i = Some (fData ?f @ frame h p)"
    using o by (simp add: set_data_def ss')
  moreover have "nat (off + int k) = length (fData ?f) + headerSize" using o1 d by simp
  ultimately show ?thesis
    using payload_in_frame [of "fData ?f" p h "[]"] o1 by (simp add: log_stored_def)
qed

section \<open>Properties\<close>

text \<open>
  However a crash cut the file of the active segment, tail repair succeeds when no
  system call fails, and whenever it succeeds the segment holds a run of whole records that
  includes every record that lay entirely before the cut.
\<close>

theorem RepairTail_keeps_whole_records:
  assumes "torn_active ss a rs c" "prefix js rs" "length (frames js) \<le> c"
  shows "(\<exists>ss'. Set_RepairTail ss [] = ((ss', []), Inr ())) \<and>
    (\<forall>osq ss' osq'. Set_RepairTail ss osq = ((ss', osq'), Inr ()) \<longrightarrow>
       (\<exists>ks. prefix js ks \<and> prefix ks rs \<and> set_data ss' a = Some (frames ks) \<and>
          Segment_Size ss' a = int (length (frames ks))))"
  using RepairTail_no_faults [OF assms(1)] RepairTail_torn [OF assms] by blast

theorem RepairTail_keeps_whole_records_witness:
  "let h = \<lparr>hInode = 1, hStripeID = 0, hSeq = 1, hLogicalOff = 0, hLength = 2\<rparr>;
       rs = [(h, [7, 8]), (h, [9, 9])];
       ss = \<lparr>ssDir = put_file 0 \<lparr>fData = take 60 (frames rs), fSynced = 46, fLinked = True\<rparr> [],
             ssTier = TierHot, ssMaxSize = 1000,
             ssSegments = [(0, \<lparr>segID = 0, segPos = 60, segSize = 60, segOpen = True\<rparr>)],
             ssActive = Some 0, ssNextID = 1\<rparr>
   in torn_active ss 0 rs 60 \<and> (\<exists>ss'. Set_RepairTail ss [] = ((ss', []), Inr ()))"
proof -
  define h where "h = \<lparr>hInode = 1, hStripeID = 0, hSeq = 1, hLogicalOff = 0, hLength = 2\<rparr>"
  define rs where "rs = [(h, [7, 8]), (h, [9, 9 :: byte])]"
  define ss where "ss = \<lparr>ssDir = put_file 0 \<lparr>fData = take 60 (frames rs), fSynced = 46, fLinked = True\<rparr> [],
             ssTier = TierHot, ssMaxSize = 1000,
             ssSegments = [(0, \<lparr>segID = 0, segPos = 60, segSize = 60, segOpen = True\<rparr>)],
             ssActive = Some 0, ssNextID = 1\<rparr>"
  have t: "torn_active ss 0 rs 60"
    by (simp add: torn_active_def ss_def rs_def h_def wf_record_def in_i64_def seg_of_def put_file_def)
  show ?thesis
    using t RepairTail_keeps_whole_records [OF t, of "[(h, [7, 8])]"]
    by (simp add: rs_def flip: h_def ss_def) (simp add: ss_def rs_def h_def Let_def)
qed

text \<open>
  A scan of complete records followed by a torn one visits exactly the complete
  records, with the offsets of their payloads, and stops where the torn record starts.
\<close>

theorem scan_visits_whole_records:
  assumes "list_all wf_record rs" "wf_record (h, p)" "n < length (frame h p)"
  shows "scan_loop collect (frames rs @ take n (frame h p)) 0 [] = (visits 0 rs, Inr (int (length (frames rs))))"
  using scan_loop_recovers [OF assms, of "\<lambda>v h off. v @ [(h, off)]" "[]"] foldl_collect [of "[]" "visits 0 rs"]
  by (simp add: collect_def [abs_def])

theorem scan_visits_whole_records_witness:
  "let h = \<lparr>hInode = 42, hStripeID = 7, hSeq = 123, hLogicalOff = 4096, hLength = 4\<rparr>
   in scan_loop collect (frames [(h, [1, 2, 3, 4])] @ take 45 (frame h [5, 6, 7, 8])) 0 [] = ([(h, 40)], Inr 48)"
proof -
  let ?h = "\<lparr>hInode = 42, hStripeID = 7, hSeq = 123, hLogicalOff = 4096, hLength = 4\<rparr>"
  have "scan_loop collect (frames [(?h, [1, 2, 3, 4])] @ take 45 (frame ?h [5, 6, 7, 8])) 0 []
      = (visits 0 [(?h, [1, 2, 3, 4])], Inr (int (length (frames [(?h, [1, 2, 3, 4])]))))"
    by (rule scan_visits_whole_records) (simp_all add: wf_record_def in_i64_def)
  then show ?thesis by (simp add: Let_def record_sizes)
qed

text \<open>
  A successful append to a set in good order stores the payload at the offset it
  returns, leaves every byte of every segment where it was, and keeps the set in order.
\<close>

theorem Append_stores_payload:
  assumes "set_ok ss" "no_partial osq" "in_i64 (hLogicalOff h)"
    and "Segment_Append ss osq i h p = ((ss', osq'), Inr off)"
  shows "set_ok ss' \<and> set_extends ss ss' \<and> log_stored set_data ss' i off p"
  using segs.append_keeps [OF assms] segs.append_stores [OF assms(1,4)] by blast

theorem Append_stores_payload_witness:
  "let h = \<lparr>hInode = 1, hStripeID = 0, hSeq = 1, hLogicalOff = 0, hLength = 2\<rparr>;
       ss = \<lparr>ssDir = put_file 0 \<lparr>fData = [], fSynced = 0, fLinked = True\<rparr> [],
             ssTier = TierHot, ssMaxSize = 1000,
             ssSegments = [(0, \<lparr>segID = 0, segPos = 0, segSize = 0, segOpen = True\<rparr>)],
             ssActive = Some 0, ssNextID = 1\<rparr>
   in \<exists>ss'. Segment_Append ss [] 0 h [7, 8] = ((ss', []), Inr 40) \<and> log_stored set_data ss' 0 40 [7, 8]"
proof -
  define h where "h = \<lparr>hInode = 1, hStripeID = 0, hSeq = 1, hLogicalOff = 0, hLength = 2\<rparr>"
  define ss where "ss = \<lparr>ssDir = put_file 0 \<lparr>fData = [], fSynced = 0, fLinked = True\<rparr> [],
             ssTier = TierHot, ssMaxSize = 1000,
             ssSegments = [(0, \<lparr>segID = 0, segPos = 0, segSize = 0, segOpen = True\<rparr>)],
             ssActive = Some 0, ssNextID = 1\<rparr>"
  have ok: "set_ok ss"
    by (auto simp: ss_def set_ok_def dir_ok_def seg_ok_def seg_of_def put_file_def max_file_size_def
        intro!: file_ok_empty split: if_splits)
  have "no_partial []" "in_i64 (hLogicalOff h)" by (simp_all add: no_partial_def h_def in_i64_def)
  moreover obtain ss' where a: "Segment_Append ss [] 0 h [7, 8] = ((ss', []), Inr 40)"
    by (simp add: Segment_Append_def ss_def h_def seg_of_def Let_def max_file_size_def record_sizes i64_small)
  ultimately have "log_stored set_data ss' 0 40 [7, 8]"
    using Append_stores_payload [OF ok] by blast
  with a show ?thesis unfolding Let_def h_def [symmetric] ss_def [symmetric] by blast
qed

text \<open>
  C36 (a defect of the code): when a write stops after part of a record, the append reports
  the error, but the next successful append to that segment returns an offset that is too
  small by the number of bytes the failed write left behind: its payload lies that far
  behind the offset that goes into the index.
\<close>

theorem Append_after_partial_write_is_shifted:
  assumes "set_ok ss" "seg_of ss i = Some s" "unat (hLength h) = length p"
    and "segPos s + length (frame h p) \<le> max_file_size"
    and "Segment_Append ss (Partial n e # osq) i h p = ((ss1, osq1), r)"
    and "Segment_Append ss1 osq1 i h2 p2 = ((ss2, osq2), Inr off)"
  shows "r = Inl e \<and> off = segSize s + int headerSize \<and>
    log_stored set_data ss2 i (off + int (length (take n (frame h p)))) p2"
proof -
  obtain f where f: "segPos s = length (fData f)" "segOpen s" "the_file (ssDir ss) i = f"
    "segSize s = int (length (fData f))"
    using assms(1,2) by (rule set_okD)
  note pa = Segment_Append_partial [OF assms(1,5,2-4)]
  have "off = int (length (fData f) + headerSize) \<and>
      log_stored set_data ss2 i (off + int (length (take n (frame h p)))) p2"
    by (rule Segment_Append_shifted [where s = "s\<lparr>segPos := segPos s + length (take n (frame h p))\<rparr>"
          and m = "length (fData f)" and k = "length (take n (frame h p))", OF _ _ _ _ _ assms(6)])
      (use pa f in auto)
  then show ?thesis using pa f by auto
qed

theorem Append_after_partial_write_is_shifted_witness:
  "let h = \<lparr>hInode = 1, hStripeID = 0, hSeq = 1, hLogicalOff = 0, hLength = 2\<rparr>;
       ss = \<lparr>ssDir = put_file 0 \<lparr>fData = [], fSynced = 0, fLinked = True\<rparr> [],
             ssTier = TierHot, ssMaxSize = 1000,
             ssSegments = [(0, \<lparr>segID = 0, segPos = 0, segSize = 0, segOpen = True\<rparr>)],
             ssActive = Some 0, ssNextID = 1\<rparr>
   in \<exists>ss1 ss2. Segment_Append ss [Partial 3 ENOSPC] 0 h [7, 8] = ((ss1, []), Inl ENOSPC) \<and>
        Segment_Append ss1 [] 0 h [9, 9] = ((ss2, []), Inr 40) \<and> log_stored set_data ss2 0 43 [9, 9]"
proof -
  define h where "h = \<lparr>hInode = 1, hStripeID = 0, hSeq = 1, hLogicalOff = 0, hLength = 2\<rparr>"
  define ss where "ss = \<lparr>ssDir = put_file 0 \<lparr>fData = [], fSynced = 0, fLinked = True\<rparr> [],
             ssTier = TierHot, ssMaxSize = 1000,
             ssSegments = [(0, \<lparr>segID = 0, segPos = 0, segSize = 0, segOpen = True\<rparr>)],
             ssActive = Some 0, ssNextID = 1\<rparr>"
  have ok: "set_ok ss"
    by (auto simp: ss_def set_ok_def dir_ok_def seg_ok_def seg_of_def put_file_def max_file_size_def
        intro!: file_ok_empty split: if_splits)
  have sg: "seg_of ss 0 = Some \<lparr>segID = 0, segPos = 0, segSize = 0, segOpen = True\<rparr>"
    by (simp add: ss_def seg_of_def)
  obtain ss1 where a1: "Segment_Append ss [Partial 3 ENOSPC] 0 h [7, 8] = ((ss1, []), Inl ENOSPC)"
    using sg by (simp add: Segment_Append_def h_def Let_def max_file_size_def)
  have s1: "seg_of ss1 0 = Some \<lparr>segID = 0, segPos = 3, segSize = 0, segOpen = True\<rparr>"
    using Segment_Append_partial [OF ok a1 sg] by (simp add: h_def max_file_size_def)
  obtain ss2 where a2: "Segment_Append ss1 [] 0 h [9, 9] = ((ss2, []), Inr 40)"
    using s1 by (simp add: Segment_Append_def h_def Let_def max_file_size_def record_sizes i64_small)
  have "log_stored set_data ss2 0 (40 + int (length (take 3 (frame h [7, 8])))) [9, 9]"
    using Append_after_partial_write_is_shifted [OF ok sg _ _ a1 a2] by (simp add: h_def max_file_size_def)
  with a1 a2 show ?thesis unfolding Let_def h_def [symmetric] ss_def [symmetric] by auto
qed

end
