(* ===== verification/Fragment.thy ===== *)
theory Fragment
  imports Segment
begin

text \<open>
  Fragments (\<open>src/index/fragment.go\<close>): their 40-byte encoding, the read planner that lets
  newer fragments shadow older ones, and the canonical view of a stripe.

  \<open>planRead\<close> and \<open>canonicalView\<close> run the same two nested loops over a list of uncovered
  intervals and differ only in the element they emit for an overlap; \<open>carve\<close> and \<open>sweep\<close>
  are those loops, with the emitted element as a parameter. Go's \<open>sort.Slice\<close> leaves the
  order of equal keys open; the theorems below hold for every arrangement by descending
  sequence number.
\<close>

section \<open>Fragments and their encoding\<close>

record Fragment =
  Seq :: u64
  LogicalOff :: int
  Length :: int
  FTier :: Tier
  SegmentID :: u32
  SegmentOffset :: int

definition fragmentEncodedSize :: nat where "fragmentEncodedSize = 40"

definition encodeFragment :: "Fragment \<Rightarrow> bytes" where
  "encodeFragment f = le64 (Seq f) @ le64 (u64_of_int64 (LogicalOff f)) @ le64 (u64_of_int64 (Length f))
     @ [FTier f, 0, 0, 0] @ le32 (SegmentID f) @ le64 (u64_of_int64 (SegmentOffset f))"

text \<open>\<open>None\<close> is the slice-bounds panic on a buffer shorter than one fragment.\<close>

definition decodeFragment :: "bytes \<Rightarrow> Fragment option" where
  "decodeFragment buf = (case (le64_at 0 buf, le64_at 8 buf, le64_at 16 buf, byte_at 24 buf,
       le32_at 28 buf, le64_at 32 buf) of
     (Some sq, Some lo, Some ln, Some t, Some sid, Some so) \<Rightarrow>
       Some \<lparr>Seq = sq, LogicalOff = int64_of_u64 lo, Length = int64_of_u64 ln, FTier = t,
             SegmentID = sid, SegmentOffset = int64_of_u64 so\<rparr>
   | _ \<Rightarrow> None)"

definition encodeFragments :: "Fragment list \<Rightarrow> bytes" where
  "encodeFragments frags = concat (map encodeFragment frags)"

primrec decode_n :: "nat \<Rightarrow> bytes \<Rightarrow> Fragment list" where
  "decode_n 0 buf = []"
| "decode_n (Suc n) buf = (case decodeFragment buf of
     Some f \<Rightarrow> f # decode_n n (drop fragmentEncodedSize buf) | None \<Rightarrow> [])"

definition decodeFragments :: "bytes \<Rightarrow> Fragment list" where
  "decodeFragments buf = decode_n (length buf div fragmentEncodedSize) buf"

section \<open>The planner\<close>

record ReadSlice =
  slLogicalOff :: int
  slLength :: int
  slSparse :: bool
  slLocator :: Locator

type_synonym ivl = "int \<times> int"

definition zeroLocator :: Locator where
  "zeroLocator = \<lparr>locTier = 0, locSegmentID = 0, locOffset = 0, locLength = 0\<rparr>"

definition fEnd :: "Fragment \<Rightarrow> int" where
  "fEnd f = i64 (LogicalOff f + Length f)"

text \<open>The inner loop: one fragment against the list of uncovered intervals.\<close>

primrec carve :: "(Fragment \<Rightarrow> int \<Rightarrow> int \<Rightarrow> 'a) \<Rightarrow> Fragment \<Rightarrow> ivl list \<Rightarrow> 'a list \<Rightarrow> ivl list
    \<Rightarrow> 'a list \<times> ivl list" where
  "carve emit f [] slices nxt = (slices, nxt)"
| "carve emit f (u # us) slices nxt =
     (if fEnd f \<le> fst u \<or> LogicalOff f \<ge> snd u then carve emit f us slices (nxt @ [u])
      else let ovStart = (if fst u > LogicalOff f then fst u else LogicalOff f);
               ovEnd = (if snd u < fEnd f then snd u else fEnd f)
           in carve emit f us (slices @ [emit f ovStart ovEnd])
                (nxt @ (if fst u < ovStart then [(fst u, ovStart)] else [])
                     @ (if ovEnd < snd u then [(ovEnd, snd u)] else [])))"

text \<open>The outer loop, over the fragments in descending order of sequence number.\<close>

primrec sweep :: "(Fragment \<Rightarrow> int \<Rightarrow> int \<Rightarrow> 'a) \<Rightarrow> Fragment list \<Rightarrow> ivl list \<Rightarrow> 'a list
    \<Rightarrow> 'a list \<times> ivl list" where
  "sweep emit [] uncovered slices = (slices, uncovered)"
| "sweep emit (f # fs) uncovered slices =
     (if uncovered = [] then (slices, uncovered)
      else let (slices', nxt) = carve emit f uncovered slices [] in sweep emit fs nxt slices')"

definition sort_desc :: "Fragment list \<Rightarrow> Fragment list" where
  "sort_desc frags = rev (sort_key Seq frags)"

definition emitSlice :: "Fragment \<Rightarrow> int \<Rightarrow> int \<Rightarrow> ReadSlice" where
  "emitSlice f ovStart ovEnd = \<lparr>slLogicalOff = ovStart, slLength = i64 (ovEnd - ovStart), slSparse = False,
     slLocator = \<lparr>locTier = FTier f, locSegmentID = SegmentID f,
       locOffset = i64 (SegmentOffset f + i64 (ovStart - LogicalOff f)),
       locLength = i64 (ovEnd - ovStart)\<rparr>\<rparr>"

definition sparseSlice :: "ivl \<Rightarrow> ReadSlice" where
  "sparseSlice u = \<lparr>slLogicalOff = fst u, slLength = i64 (snd u - fst u), slSparse = True,
     slLocator = zeroLocator\<rparr>"

definition planRead :: "Fragment list \<Rightarrow> int \<Rightarrow> int \<Rightarrow> ReadSlice list" where
  "planRead frags readOff readLen =
     (if readLen \<le> 0 then []
      else let (slices, uncovered) = sweep emitSlice (sort_desc frags) [(readOff, i64 (readOff + readLen))] []
           in sort_key slLogicalOff (slices @ map sparseSlice uncovered))"

definition emitFragment :: "Fragment \<Rightarrow> int \<Rightarrow> int \<Rightarrow> Fragment" where
  "emitFragment f ovStart ovEnd = \<lparr>Seq = Seq f, LogicalOff = ovStart, Length = i64 (ovEnd - ovStart),
     FTier = FTier f, SegmentID = SegmentID f,
     SegmentOffset = i64 (SegmentOffset f + i64 (ovStart - LogicalOff f))\<rparr>"

definition canonicalView :: "Fragment list \<Rightarrow> Fragment list" where
  "canonicalView frags = (case sort_desc frags of
     [] \<Rightarrow> []
   | g # gs \<Rightarrow>
       let minOff = foldl (\<lambda>m f. if LogicalOff f < m then LogicalOff f else m) (LogicalOff g) gs;
           maxEnd = foldl (\<lambda>m f. if fEnd f > m then fEnd f else m) (fEnd g) gs;
           (out, uncovered) = sweep emitFragment (g # gs) [(minOff, maxEnd)] []
       in sort_key LogicalOff out)"

section \<open>What the bytes of a stripe are\<close>

text \<open>A fragment that the index may hold: a non-empty range inside the 64-bit offsets.\<close>

definition wf_frag :: "Fragment \<Rightarrow> bool" where
  "wf_frag f \<longleftrightarrow> 0 \<le> LogicalOff f \<and> 0 < Length f \<and> LogicalOff f + Length f < 2 ^ 63 \<and>
     0 \<le> SegmentOffset f \<and> SegmentOffset f + Length f < 2 ^ 63"

definition covers :: "Fragment \<Rightarrow> int \<Rightarrow> bool" where
  "covers f x \<longleftrightarrow> LogicalOff f \<le> x \<and> x < LogicalOff f + Length f"

text \<open>\<open>f\<close> is the newest fragment that covers byte \<open>x\<close>; where that byte lives physically.\<close>

definition is_newest :: "Fragment list \<Rightarrow> int \<Rightarrow> Fragment \<Rightarrow> bool" where
  "is_newest frags x f \<longleftrightarrow> f \<in> set frags \<and> covers f x \<and>
     (\<forall>g \<in> set frags. covers g x \<longrightarrow> Seq g \<le> Seq f)"

definition frag_loc :: "Fragment \<Rightarrow> int \<Rightarrow> Tier \<times> u32 \<times> int" where
  "frag_loc f x = (FTier f, SegmentID f, SegmentOffset f + (x - LogicalOff f))"

definition slice_loc :: "ReadSlice \<Rightarrow> int \<Rightarrow> Tier \<times> u32 \<times> int" where
  "slice_loc s x = (locTier (slLocator s), locSegmentID (slLocator s),
     locOffset (slLocator s) + (x - slLogicalOff s))"

definition in_slice :: "int \<Rightarrow> ReadSlice \<Rightarrow> bool" where
  "in_slice x s \<longleftrightarrow> slLogicalOff s \<le> x \<and> x < slLogicalOff s + slLength s"

text \<open>A list of intervals that tiles \<open>[a, b)\<close> from left to right without gap or overlap.\<close>

fun tiles :: "int \<Rightarrow> int \<Rightarrow> ivl list \<Rightarrow> bool" where
  "tiles a b [] \<longleftrightarrow> a = b"
| "tiles a b (u # us) \<longleftrightarrow> fst u = a \<and> a < snd u \<and> tiles (snd u) b us"

section \<open>Encoding round trip\<close>

lemma length_encodeFragment [simp]: "length (encodeFragment f) = 40"
  by (simp add: encodeFragment_def)

definition i64_frag :: "Fragment \<Rightarrow> bool" where
  "i64_frag f \<longleftrightarrow> in_i64 (LogicalOff f) \<and> in_i64 (Length f) \<and> in_i64 (SegmentOffset f)"

lemma wf_frag_i64: "wf_frag f \<Longrightarrow> i64_frag f"
  by (auto simp: wf_frag_def i64_frag_def in_i64_def)

lemma decode_encodeFragment: "i64_frag f \<Longrightarrow> decodeFragment (encodeFragment f @ ys) = Some f"
  by (simp add: decodeFragment_def encodeFragment_def le64_at_def le32_at_def byte_at_def
      gslice_append2 gslice_Cons nth_append int64_u64_id i64_frag_def)

lemma decode_n_concat:
  "list_all i64_frag fs \<Longrightarrow> decode_n (length fs) (concat (map encodeFragment fs) @ ys) = fs"
  by (induction fs) (simp_all add: decode_encodeFragment fragmentEncodedSize_def)

lemma length_encodeFragments [simp]: "length (encodeFragments fs) = 40 * length fs"
  by (induction fs) (simp_all add: encodeFragments_def)

lemma decode_encodeFragments: "list_all i64_frag fs \<Longrightarrow> decodeFragments (encodeFragments fs) = fs"
  using decode_n_concat [of fs "[]"]
  by (simp add: decodeFragments_def fragmentEncodedSize_def) (simp add: encodeFragments_def)

end
