(* ===== verification/Fragment_Plan.thy ===== *)
theory Fragment_Plan
  imports Fragment
begin

text \<open>
  Correctness of \<open>planRead\<close> and \<open>canonicalView\<close> (\<open>src/index/fragment.go\<close>). The loops
  are first brought into a form without accumulators: the pieces that a descending list of
  fragments cuts out of a list of intervals, and what is left. Counting in how many pieces a
  byte lies then gives that the pieces and the rest partition the intervals.
\<close>

section \<open>The loops without accumulators\<close>

definition overlap :: "Fragment \<Rightarrow> ivl \<Rightarrow> ivl list" where
  "overlap f u = (if fEnd f \<le> fst u \<or> LogicalOff f \<ge> snd u then []
     else [(max (fst u) (LogicalOff f), min (snd u) (fEnd f))])"

definition remains :: "Fragment \<Rightarrow> ivl \<Rightarrow> ivl list" where
  "remains f u = (if fEnd f \<le> fst u \<or> LogicalOff f \<ge> snd u then [u]
     else (if fst u < max (fst u) (LogicalOff f) then [(fst u, max (fst u) (LogicalOff f))] else [])
        @ (if min (snd u) (fEnd f) < snd u then [(min (snd u) (fEnd f), snd u)] else []))"

primrec pieces :: "Fragment list \<Rightarrow> ivl list \<Rightarrow> (Fragment \<times> ivl) list" where
  "pieces [] us = []"
| "pieces (f # fs) us = map (Pair f) (concat (map (overlap f) us)) @ pieces fs (concat (map (remains f) us))"

primrec rest :: "Fragment list \<Rightarrow> ivl list \<Rightarrow> ivl list" where
  "rest [] us = us"
| "rest (f # fs) us = rest fs (concat (map (remains f) us))"

lemma carve_pieces:
  "carve emit f us slices nxt =
     (slices @ map (\<lambda>(a, b). emit f a b) (concat (map (overlap f) us)), nxt @ concat (map (remains f) us))"
proof (induction us arbitrary: slices nxt)
  case (Cons u us)
  show ?case
    by (cases "fEnd f \<le> fst u \<or> LogicalOff f \<ge> snd u")
      (simp_all add: Cons.IH overlap_def remains_def Let_def max_def min_def not_le)
qed simp

lemma pieces_Nil [simp]: "pieces fs [] = []" "rest fs [] = []"
  by (induction fs) simp_all

lemma sweep_pieces:
  "sweep emit fs us slices = (slices @ map (\<lambda>(f, a, b). emit f a b) (pieces fs us), rest fs us)"
proof (induction fs arbitrary: us slices)
  case (Cons f fs)
  show ?case
    by (cases "us = []") (simp_all add: Cons.IH carve_pieces o_def case_prod_beta)
qed simp

section \<open>Every byte lies in exactly one piece\<close>

definition hits :: "int \<Rightarrow> ivl list \<Rightarrow> nat" where
  "hits x us = length (filter (\<lambda>u. fst u \<le> x \<and> x < snd u) us)"

definition proper :: "ivl list \<Rightarrow> bool" where
  "proper us \<longleftrightarrow> (\<forall>u \<in> set us. fst u < snd u)"

lemma hits_append [simp]: "hits x (us @ vs) = hits x us + hits x vs"
  by (simp add: hits_def)

lemma hits_Nil [simp]: "hits x [] = 0"
  by (simp add: hits_def)

lemma hits_Cons: "hits x (u # us) = (if fst u \<le> x \<and> x < snd u then 1 else 0) + hits x us"
  by (simp add: hits_def)

lemma hits_pos: "0 < hits x us \<longleftrightarrow> (\<exists>u \<in> set us. fst u \<le> x \<and> x < snd u)"
  by (auto simp: hits_def filter_empty_conv)

lemma proper_simps [simp]:
  "proper []" "proper (u # us) \<longleftrightarrow> fst u < snd u \<and> proper us"
  "proper (us @ vs) \<longleftrightarrow> proper us \<and> proper vs"
  by (auto simp: proper_def)

lemma hits_cut_one:
  assumes "LogicalOff f < fEnd f" "fst u < snd u"
  shows "hits x (overlap f u) + hits x (remains f u) = hits x [u]"
    "hits x (overlap f u) = (if LogicalOff f \<le> x \<and> x < fEnd f then hits x [u] else 0)"
    "proper (overlap f u)" "proper (remains f u)"
  using assms by (auto simp: overlap_def remains_def hits_Cons)

lemma hits_cut:
  assumes "LogicalOff f < fEnd f" "proper us"
  shows "hits x (concat (map (overlap f) us)) + hits x (concat (map (remains f) us)) = hits x us \<and>
    hits x (concat (map (overlap f) us)) = (if LogicalOff f \<le> x \<and> x < fEnd f then hits x us else 0) \<and>
    proper (concat (map (overlap f) us)) \<and> proper (concat (map (remains f) us))"
  using assms(2)
proof (induction us)
  case (Cons u us)
  then show ?case
    using hits_cut_one(1,2) [OF assms(1), of u x] hits_cut_one(3,4) [OF assms(1), of u]
    by (auto simp: hits_Cons)
qed simp

lemma fEnd_wf: "wf_frag f \<Longrightarrow> fEnd f = LogicalOff f + Length f"
  by (simp add: fEnd_def wf_frag_def i64_small)

lemma covers_fEnd: "wf_frag f \<Longrightarrow> covers f x \<longleftrightarrow> LogicalOff f \<le> x \<and> x < fEnd f"
  by (simp add: covers_def fEnd_wf)

lemma wf_frag_proper: "wf_frag f \<Longrightarrow> LogicalOff f < fEnd f"
  by (simp add: fEnd_wf wf_frag_def)

lemma hits_partition:
  assumes "list_all wf_frag fs" "proper us"
  shows "hits x (map snd (pieces fs us)) + hits x (rest fs us) = hits x us \<and>
    proper (map snd (pieces fs us)) \<and> proper (rest fs us)"
  using assms
proof (induction fs arbitrary: us)
  case (Cons f fs)
  have c: "hits x (concat (map (overlap f) us)) + hits x (concat (map (remains f) us)) = hits x us"
      "proper (concat (map (overlap f) us))" "proper (concat (map (remains f) us))"
    using hits_cut [of f us x] Cons.prems wf_frag_proper by auto
  have "map snd (map (Pair f) (concat (map (overlap f) us))) = concat (map (overlap f) us)"
    by (simp add: o_def)
  then show ?case using Cons.IH [OF _ c(3)] c Cons.prems by (simp add: o_def)
qed simp

text \<open>What is left is what no fragment covers.\<close>

lemma hits_rest:
  assumes "list_all wf_frag fs" "proper us"
  shows "hits x (rest fs us) = (if \<exists>f \<in> set fs. covers f x then 0 else hits x us)"
  using assms
proof (induction fs arbitrary: us)
  case (Cons f fs)
  have c: "hits x (concat (map (overlap f) us)) + hits x (concat (map (remains f) us)) = hits x us"
      "hits x (concat (map (overlap f) us)) = (if covers f x then hits x us else 0)"
      "proper (concat (map (remains f) us))"
    using hits_cut [of f us x] Cons.prems wf_frag_proper covers_fEnd by auto
  then show ?case using Cons.IH [OF _ c(3)] Cons.prems by auto
qed simp

text \<open>A piece lies inside its fragment and inside the intervals.\<close>

lemma overlap_sub:
  "(a, b) \<in> set (overlap f u) \<Longrightarrow> LogicalOff f \<le> a \<and> b \<le> fEnd f \<and> fst u \<le> a \<and> b \<le> snd u"
  by (auto simp: overlap_def split: if_splits)

lemma remains_sub: "(a, b) \<in> set (remains f u) \<Longrightarrow> fst u \<le> a \<and> b \<le> snd u"
  by (auto simp: remains_def split: if_splits)

lemma pieces_sub:
  assumes "(f, a, b) \<in> set (pieces fs us)"
  shows "f \<in> set fs \<and> LogicalOff f \<le> a \<and> b \<le> fEnd f \<and> (\<exists>u \<in> set us. fst u \<le> a \<and> b \<le> snd u)"
  using assms
proof (induction fs arbitrary: us)
  case (Cons g fs)
  show ?case
  proof (cases "(f, a, b) \<in> set (map (Pair g) (concat (map (overlap g) us)))")
    case True
    then obtain u where "f = g" "u \<in> set us" "(a, b) \<in> set (overlap g u)" by auto
    then show ?thesis using overlap_sub [of a b g u] by auto
  next
    case False
    then have "(f, a, b) \<in> set (pieces fs (concat (map (remains g) us)))" using Cons.prems by auto
    from Cons.IH [OF this] obtain u v where "f \<in> set fs" "LogicalOff f \<le> a" "b \<le> fEnd f" "v \<in> set us"
      "u \<in> set (remains g v)" "fst u \<le> a" "b \<le> snd u" by auto
    then show ?thesis using remains_sub [of "fst u" "snd u" g v] by (auto intro!: bexI [of _ v])
  qed
qed simp

lemma rest_sub: "(a, b) \<in> set (rest fs us) \<Longrightarrow> \<exists>u \<in> set us. fst u \<le> a \<and> b \<le> snd u"
proof (induction fs arbitrary: us)
  case (Cons g fs)
  then obtain u v where "v \<in> set us" "u \<in> set (remains g v)" "fst u \<le> a" "b \<le> snd u"
    using Cons.IH [of "concat (map (remains g) us)"] by auto
  then show ?case using remains_sub [of "fst u" "snd u" g v] by (auto intro!: bexI [of _ v])
qed force

section \<open>Newest fragment wins\<close>

text \<open>
  \<open>sort.Slice\<close> may return any arrangement by descending sequence number. The planner's
  result is right for each of them.
\<close>

locale seq_descending =
  fixes arrange :: "Fragment list \<Rightarrow> Fragment list"
  assumes arrange_set: "set (arrange fs) = set fs"
    and arrange_sorted: "sorted_wrt (\<lambda>f g. Seq f \<ge> Seq g) (arrange fs)"
begin

lemma piece_newest_aux:
  assumes "sorted_wrt (\<lambda>f g. Seq f \<ge> Seq g) fs" "list_all wf_frag fs" "proper us"
    and "(f, a, b) \<in> set (pieces fs us)" "a \<le> x" "x < b"
  shows "is_newest fs x f"
  using assms
proof (induction fs arbitrary: us)
  case (Cons g fs)
  have wf: "wf_frag g" "list_all wf_frag fs" using Cons.prems by auto
  show ?case
  proof (cases "(f, a, b) \<in> set (map (Pair g) (concat (map (overlap g) us)))")
    case True
    then obtain u where u: "f = g" "(a, b) \<in> set (overlap g u)" by auto
    then have "LogicalOff g \<le> a" "b \<le> fEnd g" using overlap_sub [of a b g u] by auto
    with u show ?thesis
      using Cons.prems covers_fEnd [OF wf(1)] by (auto simp: is_newest_def)
  next
    case False
    then have p: "(f, a, b) \<in> set (pieces fs (concat (map (remains g) us)))" using Cons.prems by auto
    have pr: "proper (concat (map (remains g) us))"
      using hits_cut [of g us] wf_frag_proper [OF wf(1)] Cons.prems by auto
    have IH: "is_newest fs x f"
      using Cons.IH [OF _ wf(2) pr p] Cons.prems by auto
    have "0 < hits x (map snd (pieces fs (concat (map (remains g) us))))"
      using p Cons.prems(5,6) by (force simp: hits_pos)
    then have "0 < hits x (concat (map (remains g) us))"
      using hits_partition [OF wf(2) pr, of x] by linarith
    then have "\<not> covers g x"
      using hits_cut [of g us x] wf_frag_proper [OF wf(1)] covers_fEnd [OF wf(1)] Cons.prems(3)
      by (auto split: if_splits)
    then show ?thesis using IH by (auto simp: is_newest_def)
  qed
qed simp

lemma piece_newest:
  assumes "list_all wf_frag frags" "proper us" "(f, a, b) \<in> set (pieces (arrange frags) us)" "a \<le> x" "x < b"
  shows "is_newest frags x f"
  using piece_newest_aux [OF arrange_sorted, of frags us f a b x] assms arrange_set [of frags]
  by (auto simp: is_newest_def list_all_iff)

lemma rest_uncovered:
  assumes "list_all wf_frag frags" "proper us" "(a, b) \<in> set (rest (arrange frags) us)" "a \<le> x" "x < b"
  shows "\<forall>f \<in> set frags. \<not> covers f x"
proof -
  have "0 < hits x (rest (arrange frags) us)" using assms(3-5) by (force simp: hits_pos)
  then show ?thesis
    using hits_rest [of "arrange frags" us x] assms(1,2) arrange_set [of frags]
    by (auto simp: list_all_iff split: if_splits)
qed

end

interpretation desc: seq_descending sort_desc
proof unfold_locales
  fix fs
  show "set (sort_desc fs) = set fs" by (simp add: sort_desc_def)
  have "sorted_wrt (\<lambda>f g. Seq f \<le> Seq g) (sort_key Seq fs)"
    using sorted_sort_key [of Seq fs] by (simp add: sorted_wrt_map)
  then show "sorted_wrt (\<lambda>f g. Seq f \<ge> Seq g) (sort_desc fs)"
    by (simp add: sort_desc_def sorted_wrt_rev)
qed

section \<open>Sorting the pieces gives a tiling\<close>

lemma tiles_of_hits:
  assumes "proper us" "sorted_wrt (\<lambda>u v. fst u \<le> fst v) us" "a \<le> b"
    "\<And>x. hits x us = (if a \<le> x \<and> x < b then 1 else 0)"
  shows "tiles a b us"
  using assms
proof (induction us arbitrary: a)
  case Nil
  then show ?case using Nil.prems(4) [of a] by (auto split: if_splits)
next
  case (Cons u us)
  have u: "fst u < snd u" "proper us" using Cons.prems(1) by auto
  have "a \<le> fst u \<and> fst u < b" using Cons.prems(4) [of "fst u"] u by (auto simp: hits_Cons split: if_splits)
  moreover have "0 < hits a (u # us)" using calculation Cons.prems(4) [of a] by simp
  then have "fst u \<le> a" using Cons.prems(2) by (fastforce simp: hits_pos)
  ultimately have au: "fst u = a" by simp
  have ub: "snd u \<le> b"
    using Cons.prems(4) [of "snd u - 1"] u by (auto simp: hits_Cons split: if_splits)
  have "hits x us = (if snd u \<le> x \<and> x < b then 1 else 0)" for x
    using Cons.prems(4) [of x] au ub u by (auto simp: hits_Cons split: if_splits)
  then have "tiles (snd u) b us" using Cons.IH [OF u(2) _ ub] Cons.prems(2) by auto
  then show ?case using au u by simp
qed

lemma hits_mset: "mset us = mset vs \<Longrightarrow> hits x us = hits x vs"
  unfolding hits_def by (metis mset_filter size_mset)

lemma proper_mset: "mset us = mset vs \<Longrightarrow> proper us = proper vs"
  unfolding proper_def by (metis set_mset_mset)


lemma disjoint_of_hits:
  assumes "proper us" "sorted_wrt (\<lambda>u v. fst u \<le> fst v) us" "\<And>x. hits x us \<le> 1"
  shows "sorted_wrt (\<lambda>u v. snd u \<le> fst v) us"
  using assms
proof (induction us)
  case (Cons u us)
  have "snd u \<le> fst v" if v: "v \<in> set us" for v
  proof (rule ccontr)
    assume "\<not> snd u \<le> fst v"
    moreover have "fst u \<le> fst v" "fst v < snd v" using Cons.prems v by (auto simp: proper_def)
    moreover have "0 < hits (fst v) us" using v calculation by (auto simp: hits_pos intro: bexI [of _ v])
    ultimately show False using Cons.prems(3) [of "fst v"] by (simp add: hits_Cons)
  qed
  moreover have "hits x us \<le> 1" for x using Cons.prems(3) [of x] by (simp add: hits_Cons split: if_splits)
  ultimately show ?case using Cons by simp
qed simp

section \<open>planRead\<close>

definition slice_iv :: "ReadSlice \<Rightarrow> ivl" where
  "slice_iv s = (slLogicalOff s, slLogicalOff s + slLength s)"

lemma slice_iv_emit:
  "0 \<le> a \<Longrightarrow> a < b \<Longrightarrow> b < 2 ^ 63 \<Longrightarrow> slice_iv (emitSlice f a b) = (a, b)"
  "0 \<le> a \<Longrightarrow> a < b \<Longrightarrow> b < 2 ^ 63 \<Longrightarrow> slice_iv (sparseSlice (a, b)) = (a, b)"
  by (simp_all add: slice_iv_def emitSlice_def sparseSlice_def i64_small)

lemma slice_loc_emit:
  assumes "wf_frag f" "LogicalOff f \<le> a" "a < b" "b \<le> fEnd f"
  shows "slice_loc (emitSlice f a b) x = frag_loc f x"
  using assms by (simp add: slice_loc_def emitSlice_def frag_loc_def i64_small wf_frag_def fEnd_wf)

lemma planRead_correct:
  assumes wf: "list_all wf_frag frags" and r: "0 \<le> off" "0 < len" "off + len < 2 ^ 63"
  shows "tiles off (off + len) (map slice_iv (planRead frags off len))"
    and "s \<in> set (planRead frags off len) \<Longrightarrow> in_slice x s \<Longrightarrow>
      (if slSparse s then \<forall>f \<in> set frags. \<not> covers f x
       else \<exists>f. is_newest frags x f \<and> slice_loc s x = frag_loc f x)"
    and "s \<in> set (planRead frags off len) \<Longrightarrow> \<not> slSparse s \<Longrightarrow>
      \<exists>f \<in> set frags. \<forall>x. slice_loc s x = frag_loc f x \<and> (in_slice x s \<longrightarrow> is_newest frags x f)"
proof -
  let ?us = "[(off, off + len)]" and ?fs = "sort_desc frags"
  define ps rs where "ps = pieces ?fs ?us" and "rs = rest ?fs ?us"
  have us: "proper ?us" and wf': "list_all wf_frag ?fs"
    using r wf by (auto simp: list_all_iff desc.arrange_set)
  have e: "i64 (off + len) = off + len" using r by (simp add: i64_small)
  have plan: "planRead frags off len =
      sort_key slLogicalOff (map (\<lambda>(f, a, b). emitSlice f a b) ps @ map sparseSlice rs)"
    using r by (simp add: planRead_def e sweep_pieces ps_def rs_def)
  have hp: "hits x (map snd ps) + hits x rs = hits x ?us" "proper (map snd ps)" "proper rs" for x
    using hits_partition [OF wf' us] by (auto simp: ps_def rs_def)
  have bp: "off \<le> a \<and> a < b \<and> b \<le> off + len \<and> LogicalOff f \<le> a \<and> b \<le> fEnd f \<and> wf_frag f"
    if "(f, a, b) \<in> set ps" for f a b
    using pieces_sub [of f a b ?fs ?us] that hp(2) wf'
    by (force simp: ps_def proper_def list_all_iff)
  have br: "off \<le> a \<and> a < b \<and> b \<le> off + len" if "(a, b) \<in> set rs" for a b
    using rest_sub [of a b ?fs ?us] that hp(3) by (force simp: rs_def proper_def)
  have iv: "map slice_iv (map (\<lambda>(f, a, b). emitSlice f a b) ps @ map sparseSlice rs) = map snd ps @ rs"
    using bp br r by (force simp: slice_iv_emit intro!: map_idI)
  have ms: "mset (map slice_iv (planRead frags off len)) = mset (map snd ps @ rs)"
    unfolding plan iv [symmetric] by (metis mset_map mset_sort)
  have "sorted_wrt (\<lambda>u v. fst u \<le> fst v) (map slice_iv (planRead frags off len))"
    using sorted_sort_key [of slLogicalOff] by (simp add: plan sorted_wrt_map slice_iv_def)
  moreover have "hits x (map slice_iv (planRead frags off len)) = (if off \<le> x \<and> x < off + len then 1 else 0)" for x
    using hp(1) [of x] hits_mset [OF ms, of x] by (simp add: hits_Cons)
  moreover have "proper (map slice_iv (planRead frags off len))"
    using hp proper_mset [OF ms] by simp
  ultimately show "tiles off (off + len) (map slice_iv (planRead frags off len))"
    using r by (intro tiles_of_hits) auto
  have one: "\<exists>f \<in> set frags. \<forall>x. slice_loc s x = frag_loc f x \<and> (in_slice x s \<longrightarrow> is_newest frags x f)"
    if p: "(f, a, b) \<in> set ps" "s = emitSlice f a b" for f a b
  proof -
    note b = bp [OF p(1)]
    have "slice_iv s = (a, b)" using b r p(2) by (simp add: slice_iv_emit)
    then have iv: "in_slice x s \<longleftrightarrow> a \<le> x \<and> x < b" for x by (auto simp: in_slice_def slice_iv_def)
    have n: "is_newest frags x f" if "a \<le> x" "x < b" for x
      using desc.piece_newest [OF wf us, of f a b x] p that by (simp add: ps_def)
    then have "f \<in> set frags" using b by (auto simp: is_newest_def)
    then show ?thesis using n iv b slice_loc_emit [of f a b] p(2) by auto
  qed
  have src: "(\<exists>f a b. (f, a, b) \<in> set ps \<and> s = emitSlice f a b) \<and> \<not> slSparse s \<or>
      (\<exists>a b. (a, b) \<in> set rs \<and> s = sparseSlice (a, b)) \<and> slSparse s" if "s \<in> set (planRead frags off len)"
    using that by (auto simp: plan emitSlice_def sparseSlice_def)
  show "\<exists>f \<in> set frags. \<forall>x. slice_loc s x = frag_loc f x \<and> (in_slice x s \<longrightarrow> is_newest frags x f)"
    if "s \<in> set (planRead frags off len)" "\<not> slSparse s"
    using src that one by blast
  show "if slSparse s then \<forall>f \<in> set frags. \<not> covers f x
        else \<exists>f. is_newest frags x f \<and> slice_loc s x = frag_loc f x"
    if s: "s \<in> set (planRead frags off len)" "in_slice x s"
  proof (cases "slSparse s")
    case True
    then obtain a b where ab: "(a, b) \<in> set rs" "s = sparseSlice (a, b)" using src s(1) by blast
    note b = br [OF ab(1)]
    have "slice_iv s = (a, b)" using b r ab(2) by (simp add: slice_iv_emit)
    then have "a \<le> x" "x < b" using s(2) by (auto simp: in_slice_def slice_iv_def)
    then show ?thesis
      using desc.rest_uncovered [OF wf us, of a b x] ab True by (simp add: rs_def)
  next
    case False
    then show ?thesis using src s one by metis
  qed
qed

section \<open>canonicalView\<close>

lemma foldl_min_le:
  fixes g :: "'a \<Rightarrow> int"
  shows "foldl (\<lambda>m f. if g f < m then g f else m) m0 fs \<le> m0 \<and>
    (\<forall>f \<in> set fs. foldl (\<lambda>m f. if g f < m then g f else m) m0 fs \<le> g f) \<and>
    (\<forall>c. c \<le> m0 \<longrightarrow> (\<forall>f \<in> set fs. c \<le> g f) \<longrightarrow> c \<le> foldl (\<lambda>m f. if g f < m then g f else m) m0 fs)"
proof (induction fs arbitrary: m0)
  case (Cons a fs)
  show ?case using Cons.IH [of "if g a < m0 then g a else m0"] by (auto split: if_splits)
qed simp

lemma foldl_max_ge:
  fixes g :: "'a \<Rightarrow> int"
  shows "foldl (\<lambda>m f. if g f > m then g f else m) m0 fs \<ge> m0 \<and>
    (\<forall>f \<in> set fs. foldl (\<lambda>m f. if g f > m then g f else m) m0 fs \<ge> g f) \<and>
    (\<forall>c. c > m0 \<longrightarrow> (\<forall>f \<in> set fs. c > g f) \<longrightarrow> c > foldl (\<lambda>m f. if g f > m then g f else m) m0 fs)"
proof (induction fs arbitrary: m0)
  case (Cons a fs)
  show ?case using Cons.IH [of "if g a > m0 then g a else m0"] by (auto split: if_splits)
qed simp

definition frag_iv :: "Fragment \<Rightarrow> ivl" where
  "frag_iv f = (LogicalOff f, LogicalOff f + Length f)"

text \<open>
  The view is the sorted list of the pieces that the fragments cut out of one interval
  which contains them all.
\<close>

lemma canonicalView_pieces:
  assumes wf: "list_all wf_frag frags" and ne: "frags \<noteq> []"
  obtains lo hi where "canonicalView frags =
      sort_key LogicalOff (map (\<lambda>(f, a, b). emitFragment f a b) (pieces (sort_desc frags) [(lo, hi)]))"
    "lo < hi" "\<And>f. f \<in> set frags \<Longrightarrow> lo \<le> LogicalOff f \<and> fEnd f \<le> hi"
proof -
  obtain g gs where d: "sort_desc frags = g # gs"
    using ne by (metis desc.arrange_set list.exhaust set_empty)
  define lo where "lo = foldl (\<lambda>m f. if LogicalOff f < m then LogicalOff f else m) (LogicalOff g) gs"
  define hi where "hi = foldl (\<lambda>m f. if fEnd f > m then fEnd f else m) (fEnd g) gs"
  have st: "set frags = insert g (set gs)" using desc.arrange_set [of frags] d by simp
  have w: "wf_frag f" if "f \<in> set frags" for f using wf that by (simp add: list_all_iff)
  have L: "lo \<le> LogicalOff f" if "f \<in> set frags" for f
    using foldl_min_le [of LogicalOff "LogicalOff g" gs] that w
    by (auto simp: lo_def st wf_frag_def)
  have H: "fEnd f \<le> hi" if "f \<in> set frags" for f
    using foldl_max_ge [of "fEnd g" fEnd gs] that w
    by (auto simp: hi_def st wf_frag_def fEnd_wf)
  have g: "g \<in> set frags" using st by simp
  have "lo < hi" using L [OF g] H [OF g] wf_frag_proper [OF w [OF g]] by linarith
  moreover have "canonicalView frags =
      sort_key LogicalOff (map (\<lambda>(f, a, b). emitFragment f a b) (pieces (sort_desc frags) [(lo, hi)]))"
    by (simp only: canonicalView_def d list.case lo_def [symmetric] hi_def [symmetric] Let_def
        sweep_pieces case_prod_conv append_Nil)
  ultimately show ?thesis using L H by (intro that) auto
qed

lemma emitFragment_piece:
  assumes "wf_frag f" "LogicalOff f \<le> a" "a < b" "b \<le> fEnd f"
  shows "frag_iv (emitFragment f a b) = (a, b)" "wf_frag (emitFragment f a b)"
    "frag_loc (emitFragment f a b) x = frag_loc f x" "Seq (emitFragment f a b) = Seq f"
    "FTier (emitFragment f a b) = FTier f" "SegmentID (emitFragment f a b) = SegmentID f"
  using assms by (auto simp: frag_iv_def emitFragment_def frag_loc_def i64_small wf_frag_def fEnd_wf)

lemma canonicalView_Nil [simp]: "canonicalView [] = []"
  by (simp add: canonicalView_def sort_desc_def)

definition view_cut :: "Fragment list \<Rightarrow> (Fragment \<times> ivl) list \<Rightarrow> bool" where
  "view_cut frags ps \<longleftrightarrow>
     canonicalView frags = sort_key LogicalOff (map (\<lambda>(f, a, b). emitFragment f a b) ps) \<and>
     (\<forall>f p q. (f, p, q) \<in> set ps \<longrightarrow> wf_frag f \<and> f \<in> set frags \<and> LogicalOff f \<le> p \<and> p < q \<and> q \<le> fEnd f) \<and>
     (\<forall>f p q x. (f, p, q) \<in> set ps \<longrightarrow> p \<le> x \<longrightarrow> x < q \<longrightarrow> is_newest frags x f) \<and>
     (\<forall>x. hits x (map snd ps) = (if \<exists>f \<in> set frags. covers f x then 1 else 0))"

lemma view_cut_exists:
  assumes wf: "list_all wf_frag frags"
  shows "\<exists>ps. view_cut frags ps"
proof (cases "frags = []")
  case True
  then show ?thesis by (intro exI [of _ "[]"]) (simp add: view_cut_def)
next
  case False
  let ?fs = "sort_desc frags"
  obtain lo hi where c: "canonicalView frags =
      sort_key LogicalOff (map (\<lambda>(f, a, b). emitFragment f a b) (pieces ?fs [(lo, hi)]))"
    and b: "lo < hi" "\<And>f. f \<in> set frags \<Longrightarrow> lo \<le> LogicalOff f \<and> fEnd f \<le> hi"
    using canonicalView_pieces [OF wf False] by metis
  have us: "proper [(lo, hi)]" and wf': "list_all wf_frag ?fs"
    using b wf by (auto simp: list_all_iff desc.arrange_set)
  note hp = hits_partition [OF wf' us]
  have "wf_frag f \<and> f \<in> set frags \<and> LogicalOff f \<le> p \<and> p < q \<and> q \<le> fEnd f"
    if "(f, p, q) \<in> set (pieces ?fs [(lo, hi)])" for f p q
    using pieces_sub [OF that] that hp wf by (force simp: proper_def list_all_iff desc.arrange_set)
  moreover have "hits x (map snd (pieces ?fs [(lo, hi)])) = (if \<exists>f \<in> set frags. covers f x then 1 else 0)" for x
  proof -
    have "hits x [(lo, hi)] = 1" if "f \<in> set frags" "covers f x" for f
      using that b(2) [OF that(1)] covers_fEnd [of f x] wf by (auto simp: hits_Cons list_all_iff)
    then show ?thesis
      using hp [of x] hits_rest [OF wf' us, of x] by (auto simp: desc.arrange_set split: if_splits)
  qed
  ultimately have "view_cut frags (pieces ?fs [(lo, hi)])"
    using c desc.piece_newest [OF wf us] unfolding view_cut_def by blast
  then show ?thesis by blast
qed

lemma view_cut_elem:
  assumes "view_cut frags ps"
  shows "g \<in> set (canonicalView frags) \<longleftrightarrow> (\<exists>f p q. (f, p, q) \<in> set ps \<and> g = emitFragment f p q)"
  using assms by (force simp: view_cut_def)

lemma view_cut_piece:
  assumes "view_cut frags ps" "(f, p, q) \<in> set ps"
  shows "frag_iv (emitFragment f p q) = (p, q)" "wf_frag (emitFragment f p q)"
    "frag_loc (emitFragment f p q) x = frag_loc f x" "Seq (emitFragment f p q) = Seq f"
    "covers (emitFragment f p q) x \<longleftrightarrow> p \<le> x \<and> x < q"
proof -
  have b: "wf_frag f" "LogicalOff f \<le> p" "p < q" "q \<le> fEnd f" using assms by (auto simp: view_cut_def)
  show "frag_iv (emitFragment f p q) = (p, q)" "wf_frag (emitFragment f p q)"
    "frag_loc (emitFragment f p q) x = frag_loc f x" "Seq (emitFragment f p q) = Seq f"
    using emitFragment_piece [OF b] by auto
  then show "covers (emitFragment f p q) x \<longleftrightarrow> p \<le> x \<and> x < q"
    by (auto simp: frag_iv_def covers_def)
qed

lemma canonicalView_wf: "list_all wf_frag frags \<Longrightarrow> list_all wf_frag (canonicalView frags)"
  using view_cut_exists view_cut_elem view_cut_piece(2) by (fastforce simp: list_all_iff)

lemma canonicalView_disjoint:
  assumes "list_all wf_frag frags"
  shows "sorted_wrt (\<lambda>f g. LogicalOff f + Length f \<le> LogicalOff g) (canonicalView frags)"
proof -
  obtain ps where v: "view_cut frags ps" using view_cut_exists [OF assms] by blast
  have c: "canonicalView frags = sort_key LogicalOff (map (\<lambda>(f, a, b). emitFragment f a b) ps)"
    using v by (simp add: view_cut_def)
  have iv: "map frag_iv (map (\<lambda>(f, a, b). emitFragment f a b) ps) = map snd ps"
    using view_cut_piece(1) [OF v] by force
  have ms: "mset (map frag_iv (canonicalView frags)) = mset (map snd ps)"
    unfolding c iv [symmetric] by (metis mset_map mset_sort)
  have "sorted_wrt (\<lambda>u v. fst u \<le> fst v) (map frag_iv (canonicalView frags))"
    using sorted_sort_key [of LogicalOff] by (simp add: c sorted_wrt_map frag_iv_def)
  moreover have "hits x (map frag_iv (canonicalView frags)) \<le> 1" for x
    using v hits_mset [OF ms, of x] by (auto simp: view_cut_def)
  moreover have "proper (map frag_iv (canonicalView frags))"
    using v proper_mset [OF ms] by (force simp: view_cut_def proper_def)
  ultimately show ?thesis
    using disjoint_of_hits [of "map frag_iv (canonicalView frags)"] by (simp add: sorted_wrt_map frag_iv_def)
qed

lemma canonicalView_covers:
  assumes "list_all wf_frag frags"
  shows "(\<exists>g \<in> set (canonicalView frags). covers g x) \<longleftrightarrow> (\<exists>f \<in> set frags. covers f x)"
proof -
  obtain ps where v: "view_cut frags ps" using view_cut_exists [OF assms] by blast
  have "(\<exists>g \<in> set (canonicalView frags). covers g x) \<longleftrightarrow> 0 < hits x (map snd ps)"
    using view_cut_elem [OF v] view_cut_piece(5) [OF v] by (fastforce simp: hits_pos)
  then show ?thesis using v by (auto simp: view_cut_def)
qed

lemma canonicalView_newest:
  assumes "list_all wf_frag frags" "g \<in> set (canonicalView frags)" "covers g x"
  shows "\<exists>f. is_newest frags x f \<and> frag_loc g x = frag_loc f x \<and> Seq g = Seq f"
proof -
  obtain ps where v: "view_cut frags ps" using view_cut_exists [OF assms(1)] by blast
  obtain f p q where f: "(f, p, q) \<in> set ps" "g = emitFragment f p q"
    using view_cut_elem [OF v] assms(2) by blast
  then have "p \<le> x" "x < q" using view_cut_piece(5) [OF v f(1)] assms(3) by auto
  then have "is_newest frags x f" using v f(1) unfolding view_cut_def by blast
  then show ?thesis using view_cut_piece(3,4) [OF v f(1)] f(2) by auto
qed

text \<open>Each element of the view is a part of one of the fragments.\<close>

lemma canonicalView_part:
  assumes "list_all wf_frag frags" "g \<in> set (canonicalView frags)"
  shows "\<exists>f \<in> set frags. LogicalOff f \<le> LogicalOff g \<and> LogicalOff g + Length g \<le> LogicalOff f + Length f \<and>
    FTier g = FTier f \<and> SegmentID g = SegmentID f \<and>
    SegmentOffset g = SegmentOffset f + (LogicalOff g - LogicalOff f)"
proof -
  obtain ps where v: "view_cut frags ps" using view_cut_exists [OF assms(1)] by blast
  obtain f p q where f: "(f, p, q) \<in> set ps" "g = emitFragment f p q"
    using view_cut_elem [OF v] assms(2) by blast
  have b: "f \<in> set frags" "wf_frag f" "LogicalOff f \<le> p" "q \<le> fEnd f"
    using v f(1) unfolding view_cut_def by blast+
  have "frag_iv g = (p, q)" using view_cut_piece(1) [OF v f(1)] f(2) by simp
  moreover have "frag_loc g p = frag_loc f p" using view_cut_piece(3) [OF v f(1)] f(2) by simp
  ultimately show ?thesis
    using b fEnd_wf [OF b(2)] by (intro bexI [of _ f]) (auto simp: frag_iv_def frag_loc_def)
qed


section \<open>Properties\<close>

text \<open>
  C33: a read plan tiles the requested range from left to right without gap or overlap, and
  every byte of it is resolved to the newest fragment that covers it, at the right place in
  that fragment's segment; a byte is reported sparse exactly when no fragment covers it.
\<close>

theorem planRead_newest_wins:
  assumes "list_all wf_frag frags" "0 \<le> off" "0 < len" "off + len < 2 ^ 63"
  shows "tiles off (off + len) (map slice_iv (planRead frags off len)) \<and>
    (\<forall>s \<in> set (planRead frags off len). \<forall>x. in_slice x s \<longrightarrow>
      (if slSparse s then \<forall>f \<in> set frags. \<not> covers f x
       else \<exists>f. is_newest frags x f \<and> slice_loc s x = frag_loc f x))"
  using planRead_correct [OF assms] by blast

theorem planRead_newest_wins_witness:
  "let frags = [\<lparr>Seq = 1, LogicalOff = 0, Length = 20, FTier = TierHot, SegmentID = 1, SegmentOffset = 100\<rparr>,
                \<lparr>Seq = 2, LogicalOff = 5, Length = 10, FTier = TierHot, SegmentID = 1, SegmentOffset = 500\<rparr>]
   in list_all wf_frag frags \<and> tiles 0 25 (map slice_iv (planRead frags 0 25)) \<and>
     map slice_iv (planRead frags 0 25) = [(0, 5), (5, 15), (15, 20), (20, 25)]"
proof -
  let ?frags = "[\<lparr>Seq = 1, LogicalOff = 0, Length = 20, FTier = TierHot, SegmentID = 1, SegmentOffset = 100\<rparr>,
                \<lparr>Seq = 2, LogicalOff = 5, Length = 10, FTier = TierHot, SegmentID = 1, SegmentOffset = 500\<rparr>]"
  have wf: "list_all wf_frag ?frags" by (simp add: wf_frag_def)
  have "tiles 0 (0 + 25) (map slice_iv (planRead ?frags 0 25))"
    using planRead_newest_wins [OF wf, of 0 25] by simp
  moreover have "map slice_iv (planRead ?frags 0 25) = [(0, 5), (5, 15), (15, 20), (20, 25)]"
    by code_simp
  ultimately show ?thesis using wf by (simp add: Let_def)
qed

text \<open>
  C34: the canonical view of a stripe is a list of well-formed, disjoint fragments sorted by
  offset that covers the same bytes as the original fragments and locates each of them where
  the newest original fragment does.
\<close>

theorem canonicalView_same_bytes:
  assumes "list_all wf_frag frags"
  shows "list_all wf_frag (canonicalView frags) \<and>
    sorted_wrt (\<lambda>f g. LogicalOff f + Length f \<le> LogicalOff g) (canonicalView frags) \<and>
    (\<forall>x. (\<exists>g \<in> set (canonicalView frags). covers g x) \<longleftrightarrow> (\<exists>f \<in> set frags. covers f x)) \<and>
    (\<forall>g \<in> set (canonicalView frags). \<forall>x. covers g x \<longrightarrow>
       (\<exists>f. is_newest frags x f \<and> frag_loc g x = frag_loc f x \<and> Seq g = Seq f))"
  using canonicalView_wf [OF assms] canonicalView_disjoint [OF assms] canonicalView_covers [OF assms]
    canonicalView_newest [OF assms] by blast

theorem canonicalView_same_bytes_witness:
  "let frags = [\<lparr>Seq = 1, LogicalOff = 0, Length = 20, FTier = TierHot, SegmentID = 7, SegmentOffset = 100\<rparr>,
                \<lparr>Seq = 2, LogicalOff = 5, Length = 10, FTier = TierCold, SegmentID = 9, SegmentOffset = 500\<rparr>]
   in list_all wf_frag (canonicalView frags) \<and> map frag_iv (canonicalView frags) = [(0, 5), (5, 15), (15, 20)]"
proof -
  let ?frags = "[\<lparr>Seq = 1, LogicalOff = 0, Length = 20, FTier = TierHot, SegmentID = 7, SegmentOffset = 100\<rparr>,
                \<lparr>Seq = 2, LogicalOff = 5, Length = 10, FTier = TierCold, SegmentID = 9, SegmentOffset = 500\<rparr>]"
  have "list_all wf_frag (canonicalView ?frags)"
    using canonicalView_same_bytes [of ?frags] by (simp add: wf_frag_def)
  moreover have "map frag_iv (canonicalView ?frags) = [(0, 5), (5, 15), (15, 20)]"
    by code_simp
  ultimately show ?thesis by (simp add: Let_def)
qed

text \<open>
  Decoding the database value of a list of fragments whose offsets are 64-bit integers
  returns the list.
\<close>

theorem fragments_roundtrip:
  assumes "list_all i64_frag fs"
  shows "decodeFragments (encodeFragments fs) = fs"
  by (rule decode_encodeFragments [OF assms])

theorem fragments_roundtrip_witness:
  "let fs = [\<lparr>Seq = 1, LogicalOff = 0, Length = 1024, FTier = TierHot, SegmentID = 5, SegmentOffset = 4096\<rparr>]
   in decodeFragments (encodeFragments fs) = fs"
  unfolding Let_def by (rule fragments_roundtrip) (simp add: i64_frag_def in_i64_def)

end
