(* ===== verification/KV.thy ===== *)
theory KV
  imports Keys "HOL-Library.AList"
begin

text \<open>
  The key/value handle of \<open>src/kv/db.go\<close>. The engine behind it (Pebble) is a package of its
  own and is a parameter of the model: the record \<open>pebble\<close> holds the calls that the wrapper
  makes. What the rest of the program relies on is the locale \<open>pebble_engine\<close>: reads see
  the committed contents, an iterator yields the range in key order (or a part of it,
  with the error that its \<open>Close\<close> returns), and a commit is atomic. \<open>mem_pebble\<close> is a
  reference engine that satisfies the contract.
\<close>

section \<open>The engine as a parameter\<close>

datatype bop = BSet bytes bytes | BDelete bytes

type_synonym batch = "bop list"
type_synonym kvpair = "bytes \<times> bytes"

definition ErrNotFound :: goerr where
  "ErrNotFound = ErrText ''pebble: not found''"

record 'db pebble =
  p_get :: "'db \<Rightarrow> bytes \<Rightarrow> goerr + bytes"
  p_commit :: "'db \<Rightarrow> bool \<Rightarrow> batch \<Rightarrow> ('db, unit) outcome"
  p_iter :: "'db \<Rightarrow> bytes \<Rightarrow> bytes option \<Rightarrow> goerr + kvpair list \<times> goerr option"
  p_close :: "'db \<Rightarrow> ('db, unit) outcome"

section \<open>The wrapper\<close>

definition DB_Close :: "'db pebble \<Rightarrow> 'db \<Rightarrow> ('db, unit) outcome" where
  "DB_Close P db = p_close P db"

definition DB_Get :: "'db pebble \<Rightarrow> 'db \<Rightarrow> bytes \<Rightarrow> goerr + bytes option" where
  "DB_Get P db key = (case p_get P db key of
     Inl e \<Rightarrow> if e = ErrNotFound then Inr None else Inl e
   | Inr v \<Rightarrow> Inr (Some v))"

definition DB_Has :: "'db pebble \<Rightarrow> 'db \<Rightarrow> bytes \<Rightarrow> goerr + bool" where
  "DB_Has P db key = (case p_get P db key of
     Inl e \<Rightarrow> if e = ErrNotFound then Inr False else Inl e
   | Inr v \<Rightarrow> Inr True)"

definition DB_Iter :: "'db pebble \<Rightarrow> 'db \<Rightarrow> bytes \<Rightarrow> bytes option \<Rightarrow> goerr + kvpair list \<times> goerr option" where
  "DB_Iter P db lo hi = p_iter P db lo hi"

text \<open>A batch is the list of its queued operations; reads through it go to the database.\<close>

definition NewBatch :: batch where "NewBatch = []"

definition Batch_Get :: "'db pebble \<Rightarrow> 'db \<Rightarrow> batch \<Rightarrow> bytes \<Rightarrow> goerr + bytes option" where
  "Batch_Get P db b key = DB_Get P db key"

definition Batch_Has :: "'db pebble \<Rightarrow> 'db \<Rightarrow> batch \<Rightarrow> bytes \<Rightarrow> goerr + bool" where
  "Batch_Has P db b key = DB_Has P db key"

definition Batch_Set :: "bytes \<Rightarrow> bytes \<Rightarrow> batch \<Rightarrow> batch" where
  "Batch_Set key val b = b @ [BSet key val]"

definition Batch_Delete :: "bytes \<Rightarrow> batch \<Rightarrow> batch" where
  "Batch_Delete key b = b @ [BDelete key]"

definition Batch_Commit :: "'db pebble \<Rightarrow> 'db \<Rightarrow> batch \<Rightarrow> bool \<Rightarrow> ('db, unit) outcome" where
  "Batch_Commit P db b sync = p_commit P db sync b"

lemmas batch_defs = NewBatch_def Batch_Set_def Batch_Delete_def

section \<open>What a batch does\<close>

fun apply_op :: "(bytes \<rightharpoonup> bytes) \<Rightarrow> bop \<Rightarrow> (bytes \<rightharpoonup> bytes)" where
  "apply_op m (BSet k v) = m(k \<mapsto> v)"
| "apply_op m (BDelete k) = m(k := None)"

definition apply_ops :: "batch \<Rightarrow> (bytes \<rightharpoonup> bytes) \<Rightarrow> (bytes \<rightharpoonup> bytes)" where
  "apply_ops ops m = foldl apply_op m ops"

fun op_key :: "bop \<Rightarrow> bytes" where
  "op_key (BSet k v) = k"
| "op_key (BDelete k) = k"

lemma apply_ops_simps [simp]:
  "apply_ops [] m = m"
  "apply_ops (op # ops) m = apply_ops ops (apply_op m op)"
  "apply_ops (ops @ ops') m = apply_ops ops' (apply_ops ops m)"
  by (simp_all add: apply_ops_def)

lemma apply_ops_other: "k \<notin> op_key ` set ops \<Longrightarrow> apply_ops ops m k = m k"
proof (induction ops arbitrary: m)
  case (Cons op ops)
  then show ?case by (cases op) auto
qed simp

lemma apply_ops_local: "m k = m' k \<Longrightarrow> apply_ops ops m k = apply_ops ops m' k"
proof (induction ops arbitrary: m m')
  case (Cons op ops)
  have "apply_op m op k = apply_op m' op k" using Cons.prems by (cases op) simp_all
  then show ?case unfolding apply_ops_simps by (rule Cons.IH)
qed simp

lemma apply_ops_deletes: "k \<in> set ks \<Longrightarrow> apply_ops (map BDelete ks) m k = None"
proof (induction ks arbitrary: m)
  case (Cons a ks)
  then show ?case
    by (cases "k \<in> set ks") (auto simp: apply_ops_other image_image)
qed simp

lemma apply_ops_deletes_iff:
  "apply_ops (map BDelete ks) m k = (if k \<in> set ks then None else m k)"
  using apply_ops_deletes apply_ops_other [of k "map BDelete ks" m] by (auto simp: image_image)

lemma apply_ops_sets:
  "distinct (map fst kvs) \<Longrightarrow> apply_ops (map (\<lambda>(k, v). BSet k v) kvs) m k =
     (case map_of kvs k of Some v \<Rightarrow> Some v | None \<Rightarrow> m k)"
proof (induction kvs arbitrary: m)
  case (Cons kv kvs)
  obtain a b where kv: "kv = (a, b)" by fastforce
  have "map_of kvs a = None" using Cons.prems by (simp add: kv map_of_eq_None_iff)
  then show ?case using Cons by (cases "map_of kvs k") (auto simp: kv)
qed simp

section \<open>The engine's contract\<close>

text \<open>
  The contents that a complete scan of a range yields, in key order; the wrapper's
  iterators are compared with it.
\<close>

definition range_scan :: "(bytes \<rightharpoonup> bytes) \<Rightarrow> bytes \<Rightarrow> bytes option \<Rightarrow> kvpair list \<Rightarrow> bool" where
  "range_scan V lo hi kvs \<longleftrightarrow> sorted_wrt (<) (map fst kvs) \<and>
     set kvs = {(k, v). in_range lo hi k \<and> V k = Some v}"

lemma range_scan_distinct: "range_scan V lo hi kvs \<Longrightarrow> distinct (map fst kvs)"
  by (simp add: range_scan_def strict_sorted_iff)

lemma range_scan_mem: "range_scan V lo hi kvs \<Longrightarrow> (k, v) \<in> set kvs \<longleftrightarrow> in_range lo hi k \<and> V k = Some v"
  by (simp add: range_scan_def)

lemma range_scan_map_of:
  assumes "range_scan V lo hi kvs"
  shows "map_of kvs k = (if in_range lo hi k then V k else None)"
proof (cases "map_of kvs k")
  case None
  then have "(k, v) \<notin> set kvs" for v by (force simp: map_of_eq_None_iff)
  then have "in_range lo hi k \<Longrightarrow> V k \<noteq> Some v" for v using range_scan_mem [OF assms, of k v] by blast
  then show ?thesis using None by (cases "V k") auto
next
  case (Some v)
  then show ?thesis using range_scan_mem [OF assms, of k v] map_of_SomeD [OF Some] by auto
qed

locale pebble_engine =
  fixes P :: "'db pebble" and view :: "'db \<Rightarrow> bytes \<rightharpoonup> bytes"
  assumes get_found: "p_get P db k = Inr v \<Longrightarrow> view db k = Some v"
    and get_missing: "p_get P db k = Inl ErrNotFound \<Longrightarrow> view db k = None"
    and commit_ok: "p_commit P db sync ops = (db', Inr ()) \<Longrightarrow> view db' = apply_ops ops (view db)"
    and commit_fails: "p_commit P db sync ops = (db', Inl e) \<Longrightarrow>
      view db' = view db \<or> view db' = apply_ops ops (view db)"
    and iter_ok: "p_iter P db lo hi = Inr (kvs, None) \<Longrightarrow> range_scan (view db) lo hi kvs"
    and iter_stops: "p_iter P db lo hi = Inr (kvs, Some e) \<Longrightarrow>
      \<exists>rest. range_scan (view db) lo hi (kvs @ rest)"
begin

lemma DB_Get_view: "DB_Get P db k = Inr r \<Longrightarrow> r = view db k"
  using get_found get_missing by (auto simp: DB_Get_def split: sum.splits if_splits)

lemma DB_Has_view: "DB_Has P db k = Inr b \<Longrightarrow> b = (view db k \<noteq> None)"
  using get_found get_missing by (auto simp: DB_Has_def split: sum.splits if_splits)

lemma Batch_Get_view: "Batch_Get P db b k = Inr r \<Longrightarrow> r = view db k"
  by (simp add: Batch_Get_def DB_Get_view)

lemma Batch_Has_view: "Batch_Has P db b k = Inr h \<Longrightarrow> h = (view db k \<noteq> None)"
  using DB_Has_view by (simp add: Batch_Has_def)

lemma DB_Iter_view: "DB_Iter P db lo hi = Inr (kvs, None) \<Longrightarrow> range_scan (view db) lo hi kvs"
  by (simp add: DB_Iter_def iter_ok)

text \<open>A commit is atomic: all of the batch or nothing of it, and all of it on success.\<close>

lemma Batch_Commit_atomic:
  assumes "Batch_Commit P db b sync = (db', r)"
  shows "(r = Inr () \<longrightarrow> view db' = apply_ops b (view db)) \<and>
    (view db' = view db \<or> view db' = apply_ops b (view db))"
  using assms commit_ok commit_fails by (cases r) (auto simp: Batch_Commit_def)

end

text \<open>An engine that never fails, and the calls the wrapper makes on it.\<close>

locale reliable_pebble = pebble_engine +
  assumes get_total: "view db k = None \<Longrightarrow> p_get P db k = Inl ErrNotFound"
    "view db k = Some v \<Longrightarrow> p_get P db k = Inr v"
    and commit_total: "\<exists>db'. p_commit P db sync ops = (db', Inr ())"
    and iter_total: "\<exists>kvs. p_iter P db lo hi = Inr (kvs, None)"
begin

lemma DB_Get_total: "DB_Get P db k = Inr (view db k)"
  using get_total by (cases "view db k") (auto simp: DB_Get_def ErrNotFound_def)

lemma DB_Has_total: "DB_Has P db k = Inr (view db k \<noteq> None)"
  using get_total by (cases "view db k") (auto simp: DB_Has_def ErrNotFound_def)

lemma Batch_Commit_total: "\<exists>db'. Batch_Commit P db b sync = (db', Inr ()) \<and> view db' = apply_ops b (view db)"
  using commit_total [of db sync b] commit_ok by (auto simp: Batch_Commit_def)

end

section \<open>A reference engine\<close>

fun mem_op :: "kvpair list \<Rightarrow> bop \<Rightarrow> kvpair list" where
  "mem_op db (BSet k v) = AList.update k v db"
| "mem_op db (BDelete k) = AList.delete k db"

definition mem_scan :: "kvpair list \<Rightarrow> bytes \<Rightarrow> bytes option \<Rightarrow> kvpair list" where
  "mem_scan db lo hi = sort_key fst (filter (\<lambda>(k, v). in_range lo hi k) (AList.clearjunk db))"

definition mem_pebble :: "kvpair list pebble" where
  "mem_pebble = \<lparr>p_get = (\<lambda>db k. case map_of db k of Some v \<Rightarrow> Inr v | None \<Rightarrow> Inl ErrNotFound),
     p_commit = (\<lambda>db sync ops. (foldl mem_op db ops, Inr ())),
     p_iter = (\<lambda>db lo hi. Inr (mem_scan db lo hi, None)),
     p_close = (\<lambda>db. (db, Inr ()))\<rparr>"

lemma mem_pebble_sel [simp]:
  "p_get mem_pebble db k = (case map_of db k of Some v \<Rightarrow> Inr v | None \<Rightarrow> Inl ErrNotFound)"
  "p_commit mem_pebble db sync ops = (foldl mem_op db ops, Inr ())"
  "p_iter mem_pebble db lo hi = Inr (mem_scan db lo hi, None)"
  by (simp_all add: mem_pebble_def)

lemma map_of_mem_ops: "map_of (foldl mem_op db ops) = apply_ops ops (map_of db)"
proof (induction ops arbitrary: db)
  case (Cons op ops)
  then show ?case by (cases op) (simp_all add: update_conv' delete_conv' fun_upd_def)
qed simp

lemma mem_scan_range: "range_scan (map_of db) lo hi (mem_scan db lo hi)"
proof -
  let ?xs = "filter (\<lambda>(k, v). in_range lo hi k) (AList.clearjunk db)"
  have d: "distinct (map fst ?xs)"
    by (rule distinct_map_filter) simp
  then have "distinct (map fst (mem_scan db lo hi))"
    by (simp add: mem_scan_def distinct_map)
  moreover have "sorted (map fst (mem_scan db lo hi))" by (simp add: mem_scan_def)
  moreover have "(k, v) \<in> set (AList.clearjunk db) \<longleftrightarrow> map_of db k = Some v" for k v
    by (metis distinct_clearjunk map_of_clearjunk map_of_eq_Some_iff)
  ultimately show ?thesis by (auto simp: range_scan_def strict_sorted_iff mem_scan_def)
qed

interpretation mem: reliable_pebble mem_pebble map_of
proof unfold_locales
qed (auto simp: map_of_mem_ops mem_scan_range ErrNotFound_def split: option.splits)

end
