(* ===== verification/Index.thy ===== *)
theory Index
  imports Fragment KV "HOL-Library.Char_ord"
begin

text \<open>
  The L2 storage engine (\<open>src/index/index.go\<close>): the fragment index over the key/value
  handle and the two segment sets.

  The state of an \<open>Index\<close> is the database, the two sets, the sequence counter and the script
  of system-call results. An operation runs to its end before the next one starts, which is
  what the code's \<open>writeMu\<close> gives for everything but concurrent appends; where Go ranges
  over a map, the model visits the entries in the order in which they were inserted.
\<close>

section \<open>State\<close>

record 'db Index =
  ixStripeSize :: int
  ixDB :: 'db
  ixHot :: SegSet
  ixCold :: SegSet
  ixSeqGen :: u64
  ixOS :: os

definition setFor :: "'db Index \<Rightarrow> Tier \<Rightarrow> SegSet" where
  "setFor idx tier = (if tier = TierCold then ixCold idx else ixHot idx)"

definition put_set :: "Tier \<Rightarrow> SegSet \<Rightarrow> os \<Rightarrow> 'db Index \<Rightarrow> 'db Index" where
  "put_set tier ss osq idx = (if tier = TierCold then idx\<lparr>ixCold := ss, ixOS := osq\<rparr>
     else idx\<lparr>ixHot := ss, ixOS := osq\<rparr>)"

text \<open>A call on the set of a tier.\<close>

definition on_set :: "'db Index \<Rightarrow> Tier \<Rightarrow> (SegSet \<Rightarrow> os \<Rightarrow> (SegSet \<times> os, 'a) outcome)
    \<Rightarrow> ('db Index, 'a) outcome" where
  "on_set idx tier f = (case f (setFor idx tier) (ixOS idx) of
     ((ss, osq), r) \<Rightarrow> (put_set tier ss osq idx, r))"

definition stripeOf :: "'db Index \<Rightarrow> int \<Rightarrow> u32" where
  "stripeOf idx logicalOff = u32_of_int64 (go_div logicalOff (ixStripeSize idx))"

definition stripeEnd :: "'db Index \<Rightarrow> u32 \<Rightarrow> int" where
  "stripeEnd idx stripeID = i64 ((uint stripeID + 1) * ixStripeSize idx)"

definition nextSeq :: "'db Index \<Rightarrow> 'db Index \<times> u64" where
  "nextSeq idx = (idx\<lparr>ixSeqGen := ixSeqGen idx + 1\<rparr>, ixSeqGen idx + 1)"

definition commit_batch :: "'db pebble \<Rightarrow> 'db Index \<Rightarrow> batch \<Rightarrow> ('db Index, unit) outcome" where
  "commit_batch P idx b = (case Batch_Commit P (ixDB idx) b True of
     (db, r) \<Rightarrow> (idx\<lparr>ixDB := db\<rparr>, r))"

text \<open>An index expression that panics when the slice is too short.\<close>

definition or_panic :: "'a option \<Rightarrow> goerr + 'a" where
  "or_panic x = (case x of Some v \<Rightarrow> Inr v | None \<Rightarrow> Inl (Panic ''index out of range''))"

definition firstFragment :: "bytes \<Rightarrow> goerr + Fragment" where
  "firstFragment v = (case decodeFragments v of f # fs \<Rightarrow> Inr f | [] \<Rightarrow> Inl (Panic ''index out of range''))"

section \<open>Append\<close>

record AppendExtent =
  eSeq :: u64
  eOff :: int
  eData :: bytes
  eTier :: Tier

type_synonym pendings = "(u32 \<times> Fragment) list"
type_synonym touched = "(bool \<times> u32) list"

text \<open>
  Splitting a payload at the stripe boundaries. A chunk length that is not between one and
  the rest of the payload is the slice-bounds panic.
\<close>

definition chunk_len :: "'db Index \<Rightarrow> int \<Rightarrow> bytes \<Rightarrow> int" where
  "chunk_len idx off rem = (let n = int (length rem); se = stripeEnd idx (stripeOf idx off)
     in if i64 (off + n) > se then i64 (se - off) else n)"

function split_chunks :: "'db Index \<Rightarrow> int \<Rightarrow> bytes \<Rightarrow> Tier \<Rightarrow> ('db Index, AppendExtent list) outcome" where
  "split_chunks idx off rem tier =
     (if rem = [] then (idx, Inr [])
      else let n = chunk_len idx off rem; (idx1, sq) = nextSeq idx
        in if n \<le> 0 \<or> n > int (length rem) then (idx1, Inl (Panic ''slice bounds out of range''))
           else andThen (split_chunks idx1 (i64 (off + n)) (drop (nat n) rem) tier)
             (\<lambda>idx2 es. (idx2, Inr (\<lparr>eSeq = sq, eOff = off, eData = take (nat n) rem, eTier = tier\<rparr> # es))))"
  by pat_completeness auto
termination
  by (relation "measure (\<lambda>(idx, off, rem, tier). length rem)") auto

declare split_chunks.simps [simp del]

text \<open>
  The two calls that every write path makes for one record: the active segment with room
  for it, then the append.
\<close>

definition append_record :: "'db Index \<Rightarrow> Tier \<Rightarrow> RecordHeader \<Rightarrow> bytes \<Rightarrow> ('db Index, u32 \<times> int) outcome" where
  "append_record idx tier h d =
     andThen (on_set idx tier (\<lambda>ss osq. Set_Active ss osq (FramedSize (length d)))) (\<lambda>idx1 seg.
     andThen (on_set idx1 tier (\<lambda>ss osq. Segment_Append ss osq seg h d)) (\<lambda>idx2 off.
       (idx2, Inr (seg, off))))"

definition touch :: "Tier \<Rightarrow> u32 \<Rightarrow> touched \<Rightarrow> touched" where
  "touch tier seg ts = (let t = (tier = TierCold, seg) in if t \<in> set ts then ts else ts @ [t])"

fun stage_extents :: "'db Index \<Rightarrow> u64 \<Rightarrow> AppendExtent list \<Rightarrow> pendings \<Rightarrow> touched
    \<Rightarrow> ('db Index, pendings \<times> touched) outcome" where
  "stage_extents idx inode [] ps ts = (idx, Inr (ps, ts))"
| "stage_extents idx inode (e # es) ps ts =
     (let sid = stripeOf idx (eOff e); n = int (length (eData e))
      in if i64 (eOff e + n) > stripeEnd idx sid
         then (idx, Inl (ErrText ''index: AppendBatchCtx: extent straddles stripe boundary''))
         else andThen (append_record idx (eTier e)
                \<lparr>hInode = inode, hStripeID = sid, hSeq = eSeq e, hLogicalOff = eOff e,
                 hLength = u32_of_int64 n\<rparr> (eData e)) (\<lambda>idx1 (seg, off).
              stage_extents idx1 inode es
                (ps @ [(sid, \<lparr>Seq = eSeq e, LogicalOff = eOff e, Length = n, FTier = eTier e,
                              SegmentID = seg, SegmentOffset = off\<rparr>)])
                (touch (eTier e) seg ts)))"

fun sync_touched :: "'db Index \<Rightarrow> touched \<Rightarrow> ('db Index, unit) outcome" where
  "sync_touched idx [] = (idx, Inr ())"
| "sync_touched idx ((cold, seg) # ts) =
     andThen (on_set idx (if cold then TierCold else TierHot) (\<lambda>ss osq. Segment_Sync ss osq seg))
       (\<lambda>idx1 _. sync_touched idx1 ts)"

definition frag_batch :: "u64 \<Rightarrow> pendings \<Rightarrow> batch \<Rightarrow> batch" where
  "frag_batch inode ps b = foldl (\<lambda>b (sid, f).
     Batch_Set (FragmentKey inode sid (Seq f)) (encodeFragments [f]) b) b ps"

text \<open>A transaction hook reads the database and extends the batch.\<close>

type_synonym 'db txhook = "'db \<Rightarrow> batch \<Rightarrow> goerr + batch"

definition run_hook :: "'db pebble \<Rightarrow> 'db Index \<Rightarrow> 'db txhook option \<Rightarrow> batch \<Rightarrow> ('db Index, unit) outcome" where
  "run_hook P idx hook b = (case hook of
     None \<Rightarrow> commit_batch P idx b
   | Some h \<Rightarrow> (case h (ixDB idx) b of Inl e \<Rightarrow> (idx, Inl e) | Inr b' \<Rightarrow> commit_batch P idx b'))"

definition AppendBatch :: "'db pebble \<Rightarrow> 'db Index \<Rightarrow> u64 \<Rightarrow> AppendExtent list \<Rightarrow> 'db txhook option
    \<Rightarrow> ('db Index, unit) outcome" where
  "AppendBatch P idx inode extents hook =
     (if extents = []
      then (case hook of None \<Rightarrow> (idx, Inr ()) | Some _ \<Rightarrow> run_hook P idx hook NewBatch)
      else andThen (stage_extents idx inode extents [] []) (\<lambda>idx1 (ps, ts).
           andThen (sync_touched idx1 ts) (\<lambda>idx2 _.
             run_hook P idx2 hook (frag_batch inode ps NewBatch))))"

definition AppendToWithTx :: "'db pebble \<Rightarrow> 'db Index \<Rightarrow> u64 \<Rightarrow> int \<Rightarrow> bytes \<Rightarrow> Tier \<Rightarrow> 'db txhook option
    \<Rightarrow> ('db Index, unit) outcome" where
  "AppendToWithTx P idx inode logicalOff payload tier hook =
     (if payload = []
      then (case hook of None \<Rightarrow> (idx, Inr ()) | Some _ \<Rightarrow> run_hook P idx hook NewBatch)
      else andThen (split_chunks idx logicalOff payload tier) (\<lambda>idx1 extents.
           AppendBatch P idx1 inode extents hook))"

definition AppendTo :: "'db pebble \<Rightarrow> 'db Index \<Rightarrow> u64 \<Rightarrow> int \<Rightarrow> bytes \<Rightarrow> Tier \<Rightarrow> ('db Index, unit) outcome" where
  "AppendTo P idx inode logicalOff payload tier = AppendToWithTx P idx inode logicalOff payload tier None"

definition Append :: "'db pebble \<Rightarrow> 'db Index \<Rightarrow> u64 \<Rightarrow> int \<Rightarrow> bytes \<Rightarrow> ('db Index, unit) outcome" where
  "Append P idx inode logicalOff payload = AppendTo P idx inode logicalOff payload TierHot"

section \<open>Reading\<close>

text \<open>The error that closing the iterator reports is not looked at (\<open>defer it.Close()\<close>).\<close>

definition decode_entries :: "kvpair list \<Rightarrow> Fragment list" where
  "decode_entries kvs = concat (map (\<lambda>(k, v). if IsFragmentKey k then decodeFragments v else []) kvs)"

definition scan_fragments :: "'db pebble \<Rightarrow> 'db \<Rightarrow> bytes \<Rightarrow> bytes option \<Rightarrow> goerr + Fragment list" where
  "scan_fragments P db lo hi = bindE (DB_Iter P db lo hi) (\<lambda>(kvs, _). Inr (decode_entries kvs))"

definition fragmentsInRange :: "'db pebble \<Rightarrow> 'db Index \<Rightarrow> u64 \<Rightarrow> u32 \<Rightarrow> u32 \<Rightarrow> goerr + Fragment list" where
  "fragmentsInRange P idx inode first lst =
     scan_fragments P (ixDB idx) (FragmentStripePrefix inode first) (stripe_range_hi inode lst)"

definition FragmentsInRange :: "'db pebble \<Rightarrow> 'db Index \<Rightarrow> u64 \<Rightarrow> int \<Rightarrow> int \<Rightarrow> goerr + Fragment list" where
  "FragmentsInRange P idx inode off len =
     (if len \<le> 0 then Inr []
      else fragmentsInRange P idx inode (stripeOf idx off) (stripeOf idx (i64 (i64 (off + len) - 1))))"

definition Index_PlanRead :: "'db pebble \<Rightarrow> 'db Index \<Rightarrow> u64 \<Rightarrow> int \<Rightarrow> int \<Rightarrow> goerr + ReadSlice list" where
  "Index_PlanRead P idx inode off len =
     (if len \<le> 0 then Inr []
      else bindE (fragmentsInRange P idx inode (stripeOf idx off) (stripeOf idx (i64 (i64 (off + len) - 1))))
        (\<lambda>frags. Inr (planRead frags off len)))"

text \<open>\<open>ReadAt\<close> into a buffer of \<open>n\<close> bytes.\<close>

definition Index_ReadAt :: "'db Index \<Rightarrow> Locator \<Rightarrow> nat \<Rightarrow> ('db Index, bytes) outcome" where
  "Index_ReadAt idx loc n =
     (let ss = setFor idx (locTier loc)
      in case Set_Get ss (locSegmentID loc) of
           None \<Rightarrow> (idx, Inl (ErrText ''index: missing segment''))
         | Some _ \<Rightarrow>
             if int n > locLength loc \<and> locLength loc < 0 then (idx, Inl (Panic ''slice bounds out of range''))
             else (case Segment_ReadAt ss (ixOS idx) (locSegmentID loc)
                     (if int n > locLength loc then nat (locLength loc) else n) (locOffset loc) of
                   (osq, r) \<Rightarrow> (idx\<lparr>ixOS := osq\<rparr>, r)))"

definition FragmentsOf :: "'db pebble \<Rightarrow> 'db Index \<Rightarrow> u64 \<Rightarrow> u32 \<Rightarrow> goerr + Fragment list" where
  "FragmentsOf P idx inode stripeID = (let pre = FragmentStripePrefix inode stripeID
     in scan_fragments P (ixDB idx) pre (PrefixUpperBound pre))"

definition StripesOf :: "'db pebble \<Rightarrow> 'db Index \<Rightarrow> u64 \<Rightarrow> goerr + u32 list" where
  "StripesOf P idx inode = (let pre = StripePrefix inode
     in bindE (DB_Iter P (ixDB idx) pre (PrefixUpperBound pre)) (\<lambda>(kvs, _).
          Inr (sort (remdups (List.map_filter (\<lambda>(k, v).
            if IsFragmentKey k then StripeIDFromFragmentKey k else None) kvs)))))"

section \<open>Bulk sessions\<close>

record pendingFrag =
  pfStripeID :: u32
  pfLogicalOff :: int
  pfLength :: int
  pfSegmentID :: u32
  pfSegmentOffset :: int

record BulkSession =
  bsInode :: u64
  bsTier :: Tier
  bsPending :: "pendingFrag list"
  bsTouched :: touched

definition NewBulkSession :: "u64 \<Rightarrow> Tier \<Rightarrow> BulkSession" where
  "NewBulkSession inode tier = \<lparr>bsInode = inode, bsTier = tier, bsPending = [], bsTouched = []\<rparr>"

function BulkSession_Write :: "'db Index \<times> BulkSession \<Rightarrow> int \<Rightarrow> bytes \<Rightarrow> ('db Index \<times> BulkSession, unit) outcome" where
  "BulkSession_Write (idx, s) off rem =
     (if rem = [] then ((idx, s), Inr ())
      else let n = chunk_len idx off rem; sid = stripeOf idx off
        in if n \<le> 0 \<or> n > int (length rem)
           then (case on_set idx (bsTier s) (\<lambda>ss osq. Set_Active ss osq (int headerSize + n + int trailerSize)) of
               (idx1, Inl e) \<Rightarrow> ((idx1, s), Inl e)
             | (idx1, Inr seg) \<Rightarrow> ((idx1, s), Inl (Panic ''slice bounds out of range'')))
           else (case append_record idx (bsTier s)
                   \<lparr>hInode = bsInode s, hStripeID = sid, hSeq = 0, hLogicalOff = off, hLength = u32_of_int64 n\<rparr>
                   (take (nat n) rem) of
               (idx1, Inl e) \<Rightarrow> ((idx1, s), Inl e)
             | (idx1, Inr (seg, po)) \<Rightarrow>
                 BulkSession_Write (idx1, s\<lparr>bsTouched := touch (bsTier s) seg (bsTouched s),
                     bsPending := bsPending s @ [\<lparr>pfStripeID = sid, pfLogicalOff = off, pfLength = n,
                       pfSegmentID = seg, pfSegmentOffset = po\<rparr>]\<rparr>)
                   (i64 (off + n)) (drop (nat n) rem)))"
  by pat_completeness auto
termination
  by (relation "measure (\<lambda>(st, off, rem). length rem)") auto

declare BulkSession_Write.simps [simp del]

fun bulk_frags :: "'db Index \<Rightarrow> Tier \<Rightarrow> pendingFrag list \<Rightarrow> 'db Index \<times> pendings" where
  "bulk_frags idx tier [] = (idx, [])"
| "bulk_frags idx tier (p # ps) = (case nextSeq idx of (idx1, sq) \<Rightarrow>
     (case bulk_frags idx1 tier ps of (idx2, fs) \<Rightarrow>
       (idx2, (pfStripeID p, \<lparr>Seq = sq, LogicalOff = pfLogicalOff p, Length = pfLength p, FTier = tier,
          SegmentID = pfSegmentID p, SegmentOffset = pfSegmentOffset p\<rparr>) # fs)))"

definition BulkSession_Commit :: "'db pebble \<Rightarrow> 'db Index \<Rightarrow> BulkSession \<Rightarrow> ('db Index, unit) outcome" where
  "BulkSession_Commit P idx s = andThen (sync_touched idx (bsTouched s)) (\<lambda>idx1 _.
     case bulk_frags idx1 (bsTier s) (bsPending s) of (idx2, ps) \<Rightarrow>
       commit_batch P idx2 (frag_batch (bsInode s) ps NewBatch))"

definition BulkSession_Abort :: "BulkSession \<Rightarrow> BulkSession" where
  "BulkSession_Abort s = s\<lparr>bsPending := [], bsTouched := []\<rparr>"

section \<open>Truncate and delete\<close>

text \<open>What one entry of the inode contributes to the batch.\<close>

definition truncate_entry :: "'db Index \<Rightarrow> int \<Rightarrow> kvpair \<Rightarrow> goerr + batch" where
  "truncate_entry idx sz kv = (case kv of (k, v) \<Rightarrow>
     if \<not> IsFragmentKey k then Inr []
     else bindE (or_panic (StripeIDFromFragmentKey k)) (\<lambda>stripeID.
       if i64 (uint stripeID * ixStripeSize idx) \<ge> sz then Inr [BDelete k]
       else bindE (firstFragment v) (\<lambda>frag.
         if LogicalOff frag \<ge> sz then Inr [BDelete k]
         else if fEnd frag > sz
         then Inr [BSet k (encodeFragments [frag\<lparr>Length := i64 (sz - LogicalOff frag)\<rparr>])]
         else Inr [])))"

fun truncate_ops :: "'db Index \<Rightarrow> int \<Rightarrow> kvpair list \<Rightarrow> goerr + batch" where
  "truncate_ops idx sz [] = Inr []"
| "truncate_ops idx sz (kv # kvs) = bindE (truncate_entry idx sz kv) (\<lambda>ops.
     bindE (truncate_ops idx sz kvs) (\<lambda>ops'. Inr (ops @ ops')))"

definition Index_Truncate :: "'db pebble \<Rightarrow> 'db Index \<Rightarrow> u64 \<Rightarrow> int \<Rightarrow> ('db Index, unit) outcome" where
  "Index_Truncate P idx inode sz = (let pre = StripePrefix inode
     in case DB_Iter P (ixDB idx) pre (PrefixUpperBound pre) of
          Inl e \<Rightarrow> (idx, Inl e)
        | Inr (kvs, closeErr) \<Rightarrow>
            (case truncate_ops idx sz kvs of
               Inl e \<Rightarrow> (idx, Inl e)
             | Inr ops \<Rightarrow> (case closeErr of
                 Some e \<Rightarrow> (idx, Inl e)
               | None \<Rightarrow> commit_batch P idx ops)))"

definition DeleteInode :: "'db pebble \<Rightarrow> 'db Index \<Rightarrow> u64 \<Rightarrow> ('db Index, unit) outcome" where
  "DeleteInode P idx inode = (let pre = StripePrefix inode
     in case DB_Iter P (ixDB idx) pre (PrefixUpperBound pre) of
          Inl e \<Rightarrow> (idx, Inl e)
        | Inr (kvs, Some e) \<Rightarrow> (idx, Inl e)
        | Inr (kvs, None) \<Rightarrow>
            if kvs = [] then (idx, Inr ()) else commit_batch P idx (map (\<lambda>(k, v). BDelete k) kvs))"

end
