(* ===== verification/Maintenance.thy ===== *)
theory Maintenance
  imports Index
begin

text \<open>
  The maintenance operations of \<open>src/index/index.go\<close>: the stripe survey that the mover
  reads, \<open>Move\<close>, \<open>GC\<close>, the global sync, opening and closing the index, and the migration
  of the old blob-per-stripe layout to per-fragment keys.
\<close>

section \<open>Stripe survey\<close>

record StripeInfo =
  siInode :: u64
  siStripeID :: u32
  siHotBytes :: int
  siColdBytes :: int
  siLiveBytes :: int

record stripe_acc =
  saInode :: u64
  saStripe :: u32
  saFrags :: "Fragment list"
  saHot :: int
  saCold :: int

definition stripe_info :: "stripe_acc \<Rightarrow> StripeInfo" where
  "stripe_info a = \<lparr>siInode = saInode a, siStripeID = saStripe a, siHotBytes = saHot a,
     siColdBytes = saCold a,
     siLiveBytes = foldl (\<lambda>n f. i64 (n + Length f)) 0 (canonicalView (saFrags a))\<rparr>"

definition flush_stripe :: "('v \<Rightarrow> StripeInfo \<Rightarrow> 'v \<times> bool) \<Rightarrow> stripe_acc option \<Rightarrow> 'v \<Rightarrow> 'v \<times> bool" where
  "flush_stripe fn cur v = (case cur of None \<Rightarrow> (v, True) | Some a \<Rightarrow> fn v (stripe_info a))"

definition add_fragment :: "Fragment \<Rightarrow> stripe_acc \<Rightarrow> stripe_acc" where
  "add_fragment f a = a\<lparr>saFrags := saFrags a @ [f],
     saHot := (if FTier f = TierHot then i64 (saHot a + Length f) else saHot a),
     saCold := (if FTier f = TierCold then i64 (saCold a + Length f) else saCold a)\<rparr>"

fun iter_stripes :: "('v \<Rightarrow> StripeInfo \<Rightarrow> 'v \<times> bool) \<Rightarrow> kvpair list \<Rightarrow> stripe_acc option \<Rightarrow> 'v \<Rightarrow> 'v \<times> (goerr + unit)" where
  "iter_stripes fn [] cur v = (fst (flush_stripe fn cur v), Inr ())"
| "iter_stripes fn ((k, val) # kvs) cur v =
     (if \<not> IsFragmentKey k then iter_stripes fn kvs cur v
      else case (StripeInodeFromFragmentKey k, StripeIDFromFragmentKey k) of
        (Some ino, Some sid) \<Rightarrow>
          (let fresh = (case cur of None \<Rightarrow> True | Some a \<Rightarrow> ino \<noteq> saInode a \<or> sid \<noteq> saStripe a);
               (v1, go) = (if fresh then flush_stripe fn cur v else (v, True));
               a = (case cur of Some a \<Rightarrow> if fresh
                      then \<lparr>saInode = ino, saStripe = sid, saFrags = [], saHot = 0, saCold = 0\<rparr> else a
                    | None \<Rightarrow> \<lparr>saInode = ino, saStripe = sid, saFrags = [], saHot = 0, saCold = 0\<rparr>)
           in if \<not> go then (v1, Inr ())
              else (case firstFragment val of
                  Inl e \<Rightarrow> (v1, Inl e)
                | Inr f \<Rightarrow> iter_stripes fn kvs (Some (add_fragment f a)) v1))
      | _ \<Rightarrow> (v, Inl (Panic ''index out of range'')))"

definition IterStripes :: "'db pebble \<Rightarrow> 'db Index \<Rightarrow> ('v \<Rightarrow> StripeInfo \<Rightarrow> 'v \<times> bool) \<Rightarrow> 'v \<Rightarrow> 'v \<times> (goerr + unit)" where
  "IterStripes P idx fn v =
     (case DB_Iter P (ixDB idx) StripeAllPrefix (PrefixUpperBound StripeAllPrefix) of
        Inl e \<Rightarrow> (v, Inl e)
      | Inr (kvs, _) \<Rightarrow> iter_stripes fn kvs None v)"

section \<open>Move\<close>

definition read_source :: "'db Index \<Rightarrow> Fragment \<Rightarrow> ('db Index, bytes) outcome" where
  "read_source idx f =
     (if Length f < 0 then (idx, Inl (Panic ''makeslice: len out of range''))
      else case Set_Get (setFor idx (FTier f)) (SegmentID f) of
          None \<Rightarrow> (idx, Inl (ErrText ''index: Move: source segment missing''))
        | Some _ \<Rightarrow> (case Segment_ReadAt (setFor idx (FTier f)) (ixOS idx) (SegmentID f)
              (nat (Length f)) (SegmentOffset f) of (osq, r) \<Rightarrow> (idx\<lparr>ixOS := osq\<rparr>, r)))"

fun move_loop :: "'db Index \<Rightarrow> u64 \<Rightarrow> u32 \<Rightarrow> Tier \<Rightarrow> Fragment list \<Rightarrow> Fragment list
    \<Rightarrow> ('db Index, Fragment list) outcome" where
  "move_loop idx inode sid target [] newFrags = (idx, Inr newFrags)"
| "move_loop idx inode sid target (f # fs) newFrags = (case nextSeq idx of (idx1, newSeq) \<Rightarrow>
     if FTier f = target
     then move_loop idx1 inode sid target fs (newFrags @ [f\<lparr>Seq := newSeq\<rparr>])
     else andThen (read_source idx1 f) (\<lambda>idx2 buf.
          andThen (append_record idx2 target
            \<lparr>hInode = inode, hStripeID = sid, hSeq = newSeq, hLogicalOff = LogicalOff f,
             hLength = u32_of_int64 (int (length buf))\<rparr> buf) (\<lambda>idx3 (seg, off).
          andThen (on_set idx3 target (\<lambda>ss osq. Segment_Sync ss osq seg)) (\<lambda>idx4 _.
            move_loop idx4 inode sid target fs (newFrags @ [\<lparr>Seq = newSeq, LogicalOff = LogicalOff f,
              Length = Length f, FTier = target, SegmentID = seg, SegmentOffset = off\<rparr>])))))"

definition Move :: "'db pebble \<Rightarrow> 'db Index \<Rightarrow> u64 \<Rightarrow> u32 \<Rightarrow> Tier \<Rightarrow> ('db Index, unit) outcome" where
  "Move P idx inode sid target = (let pre = FragmentStripePrefix inode sid
     in case DB_Iter P (ixDB idx) pre (PrefixUpperBound pre) of
          Inl e \<Rightarrow> (idx, Inl e)
        | Inr (kvs, Some e) \<Rightarrow> (idx, Inl e)
        | Inr (kvs, None) \<Rightarrow>
            (let frags = decode_entries kvs; oldKeys = filter IsFragmentKey (map fst kvs)
             in if frags = [] then (idx, Inr ())
                else andThen (move_loop idx inode sid target (canonicalView frags) []) (\<lambda>idx1 newFrags.
                  commit_batch P idx1 (frag_batch inode (map (\<lambda>f. (sid, f)) newFrags)
                    (map BDelete oldKeys)))))"

section \<open>Garbage collection\<close>

text \<open>
  The referenced set has an inner map for the hot and the cold tier only: recording a
  fragment of any other tier is an assignment to a nil map.
\<close>

type_synonym refset = "(Tier \<times> u32) list"

definition add_ref :: "Tier \<Rightarrow> u32 \<Rightarrow> refset \<Rightarrow> goerr + refset" where
  "add_ref t i rs = (if t = TierHot \<or> t = TierCold then Inr (rs @ [(t, i)])
     else Inl (Panic ''assignment to entry in nil map''))"

fun add_refs :: "Fragment list \<Rightarrow> refset \<Rightarrow> goerr + refset" where
  "add_refs [] rs = Inr rs"
| "add_refs (f # fs) rs = bindE (add_ref (FTier f) (SegmentID f) rs) (add_refs fs)"

definition add_active :: "SegSet \<Rightarrow> refset \<Rightarrow> goerr + refset" where
  "add_active ss rs = (case Set_ActiveID ss of Some i \<Rightarrow> add_ref (ssTier ss) i rs | None \<Rightarrow> Inr rs)"

fun gc_segments :: "refset \<Rightarrow> u32 list \<Rightarrow> SegSet \<Rightarrow> os \<Rightarrow> (SegSet \<times> os, unit) outcome" where
  "gc_segments rs [] ss osq = ((ss, osq), Inr ())"
| "gc_segments rs (i # is) ss osq =
     (if (ssTier ss, i) \<in> set rs then gc_segments rs is ss osq
      else andThen (Set_Remove ss osq i) (\<lambda>(ss1, osq1) _. gc_segments rs is ss1 osq1))"

fun gc_strays :: "refset \<Rightarrow> string list \<Rightarrow> SegSet \<Rightarrow> os \<Rightarrow> (SegSet \<times> os, unit) outcome" where
  "gc_strays rs [] ss osq = ((ss, osq), Inr ())"
| "gc_strays rs (name # names) ss osq = (case parseSegName name of
     None \<Rightarrow> gc_strays rs names ss osq
   | Some i \<Rightarrow>
       if (ssTier ss, i) \<in> set rs \<or> Set_Get ss i \<noteq> None then gc_strays rs names ss osq
       else (case sys osq of
           (osq1, Inl e) \<Rightarrow> if e = ENOENT then gc_strays rs names ss osq1 else ((ss, osq1), Inl e)
         | (osq1, Inr _) \<Rightarrow> gc_strays rs names (ss\<lparr>ssDir := AList.delete name (ssDir ss)\<rparr>) osq1))"

definition gc_set :: "refset \<Rightarrow> SegSet \<Rightarrow> os \<Rightarrow> (SegSet \<times> os, unit) outcome" where
  "gc_set rs ss osq = andThen (gc_segments rs (Set_All ss) ss osq) (\<lambda>(ss1, osq1) _.
     case sys osq1 of
       (osq2, Inl e) \<Rightarrow> if e = ENOENT then ((ss1, osq2), Inr ()) else ((ss1, osq2), Inl e)
     | (osq2, Inr _) \<Rightarrow> gc_strays rs (sort (remdups (map fst (ssDir ss1)))) ss1 osq2)"

definition GC :: "'db pebble \<Rightarrow> 'db Index \<Rightarrow> ('db Index, unit) outcome" where
  "GC P idx =
     (case DB_Iter P (ixDB idx) StripeAllPrefix (PrefixUpperBound StripeAllPrefix) of
        Inl e \<Rightarrow> (idx, Inl e)
      | Inr (kvs, closeErr) \<Rightarrow>
          (case add_refs (decode_entries kvs) [] of
             Inl e \<Rightarrow> (idx, Inl e)
           | Inr rs \<Rightarrow>
               (case closeErr of
                  Some e \<Rightarrow> (idx, Inl e)
                | None \<Rightarrow>
                    (case bindE (add_active (ixHot idx) rs) (add_active (ixCold idx)) of
                       Inl e \<Rightarrow> (idx, Inl e)
                     | Inr rs' \<Rightarrow>
                         andThen (on_set idx TierHot (gc_set rs')) (\<lambda>idx1 _.
                           on_set idx1 TierCold (gc_set rs'))))))"

section \<open>Sizes, sync and close\<close>

definition SegmentIDs :: "'db Index \<Rightarrow> Tier \<Rightarrow> u32 list" where
  "SegmentIDs idx tier = Set_All (setFor idx tier)"

definition HotUsedBytes :: "'db Index \<Rightarrow> int" where
  "HotUsedBytes idx = foldl (\<lambda>n i. case Set_Get (ixHot idx) i of
     Some s \<Rightarrow> i64 (n + Segment_Size (ixHot idx) i) | None \<Rightarrow> n) 0 (Set_All (ixHot idx))"

definition Index_Sync :: "'db pebble \<Rightarrow> 'db Index \<Rightarrow> ('db Index, unit) outcome" where
  "Index_Sync P idx = andThen (on_set idx TierHot Set_SyncAll) (\<lambda>idx1 _.
     andThen (on_set idx1 TierCold Set_SyncAll) (\<lambda>idx2 _. commit_batch P idx2 NewBatch))"

definition first_err :: "(goerr + unit) list \<Rightarrow> goerr + unit" where
  "first_err rs = (case filter (\<lambda>r. r \<noteq> Inr ()) rs of [] \<Rightarrow> Inr () | r # _ \<Rightarrow> r)"

definition Index_Close :: "'db pebble \<Rightarrow> 'db Index \<Rightarrow> ('db Index, unit) outcome" where
  "Index_Close P idx =
     (let (idx1, r1) = on_set idx TierHot Set_SyncAll;
          (idx2, r2) = on_set idx1 TierCold Set_SyncAll;
          (db, r3) = DB_Close P (ixDB idx2);
          (idx4, r4) = on_set (idx2\<lparr>ixDB := db\<rparr>) TierHot Set_CloseAll;
          (idx5, r5) = on_set idx4 TierCold Set_CloseAll
      in (idx5, first_err [r1, r2, r3, r4, r5]))"

section \<open>Migration of stripe blobs, and opening\<close>

record migration =
  mgKeys :: "bytes list"
  mgSets :: "kvpair list"
  mgMaxSeq :: u64

definition max_seq :: "u64 \<Rightarrow> Fragment list \<Rightarrow> u64" where
  "max_seq m fs = foldl (\<lambda>m f. if Seq f > m then Seq f else m) m fs"

fun migrate_scan :: "kvpair list \<Rightarrow> migration \<Rightarrow> goerr + migration" where
  "migrate_scan [] m = Inr m"
| "migrate_scan ((k, v) # kvs) m =
     (if \<not> IsLegacyStripeKey k
      then (if IsFragmentKey k
            then bindE (or_panic (SeqFromFragmentKey k)) (\<lambda>s.
                   migrate_scan kvs (m\<lparr>mgMaxSeq := (if s > mgMaxSeq m then s else mgMaxSeq m)\<rparr>))
            else migrate_scan kvs m)
      else bindE (or_panic (StripeInodeFromFragmentKey k)) (\<lambda>inode.
           bindE (or_panic (StripeIDFromFragmentKey k)) (\<lambda>sid.
             migrate_scan kvs \<lparr>mgKeys = mgKeys m @ [k],
               mgSets = mgSets m @ map (\<lambda>f. (FragmentKey inode sid (Seq f), encodeFragments [f]))
                 (decodeFragments v),
               mgMaxSeq = max_seq (mgMaxSeq m) (decodeFragments v)\<rparr>)))"

definition migrateBlobsToFragments :: "'db pebble \<Rightarrow> 'db Index \<Rightarrow> ('db Index, unit) outcome" where
  "migrateBlobsToFragments P idx =
     (case DB_Iter P (ixDB idx) StripeAllPrefix (PrefixUpperBound StripeAllPrefix) of
        Inl e \<Rightarrow> (idx, Inl e)
      | Inr (kvs, closeErr) \<Rightarrow>
          (case migrate_scan kvs \<lparr>mgKeys = [], mgSets = [], mgMaxSeq = 0\<rparr> of
             Inl e \<Rightarrow> (idx, Inl e)
           | Inr m \<Rightarrow>
               (case closeErr of
                  Some e \<Rightarrow> (idx, Inl e)
                | None \<Rightarrow>
                    if mgKeys m = [] \<and> mgMaxSeq m = 0 then (idx, Inr ())
                    else let idx1 = (if ixSeqGen idx > mgMaxSeq m then idx
                                     else idx\<lparr>ixSeqGen := mgMaxSeq m + 1\<rparr>)
                      in if mgKeys m = [] then (idx1, Inr ())
                         else commit_batch P idx1
                           (map (\<lambda>(k, v). BSet k v) (mgSets m) @ map BDelete (mgKeys m)))))"

record Config =
  cfgHotDir :: string
  cfgColdDir :: string
  cfgDBPath :: string
  cfgStripeSize :: int
  cfgSegmentMaxSize :: int
  cfgRoot :: string

definition DefaultStripeSize :: int where "DefaultStripeSize = 64 * 2 ^ 20"
definition DefaultSegmentMaxSize :: int where "DefaultSegmentMaxSize = 2 ^ 30"

text \<open>
  The defaults and checks at the start of \<open>Open\<close>. The paths matter only as far as they are
  empty or not.
\<close>

definition open_config :: "Config \<Rightarrow> goerr + Config" where
  "open_config c0 =
     (let c1 = (if cfgRoot c0 \<noteq> [] \<and> cfgHotDir c0 = [] then c0\<lparr>cfgHotDir := cfgRoot c0 @ ''/hot''\<rparr> else c0);
          c2 = (if cfgRoot c1 \<noteq> [] \<and> cfgColdDir c1 = [] then c1\<lparr>cfgColdDir := cfgRoot c1 @ ''/cold''\<rparr> else c1)
      in if cfgHotDir c2 = [] \<or> cfgColdDir c2 = []
         then Inl (ErrText ''index: HotDir and ColdDir are required (or Root for tests)'')
         else let c3 = (if cfgStripeSize c2 = 0 then c2\<lparr>cfgStripeSize := DefaultStripeSize\<rparr> else c2);
                  c4 = (if cfgSegmentMaxSize c3 = 0 then c3\<lparr>cfgSegmentMaxSize := DefaultSegmentMaxSize\<rparr> else c3)
           in if cfgStripeSize c4 \<le> 0 \<or> and (cfgStripeSize c4) (i64 (cfgStripeSize c4 - 1)) \<noteq> 0
              then Inl (ErrText ''index: StripeSize must be a positive power of 2'')
              else Inr c4)"

text \<open>
  Opening. The migration from the old database and the opening of the database belong to
  packages outside the model: their results are arguments. What is on disk is carried by the
  state also when opening fails.
\<close>

definition closed_set :: "dir \<Rightarrow> Tier \<Rightarrow> int \<Rightarrow> SegSet" where
  "closed_set d tier m = \<lparr>ssDir = d, ssTier = tier, ssMaxSize = m, ssSegments = [], ssActive = None, ssNextID = 0\<rparr>"

definition sys_idx :: "'db Index \<Rightarrow> ('db Index, unit) outcome" where
  "sys_idx idx = (case sys (ixOS idx) of (osq, r) \<Rightarrow> (idx\<lparr>ixOS := osq\<rparr>, r))"

definition Index_Open :: "'db pebble \<Rightarrow> (goerr + unit) \<Rightarrow> 'db \<times> (goerr + unit) \<Rightarrow> Config \<Rightarrow> dir \<Rightarrow> dir \<Rightarrow> u64 \<Rightarrow> os
    \<Rightarrow> ('db Index, unit) outcome" where
  "Index_Open P migrate opened cfg hotdir colddir now osq =
     (let idx0 = (\<lambda>ss m. \<lparr>ixStripeSize = ss, ixDB = fst opened, ixHot = closed_set hotdir TierHot m,
            ixCold = closed_set colddir TierCold m, ixSeqGen = 0, ixOS = osq\<rparr>)
      in case open_config cfg of
        Inl e \<Rightarrow> (idx0 (cfgStripeSize cfg) (cfgSegmentMaxSize cfg), Inl e)
      | Inr c \<Rightarrow>
          (let mx = cfgSegmentMaxSize c in
           andThen (sys_idx (idx0 (cfgStripeSize c) mx)) (\<lambda>idx1 _.
           andThen (sys_idx idx1) (\<lambda>idx2 _.
           andThen (idx2, migrate) (\<lambda>idx3 _.
           andThen (idx3, snd opened) (\<lambda>idx4 _.
           andThen (on_set idx4 TierHot (\<lambda>ss osq. OpenSet (ssDir ss) osq TierHot mx)) (\<lambda>idx5 _.
           andThen (on_set idx5 TierCold (\<lambda>ss osq. OpenSet (ssDir ss) osq TierCold mx)) (\<lambda>idx6 _.
           andThen (on_set idx6 TierHot Set_RepairTail) (\<lambda>idx7 _.
           andThen (on_set idx7 TierCold Set_RepairTail) (\<lambda>idx8 _.
             migrateBlobsToFragments P (idx8\<lparr>ixSeqGen := now\<rparr>)))))))))))"

end
