(* ===== verification/Mover.thy ===== *)
theory Mover
  imports Maintenance
begin

text \<open>
  The background policies (\<open>src/mover/mover.go\<close>): eviction of hot stripes under pressure,
  periodic garbage collection, the loop around them with its exponential backoff, and the
  counters. Cancellation and the durations that are measured are arguments: \<open>cancelled i\<close> says
  whether the context is done when it is looked at for the \<open>i\<close>-th time, \<open>dur i\<close> is the \<open>i\<close>-th
  measured duration. Logging is left out.
\<close>

section \<open>Configuration and counters\<close>

record MoverConfig =
  mcHotMaxBytes :: int
  mcHotTargetBytes :: int
  mcTick :: int
  mcMaxBackoff :: int

record Stats =
  EvictRuns :: int
  GCRuns :: int
  MovesOK :: int
  MoveFailures :: int
  BytesMoved :: int
  ConsecutiveErrs :: int
  LastTickUnix :: int
  LastErrorUnix :: int
  MoveDurationNanos :: int
  GCDurationNanos :: int

definition zero_stats :: Stats where
  "zero_stats = \<lparr>EvictRuns = 0, GCRuns = 0, MovesOK = 0, MoveFailures = 0, BytesMoved = 0, ConsecutiveErrs = 0,
     LastTickUnix = 0, LastErrorUnix = 0, MoveDurationNanos = 0, GCDurationNanos = 0\<rparr>"

text \<open>The defaults of \<open>Start\<close>; \<open>four_fifths\<close> is the floating-point product with 0.8, cut to an integer.\<close>

definition start_config :: "(int \<Rightarrow> int) \<Rightarrow> MoverConfig \<Rightarrow> MoverConfig" where
  "start_config four_fifths cfg0 =
     (let c1 = (if mcTick cfg0 = 0 then cfg0\<lparr>mcTick := 30 * 10 ^ 9\<rparr> else cfg0);
          c2 = (if mcMaxBackoff c1 = 0 then c1\<lparr>mcMaxBackoff := 5 * 60 * 10 ^ 9\<rparr> else c1)
      in if mcHotTargetBytes c2 = 0 \<and> mcHotMaxBytes c2 > 0
         then c2\<lparr>mcHotTargetBytes := four_fifths (mcHotMaxBytes c2)\<rparr> else c2)"

section \<open>Backoff\<close>

fun backoff_loop :: "nat \<Rightarrow> int \<Rightarrow> int \<Rightarrow> int" where
  "backoff_loop 0 mx d = d"
| "backoff_loop (Suc n) mx d = (if d < mx then backoff_loop n mx (i64 (d * 2)) else d)"

definition backoff :: "int \<Rightarrow> int \<Rightarrow> int \<Rightarrow> int" where
  "backoff base mx consec = (if consec \<le> 0 then base
     else let d = backoff_loop (nat consec) mx base in if d > mx then mx else d)"

section \<open>Eviction\<close>

type_synonym cand = "u64 \<times> u32 \<times> int"

definition evict_visit :: "int \<Rightarrow> cand list \<times> int \<Rightarrow> StripeInfo \<Rightarrow> (cand list \<times> int) \<times> bool" where
  "evict_visit want acc s = (case acc of (cands, queued) \<Rightarrow>
     if siHotBytes s = 0 then (acc, True)
     else let q = i64 (queued + siHotBytes s)
       in ((cands @ [(siInode s, siStripeID s, siHotBytes s)], q), q < i64 (want * 2)))"

fun evict_loop :: "'db pebble \<Rightarrow> int \<Rightarrow> (nat \<Rightarrow> goerr option) \<Rightarrow> (nat \<Rightarrow> int) \<Rightarrow> nat \<Rightarrow> cand list
    \<Rightarrow> Stats \<times> 'db Index \<Rightarrow> (Stats \<times> 'db Index, unit) outcome" where
  "evict_loop P target cancelled dur i [] st = (st, Inr ())"
| "evict_loop P target cancelled dur i ((ino, sid, hot) # cs) (m, idx) = (case cancelled i of
     Some e \<Rightarrow> ((m, idx), Inl e)
   | None \<Rightarrow>
       if HotUsedBytes idx \<le> target then ((m, idx), Inr ())
       else case Move P idx ino sid TierCold of
           (idx1, Inl (Panic p)) \<Rightarrow> ((m, idx1), Inl (Panic p))
         | (idx1, Inl e) \<Rightarrow> evict_loop P target cancelled dur (Suc i) cs (m\<lparr>MoveFailures := i64 (MoveFailures m + 1)\<rparr>, idx1)
         | (idx1, Inr _) \<Rightarrow> evict_loop P target cancelled dur (Suc i) cs
             (m\<lparr>MoveDurationNanos := i64 (MoveDurationNanos m + dur i), MovesOK := i64 (MovesOK m + 1),
                BytesMoved := i64 (BytesMoved m + hot)\<rparr>, idx1))"

definition evictOnce :: "'db pebble \<Rightarrow> MoverConfig \<Rightarrow> (nat \<Rightarrow> goerr option) \<Rightarrow> (nat \<Rightarrow> int) \<Rightarrow> Stats \<times> 'db Index
    \<Rightarrow> (Stats \<times> 'db Index, unit) outcome" where
  "evictOnce P cfg cancelled dur st = (case st of (m0, idx) \<Rightarrow>
     let m = m0\<lparr>EvictRuns := i64 (EvictRuns m0 + 1)\<rparr>; used = HotUsedBytes idx
     in if mcHotMaxBytes cfg \<le> 0 \<or> used \<le> mcHotMaxBytes cfg then ((m, idx), Inr ())
        else case IterStripes P idx (evict_visit (i64 (used - mcHotTargetBytes cfg))) ([], 0) of
            (_, Inl e) \<Rightarrow> ((m, idx), Inl e)
          | ((cands, _), Inr _) \<Rightarrow> evict_loop P (mcHotTargetBytes cfg) cancelled dur 0 cands (m, idx))"

section \<open>Garbage collection and the loop\<close>

definition gcOnce :: "'db pebble \<Rightarrow> int \<Rightarrow> Stats \<times> 'db Index \<Rightarrow> (Stats \<times> 'db Index, unit) outcome" where
  "gcOnce P dur st = (case st of (m, idx) \<Rightarrow> (case GC P idx of (idx1, r) \<Rightarrow>
     ((m\<lparr>GCRuns := i64 (GCRuns m + 1), GCDurationNanos := i64 (GCDurationNanos m + dur)\<rparr>, idx1), r)))"

definition RunOnce :: "'db pebble \<Rightarrow> MoverConfig \<Rightarrow> (nat \<Rightarrow> int) \<Rightarrow> int \<Rightarrow> Stats \<times> 'db Index
    \<Rightarrow> (Stats \<times> 'db Index, unit) outcome" where
  "RunOnce P cfg dur gcdur st = andThen (evictOnce P cfg (\<lambda>_. None) dur st) (\<lambda>st1 _. gcOnce P gcdur st1)"

text \<open>
  One turn of the loop after its sleep: \<open>None\<close> when the loop exits (a panic ends it with the
  process), otherwise the next delay. \<open>ctxErr\<close> is what \<open>ctx.Err()\<close> says after a failed eviction.
\<close>

fun panicked :: "goerr + unit \<Rightarrow> bool" where
  "panicked (Inl (Panic p)) = True"
| "panicked _ = False"

definition loop_turn :: "'db pebble \<Rightarrow> MoverConfig \<Rightarrow> (nat \<Rightarrow> goerr option) \<Rightarrow> bool \<Rightarrow> (nat \<Rightarrow> int) \<Rightarrow> int \<Rightarrow> int
    \<Rightarrow> Stats \<times> 'db Index \<Rightarrow> (Stats \<times> 'db Index) \<times> int option" where
  "loop_turn P cfg cancelled ctxErr dur gcdur unixNow st = (case evictOnce P cfg cancelled dur st of (st1, r1) \<Rightarrow>
     if panicked r1 \<or> r1 \<noteq> Inr () \<and> ctxErr then (st1, None)
     else case gcOnce P gcdur st1 of ((m, idx), r2) \<Rightarrow>
       if panicked r2 then ((m, idx), None)
       else let m1 = m\<lparr>LastTickUnix := unixNow\<rparr>
       in if r1 \<noteq> Inr () \<or> r2 \<noteq> Inr ()
          then let c = i64 (ConsecutiveErrs m1 + 1)
            in ((m1\<lparr>ConsecutiveErrs := c, LastErrorUnix := unixNow\<rparr>, idx),
                Some (backoff (mcTick cfg) (mcMaxBackoff cfg) c))
          else ((m1\<lparr>ConsecutiveErrs := 0\<rparr>, idx), Some (mcTick cfg)))"

text \<open>
  The loop over the wake-ups of its \<open>select\<close>: \<open>None\<close> when the context is done, otherwise what the
  turn after the sleep meets. The result has the delays that were slept.
\<close>

record turn =
  tnCancelled :: "nat \<Rightarrow> goerr option"
  tnCtxErr :: bool
  tnDur :: "nat \<Rightarrow> int"
  tnGCDur :: int
  tnNow :: int

fun mover_loop :: "'db pebble \<Rightarrow> MoverConfig \<Rightarrow> turn option list \<Rightarrow> int \<Rightarrow> Stats \<times> 'db Index \<Rightarrow> (Stats \<times> 'db Index) \<times> int list" where
  "mover_loop P cfg [] delay st = (st, [])"
| "mover_loop P cfg (None # ws) delay st = (st, [])"
| "mover_loop P cfg (Some t # ws) delay st =
     (case loop_turn P cfg (tnCancelled t) (tnCtxErr t) (tnDur t) (tnGCDur t) (tnNow t) st of
        (st1, None) \<Rightarrow> (st1, [delay])
      | (st1, Some d) \<Rightarrow> (case mover_loop P cfg ws d st1 of (st2, ds) \<Rightarrow> (st2, delay # ds)))"

definition mover_run :: "'db pebble \<Rightarrow> MoverConfig \<Rightarrow> turn option list \<Rightarrow> Stats \<times> 'db Index \<Rightarrow> (Stats \<times> 'db Index) \<times> int list" where
  "mover_run P cfg ws st = mover_loop P cfg ws (mcTick cfg) st"

section \<open>Backoff is bounded\<close>

lemma backoff_loop_stop: "mx \<le> d \<Longrightarrow> backoff_loop n mx d = d"
  by (cases n) simp_all

lemma backoff_loop_value:
  assumes "0 < mx" "mx < 2 ^ 62"
  shows "0 < d \<Longrightarrow> d < 2 ^ 62 \<Longrightarrow> min mx (backoff_loop n mx d) = min mx (d * 2 ^ n) \<and> 0 < backoff_loop n mx d"
proof (induction n arbitrary: d)
  case (Suc n)
  have grow: "c \<le> c * 2 ^ k" if "0 < c" for c :: int and k :: nat
    using mult_left_mono [of 1 "2 ^ k" c] that by simp
  show ?case
  proof (cases "d < mx")
    case True
    have w: "i64 (d * 2) = d * 2" using Suc.prems by (simp add: i64_small)
    show ?thesis
    proof (cases "d * 2 < 2 ^ 62")
      case True
      then show ?thesis using Suc.IH [of "d * 2"] Suc.prems \<open>d < mx\<close> w by (simp add: mult.assoc)
    next
      case False
      then have "mx < d * 2" using assms(2) by simp
      moreover have "d * 2 \<le> d * 2 * 2 ^ n" using grow Suc.prems by simp
      ultimately have "mx < d * (2 * 2 ^ n)" by (simp add: mult.assoc)
      then show ?thesis using \<open>mx < d * 2\<close> Suc.prems \<open>d < mx\<close> w by (simp add: backoff_loop_stop)
    qed
  next
    case False
    moreover have "d \<le> d * 2 ^ Suc n" by (rule grow [OF Suc.prems(1)])
    ultimately have "mx \<le> d * 2 ^ Suc n" by linarith
    then show ?thesis using False Suc.prems by (simp add: min_absorb1)
  qed
qed simp

lemma backoff_bounds:
  assumes "0 < base" "base < 2 ^ 62" "0 < mx" "mx < 2 ^ 62"
  shows "0 < backoff base mx consec" "backoff base mx consec \<le> max base mx"
  using backoff_loop_value [OF assms(3,4,1,2), of "nat consec"] assms by (auto simp: backoff_def Let_def)

lemma loop_turn_delay:
  assumes "0 < mcTick cfg" "mcTick cfg < 2 ^ 62" "0 < mcMaxBackoff cfg" "mcMaxBackoff cfg < 2 ^ 62"
    and "loop_turn P cfg cancelled ctxErr dur gcdur now st = (st', Some d)"
  shows "0 < d \<and> d \<le> max (mcTick cfg) (mcMaxBackoff cfg)"
  using assms(5) assms(1) backoff_bounds [OF assms(1-4)]
  by (auto simp: loop_turn_def Let_def split: prod.splits if_splits)

text \<open>The loop never spins and never sleeps longer than its tick or its cap.\<close>

theorem mover_delays_bounded:
  assumes "0 < mcTick cfg" "mcTick cfg < 2 ^ 62" "0 < mcMaxBackoff cfg" "mcMaxBackoff cfg < 2 ^ 62"
    and "d \<in> set (snd (mover_run P cfg ws st))"
  shows "0 < d \<and> d \<le> max (mcTick cfg) (mcMaxBackoff cfg)"
proof -
  define ok where "ok = (\<lambda>d. 0 < d \<and> d \<le> max (mcTick cfg) (mcMaxBackoff cfg))"
  have "ok delay \<Longrightarrow> \<forall>d \<in> set (snd (mover_loop P cfg ws delay st)). ok d" for delay
  proof (induction ws arbitrary: delay st)
    case (Cons w ws)
    show ?case
    proof (cases w)
      case (Some t)
      obtain st1 r where r: "loop_turn P cfg (tnCancelled t) (tnCtxErr t) (tnDur t) (tnGCDur t) (tnNow t) st = (st1, r)" by fastforce
      show ?thesis
      proof (cases r)
        case None
        then show ?thesis using Cons.prems Some r by simp
      next
        case d: (Some d)
        obtain st2 ds where m: "mover_loop P cfg ws d st1 = (st2, ds)" by fastforce
        have "ok d" using loop_turn_delay [OF assms(1-4), of P "tnCancelled t" "tnCtxErr t"] r d unfolding ok_def by blast
        then have "\<forall>d \<in> set ds. ok d" using Cons.IH [of d st1] m by simp
        then show ?thesis using Cons.prems Some r d m by simp
      qed
    qed simp
  qed simp
  moreover have "ok (mcTick cfg)" using assms(1) by (simp add: ok_def)
  ultimately have "ok d" using assms(5) unfolding mover_run_def by blast
  then show ?thesis by (simp add: ok_def)
qed

text \<open>
  C24: after \<open>consec\<close> failing ticks in a row the loop sleeps for the tick doubled that many
  times, capped by the maximum: the delay is never zero or negative and never above the cap.
\<close>

theorem backoff_value:
  assumes "0 < base" "base < 2 ^ 62" "0 < mx" "mx < 2 ^ 62"
  shows "backoff base mx consec = (if consec \<le> 0 then base else min mx (base * 2 ^ nat consec)) \<and>
    0 < backoff base mx consec \<and> (0 < consec \<longrightarrow> backoff base mx consec \<le> mx)"
  using backoff_loop_value [OF assms(3,4,1,2), of "nat consec"] assms
  by (auto simp: backoff_def Let_def min_def split: if_splits)

theorem backoff_value_witness:
  "backoff (30 * 10 ^ 9) (300 * 10 ^ 9) 2 = 120 * 10 ^ 9 \<and> backoff (30 * 10 ^ 9) (300 * 10 ^ 9) 50 = 300 * 10 ^ 9"
  using backoff_value [of "30 * 10 ^ 9" "300 * 10 ^ 9" 2] backoff_value [of "30 * 10 ^ 9" "300 * 10 ^ 9" 50]
  by simp

end
