(* ===== verification/Index_State.thy ===== *)
theory Index_State
  imports Maintenance Segment_Sets
begin

text \<open>
  The invariant of the index and the file contents it stands for.

  \<open>index_ok\<close> says that both segment sets are in order and that every fragment the database
  holds is stored under its own key, lies inside its stripe, and points at bytes that exist
  and are durable. \<open>file_byte\<close> is the abstract content of a file: the byte that the newest
  fragment covering an offset points at.
\<close>

section \<open>Segment sets of an index\<close>

definition ix_ok :: "'db Index \<Rightarrow> bool" where
  "ix_ok idx \<longleftrightarrow> set_ok (ixHot idx) \<and> set_ok (ixCold idx) \<and> ssTier (ixHot idx) = TierHot \<and>
     ssTier (ixCold idx) = TierCold \<and> no_partial (ixOS idx) \<and> 0 < ixStripeSize idx"

definition ix_extends :: "'db Index \<Rightarrow> 'db Index \<Rightarrow> bool" where
  "ix_extends idx idx' \<longleftrightarrow> ixStripeSize idx' = ixStripeSize idx \<and>
     set_extends (ixHot idx) (ixHot idx') \<and> set_extends (ixCold idx) (ixCold idx')"

text \<open>A step of the write path: it only grows the segments and leaves the database alone.\<close>

definition ix_step :: "'db Index \<Rightarrow> 'db Index \<Rightarrow> bool" where
  "ix_step idx idx' \<longleftrightarrow> ix_ok idx' \<and> ix_extends idx idx' \<and> ixDB idx' = ixDB idx \<and> ixSeqGen idx' = ixSeqGen idx"

lemma ix_extends_refl [simp]: "ix_extends idx idx"
  by (simp add: ix_extends_def)

lemma ix_extends_trans [trans]: "ix_extends a b \<Longrightarrow> ix_extends b c \<Longrightarrow> ix_extends a c"
  unfolding ix_extends_def by (metis set_extends_trans)

lemma ix_step_refl: "ix_ok idx \<Longrightarrow> ix_step idx idx"
  by (simp add: ix_step_def)

lemma ix_step_trans: "ix_step a b \<Longrightarrow> ix_step b c \<Longrightarrow> ix_step a c"
  unfolding ix_step_def by (metis ix_extends_trans)

lemma ix_extends_setFor: "ix_extends idx idx' \<Longrightarrow> set_extends (setFor idx t) (setFor idx' t)"
  by (simp add: ix_extends_def setFor_def)

lemma ix_ok_setFor: "ix_ok idx \<Longrightarrow> set_ok (setFor idx t)"
  by (simp add: ix_ok_def setFor_def)

lemma setFor_update [simp]:
  "setFor (idx\<lparr>ixDB := db\<rparr>) t = setFor idx t" "setFor (idx\<lparr>ixSeqGen := q\<rparr>) t = setFor idx t"
  "setFor (idx\<lparr>ixOS := osq\<rparr>) t = setFor idx t"
  by (simp_all add: setFor_def)

lemma setFor_tier: "(t = TierCold) = (t' = TierCold) \<Longrightarrow> setFor idx t = setFor idx t'"
  by (simp add: setFor_def)

text \<open>A call on one set that keeps the set in order is a step.\<close>

lemma put_set_step:
  assumes "ix_ok idx" "set_ok ss" "no_partial osq" "set_extends (setFor idx t) ss" "ssTier ss = ssTier (setFor idx t)"
  shows "ix_step idx (put_set t ss osq idx) \<and> setFor (put_set t ss osq idx) t = ss"
  using assms by (auto simp: ix_step_def ix_ok_def ix_extends_def put_set_def setFor_def)

lemma Segment_Append_tier: "Segment_Append ss osq i h p = ((ss', osq'), r) \<Longrightarrow> ssTier ss' = ssTier ss"
  by (auto simp: Segment_Append_def Let_def split: if_splits option.splits prod.splits sysresult.splits)

lemma Segment_Sync_tier: "Segment_Sync ss osq i = ((ss', osq'), r) \<Longrightarrow> ssTier ss' = ssTier ss"
  by (auto simp: Segment_Sync_def split: if_splits option.splits prod.splits sum.splits)

lemma Set_rotate_tier: "Set_rotate ss osq = ((ss', osq'), r) \<Longrightarrow> ssTier ss' = ssTier ss"
  by (auto simp: Set_rotate_def Let_def split: prod.splits sum.splits)

lemma Set_Active_tier: "Set_Active ss osq n = ((ss', osq'), r) \<Longrightarrow> ssTier ss' = ssTier ss"
  by (auto simp: Set_Active_def andThen_def dest!: Segment_Sync_tier Set_rotate_tier
      split: if_splits option.splits prod.splits sum.splits)

lemma on_set_Active:
  assumes "ix_ok idx" "on_set idx t (\<lambda>ss osq. Set_Active ss osq n) = (idx', r)"
  shows "ix_step idx idx'"
proof -
  obtain ss osq where a: "Set_Active (setFor idx t) (ixOS idx) n = ((ss, osq), r)" "idx' = put_set t ss osq idx"
    using assms(2) by (auto simp: on_set_def split: prod.splits)
  have "set_ok ss \<and> no_partial osq \<and> set_extends (setFor idx t) ss"
    using segs.active_keeps [OF ix_ok_setFor [OF assms(1)] _ a(1)] assms(1) by (simp add: ix_ok_def)
  then show ?thesis using put_set_step [OF assms(1)] Set_Active_tier [OF a(1)] a(2) by blast
qed

lemma on_set_Append:
  assumes "ix_ok idx" "in_i64 (hLogicalOff h)" "on_set idx t (\<lambda>ss osq. Segment_Append ss osq seg h d) = (idx', r)"
  shows "ix_step idx idx' \<and> (\<forall>off. r = Inr off \<longrightarrow> log_stored set_data (setFor idx' t) seg off d \<and>
    off + int (length d) < 2 ^ 63 \<and> unat (hLength h) = length d)"
proof -
  obtain ss osq where a: "Segment_Append (setFor idx t) (ixOS idx) seg h d = ((ss, osq), r)"
      "idx' = put_set t ss osq idx"
    using assms(3) by (auto simp: on_set_def split: prod.splits)
  have ok: "set_ok (setFor idx t)" by (rule ix_ok_setFor [OF assms(1)])
  have k: "set_ok ss \<and> no_partial osq \<and> set_extends (setFor idx t) ss"
    using segs.append_keeps [OF ok _ assms(2) a(1)] assms(1) by (simp add: ix_ok_def)
  moreover have "setFor idx' t = ss" using put_set_step [OF assms(1)] k Segment_Append_tier [OF a(1)] a(2) by blast
  moreover have "unat (hLength h) = length d" if "r = Inr off" for off
    using Segment_Append_reads [OF ok] a(1) that by blast
  ultimately show ?thesis
    using put_set_step [OF assms(1)] Segment_Append_tier [OF a(1)] a
      segs.append_stores [OF ok] segs.append_bounds [OF ok] by metis
qed

lemma on_set_Sync:
  assumes "ix_ok idx" "on_set idx t (\<lambda>ss osq. Segment_Sync ss osq seg) = (idx', r)"
  shows "ix_step idx idx' \<and> (r = Inr () \<longrightarrow> (\<forall>d. set_data (setFor idx t) seg = Some d \<longrightarrow>
    length d \<le> set_durable (setFor idx' t) seg))"
proof -
  obtain ss osq where a: "Segment_Sync (setFor idx t) (ixOS idx) seg = ((ss, osq), r)" "idx' = put_set t ss osq idx"
    using assms(2) by (auto simp: on_set_def split: prod.splits)
  have ok: "set_ok (setFor idx t)" "no_partial (ixOS idx)"
    using assms(1) by (simp_all add: ix_ok_setFor) (simp add: ix_ok_def)
  have k: "set_ok ss \<and> no_partial osq \<and> set_extends (setFor idx t) ss" using segs.sync_keeps [OF ok a(1)] .
  then have "ix_step idx idx'" "setFor idx' t = ss"
    using put_set_step [OF assms(1)] Segment_Sync_tier [OF a(1)] a(2) by blast+
  then show ?thesis using segs.sync_durable [OF ok] a(1) by auto
qed

lemma append_record_ok:
  assumes "ix_ok idx" "in_i64 (hLogicalOff h)" "append_record idx t h d = (idx', r)"
  shows "ix_step idx idx' \<and> (\<forall>seg off. r = Inr (seg, off) \<longrightarrow> log_stored set_data (setFor idx' t) seg off d \<and>
    off + int (length d) < 2 ^ 63 \<and> unat (hLength h) = length d)"
  using assms(3) unfolding append_record_def
proof (cases rule: andThen_cases)
  case (err e)
  then show ?thesis using on_set_Active [OF assms(1)] by simp
next
  case (ok idx1 seg)
  have s1: "ix_step idx idx1" by (rule on_set_Active [OF assms(1) ok(1)])
  then have ok1: "ix_ok idx1" by (simp add: ix_step_def)
  from ok(2) show ?thesis
  proof (cases rule: andThen_cases)
    case (err e)
    then show ?thesis using on_set_Append [OF ok1 assms(2)] ix_step_trans [OF s1] by blast
  next
    case (ok idx2 off)
    then show ?thesis using on_set_Append [OF ok1 assms(2) ok(1)] ix_step_trans [OF s1] by auto
  qed
qed

section \<open>Fragments in the database\<close>

definition located :: "'db Index \<Rightarrow> Fragment \<Rightarrow> bool" where
  "located idx f \<longleftrightarrow> (\<exists>d. set_data (setFor idx (FTier f)) (SegmentID f) = Some d \<and>
     SegmentOffset f + Length f \<le> int (length d))"

definition durable :: "'db Index \<Rightarrow> Fragment \<Rightarrow> bool" where
  "durable idx f \<longleftrightarrow> log_durable set_durable (setFor idx (FTier f)) (SegmentID f) (SegmentOffset f) (Length f)"

definition in_stripe :: "'db Index \<Rightarrow> u32 \<Rightarrow> Fragment \<Rightarrow> bool" where
  "in_stripe idx s f \<longleftrightarrow> uint s * ixStripeSize idx \<le> LogicalOff f \<and>
     LogicalOff f + Length f \<le> (uint s + 1) * ixStripeSize idx"

definition frag_ok :: "'db Index \<Rightarrow> u32 \<Rightarrow> Fragment \<Rightarrow> bool" where
  "frag_ok idx s f \<longleftrightarrow> wf_frag f \<and> (FTier f = TierHot \<or> FTier f = TierCold) \<and> in_stripe idx s f \<and>
     located idx f \<and> durable idx f"

text \<open>The contents of the database as the fragment index sees them.\<close>

definition frag_at :: "(bytes \<rightharpoonup> bytes) \<Rightarrow> u64 \<Rightarrow> u32 \<Rightarrow> Fragment \<Rightarrow> bool" where
  "frag_at V i s f \<longleftrightarrow> (\<exists>v. V (FragmentKey i s (Seq f)) = Some v \<and> decodeFragments v = [f])"

definition live :: "(bytes \<rightharpoonup> bytes) \<Rightarrow> u64 \<Rightarrow> Fragment set" where
  "live V i = {f. \<exists>s. frag_at V i s f}"

definition db_ok :: "'db Index \<Rightarrow> (bytes \<rightharpoonup> bytes) \<Rightarrow> bool" where
  "db_ok idx V \<longleftrightarrow> (\<forall>i s q v. V (FragmentKey i s q) = Some v \<longrightarrow>
     (\<exists>f. decodeFragments v = [f] \<and> Seq f = q \<and> frag_ok idx s f \<and> q \<le> ixSeqGen idx))"

definition index_ok :: "('db \<Rightarrow> bytes \<rightharpoonup> bytes) \<Rightarrow> 'db Index \<Rightarrow> bool" where
  "index_ok view idx \<longleftrightarrow> ix_ok idx \<and> db_ok idx (view (ixDB idx))"

section \<open>File contents\<close>

definition loc_byte :: "'db Index \<Rightarrow> Fragment \<Rightarrow> int \<Rightarrow> byte option" where
  "loc_byte idx f x = (case set_data (setFor idx (FTier f)) (SegmentID f) of
     Some d \<Rightarrow> byte_at (nat (SegmentOffset f + (x - LogicalOff f))) d | None \<Rightarrow> None)"

definition newest :: "(bytes \<rightharpoonup> bytes) \<Rightarrow> u64 \<Rightarrow> int \<Rightarrow> Fragment \<Rightarrow> bool" where
  "newest V i x f \<longleftrightarrow> f \<in> live V i \<and> covers f x \<and> (\<forall>g \<in> live V i. covers g x \<longrightarrow> Seq g \<le> Seq f)"

definition file_byte :: "'db Index \<Rightarrow> (bytes \<rightharpoonup> bytes) \<Rightarrow> u64 \<Rightarrow> int \<Rightarrow> byte option" where
  "file_byte idx V i x = (if \<exists>f. newest V i x f then loc_byte idx (THE f. newest V i x f) x else None)"

lemma decode_one: "wf_frag f \<Longrightarrow> decodeFragments (encodeFragments [f]) = [f]"
  using decode_encodeFragments [of "[f]"] wf_frag_i64 by simp

lemma db_okD:
  assumes "db_ok idx V" "V (FragmentKey i s q) = Some v"
  obtains f where "decodeFragments v = [f]" "Seq f = q" "frag_ok idx s f" "q \<le> ixSeqGen idx" "frag_at V i s f"
  using assms unfolding db_ok_def frag_at_def by metis

lemma frag_atD:
  assumes "db_ok idx V" "frag_at V i s f"
  shows "frag_ok idx s f" "Seq f \<le> ixSeqGen idx"
proof -
  obtain v where v: "V (FragmentKey i s (Seq f)) = Some v" "decodeFragments v = [f]"
    using assms(2) by (auto simp: frag_at_def)
  then show "frag_ok idx s f" "Seq f \<le> ixSeqGen idx" using db_okD [OF assms(1) v(1)] by auto
qed

lemma db_okI:
  assumes "\<And>i s q v. V (FragmentKey i s q) = Some v \<Longrightarrow>
     \<exists>f. decodeFragments v = [f] \<and> Seq f = q \<and> frag_ok idx s f \<and> q \<le> ixSeqGen idx"
  shows "db_ok idx V"
  using assms by (simp add: db_ok_def)

text \<open>A fragment lies in one stripe, so two fragments that share a byte share the stripe.\<close>

lemma in_stripe_covers:
  assumes "in_stripe idx s f" "covers f x" "0 < ixStripeSize idx"
  shows "uint s = x div ixStripeSize idx"
proof -
  let ?n = "ixStripeSize idx"
  have "uint s * ?n \<le> x" "x < (uint s + 1) * ?n" using assms(1,2) by (auto simp: in_stripe_def covers_def)
  then have "uint s * ?n \<le> x" "x - uint s * ?n < ?n" by (simp_all add: algebra_simps)
  then show ?thesis using int_div_pos_eq [of x ?n "uint s" "x - uint s * ?n"] by (simp add: mult.commute)
qed

lemma same_stripe:
  assumes "in_stripe idx s f" "in_stripe idx t g" "covers f x" "covers g x" "0 < ixStripeSize idx"
  shows "s = t"
  using in_stripe_covers [OF assms(1,3,5)] in_stripe_covers [OF assms(2,4,5)] by (simp add: word_uint_eq_iff)

lemma newest_unique:
  assumes ok: "db_ok idx V" "0 < ixStripeSize idx" and n: "newest V i x f" "newest V i x g"
  shows "f = g"
proof -
  obtain s t where st: "frag_at V i s f" "frag_at V i t g" using n by (auto simp: newest_def live_def)
  then have "in_stripe idx s f" "in_stripe idx t g"
    using frag_atD [OF ok(1)] by (auto simp: frag_ok_def)
  then have "s = t" using same_stripe [of idx s f t g x] ok(2) n by (simp add: newest_def)
  moreover have "Seq f = Seq g" using n by (auto simp: newest_def intro: antisym)
  ultimately show ?thesis using st by (auto simp: frag_at_def)
qed

lemma newest_exists:
  assumes "f \<in> live V i" "covers f x"
  shows "\<exists>g. newest V i x g"
proof -
  let ?S = "Seq ` {g \<in> live V i. covers g x}"
  have fin: "finite ?S" by (rule finite_subset [of _ UNIV]) auto
  have "?S \<noteq> {}" using assms by auto
  then have "Max ?S \<in> ?S" using fin Max_in by blast
  then obtain g where g: "g \<in> live V i" "covers g x" "Seq g = Max ?S" by auto
  have "Seq h \<le> Seq g" if "h \<in> live V i" "covers h x" for h
    using g(3) fin that by (auto intro: Max_ge)
  with g show ?thesis by (auto simp: newest_def)
qed

lemma file_byte_newest:
  assumes "db_ok idx V" "0 < ixStripeSize idx" "newest V i x f"
  shows "file_byte idx V i x = loc_byte idx f x"
proof -
  have "(THE f. newest V i x f) = f" using assms newest_unique by (intro the_equality) blast+
  then show ?thesis using assms(3) by (auto simp: file_byte_def)
qed

lemma file_byte_none:
  "(\<And>f. f \<in> live V i \<Longrightarrow> \<not> covers f x) \<Longrightarrow> file_byte idx V i x = None"
  by (auto simp: file_byte_def newest_def)

text \<open>Case analysis on the content of one byte.\<close>

lemma file_byte_cases:
  assumes "db_ok idx V" "0 < ixStripeSize idx"
  obtains (data) f where "newest V i x f" "file_byte idx V i x = loc_byte idx f x"
  | (hole) "\<forall>f \<in> live V i. \<not> covers f x" "file_byte idx V i x = None"
  using newest_exists file_byte_newest [OF assms] file_byte_none by metis

section \<open>Growth keeps fragments and contents\<close>

lemma located_extends:
  assumes "ix_extends idx idx'" "located idx f"
  shows "located idx' f"
proof -
  obtain d where d: "set_data (setFor idx (FTier f)) (SegmentID f) = Some d"
    "SegmentOffset f + Length f \<le> int (length d)" using assms(2) by (auto simp: located_def)
  then obtain d' where "set_data (setFor idx' (FTier f)) (SegmentID f) = Some d'" "prefix d d'"
    using ix_extends_setFor [OF assms(1), of "FTier f"] unfolding log_extends_def by blast
  then show ?thesis using d(2) prefix_length_le [of d d'] by (auto simp: located_def)
qed

lemma durable_extends: "ix_extends idx idx' \<Longrightarrow> durable idx f \<Longrightarrow> durable idx' f"
  unfolding durable_def by (erule log_durable_extends [OF ix_extends_setFor])

lemma loc_byte_extends:
  assumes "ix_extends idx idx'" "located idx f" "wf_frag f" "covers f x"
  shows "loc_byte idx' f x = loc_byte idx f x"
proof -
  obtain d where d: "set_data (setFor idx (FTier f)) (SegmentID f) = Some d"
    "SegmentOffset f + Length f \<le> int (length d)" using assms(2) by (auto simp: located_def)
  then obtain d' where d': "set_data (setFor idx' (FTier f)) (SegmentID f) = Some d'" "prefix d d'"
    using ix_extends_setFor [OF assms(1), of "FTier f"] unfolding log_extends_def by blast
  have "nat (SegmentOffset f + (x - LogicalOff f)) < length d"
    using d(2) assms(3,4) by (auto simp: wf_frag_def covers_def)
  then show ?thesis using d d' by (auto simp: loc_byte_def byte_at_def prefix_def nth_append)
qed

lemma in_stripe_extends: "ix_extends idx idx' \<Longrightarrow> in_stripe idx' s f \<longleftrightarrow> in_stripe idx s f"
  by (simp add: ix_extends_def in_stripe_def)

lemma frag_ok_extends: "ix_extends idx idx' \<Longrightarrow> frag_ok idx s f \<Longrightarrow> frag_ok idx' s f"
  by (simp add: frag_ok_def in_stripe_extends located_extends durable_extends)

lemma db_ok_extends:
  assumes "ix_extends idx idx'" "ixSeqGen idx \<le> ixSeqGen idx'" "db_ok idx V"
  shows "db_ok idx' V"
  using assms frag_ok_extends [OF assms(1)] unfolding db_ok_def by (meson order_trans)

lemma file_byte_extends:
  assumes "ix_extends idx idx'" "ixSeqGen idx \<le> ixSeqGen idx'" "db_ok idx V" "0 < ixStripeSize idx"
  shows "file_byte idx' V i x = file_byte idx V i x"
  using assms(3,4)
proof (cases rule: file_byte_cases [of idx V i x])
  case (data f)
  obtain s where "frag_ok idx s f"
    using data(1) frag_atD [OF assms(3)] by (auto simp: newest_def live_def)
  moreover have "0 < ixStripeSize idx'" using assms(1,4) by (simp add: ix_extends_def)
  ultimately show ?thesis
    using file_byte_newest [OF db_ok_extends [OF assms(1-3)] _ data(1)] data
      loc_byte_extends [OF assms(1)] by (simp add: frag_ok_def newest_def)
next
  case hole
  then show ?thesis using file_byte_none [of V i x idx'] by simp
qed

section \<open>A fresh index\<close>

text \<open>
  The index on two empty directories, with the reference engine: the starting point of the
  concrete runs below.
\<close>

definition fresh_set :: "Tier \<Rightarrow> SegSet" where
  "fresh_set tier = \<lparr>ssDir = [], ssTier = tier, ssMaxSize = 2 ^ 30, ssSegments = [], ssActive = None, ssNextID = 0\<rparr>"

definition fresh_index :: "kvpair list Index" where
  "fresh_index = \<lparr>ixStripeSize = 4096, ixDB = [], ixHot = fresh_set TierHot, ixCold = fresh_set TierCold,
     ixSeqGen = 0, ixOS = []\<rparr>"

lemma fresh_index_ok: "index_ok map_of fresh_index"
  by (simp add: index_ok_def ix_ok_def db_ok_def fresh_index_def fresh_set_def set_ok_def dir_ok_def seg_of_def
      no_partial_def)

lemma fresh_file_byte [simp]: "file_byte fresh_index (map_of (ixDB fresh_index)) i x = None"
  by (rule file_byte_none) (simp add: live_def frag_at_def fresh_index_def)

lemma fresh_index_sel [simp]:
  "ixStripeSize fresh_index = 4096" "ixDB fresh_index = []" "ixSeqGen fresh_index = 0" "ixOS fresh_index = []"
  "setFor fresh_index t = (if t = TierCold then fresh_set TierCold else fresh_set TierHot)"
  by (simp_all add: fresh_index_def setFor_def)

end
