(* ===== verification/Index_Append.thy ===== *)
theory Index_Append
  imports Index_State
begin

text \<open>
  The write path of the index: staging records in the segments, syncing the touched
  segments, committing the fragments. The central fact is that an append changes exactly
  the bytes of its range, all of them or none.
\<close>

section \<open>Staging and syncing\<close>

definition staged :: "'db Index \<Rightarrow> AppendExtent \<Rightarrow> u32 \<times> Fragment \<Rightarrow> bool" where
  "staged idx e p \<longleftrightarrow> fst p = stripeOf idx (eOff e) \<and> Seq (snd p) = eSeq e \<and> LogicalOff (snd p) = eOff e \<and>
     Length (snd p) = int (length (eData e)) \<and> FTier (snd p) = eTier e \<and>
     SegmentOffset (snd p) + Length (snd p) < 2 ^ 63 \<and>
     log_stored set_data (setFor idx (eTier e)) (SegmentID (snd p)) (SegmentOffset (snd p)) (eData e)"

abbreviation touched_by :: "touched \<Rightarrow> u32 \<times> Fragment \<Rightarrow> bool" where
  "touched_by ts p \<equiv> (FTier (snd p) = TierCold, SegmentID (snd p)) \<in> set ts"

definition fits :: "'db Index \<Rightarrow> AppendExtent \<Rightarrow> bool" where
  "fits idx e \<longleftrightarrow> i64 (eOff e + int (length (eData e))) \<le> stripeEnd idx (stripeOf idx (eOff e))"

lemma stripe_extends:
  "ix_extends idx idx' \<Longrightarrow> stripeOf idx' x = stripeOf idx x" "ix_extends idx idx' \<Longrightarrow> stripeEnd idx' s = stripeEnd idx s"
  by (simp_all add: ix_extends_def stripeOf_def stripeEnd_def)

lemma staged_extends: "ix_extends idx idx' \<Longrightarrow> staged idx e p \<Longrightarrow> staged idx' e p"
  by (simp add: staged_def stripe_extends log_stored_extends [OF ix_extends_setFor])

lemma set_touch [simp]: "set (touch t seg ts) = insert (t = TierCold, seg) (set ts)"
  by (auto simp: touch_def Let_def)

lemma stage_extents_ok:
  assumes "ix_ok idx" "list_all (\<lambda>e. in_i64 (eOff e)) es" "stage_extents idx inode es ps ts = (idx', r)"
  shows "ix_step idx idx' \<and> (\<forall>ps' ts'. r = Inr (ps', ts') \<longrightarrow> set ts \<subseteq> set ts' \<and>
    (\<exists>qs. ps' = ps @ qs \<and> list_all2 (staged idx') es qs \<and> list_all (touched_by ts') qs \<and> list_all (fits idx) es))"
  using assms
proof (induction es arbitrary: idx ps ts)
  case Nil
  then show ?case by (auto simp: ix_step_refl)
next
  case (Cons e es)
  let ?sid = "stripeOf idx (eOff e)" and ?n = "int (length (eData e))"
  let ?h = "\<lparr>hInode = inode, hStripeID = ?sid, hSeq = eSeq e, hLogicalOff = eOff e, hLength = u32_of_int64 ?n\<rparr>"
  show ?case
  proof (cases "fits idx e")
    case False
    then show ?thesis using Cons.prems by (auto simp: fits_def Let_def ix_step_refl not_le)
  next
    case True
    obtain idx1 r1 where ar: "append_record idx (eTier e) ?h (eData e) = (idx1, r1)" by fastforce
    have s1: "ix_step idx idx1" and st: "\<And>seg off. r1 = Inr (seg, off) \<Longrightarrow>
        log_stored set_data (setFor idx1 (eTier e)) seg off (eData e) \<and> off + ?n < 2 ^ 63"
      using append_record_ok [OF Cons.prems(1) _ ar] Cons.prems(2) by auto
    show ?thesis
    proof (cases r1)
      case (Inl er)
      then show ?thesis using Cons.prems(3) ar True s1 by (auto simp: fits_def Let_def)
    next
      case (Inr so)
      obtain seg off where so: "so = (seg, off)" by fastforce
      let ?q = "(?sid, \<lparr>Seq = eSeq e, LogicalOff = eOff e, Length = ?n, FTier = eTier e,
                        SegmentID = seg, SegmentOffset = off\<rparr>)"
      have rec: "stage_extents idx1 inode es (ps @ [?q]) (touch (eTier e) seg ts) = (idx', r)"
        using Cons.prems(3) ar True Inr so by (simp add: fits_def Let_def)
      have "ix_ok idx1" using s1 by (simp add: ix_step_def)
      note IH = Cons.IH [OF this _ rec]
      have step: "ix_step idx1 idx'" using IH Cons.prems(2) by simp
      have x1: "ix_extends idx idx1" "ix_extends idx1 idx'" using s1 step by (simp_all add: ix_step_def)
      have "staged idx1 e ?q" using st Inr so x1 by (simp add: staged_def stripe_extends)
      then have q: "staged idx' e ?q" by (rule staged_extends [OF x1(2)])
      have f: "list_all (fits idx1) es \<longleftrightarrow> list_all (fits idx) es"
        by (simp add: fits_def [abs_def] stripe_extends [OF x1(1)])
      show ?thesis
      proof (intro conjI allI impI)
        show "ix_step idx idx'" by (rule ix_step_trans [OF s1 step])
        fix ps' ts' assume r: "r = Inr (ps', ts')"
        from IH Cons.prems(2) r obtain qs where qs: "set (touch (eTier e) seg ts) \<subseteq> set ts'"
            "ps' = (ps @ [?q]) @ qs" "list_all2 (staged idx') es qs" "list_all (touched_by ts') qs" "list_all (fits idx1) es"
          by auto
        show "set ts \<subseteq> set ts'" using qs(1) by auto
        show "\<exists>qs. ps' = ps @ qs \<and> list_all2 (staged idx') (e # es) qs \<and> list_all (touched_by ts') qs \<and>
            list_all (fits idx) (e # es)"
          using qs q f True by (intro exI [of _ "?q # qs"]) auto
      qed
    qed
  qed
qed

lemma sync_touched_ok:
  assumes "ix_ok idx" "sync_touched idx ts = (idx', r)"
  shows "ix_step idx idx' \<and> (r = Inr () \<longrightarrow> (\<forall>c seg d. (c, seg) \<in> set ts \<longrightarrow>
    set_data (setFor idx (if c then TierCold else TierHot)) seg = Some d \<longrightarrow>
    length d \<le> set_durable (setFor idx' (if c then TierCold else TierHot)) seg))"
  using assms
proof (induction ts arbitrary: idx)
  case Nil
  then show ?case by (simp add: ix_step_refl)
next
  case (Cons t ts)
  obtain c seg where t: "t = (c, seg)" by fastforce
  let ?t = "if c then TierCold else TierHot"
  obtain idx1 r1 where s: "on_set idx ?t (\<lambda>ss osq. Segment_Sync ss osq seg) = (idx1, r1)" by fastforce
  note s1 = on_set_Sync [OF Cons.prems(1) s]
  show ?case
  proof (cases r1)
    case (Inl e)
    then show ?thesis using Cons.prems(2) t s s1 by auto
  next
    case (Inr u)
    then have rec: "sync_touched idx1 ts = (idx', r)" using Cons.prems(2) t s by simp
    have "ix_ok idx1" using s1 by (simp add: ix_step_def)
    note IH = Cons.IH [OF this rec]
    have x: "ix_extends idx idx1" "ix_extends idx1 idx'" using s1 IH by (auto simp: ix_step_def)
    have "length d \<le> set_durable (setFor idx' (if c' then TierCold else TierHot)) seg'"
      if r: "r = Inr ()" and m: "(c', seg') \<in> set (t # ts)"
        and d: "set_data (setFor idx (if c' then TierCold else TierHot)) seg' = Some d" for c' seg' d
    proof (cases "(c', seg') = (c, seg)")
      case True
      then have "length d \<le> set_durable (setFor idx1 ?t) seg" using s1 Inr d by auto
      also have "\<dots> \<le> set_durable (setFor idx' ?t) seg"
        using ix_extends_setFor [OF x(2)] by (simp add: log_extends_def)
      finally show ?thesis using True by simp
    next
      case False
      obtain d' where "set_data (setFor idx1 (if c' then TierCold else TierHot)) seg' = Some d'" "prefix d d'"
        using ix_extends_setFor [OF x(1)] d unfolding log_extends_def by blast
      moreover have "(c', seg') \<in> set ts" using False m t by auto
      ultimately have "length d' \<le> set_durable (setFor idx' (if c' then TierCold else TierHot)) seg'" "prefix d d'"
        using IH r by blast+
      then show ?thesis using prefix_length_le by (meson order_trans)
    qed
    then show ?thesis using s1 IH ix_step_trans by blast
  qed
qed

text \<open>Staged, touched and synced: the fragment is located and durable.\<close>

lemma staged_synced:
  assumes "ix_ok idx" "staged idx e p" "touched_by ts p" "sync_touched idx ts = (idx', Inr ())"
  shows "staged idx' e p \<and> located idx' (snd p) \<and> durable idx' (snd p)"
proof -
  let ?f = "snd p"
  have step: "ix_extends idx idx'" using sync_touched_ok [OF assms(1,4)] by (simp add: ix_step_def)
  have s': "staged idx' e p" by (rule staged_extends [OF step assms(2)])
  have tier: "setFor i (if FTier ?f = TierCold then TierCold else TierHot) = setFor i (FTier ?f)" for i :: "'a Index"
    by (rule setFor_tier) (auto simp: tier_defs)
  obtain d where d: "set_data (setFor idx (FTier ?f)) (SegmentID ?f) = Some d" "0 \<le> SegmentOffset ?f"
      "nat (SegmentOffset ?f) + length (eData e) \<le> length d"
    using assms(2) by (auto simp: staged_def log_stored_def gslice_def split: if_splits)
  have "length d \<le> set_durable (setFor idx' (FTier ?f)) (SegmentID ?f)"
    using sync_touched_ok [OF assms(1,4)] assms(3) d(1) tier by metis
  then have "durable idx' ?f" using d assms(2) by (simp add: durable_def log_durable_def staged_def)
  moreover have "located idx' ?f"
    using s' by (auto simp: located_def staged_def log_stored_def gslice_def split: if_splits)
  ultimately show ?thesis using s' by blast
qed


section \<open>Adding fragments to the database\<close>

text \<open>Only the fragment keys matter to the index: batches may hold other operations too.\<close>

definition frag_eq :: "(bytes \<rightharpoonup> bytes) \<Rightarrow> (bytes \<rightharpoonup> bytes) \<Rightarrow> bool" where
  "frag_eq V W \<longleftrightarrow> (\<forall>i s q. V (FragmentKey i s q) = W (FragmentKey i s q))"

lemma frag_eq_live: "frag_eq V W \<Longrightarrow> live V i = live W i"
  by (simp add: live_def frag_at_def frag_eq_def)

lemma frag_eq_db_ok: "frag_eq V W \<Longrightarrow> db_ok idx V \<longleftrightarrow> db_ok idx W"
  by (simp add: db_ok_def frag_eq_def)

lemma frag_eq_file_byte: "frag_eq V W \<Longrightarrow> file_byte idx V i x = file_byte idx W i x"
proof -
  assume "frag_eq V W"
  then have "newest V i x = newest W i x" by (simp add: fun_eq_iff newest_def frag_eq_live)
  then show ?thesis by (simp add: file_byte_def)
qed

lemma frag_eq_sym: "frag_eq V W \<Longrightarrow> frag_eq W V"
  by (simp add: frag_eq_def)

lemma apply_ops_frag_eq:
  assumes "\<forall>op \<in> set ops. \<not> prefix StripeAllPrefix (op_key op)"
  shows "frag_eq (apply_ops ops V) V"
  unfolding frag_eq_def
proof (intro allI)
  fix i s q
  have "FragmentKey i s q \<notin> op_key ` set ops" using assms by (auto simp: image_iff) (metis prefix_FragmentKey(1))
  then show "apply_ops ops V (FragmentKey i s q) = V (FragmentKey i s q)" by (rule apply_ops_other)
qed

definition adds :: "(bytes \<rightharpoonup> bytes) \<Rightarrow> (bytes \<rightharpoonup> bytes) \<Rightarrow> u64 \<Rightarrow> pendings \<Rightarrow> bool" where
  "adds V V' inode ps \<longleftrightarrow>
     (\<forall>s f. (s, f) \<in> set ps \<longrightarrow> V' (FragmentKey inode s (Seq f)) = Some (encodeFragments [f])) \<and>
     (\<forall>i s q. (i = inode \<longrightarrow> (\<forall>f. (s, f) \<in> set ps \<longrightarrow> Seq f \<noteq> q)) \<longrightarrow>
        V' (FragmentKey i s q) = V (FragmentKey i s q))"

lemma frag_batch_eq:
  "frag_batch inode ps b = b @ map (\<lambda>(k, v). BSet k v)
     (map (\<lambda>(sid, f). (FragmentKey inode sid (Seq f), encodeFragments [f])) ps)"
proof (induction ps arbitrary: b)
  case Nil
  then show ?case by (simp add: frag_batch_def)
next
  case (Cons p ps)
  then show ?case by (cases p) (simp add: frag_batch_def Batch_Set_def)
qed

lemma frag_batch_adds:
  assumes "distinct (map (Seq \<circ> snd) ps)"
  shows "adds V (apply_ops (frag_batch inode ps NewBatch) V) inode ps"
proof -
  define kvs where "kvs = map (\<lambda>(sid, f). (FragmentKey inode sid (Seq f), encodeFragments [f])) ps"
  have d: "distinct (map fst kvs)"
    using assms unfolding kvs_def by (induction ps) (auto simp: image_iff)
  have V': "apply_ops (frag_batch inode ps NewBatch) V k =
      (case map_of kvs k of Some v \<Rightarrow> Some v | None \<Rightarrow> V k)" for k
    unfolding frag_batch_eq NewBatch_def kvs_def [symmetric] append_Nil by (rule apply_ops_sets [OF d])
  have "map_of kvs (FragmentKey inode s (Seq f)) = Some (encodeFragments [f])" if "(s, f) \<in> set ps" for s f
    using that d by (intro map_of_is_SomeI) (auto simp: kvs_def)
  moreover have "map_of kvs (FragmentKey i s q) = None"
    if "i = inode \<longrightarrow> (\<forall>f. (s, f) \<in> set ps \<longrightarrow> Seq f \<noteq> q)" for i s q
    using that by (auto simp: kvs_def map_of_eq_None_iff)
  ultimately show ?thesis by (simp add: adds_def V')
qed

lemma adds_frag_eq: "adds V W inode ps \<Longrightarrow> frag_eq W W' \<Longrightarrow> adds V W' inode ps"
  by (simp add: adds_def frag_eq_def)

lemma adds_live:
  assumes "adds V V' inode ps" "\<forall>(s, f) \<in> set ps. V (FragmentKey inode s (Seq f)) = None \<and> wf_frag f"
  shows "live V' i = live V i \<union> (if i = inode then snd ` set ps else {})"
proof (intro set_eqI iffI)
  fix f assume "f \<in> live V' i"
  then obtain s v where v: "V' (FragmentKey i s (Seq f)) = Some v" "decodeFragments v = [f]"
    by (auto simp: live_def frag_at_def)
  show "f \<in> live V i \<union> (if i = inode then snd ` set ps else {})"
  proof (cases "i = inode \<and> (\<exists>g. (s, g) \<in> set ps \<and> Seq g = Seq f)")
    case True
    then obtain g where g: "(s, g) \<in> set ps" "Seq g = Seq f" by auto
    have "v = encodeFragments [g]" using assms(1) g v(1) True unfolding adds_def by (metis option.inject)
    then have "f = g" using v(2) decode_one [of g] g assms(2) by auto
    then show ?thesis using True g by force
  next
    case False
    then have "V (FragmentKey i s (Seq f)) = Some v" using assms(1) v(1) unfolding adds_def by metis
    then show ?thesis using v(2) by (auto simp: live_def frag_at_def)
  qed
next
  fix f assume f: "f \<in> live V i \<union> (if i = inode then snd ` set ps else {})"
  show "f \<in> live V' i"
  proof (cases "f \<in> live V i")
    case True
    then obtain s v where v: "V (FragmentKey i s (Seq f)) = Some v" "decodeFragments v = [f]"
      by (auto simp: live_def frag_at_def)
    have "\<forall>g. i = inode \<longrightarrow> (s, g) \<in> set ps \<longrightarrow> Seq g \<noteq> Seq f" using assms(2) v(1) by fastforce
    then have "V' (FragmentKey i s (Seq f)) = Some v" using assms(1) v(1) unfolding adds_def by metis
    then show ?thesis using v(2) by (auto simp: live_def frag_at_def)
  next
    case False
    then obtain s where s: "i = inode" "(s, f) \<in> set ps" using f by (auto split: if_splits)
    then have "V' (FragmentKey i s (Seq f)) = Some (encodeFragments [f])" "wf_frag f"
      using assms unfolding adds_def by auto
    then show ?thesis using decode_one by (auto simp: live_def frag_at_def)
  qed
qed

lemma adds_db_ok:
  assumes "adds V V' inode ps" "db_ok idx V" "\<forall>(s, f) \<in> set ps. frag_ok idx s f \<and> Seq f \<le> ixSeqGen idx"
  shows "db_ok idx V'"
proof (rule db_okI)
  fix i s q v assume v: "V' (FragmentKey i s q) = Some v"
  show "\<exists>f. decodeFragments v = [f] \<and> Seq f = q \<and> frag_ok idx s f \<and> q \<le> ixSeqGen idx"
  proof (cases "i = inode \<and> (\<exists>g. (s, g) \<in> set ps \<and> Seq g = q)")
    case True
    then obtain g where g: "(s, g) \<in> set ps" "Seq g = q" by auto
    then have "v = encodeFragments [g]" "frag_ok idx s g" "q \<le> ixSeqGen idx"
      using assms(1,3) v True unfolding adds_def by auto
    then show ?thesis using decode_one [of g] g by (auto simp: frag_ok_def)
  next
    case False
    then have "V (FragmentKey i s q) = Some v" using assms(1) v unfolding adds_def by metis
    then show ?thesis using db_okD [OF assms(2)] by metis
  qed
qed

text \<open>
  Fragments with fresh sequence numbers shadow everything; where none of them lies, the
  content stays what it was.
\<close>

lemma adds_file_byte:
  assumes a: "adds V V' inode ps" and ok: "db_ok idx V" "0 < ixStripeSize idx"
    and ext: "ix_extends idx idx'" "ixSeqGen idx \<le> ixSeqGen idx'"
    and new: "\<forall>(s, f) \<in> set ps. frag_ok idx' s f \<and> ixSeqGen idx < Seq f \<and> Seq f \<le> ixSeqGen idx'"
    and one: "\<And>s f t g. (s, f) \<in> set ps \<Longrightarrow> (t, g) \<in> set ps \<Longrightarrow> covers f x \<Longrightarrow> covers g x \<Longrightarrow> f = g"
  shows "db_ok idx' V'"
    and "i = inode \<Longrightarrow> (s, f) \<in> set ps \<Longrightarrow> covers f x \<Longrightarrow> file_byte idx' V' i x = loc_byte idx' f x"
    and "(i = inode \<Longrightarrow> \<forall>(s, f) \<in> set ps. \<not> covers f x) \<Longrightarrow> file_byte idx' V' i x = file_byte idx V i x"
proof -
  have ok1: "db_ok idx' V" by (rule db_ok_extends [OF ext ok(1)])
  have pos: "0 < ixStripeSize idx'" using ext ok(2) by (simp add: ix_extends_def)
  show ok': "db_ok idx' V'" by (rule adds_db_ok [OF a ok1]) (use new in auto)
  have "V (FragmentKey inode s (Seq f)) = None" if "(s, f) \<in> set ps" for s f
  proof (rule ccontr)
    assume "V (FragmentKey inode s (Seq f)) \<noteq> None"
    then have "Seq f \<le> ixSeqGen idx" using db_okD [OF ok(1)] by blast
    moreover have "ixSeqGen idx < Seq f" using new that by auto
    ultimately show False by simp
  qed
  then have lv: "live V' i = live V i \<union> (if i = inode then snd ` set ps else {})" for i
    using new by (intro adds_live [OF a]) (auto simp: frag_ok_def)
  have old: "Seq g \<le> ixSeqGen idx" if "g \<in> live V i" for g i
    using that frag_atD [OF ok(1)] by (auto simp: live_def)
  {
    assume f: "i = inode" "(s, f) \<in> set ps" "covers f x"
    have "Seq g \<le> Seq f" if "g \<in> live V' i" "covers g x" for g
      using that lv f old new one by fastforce
    then have "newest V' i x f" using f lv by (force simp: newest_def)
    then show "file_byte idx' V' i x = loc_byte idx' f x" by (rule file_byte_newest [OF ok' pos])
  }
  assume no: "i = inode \<Longrightarrow> \<forall>(s, f) \<in> set ps. \<not> covers f x"
  have "newest V' i x = newest V i x" using lv no by (auto simp: fun_eq_iff newest_def split: if_splits)
  then have "file_byte idx' V' i x = file_byte idx' V i x" by (simp add: file_byte_def)
  also have "\<dots> = file_byte idx V i x" by (rule file_byte_extends [OF ext ok])
  finally show "file_byte idx' V' i x = file_byte idx V i x" .
qed

end
