(* ===== verification/Index_Write.thy ===== *)
theory Index_Write
  imports Index_Append
begin

text \<open>
  Splitting a write at the stripe boundaries, and the theorem about \<open>AppendToWithTxCtx\<close>:
  the file content changes exactly on the written range, and all at once.
\<close>

section \<open>Stripe arithmetic\<close>

text \<open>The offsets that stripe ids of 32 bits and offsets of 64 bits can address.\<close>

definition max_off :: "'db Index \<Rightarrow> int" where
  "max_off idx = min (2 ^ 32 * ixStripeSize idx) (2 ^ 63 - ixStripeSize idx)"

lemma stripeOf_uint:
  assumes "0 < ixStripeSize idx" "0 \<le> x" "x < max_off idx"
  shows "uint (stripeOf idx x) = x div ixStripeSize idx"
proof -
  let ?n = "ixStripeSize idx"
  have "x div ?n < 2 ^ 32"
  proof (rule ccontr)
    assume "\<not> x div ?n < 2 ^ 32"
    then have "2 ^ 32 * ?n \<le> x div ?n * ?n" using assms(1) by (intro mult_right_mono) auto
    also have "\<dots> \<le> x" using pos_mod_sign [OF assms(1), of x] minus_mod_eq_div_mult [of x ?n] by linarith
    finally show False using assms(3) by (simp add: max_off_def)
  qed
  moreover have "0 \<le> x div ixStripeSize idx" using assms by (simp add: pos_imp_zdiv_nonneg_iff)
  ultimately show ?thesis using assms by (simp add: stripeOf_def go_div_nonneg unat_u32_of_int64(2))
qed

lemma stripeEnd_eq:
  assumes "0 < ixStripeSize idx" "0 \<le> x" "x < max_off idx"
  shows "stripeEnd idx (stripeOf idx x) = (x div ixStripeSize idx + 1) * ixStripeSize idx"
    and "x < (x div ixStripeSize idx + 1) * ixStripeSize idx" "(x div ixStripeSize idx + 1) * ixStripeSize idx < 2 ^ 63"
proof -
  let ?n = "ixStripeSize idx"
  have e: "(x div ?n + 1) * ?n = x - x mod ?n + ?n"
    by (simp add: distrib_right minus_mod_eq_div_mult [symmetric])
  have m: "0 \<le> x mod ?n" "x mod ?n < ?n" using assms(1) by simp_all
  show "x < (x div ?n + 1) * ?n" using e m by linarith
  show b: "(x div ?n + 1) * ?n < 2 ^ 63" using e m assms(3) by (simp add: max_off_def)
  have "0 \<le> (x div ?n + 1) * ?n" using assms by (simp add: pos_imp_zdiv_nonneg_iff)
  then show "stripeEnd idx (stripeOf idx x) = (x div ?n + 1) * ?n"
    using b by (simp add: stripeEnd_def stripeOf_uint [OF assms] i64_small)
qed

lemma chunk_len_eq:
  assumes "0 < ixStripeSize idx" "0 \<le> off" "rem \<noteq> []" "off + int (length rem) \<le> max_off idx"
  shows "chunk_len idx off rem = min (int (length rem)) ((off div ixStripeSize idx + 1) * ixStripeSize idx - off)"
    and "0 < chunk_len idx off rem" "chunk_len idx off rem \<le> int (length rem)"
proof -
  have x: "off < max_off idx" using assms by (cases rem) auto
  note se = stripeEnd_eq [OF assms(1,2) x]
  have "i64 (off + int (length rem)) = off + int (length rem)"
    using assms by (intro i64_small) (auto simp: max_off_def)
  moreover have "i64 (stripeEnd idx (stripeOf idx off) - off) = stripeEnd idx (stripeOf idx off) - off"
    using se assms(2) by (intro i64_small) auto
  ultimately show c: "chunk_len idx off rem = min (int (length rem)) ((off div ixStripeSize idx + 1) * ixStripeSize idx - off)"
    using se(1) by (auto simp: chunk_len_def Let_def)
  show "0 < chunk_len idx off rem" "chunk_len idx off rem \<le> int (length rem)"
    using c se(2) assms(3) by (simp_all add: c)
qed

section \<open>Chunks\<close>

fun chunked :: "int \<Rightarrow> int \<Rightarrow> bytes \<Rightarrow> AppendExtent list \<Rightarrow> bool" where
  "chunked n off d [] \<longleftrightarrow> d = []"
| "chunked n off d (e # es) \<longleftrightarrow> eOff e = off \<and> eData e \<noteq> [] \<and> prefix (eData e) d \<and>
     off + int (length (eData e)) \<le> (off div n + 1) * n \<and>
     chunked n (off + int (length (eData e))) (drop (length (eData e)) d) es"

definition in_ext :: "int \<Rightarrow> AppendExtent \<Rightarrow> bool" where
  "in_ext x e \<longleftrightarrow> eOff e \<le> x \<and> x < eOff e + int (length (eData e))"

lemma chunked_bounds:
  assumes "chunked n off d es" "e \<in> set es"
  shows "off \<le> eOff e" "eOff e + int (length (eData e)) \<le> off + int (length d)" "eData e \<noteq> []"
    "eOff e + int (length (eData e)) \<le> (eOff e div n + 1) * n"
proof -
  have "off \<le> eOff e \<and> eOff e + int (length (eData e)) \<le> off + int (length d) \<and> eData e \<noteq> [] \<and>
      eOff e + int (length (eData e)) \<le> (eOff e div n + 1) * n"
    using assms
  proof (induction es arbitrary: off d)
    case (Cons a es)
    have l: "length (eData a) \<le> length d" using Cons.prems(1) by (auto dest: prefix_length_le)
    show ?case
    proof (cases "e = a")
      case True
      then show ?thesis using Cons.prems(1) l by simp
    next
      case False
      then show ?thesis
        using Cons.IH [of "off + int (length (eData a))" "drop (length (eData a)) d"] Cons.prems l by auto
    qed
  qed simp
  then show "off \<le> eOff e" "eOff e + int (length (eData e)) \<le> off + int (length d)" "eData e \<noteq> []"
    "eOff e + int (length (eData e)) \<le> (eOff e div n + 1) * n" by auto
qed

lemma chunked_at:
  assumes "chunked n off d es" "off \<le> x" "x < off + int (length d)"
  shows "\<exists>e \<in> set es. in_ext x e \<and> eData e ! nat (x - eOff e) = d ! nat (x - off)"
  using assms
proof (induction es arbitrary: off d)
  case (Cons e es)
  let ?m = "length (eData e)"
  obtain d' where d: "d = eData e @ d'" using Cons.prems(1) by (auto simp: prefix_def)
  show ?case
  proof (cases "x < off + int ?m")
    case True
    have "eData e ! nat (x - eOff e) = d ! nat (x - off)"
      using True Cons.prems d by (auto simp: nth_append)
    then show ?thesis using True Cons.prems by (auto simp: in_ext_def)
  next
    case False
    have "\<exists>e' \<in> set es. in_ext x e' \<and> eData e' ! nat (x - eOff e') = d' ! nat (x - (off + int ?m))"
      using Cons.IH [of "off + int ?m" d'] Cons.prems False d by auto
    moreover have "d ! nat (x - off) = d' ! nat (x - (off + int ?m))"
    proof -
      have "nat (x - off) - ?m = nat (x - (off + int ?m))" "\<not> nat (x - off) < ?m" using False by linarith+
      then show ?thesis by (simp add: d nth_append)
    qed
    ultimately show ?thesis by auto
  qed
qed simp

lemma chunked_one:
  assumes "chunked n off d es" "e \<in> set es" "e' \<in> set es" "in_ext x e" "in_ext x e'"
  shows "e = e'"
  using assms
proof (induction es arbitrary: off d)
  case (Cons a es)
  have later: "off + int (length (eData a)) \<le> eOff b" if "b \<in> set es" for b
    using chunked_bounds(1) [of n "off + int (length (eData a))" _ es b] Cons.prems(1) that by auto
  show ?case
  proof (cases "e \<in> set es \<and> e' \<in> set es")
    case True
    then show ?thesis using Cons.IH Cons.prems by auto
  next
    case False
    then show ?thesis using Cons.prems later [of e] later [of e'] by (auto simp: in_ext_def)
  qed
qed simp

lemma u64_Suc: "unat (g :: u64) + 1 < 2 ^ 64 \<Longrightarrow> unat (g + 1) = unat g + 1 \<and> g < g + 1"
proof -
  assume "unat g + 1 < 2 ^ 64"
  then have "unat (g + 1) = unat g + 1" by (simp add: unat_word_ariths)
  then show ?thesis by (simp add: word_less_nat_alt)
qed

lemma split_chunks_ok:
  assumes "0 < ixStripeSize idx" "0 \<le> off" "off + int (length rem) \<le> max_off idx"
    and "unat (ixSeqGen idx) + length rem < 2 ^ 64"
  shows "\<exists>es g. split_chunks idx off rem tier = (idx\<lparr>ixSeqGen := g\<rparr>, Inr es) \<and>
    chunked (ixStripeSize idx) off rem es \<and> ixSeqGen idx \<le> g \<and> unat g \<le> unat (ixSeqGen idx) + length rem \<and>
    distinct (map eSeq es) \<and>
    (\<forall>e \<in> set es. eTier e = tier \<and> ixSeqGen idx < eSeq e \<and> eSeq e \<le> g)"
  using assms
proof (induction idx off rem tier rule: split_chunks.induct)
  case (1 idx off rem tier)
  show ?case
  proof (cases "rem = []")
    case True
    have "idx\<lparr>ixSeqGen := ixSeqGen idx\<rparr> = idx" by simp
    then show ?thesis using True
      by (intro exI [of _ "[]"] exI [of _ "ixSeqGen idx"]) (simp add: split_chunks.simps)
  next
    case False
    define n where "n = chunk_len idx off rem"
    define idx1 where "idx1 = idx\<lparr>ixSeqGen := ixSeqGen idx + 1\<rparr>"
    note c = chunk_len_eq [OF 1(2,3) False 1(4), folded n_def]
    have l: "length (take (nat n) rem) = nat n" "1 \<le> length rem" using c False by (auto simp: Suc_leI)
    have n: "i64 (off + n) = off + n" using c 1 by (intro i64_small) (auto simp: max_off_def)
    have g: "unat (ixSeqGen idx + 1) = unat (ixSeqGen idx) + 1" "ixSeqGen idx < ixSeqGen idx + 1"
      using u64_Suc [of "ixSeqGen idx"] 1(5) l(2) by simp_all
    have "unat (ixSeqGen idx1) + length (drop (nat n) rem) < 2 ^ 64"
      using g(1) 1(5) c(2) l(2) by (auto simp: idx1_def)
    moreover have "(idx1, ixSeqGen idx + 1) = nextSeq idx" by (simp add: nextSeq_def idx1_def)
    moreover have "\<not> (n \<le> 0 \<or> int (length rem) < n)" using c(2,3) by linarith
    moreover have "0 < ixStripeSize idx1" "0 \<le> i64 (off + n)"
      "i64 (off + n) + int (length (drop (nat n) rem)) \<le> max_off idx1"
      using 1(2-4) c n by (auto simp: idx1_def max_off_def)
    ultimately have "\<exists>es g. split_chunks idx1 (i64 (off + n)) (drop (nat n) rem) tier = (idx1\<lparr>ixSeqGen := g\<rparr>, Inr es) \<and>
        chunked (ixStripeSize idx1) (i64 (off + n)) (drop (nat n) rem) es \<and> ixSeqGen idx1 \<le> g \<and>
        unat g \<le> unat (ixSeqGen idx1) + length (drop (nat n) rem) \<and> distinct (map eSeq es) \<and>
        (\<forall>e \<in> set es. eTier e = tier \<and> ixSeqGen idx1 < eSeq e \<and> eSeq e \<le> g)"
      using 1(1) [OF False n_def] by blast
    then obtain es k where es: "split_chunks idx1 (off + n) (drop (nat n) rem) tier = (idx1\<lparr>ixSeqGen := k\<rparr>, Inr es)"
        "chunked (ixStripeSize idx) (off + n) (drop (nat n) rem) es" "ixSeqGen idx1 \<le> k" "distinct (map eSeq es)"
        "\<forall>e \<in> set es. eTier e = tier \<and> ixSeqGen idx1 < eSeq e \<and> eSeq e \<le> k"
        "unat k \<le> unat (ixSeqGen idx1) + length (drop (nat n) rem)"
      by (auto simp: n idx1_def)
    have "nat n \<ge> 1" using c(2) by simp
    then have bk: "unat k \<le> unat (ixSeqGen idx) + length rem"
      using es(6) g(1) c(3) l(2) by (simp add: idx1_def)
    let ?e = "\<lparr>eSeq = ixSeqGen idx + 1, eOff = off, eData = take (nat n) rem, eTier = tier\<rparr>"
    have "split_chunks idx off rem tier = (idx\<lparr>ixSeqGen := k\<rparr>, Inr (?e # es))"
      using False c(2,3) n es(1) by (subst split_chunks.simps) (simp add: n_def [symmetric] nextSeq_def Let_def idx1_def)
    moreover have "chunked (ixStripeSize idx) off rem (?e # es)"
    proof -
      have "off + n \<le> (off div ixStripeSize idx + 1) * ixStripeSize idx" using c(1) by linarith
      then show ?thesis using c(2,3) l False es(2) by (simp add: take_is_prefix)
    qed
    moreover have "ixSeqGen idx \<le> k" "distinct (map eSeq (?e # es))"
      "\<forall>e \<in> set (?e # es). eTier e = tier \<and> ixSeqGen idx < eSeq e \<and> eSeq e \<le> k"
      using es(3-5) g(2) by (auto simp: idx1_def)
    ultimately show ?thesis using bk by blast
  qed
qed

section \<open>The batch\<close>

text \<open>A hook only adds operations, and none on the keys of the fragment index.\<close>

definition hook_ok :: "'db txhook option \<Rightarrow> bool" where
  "hook_ok hook \<longleftrightarrow> (\<forall>h db b b'. hook = Some h \<longrightarrow> h db b = Inr b' \<longrightarrow>
     (\<exists>ops. b' = b @ ops \<and> (\<forall>op \<in> set ops. \<not> prefix StripeAllPrefix (op_key op))))"

lemma hook_ok_None [simp]: "hook_ok None"
  by (simp add: hook_ok_def)

text \<open>An extent that the index can take.\<close>

definition ext_ok :: "'db Index \<Rightarrow> AppendExtent \<Rightarrow> bool" where
  "ext_ok idx e \<longleftrightarrow> 0 \<le> eOff e \<and> eData e \<noteq> [] \<and> eOff e + int (length (eData e)) \<le> max_off idx \<and>
     (eTier e = TierHot \<or> eTier e = TierCold)"

context pebble_engine
begin

lemma commit_batch_view:
  assumes "commit_batch P idx b = (idx', r)"
  shows "\<exists>db. idx' = idx\<lparr>ixDB := db\<rparr> \<and> (r = Inr () \<longrightarrow> view db = apply_ops b (view (ixDB idx))) \<and>
    (view db = view (ixDB idx) \<or> view db = apply_ops b (view (ixDB idx)))"
proof -
  obtain db where "Batch_Commit P (ixDB idx) b True = (db, r)" "idx' = idx\<lparr>ixDB := db\<rparr>"
    using assms by (auto simp: commit_batch_def split: prod.splits)
  then show ?thesis using Batch_Commit_atomic by blast
qed

lemma run_hook_view:
  assumes "hook_ok hook" "run_hook P idx hook b = (idx', r)"
  shows "\<exists>db. idx' = idx\<lparr>ixDB := db\<rparr> \<and> (r = Inr () \<longrightarrow> frag_eq (apply_ops b (view (ixDB idx))) (view db)) \<and>
    (frag_eq (view (ixDB idx)) (view db) \<or> frag_eq (apply_ops b (view (ixDB idx))) (view db))"
proof -
  let ?V = "view (ixDB idx)"
  have refl: "frag_eq W W" for W by (simp add: frag_eq_def)
  consider (stop) e where "idx' = idx" "r = Inl e"
    | (go) ops where "commit_batch P idx (b @ ops) = (idx', r)" "\<forall>op \<in> set ops. \<not> prefix StripeAllPrefix (op_key op)"
  proof (cases hook)
    case None
    then show ?thesis using that(2) [of "[]"] assms(2) by (simp add: run_hook_def)
  next
    case (Some h)
    show ?thesis
    proof (cases "h (ixDB idx) b")
      case (Inl e)
      then show ?thesis using that(1) assms(2) Some by (auto simp: run_hook_def)
    next
      case (Inr b')
      then obtain ops where "b' = b @ ops" "\<forall>op \<in> set ops. \<not> prefix StripeAllPrefix (op_key op)"
        using assms(1) Some unfolding hook_ok_def by blast
      then show ?thesis using that(2) assms(2) Some Inr by (simp add: run_hook_def)
    qed
  qed
  then show ?thesis
  proof cases
    case stop
    then show ?thesis using refl by (intro exI [of _ "ixDB idx"]) simp
  next
    case go
    have "frag_eq (apply_ops b ?V) (apply_ops (b @ ops) ?V)"
      using apply_ops_frag_eq [OF go(2)] by (simp add: frag_eq_sym)
    then show ?thesis using commit_batch_view [OF go(1)] refl by metis
  qed
qed


text \<open>
  What a batch of extents does to the index: the segments grow, and the database either
  keeps its fragments or gains exactly those of the extents, each located and durable.
\<close>

lemma staged_frag_ok:
  assumes "ix_ok idx" "staged idx e p" "located idx (snd p)" "durable idx (snd p)" "ext_ok idx e" "fits idx e"
  shows "frag_ok idx (fst p) (snd p)"
proof -
  have pos: "0 < ixStripeSize idx" using assms(1) by (simp add: ix_ok_def)
  have off: "0 \<le> eOff e" "eOff e < max_off idx" "eOff e + int (length (eData e)) \<le> max_off idx"
    using assms(5) by (cases "eData e"; simp add: ext_ok_def)+
  note se = stripeEnd_eq [OF pos off(1,2)] stripeOf_uint [OF pos off(1,2)]
  have "i64 (eOff e + int (length (eData e))) = eOff e + int (length (eData e))"
    using off pos by (intro i64_small) (auto simp: max_off_def)
  moreover have "eOff e div ixStripeSize idx * ixStripeSize idx \<le> eOff e"
    using pos_mod_sign [OF pos, of "eOff e"] minus_mod_eq_div_mult [of "eOff e" "ixStripeSize idx"] by linarith
  ultimately have "in_stripe idx (fst p) (snd p)"
    using assms(2,6) se by (simp add: in_stripe_def staged_def fits_def)
  moreover have "wf_frag (snd p)"
    using assms(2,5) off pos by (auto simp: wf_frag_def staged_def ext_ok_def max_off_def log_stored_def)
  ultimately show ?thesis using assms by (simp add: frag_ok_def staged_def ext_ok_def)
qed

lemma staged_Seqs: "list_all2 (staged idx) es ps \<Longrightarrow> map (Seq \<circ> snd) ps = map eSeq es"
  by (induction rule: list_all2_induct) (simp_all add: staged_def)

lemma AppendBatch_effect:
  assumes ok: "ix_ok idx" and es: "es \<noteq> []" "list_all (ext_ok idx) es" "distinct (map eSeq es)"
    and h: "hook_ok hook" and r: "AppendBatch P idx inode es hook = (idx', r)"
  shows "ix_ok idx' \<and> ix_extends idx idx' \<and> ixSeqGen idx' = ixSeqGen idx \<and>
    ((r \<noteq> Inr () \<and> frag_eq (view (ixDB idx)) (view (ixDB idx'))) \<or>
     (\<exists>ps. list_all2 (staged idx') es ps \<and> list_all (\<lambda>p. frag_ok idx' (fst p) (snd p)) ps \<and>
        adds (view (ixDB idx)) (view (ixDB idx')) inode ps))"
proof -
  let ?V = "view (ixDB idx)"
  have i: "list_all (\<lambda>e. in_i64 (eOff e)) es"
    using es(2) ok by (auto simp: list_all_iff ext_ok_def max_off_def in_i64_def ix_ok_def)
  obtain idx1 r1 where st: "stage_extents idx inode es [] [] = (idx1, r1)" by fastforce
  note s1 = stage_extents_ok [OF ok i st]
  have refl: "frag_eq ?V ?V" by (simp add: frag_eq_def)
  show ?thesis
  proof (cases r1)
    case (Inl e)
    then show ?thesis using r es(1) st s1 refl by (auto simp: AppendBatch_def ix_step_def)
  next
    case (Inr pt)
    obtain ps ts where pt: "pt = (ps, ts)" by fastforce
    have p: "list_all2 (staged idx1) es ps" "list_all (touched_by ts) ps" "list_all (fits idx) es"
      using s1 Inr pt by auto
    have ok1: "ix_ok idx1" using s1 by (simp add: ix_step_def)
    obtain idx2 r2 where sy: "sync_touched idx1 ts = (idx2, r2)" by fastforce
    have step: "ix_step idx idx2" using s1 sync_touched_ok [OF ok1 sy] ix_step_trans by blast
    show ?thesis
    proof (cases r2)
      case (Inl e)
      then show ?thesis using r es(1) st sy Inr pt step refl by (auto simp: AppendBatch_def ix_step_def)
    next
      case (Inr u)
      let ?b = "frag_batch inode ps NewBatch"
      have rh: "run_hook P idx2 hook ?b = (idx', r)"
        using r es(1) st sy \<open>r1 = Inr pt\<close> pt Inr by (simp add: AppendBatch_def)
      have x: "ix_ok idx2" "ix_extends idx idx2" "ixDB idx2 = ixDB idx" "ixSeqGen idx2 = ixSeqGen idx"
        using step by (simp_all add: ix_step_def)
      obtain db where db: "idx' = idx2\<lparr>ixDB := db\<rparr>" "r = Inr () \<longrightarrow> frag_eq (apply_ops ?b ?V) (view db)"
          "frag_eq ?V (view db) \<or> frag_eq (apply_ops ?b ?V) (view db)"
        using run_hook_view [OF h rh] x(3) by auto
      have same: "staged idx' = staged idx2" "located idx' = located idx2" "durable idx' = durable idx2"
          "frag_ok idx' = frag_ok idx2" "fits idx2 = fits idx" "ext_ok idx2 = ext_ok idx"
        using x(2) by (simp_all add: fun_eq_iff db(1) staged_def stripeOf_def stripeEnd_def located_def durable_def
            frag_ok_def in_stripe_def fits_def ext_ok_def max_off_def ix_extends_def)
      have one: "staged idx' e p \<and> frag_ok idx' (fst p) (snd p)" if "(e, p) \<in> set (zip es ps)" for e p
      proof -
        have m: "staged idx1 e p" "touched_by ts p" "fits idx e" "ext_ok idx e"
          using that p es(2) by (auto simp: list_all2_iff list_all_iff dest: set_zip_leftD set_zip_rightD)
        have "staged idx2 e p \<and> located idx2 (snd p) \<and> durable idx2 (snd p)"
          using staged_synced [OF ok1 m(1,2)] sy Inr by simp
        then show ?thesis using staged_frag_ok [OF x(1)] m(3,4) unfolding same by blast
      qed
      have l: "length es = length ps" using p(1) by (rule list_all2_lengthD)
      have st': "list_all2 (staged idx') es ps" using one l by (auto simp: list_all2_iff)
      have fo: "list_all (\<lambda>p. frag_ok idx' (fst p) (snd p)) ps"
        using one l unfolding list_all_length by (metis (no_types, lifting) in_set_zip fst_conv snd_conv)
      have "distinct (map (Seq \<circ> snd) ps)" using staged_Seqs [OF st'] es(3) by simp
      then have ad: "adds ?V (apply_ops ?b ?V) inode ps" by (rule frag_batch_adds)
      have ad': "adds ?V (view db) inode ps" if "frag_eq (apply_ops ?b ?V) (view db)"
        by (rule adds_frag_eq [OF ad that])
      have "ix_ok idx'" "ix_extends idx idx'" "ixSeqGen idx' = ixSeqGen idx" "ixDB idx' = db"
        using x by (simp_all add: db(1) ix_ok_def ix_extends_def)
      then show ?thesis using db(2,3) ad' st' fo by blast
    qed
  qed
qed

end

text \<open>The content of the chunks of one write, once their fragments are in the database.\<close>

lemma staged_loc_byte:
  assumes "staged idx e p" "in_ext x e"
  shows "covers (snd p) x \<and> loc_byte idx (snd p) x = Some (eData e ! nat (x - eOff e))"
proof -
  let ?f = "snd p"
  obtain d where d: "set_data (setFor idx (FTier ?f)) (SegmentID ?f) = Some d" "0 \<le> SegmentOffset ?f"
      "gslice (nat (SegmentOffset ?f)) (length (eData e)) d = Some (eData e)"
    using assms(1) by (auto simp: staged_def log_stored_def)
  have f: "LogicalOff ?f = eOff e" "Length ?f = int (length (eData e))" using assms(1) by (simp_all add: staged_def)
  define k where "k = nat (x - eOff e)"
  have k: "k < length (eData e)" "x = eOff e + int k" using assms(2) by (auto simp: k_def in_ext_def)
  have g: "nat (SegmentOffset ?f) + length (eData e) \<le> length d"
      "take (length (eData e)) (drop (nat (SegmentOffset ?f)) d) = eData e"
    using d(3) by (auto simp: gslice_def split: if_splits)
  have "nat (SegmentOffset ?f + int k) = nat (SegmentOffset ?f) + k" using d(2) by (simp add: nat_add_distrib)
  moreover have "d ! (nat (SegmentOffset ?f) + k) = eData e ! k"
    using g k(1) by (metis (no_types, lifting) nth_take nth_drop add_leD1)
  ultimately have "loc_byte idx ?f x = Some (eData e ! k)"
    using g(1) k by (simp add: loc_byte_def d(1) byte_at_def f)
  then show ?thesis using assms(2) f by (simp add: covers_def in_ext_def k_def)
qed

lemma staged_covers: "staged idx e p \<Longrightarrow> covers (snd p) x \<Longrightarrow> in_ext x e"
  by (simp add: staged_def covers_def in_ext_def)

text \<open>The content after a write of \<open>payload\<close> at \<open>off\<close>.\<close>

definition written :: "(u64 \<Rightarrow> int \<Rightarrow> byte option) \<Rightarrow> u64 \<Rightarrow> int \<Rightarrow> bytes \<Rightarrow> (u64 \<Rightarrow> int \<Rightarrow> byte option)" where
  "written c inode off payload = (\<lambda>i x. if i = inode \<and> off \<le> x \<and> x < off + int (length payload)
     then Some (payload ! nat (x - off)) else c i x)"

text \<open>Two ways in which the content can come out of a call that extends the segments.\<close>

lemma frag_eq_unchanged:
  assumes "ix_extends idx idx'" "ixSeqGen idx \<le> ixSeqGen idx'" "db_ok idx V" "0 < ixStripeSize idx" "frag_eq V W"
  shows "db_ok idx' W \<and> file_byte idx' W = file_byte idx V"
proof
  show "db_ok idx' W" using frag_eq_db_ok [OF assms(5)] db_ok_extends [OF assms(1-3)] by blast
  show "file_byte idx' W = file_byte idx V"
    using frag_eq_file_byte [OF frag_eq_sym [OF assms(5)], of idx'] file_byte_extends [OF assms(1-4)]
    by (simp add: fun_eq_iff)
qed

lemma staged_one:
  assumes st: "list_all2 (staged idx) es ps" and ch: "chunked n off d es" and ds: "distinct (map eSeq es)"
    and p: "p \<in> set ps" "q \<in> set ps" "covers (snd p) x" "covers (snd q) x"
  shows "p = q"
proof -
  obtain j k where j: "j < length ps" "ps ! j = p" and k: "k < length ps" "ps ! k = q"
    using p by (meson in_set_conv_nth)
  have l: "length es = length ps" using st by (rule list_all2_lengthD)
  have s: "staged idx (es ! j) p" "staged idx (es ! k) q" using st j k by (metis list_all2_conv_all_nth)+
  have "es ! j = es ! k"
    using chunked_one [OF ch, of "es ! j" "es ! k" x] staged_covers [OF s(1) p(3)] staged_covers [OF s(2) p(4)] j k l
    by simp
  then have "j = k" using ds j k l by (metis distinct_map nth_eq_iff_index_eq)
  then show ?thesis using j k by simp
qed

lemma chunks_written:
  assumes ok: "db_ok idx V" "0 < ixStripeSize idx" and ext: "ix_extends idx idx'" "ixSeqGen idx \<le> ixSeqGen idx'"
    and ch: "chunked n off payload es" and seqs: "distinct (map eSeq es)"
      "\<forall>e \<in> set es. ixSeqGen idx < eSeq e \<and> eSeq e \<le> ixSeqGen idx'"
    and ps: "list_all2 (staged idx') es ps" "list_all (\<lambda>p. frag_ok idx' (fst p) (snd p)) ps" "adds V V' inode ps"
  shows "db_ok idx' V' \<and> file_byte idx' V' = written (file_byte idx V) inode off payload"
proof -
  have pair: "\<exists>e \<in> set es. staged idx' e p" if "p \<in> set ps" for p
    using ps(1) that by (metis in_set_conv_nth list_all2_conv_all_nth)
  have pair': "\<exists>p \<in> set ps. staged idx' e p" if "e \<in> set es" for e
    using ps(1) that by (metis in_set_conv_nth list_all2_conv_all_nth)
  have new: "\<forall>(s, f) \<in> set ps. frag_ok idx' s f \<and> ixSeqGen idx < Seq f \<and> Seq f \<le> ixSeqGen idx'"
    using ps(2) pair seqs(2) by (fastforce simp: list_all_iff staged_def)
  have one: "f = f'" if "(s, f) \<in> set ps" "(s', f') \<in> set ps" "covers f x" "covers f' x" for s f s' f' x
    using staged_one [OF ps(1) ch seqs(1) that(1,2)] that(3,4) by simp
  note fb = adds_file_byte [OF ps(3) ok ext new one]
  have "file_byte idx' V' i x = written (file_byte idx V) inode off payload i x" for i x
  proof (cases "i = inode \<and> off \<le> x \<and> x < off + int (length payload)")
    case True
    then obtain e where e: "e \<in> set es" "in_ext x e" "eData e ! nat (x - eOff e) = payload ! nat (x - off)"
      using chunked_at [OF ch] by blast
    then obtain s f where p: "(s, f) \<in> set ps" "staged idx' e (s, f)" using pair' by fastforce
    have "file_byte idx' V' i x = loc_byte idx' f x"
      using True p(1) staged_loc_byte [OF p(2) e(2)] by (intro fb(2)) auto
    then show ?thesis using staged_loc_byte [OF p(2) e(2)] True e(3) by (simp add: written_def)
  next
    case no: False
    have "\<not> covers f x" if sf: "i = inode" "(s, f) \<in> set ps" for s f
    proof
      assume "covers f x"
      then obtain e where "e \<in> set es" "in_ext x e" using pair [OF sf(2)] staged_covers by fastforce
      then show False using chunked_bounds(1,2) [OF ch, of e] no sf(1) by (simp add: in_ext_def)
    qed
    then have "file_byte idx' V' i x = file_byte idx V i x" by (intro fb(3)) auto
    then show ?thesis using no by (auto simp: written_def)
  qed
  then show ?thesis using fb(1) by (simp add: fun_eq_iff)
qed

context pebble_engine
begin

lemma AppendToWithTx_empty:
  assumes "hook_ok hook" "AppendToWithTx P idx inode off [] tier hook = (idx', r)"
  shows "\<exists>db. idx' = idx\<lparr>ixDB := db\<rparr> \<and> frag_eq (view (ixDB idx)) (view db)"
proof (cases hook)
  case None
  then have "idx' = idx" using assms by (simp add: AppendToWithTx_def)
  then show ?thesis by (intro exI [of _ "ixDB idx"]) (simp add: frag_eq_def)
next
  case (Some h)
  then have "run_hook P idx hook NewBatch = (idx', r)" using assms by (simp add: AppendToWithTx_def)
  then show ?thesis using run_hook_view [OF assms(1)] by (fastforce simp: NewBatch_def)
qed

lemma AppendToWithTx_effect:
  assumes ok: "index_ok view idx" and off: "0 \<le> off" "off + int (length payload) \<le> max_off idx"
    and seq: "unat (ixSeqGen idx) + length payload < 2 ^ 64" and t: "tier = TierHot \<or> tier = TierCold"
    and h: "hook_ok hook" and r: "AppendToWithTx P idx inode off payload tier hook = (idx', r)"
  shows "index_ok view idx' \<and> ixStripeSize idx' = ixStripeSize idx \<and>
    unat (ixSeqGen idx') \<le> unat (ixSeqGen idx) + length payload \<and>
    (file_byte idx' (view (ixDB idx')) = written (file_byte idx (view (ixDB idx))) inode off payload \<or>
     r \<noteq> Inr () \<and> file_byte idx' (view (ixDB idx')) = file_byte idx (view (ixDB idx)))"
proof -
  let ?V = "view (ixDB idx)" and ?V' = "view (ixDB idx')"
  have ix: "ix_ok idx" "db_ok idx ?V" "0 < ixStripeSize idx" using ok by (auto simp: index_ok_def ix_ok_def)
  show ?thesis
  proof (cases "payload = []")
    case True
    obtain db where db: "idx' = idx\<lparr>ixDB := db\<rparr>" "frag_eq ?V (view db)"
      using AppendToWithTx_empty [OF h] r True by blast
    have "ix_extends idx idx'" "ixSeqGen idx \<le> ixSeqGen idx'" by (simp_all add: db(1) ix_extends_def)
    from frag_eq_unchanged [OF this ix(2,3) db(2)] show ?thesis
      using ix(1) True by (auto simp: index_ok_def db(1) ix_ok_def written_def fun_eq_iff)
  next
    case False
    obtain es g where es: "split_chunks idx off payload tier = (idx\<lparr>ixSeqGen := g\<rparr>, Inr es)"
        "chunked (ixStripeSize idx) off payload es" "ixSeqGen idx \<le> g" "distinct (map eSeq es)"
        "\<forall>e \<in> set es. eTier e = tier \<and> ixSeqGen idx < eSeq e \<and> eSeq e \<le> g"
        "unat g \<le> unat (ixSeqGen idx) + length payload"
      using split_chunks_ok [OF ix(3) off seq] by blast
    let ?idx1 = "idx\<lparr>ixSeqGen := g\<rparr>"
    have "AppendBatch P ?idx1 inode es hook = (idx', r)" using r False es(1) by (simp add: AppendToWithTx_def)
    moreover have "es \<noteq> []" using es(2) False by auto
    moreover have "list_all (ext_ok ?idx1) es"
      using chunked_bounds [OF es(2)] es(5) off t unfolding list_all_iff ext_ok_def max_off_def by fastforce
    moreover have "ix_ok ?idx1" using ix(1) by (simp add: ix_ok_def)
    ultimately have eff: "ix_ok idx' \<and> ix_extends ?idx1 idx' \<and> ixSeqGen idx' = g \<and>
        ((r \<noteq> Inr () \<and> frag_eq ?V ?V') \<or>
         (\<exists>ps. list_all2 (staged idx') es ps \<and> list_all (\<lambda>p. frag_ok idx' (fst p) (snd p)) ps \<and> adds ?V ?V' inode ps))"
      using AppendBatch_effect [OF _ _ _ _ h, of ?idx1 es inode idx' r] es(4) by simp
    have ext: "ix_extends idx idx'" "ixSeqGen idx \<le> ixSeqGen idx'"
      using eff es(3) by (simp_all add: ix_extends_def)
    have seqs: "\<forall>e \<in> set es. ixSeqGen idx < eSeq e \<and> eSeq e \<le> ixSeqGen idx'" using es(5) eff by auto
    show ?thesis
      using eff es(6) frag_eq_unchanged [OF ext ix(2,3)] chunks_written [OF ix(2,3) ext es(2,4) seqs]
      by (auto simp: index_ok_def ix_extends_def)
  qed
qed

end

end
