(* ===== verification/Index_Progress.thy ===== *)
theory Index_Progress
  imports Index_Write
begin

text \<open>
  Progress of the write path: when no system call fails, the engine is reliable and the
  segment files have room, an append succeeds.
\<close>

section \<open>Room in the segment files\<close>

definition set_room :: "SegSet \<Rightarrow> nat \<Rightarrow> bool" where
  "set_room ss k \<longleftrightarrow> (\<forall>i. length (fData (the_file (ssDir ss) i)) + k \<le> max_file_size)"

definition ix_room :: "'db Index \<Rightarrow> nat \<Rightarrow> bool" where
  "ix_room idx k \<longleftrightarrow> ixOS idx = [] \<and> set_room (ixHot idx) k \<and> set_room (ixCold idx) k"

lemma set_room_mono: "set_room ss k \<Longrightarrow> j \<le> k \<Longrightarrow> set_room ss j"
  unfolding set_room_def by (meson add_left_mono order_trans)

lemma ix_room_mono: "ix_room idx k \<Longrightarrow> j \<le> k \<Longrightarrow> ix_room idx j"
  unfolding ix_room_def using set_room_mono by blast

lemma sys_Nil [simp]: "sys [] = ([], Inr ())"
  by (simp add: sys_def)

lemma the_file_link_all [simp]: "fData (the_file (link_all d) i) = fData (the_file d i)"
  by (simp add: the_file_def map_of_link_all split: option.splits)

lemma Segment_Sync_progress:
  "\<exists>ss'. Segment_Sync ss [] i = ((ss', []), Inr ()) \<and> (\<forall>j. fData (the_file (ssDir ss') j) = fData (the_file (ssDir ss) j))"
  by (cases "seg_of ss i") (auto simp: Segment_Sync_def file_sync_def)

lemma Set_rotate_progress:
  "\<exists>ss' i s. Set_rotate ss [] = ((ss', []), Inr i) \<and> seg_of ss' i = Some s \<and>
     (\<forall>j. fData (the_file (ssDir ss') j) = fData (the_file (ssDir ss) j))"
proof -
  let ?i = "ssNextID ss"
  show ?thesis
  proof (cases "map_of (ssDir ss) (segFileName ?i)")
    case None
    then have "the_file (ssDir ss) ?i = empty_file" by (simp add: the_file_def)
    with None show ?thesis
      by (simp add: Set_rotate_def openSegment_def fsyncDir_def Let_def seg_of_def update_conv' empty_file_def)
  next
    case (Some f)
    then show ?thesis
      by (simp add: Set_rotate_def openSegment_def fsyncDir_def Let_def seg_of_def update_conv')
  qed
qed

lemma Set_Active_progress:
  assumes "set_ok ss"
  shows "\<exists>ss' i s. Set_Active ss [] n = ((ss', []), Inr i) \<and> seg_of ss' i = Some s \<and>
     (\<forall>j. fData (the_file (ssDir ss') j) = fData (the_file (ssDir ss) j))"
proof (cases "ssActive ss")
  case None
  then show ?thesis using Set_rotate_progress by (simp add: Set_Active_def)
next
  case (Some a)
  obtain s where s: "seg_of ss a = Some s" using assms Some by (auto simp: set_ok_def)
  obtain ss1 where y: "Segment_Sync ss [] a = ((ss1, []), Inr ())"
      "\<forall>j. fData (the_file (ssDir ss1) j) = fData (the_file (ssDir ss) j)"
    using Segment_Sync_progress by blast
  then show ?thesis using Some s Set_rotate_progress [of ss1] by (simp add: Set_Active_def)
qed

lemma Segment_Append_progress:
  assumes ok: "set_ok ss" and s: "seg_of ss i = Some s" and h: "unat (hLength h) = length p"
    and room: "set_room ss (length p + 44 + k)"
  shows "\<exists>ss' off. Segment_Append ss [] i h p = ((ss', []), Inr off) \<and> set_room ss' k"
proof -
  obtain f where f: "the_file (ssDir ss) i = f" "segOpen s" "segPos s = length (fData f)"
    using ok s by (rule set_okD)
  have len: "length (frame h p) = length p + 44" by (simp add: record_sizes)
  have r: "length (fData (the_file (ssDir ss) j)) + length p + 44 + k \<le> max_file_size" for j
    using room by (simp add: set_room_def add.assoc)
  let ?ss' = "put_seg i (s\<lparr>segPos := segPos s + length (frame h p), segSize := i64 (segSize s + int (length (frame h p)))\<rparr>)
      (file_write (segPos s) (frame h p) f) ss"
  have "Segment_Append ss [] i h p = ((?ss', []), Inr (i64 (segSize s + int headerSize)))"
    using s h f r [of i] by (simp add: Segment_Append_def Let_def len)
  moreover have "set_room ?ss' k"
    unfolding set_room_def
  proof
    fix j
    show "length (fData (the_file (ssDir ?ss') j)) + k \<le> max_file_size"
      using r [of j] f file_write_end [of f "frame h p"] by (cases "i = j") (auto simp: len)
  qed
  ultimately show ?thesis by blast
qed

section \<open>The steps of an append\<close>

lemma on_set_room:
  assumes "f (setFor idx t) [] = ((ss, []), r)" "ix_room idx k" "set_room ss j" "j \<le> k"
  shows "on_set idx t f = (put_set t ss [] idx, r) \<and> ix_room (put_set t ss [] idx) j"
  using assms set_room_mono by (auto simp: on_set_def ix_room_def put_set_def setFor_def)

lemma setFor_room: "ix_room idx k \<Longrightarrow> set_room (setFor idx t) k"
  by (simp add: ix_room_def setFor_def)

lemma append_record_progress:
  assumes ok: "ix_ok idx" and room: "ix_room idx (length d + 44 + k)" and h: "unat (hLength h) = length d"
  shows "\<exists>idx' so. append_record idx t h d = (idx', Inr so) \<and> ix_room idx' k"
proof -
  let ?act = "\<lambda>ss osq. Set_Active ss osq (FramedSize (length d))"
  obtain ss i s where a: "?act (setFor idx t) [] = ((ss, []), Inr i)" "seg_of ss i = Some s"
      "\<forall>j. fData (the_file (ssDir ss) j) = fData (the_file (ssDir (setFor idx t)) j)"
    using Set_Active_progress [OF ix_ok_setFor [OF ok]] by blast
  define idx1 where "idx1 = put_set t ss [] idx"
  have rs: "set_room ss (length d + 44 + k)" using a(3) setFor_room [OF room, of t] by (simp add: set_room_def)
  have o1: "on_set idx t ?act = (idx1, Inr i)" and room1: "ix_room idx1 (length d + 44 + k)"
    using on_set_room [of ?act idx t ss "Inr i", OF a(1) room rs] by (simp_all add: idx1_def)
  have ok1: "ix_ok idx1" using on_set_Active [OF ok o1] by (simp add: ix_step_def)
  have s1: "setFor idx1 t = ss" by (simp add: idx1_def put_set_def setFor_def)
  obtain ss2 off where b: "Segment_Append ss [] i h d = ((ss2, []), Inr off)" "set_room ss2 k"
    using Segment_Append_progress [OF _ a(2) h rs] ix_ok_setFor [OF ok1, of t] s1 by auto
  have "on_set idx1 t (\<lambda>ss osq. Segment_Append ss osq i h d) = (put_set t ss2 [] idx1, Inr off) \<and>
      ix_room (put_set t ss2 [] idx1) k"
    using b s1 by (intro on_set_room [OF _ room1 b(2)]) auto
  then show ?thesis using o1 by (simp add: append_record_def)
qed

definition framed :: "AppendExtent list \<Rightarrow> nat" where
  "framed es = sum_list (map (\<lambda>e. length (eData e) + 44) es)"

lemma stage_progress:
  assumes "ix_ok idx" "ix_room idx (framed es + k)"
    and "\<forall>e \<in> set es. in_i64 (eOff e) \<and> fits idx e \<and> length (eData e) < 2 ^ 32"
  shows "\<exists>idx' pt. stage_extents idx inode es ps ts = (idx', Inr pt) \<and> ix_room idx' k"
  using assms
proof (induction es arbitrary: idx ps ts)
  case Nil
  then show ?case by (auto simp: framed_def)
next
  case (Cons e es)
  let ?h = "\<lparr>hInode = inode, hStripeID = stripeOf idx (eOff e), hSeq = eSeq e, hLogicalOff = eOff e,
             hLength = u32_of_int64 (int (length (eData e)))\<rparr>"
  have room: "ix_room idx (length (eData e) + 44 + (framed es + k))"
    using Cons.prems(2) by (simp add: framed_def algebra_simps)
  have h: "unat (hLength ?h) = length (eData e)"
    using Cons.prems(3) unat_u32_of_int64(1) [of "int (length (eData e))"] by simp
  obtain idx1 so where a: "append_record idx (eTier e) ?h (eData e) = (idx1, Inr so)" "ix_room idx1 (framed es + k)"
    using append_record_progress [OF Cons.prems(1) room h] by blast
  have "ix_step idx idx1" using append_record_ok [OF Cons.prems(1) _ a(1)] Cons.prems(3) by simp
  then have x: "ix_ok idx1" "ix_extends idx idx1" by (simp_all add: ix_step_def)
  have "\<forall>e \<in> set es. in_i64 (eOff e) \<and> fits idx1 e \<and> length (eData e) < 2 ^ 32"
    using Cons.prems(3) by (simp add: fits_def stripe_extends [OF x(2)])
  note IH = Cons.IH [OF x(1) a(2) this]
  obtain seg off where "so = (seg, off)" by fastforce
  then show ?case using a(1) IH Cons.prems(3) by (simp add: Let_def fits_def not_less)
qed

lemma sync_progress: "ix_room idx k \<Longrightarrow> \<exists>idx'. sync_touched idx ts = (idx', Inr ())"
proof (induction ts arbitrary: idx)
  case (Cons t ts)
  obtain c seg where t: "t = (c, seg)" by fastforce
  let ?t = "if c then TierCold else TierHot"
  obtain ss where s: "Segment_Sync (setFor idx ?t) [] seg = ((ss, []), Inr ())"
      "\<forall>j. fData (the_file (ssDir ss) j) = fData (the_file (ssDir (setFor idx ?t)) j)"
    using Segment_Sync_progress by blast
  have "set_room ss k" using s(2) setFor_room [OF Cons.prems, of ?t] by (simp add: set_room_def)
  then have "on_set idx ?t (\<lambda>ss osq. Segment_Sync ss osq seg) = (put_set ?t ss [] idx, Inr ()) \<and>
      ix_room (put_set ?t ss [] idx) k"
    using s(1) by (intro on_set_room [OF _ Cons.prems]) auto
  then show ?case using Cons.IH t by auto
qed simp

lemma chunked_framed: "chunked n off d es \<Longrightarrow> framed es \<le> 45 * length d"
proof (induction es arbitrary: off d)
  case (Cons e es)
  obtain d' where d: "d = eData e @ d'" using Cons.prems by (auto simp: prefix_def)
  have "framed es \<le> 45 * length d'" using Cons d by auto
  moreover have "1 \<le> length (eData e)" using Cons.prems by (cases "eData e") auto
  ultimately show ?case by (simp add: framed_def d)
qed (simp add: framed_def)

context reliable_pebble
begin

lemma AppendTo_progress:
  assumes ok: "index_ok view idx" and off: "0 \<le> off" "off + int (length payload) \<le> max_off idx"
    and seq: "unat (ixSeqGen idx) + length payload < 2 ^ 64"
    and room: "ix_room idx (45 * length payload)" and ss: "ixStripeSize idx < 2 ^ 32"
  shows "\<exists>idx'. AppendTo P idx inode off payload tier = (idx', Inr ())"
proof (cases "payload = []")
  case True
  then show ?thesis by (simp add: AppendTo_def AppendToWithTx_def)
next
  case False
  have ix: "ix_ok idx" "0 < ixStripeSize idx" using ok by (auto simp: index_ok_def ix_ok_def)
  obtain es g where es: "split_chunks idx off payload tier = (idx\<lparr>ixSeqGen := g\<rparr>, Inr es)"
      "chunked (ixStripeSize idx) off payload es"
    using split_chunks_ok [OF ix(2) off seq] by blast
  let ?idx1 = "idx\<lparr>ixSeqGen := g\<rparr>"
  have ne: "es \<noteq> []" using es(2) False by auto
  have ok1: "ix_ok ?idx1" using ix(1) by (simp add: ix_ok_def)
  have room1: "ix_room ?idx1 (framed es + 0)"
    using ix_room_mono [OF room chunked_framed [OF es(2)]] by (simp add: ix_room_def)
  have e: "in_i64 (eOff e) \<and> fits ?idx1 e \<and> length (eData e) < 2 ^ 32" if "e \<in> set es" for e
  proof -
    note b = chunked_bounds [OF es(2) that]
    have m: "0 \<le> eOff e" "eOff e < max_off idx" "eOff e + int (length (eData e)) \<le> max_off idx"
      using b off by (cases "eData e"; simp)+
    have mx: "max_off idx < 2 ^ 63" using ix(2) by (simp add: max_off_def)
    have "eOff e div ixStripeSize idx * ixStripeSize idx \<le> eOff e"
      using pos_mod_sign [OF ix(2), of "eOff e"] minus_mod_eq_div_mult [of "eOff e" "ixStripeSize idx"] by linarith
    then have "int (length (eData e)) \<le> ixStripeSize idx" using b(4) by (simp add: distrib_right)
    moreover have "i64 (eOff e + int (length (eData e))) = eOff e + int (length (eData e))"
      using m mx by (intro i64_small) auto
    moreover have "stripeEnd ?idx1 s = stripeEnd idx s" "stripeOf ?idx1 x = stripeOf idx x" for s x
      by (simp_all add: stripeEnd_def stripeOf_def)
    ultimately show ?thesis
      using b(4) stripeEnd_eq(1) [OF ix(2) m(1,2)] m mx ss by (simp add: fits_def in_i64_def)
  qed
  obtain idx2 pt where st: "stage_extents ?idx1 inode es [] [] = (idx2, Inr pt)" "ix_room idx2 0"
    using stage_progress [OF ok1 room1] e by blast
  obtain ps ts where pt: "pt = (ps, ts)" by fastforce
  obtain idx3 where sy: "sync_touched idx2 ts = (idx3, Inr ())" using sync_progress [OF st(2)] by blast
  obtain db where "Batch_Commit P (ixDB idx3) (frag_batch inode ps NewBatch) True = (db, Inr ())"
    using Batch_Commit_total by blast
  then show ?thesis
    using False es(1) ne st(1) pt sy
    by (simp add: AppendTo_def AppendToWithTx_def AppendBatch_def run_hook_def commit_batch_def)
qed

end

lemma fresh_room: "ix_room fresh_index (2 ^ 62)"
  by (simp add: ix_room_def fresh_index_def fresh_set_def set_room_def the_file_def empty_file_def max_file_size_def)

text \<open>The run of the witnesses: two bytes across the first stripe boundary.\<close>

lemma fresh_append:
  "\<exists>idx'. AppendToWithTx mem_pebble fresh_index 1 4095 [7, 8] TierHot None = (idx', Inr ()) \<and>
     index_ok map_of idx' \<and> ixStripeSize idx' = 4096 \<and> unat (ixSeqGen idx') \<le> 2 \<and> file_byte idx' (map_of (ixDB idx')) 1 4096 = Some 8"
proof -
  obtain idx' where "AppendTo mem_pebble fresh_index 1 4095 [7, 8] TierHot = (idx', Inr ())"
    using mem.AppendTo_progress [OF fresh_index_ok, of 4095 "[7, 8]"] ix_room_mono [OF fresh_room, of 90]
    by (auto simp: max_off_def)
  then have a: "AppendToWithTx mem_pebble fresh_index 1 4095 [7, 8] TierHot None = (idx', Inr ())"
    by (simp add: AppendTo_def)
  have "index_ok map_of idx' \<and> ixStripeSize idx' = ixStripeSize fresh_index \<and>
      unat (ixSeqGen idx') \<le> unat (ixSeqGen fresh_index) + length [7, 8 :: byte] \<and> file_byte idx' (map_of (ixDB idx')) =
      written (file_byte fresh_index (map_of (ixDB fresh_index))) 1 4095 [7, 8]"
    using mem.AppendToWithTx_effect [OF fresh_index_ok _ _ _ _ _ a] by (simp add: max_off_def)
  with a show ?thesis by (simp add: written_def)
qed

section \<open>Properties\<close>

text \<open>
  C28: an append replaces exactly the bytes of its range: when it reports success the content
  of the file is the old content with the payload written over it; when it reports an
  error the content is either that or unchanged (the commit is atomic). Other files keep
  their content, and in every outcome each fragment in the database points at durable bytes.
\<close>

theorem Append_updates_content:
  assumes "pebble_engine P view" "index_ok view idx" "0 \<le> off" "off + int (length payload) \<le> max_off idx"
    and "unat (ixSeqGen idx) + length payload < 2 ^ 64" "tier = TierHot \<or> tier = TierCold" "hook_ok hook"
    and "AppendToWithTx P idx inode off payload tier hook = (idx', r)"
  shows "index_ok view idx' \<and> ixStripeSize idx' = ixStripeSize idx \<and>
    (file_byte idx' (view (ixDB idx')) = written (file_byte idx (view (ixDB idx))) inode off payload \<or>
     r \<noteq> Inr () \<and> file_byte idx' (view (ixDB idx')) = file_byte idx (view (ixDB idx)))"
  using pebble_engine.AppendToWithTx_effect [OF assms] by blast

theorem Append_updates_content_witness:
  "\<exists>idx'. AppendToWithTx mem_pebble fresh_index 1 4095 [7, 8] TierHot None = (idx', Inr ()) \<and>
     file_byte idx' (map_of (ixDB idx')) 1 4096 = Some 8 \<and> file_byte idx' (map_of (ixDB idx')) 1 4097 = None"
proof -
  obtain idx' where a: "AppendToWithTx mem_pebble fresh_index 1 4095 [7, 8] TierHot None = (idx', Inr ())"
    using fresh_append by blast
  have "file_byte idx' (map_of (ixDB idx')) = written (file_byte fresh_index (map_of (ixDB fresh_index))) 1 4095 [7, 8]"
    using Append_updates_content [OF mem.pebble_engine_axioms fresh_index_ok _ _ _ _ _ a] by (simp add: max_off_def)
  then show ?thesis using a by (simp add: written_def del: fresh_index_sel)
qed

text \<open>
  C35: an append inside the addressable range succeeds when no system call fails, the engine
  is reliable and the segment files have room for the records.
\<close>

theorem Append_succeeds:
  assumes "reliable_pebble P view" "index_ok view idx" "0 \<le> off" "off + int (length payload) \<le> max_off idx"
    and "unat (ixSeqGen idx) + length payload < 2 ^ 64" "ix_room idx (45 * length payload)" "ixStripeSize idx < 2 ^ 32"
  shows "\<exists>idx'. AppendTo P idx inode off payload tier = (idx', Inr ())"
  using reliable_pebble.AppendTo_progress [OF assms] .

theorem Append_succeeds_witness:
  "\<exists>idx'. AppendTo mem_pebble fresh_index 1 0 [7, 8] TierCold = (idx', Inr ())"
  using Append_succeeds [OF mem.reliable_pebble_axioms fresh_index_ok, of 0 "[7, 8]"] ix_room_mono [OF fresh_room, of 90]
  by (auto simp: max_off_def)

end
