(* ===== verification/Index_Read.thy ===== *)
theory Index_Read
  imports Index_Progress Fragment_Plan
begin

text \<open>
  The read path of the index: the range scan finds exactly the fragments of the requested
  stripes, the plan tiles the requested range, and reading the located slices yields the
  content of the file. Unless an iterator stops early: its error is dropped.
\<close>

section \<open>Scanning fragments\<close>

lemma tag_range: "prefix StripeAllPrefix k \<longleftrightarrow> [115] \<le> k \<and> k < [116]"
proof -
  have "PrefixUpperBound StripeAllPrefix = Some [116]"
    by (simp add: PrefixUpperBound_def StripeAllPrefix_def tagStripe_def)
  then show ?thesis
    using prefix_range [of StripeAllPrefix k] by (simp add: in_range_def StripeAllPrefix_def tagStripe_def)
qed

lemma stripe_range_tag:
  assumes "in_range (FragmentStripePrefix i a) (stripe_range_hi i b) k"
  shows "prefix StripeAllPrefix k"
proof -
  have "[115] \<le> FragmentStripePrefix i a" by (simp add: FragmentStripePrefix_def tagStripe_def)
  moreover have "\<exists>h. stripe_range_hi i b = Some h \<and> h \<le> [116]"
  proof (cases "b = NOT 0")
    case True
    have "\<forall>k. prefix (StripePrefix i) k \<longrightarrow> k < [116]"
      by (auto simp: StripePrefix_def tagStripe_def prefix_def)
    then show ?thesis using True PrefixUpperBound_least [of "StripePrefix i" "[116]"] by (simp add: stripe_range_hi_def)
  next
    case False
    have "FragmentStripePrefix i (b + 1) \<le> [116]" by (simp add: FragmentStripePrefix_def tagStripe_def)
    then show ?thesis using False by (simp add: stripe_range_hi_def)
  qed
  ultimately show ?thesis using assms unfolding tag_range in_range_def by (auto intro: order_trans less_le_trans)
qed

text \<open>A complete scan of a range of stripe keys decodes to exactly the fragments of the range.\<close>

lemma scan_decode:
  assumes "db_ok idx V" "range_scan V lo hi kvs" "\<And>k. in_range lo hi k \<Longrightarrow> prefix StripeAllPrefix k"
  shows "set (decode_entries kvs) = {f. \<exists>i s. frag_at V i s f \<and> in_range lo hi (FragmentKey i s (Seq f))}"
proof (intro set_eqI iffI)
  fix f assume "f \<in> set (decode_entries kvs)"
  then obtain k v where kv: "(k, v) \<in> set kvs" "IsFragmentKey k" "f \<in> set (decodeFragments v)"
    by (auto simp: decode_entries_def split: if_splits)
  have r: "in_range lo hi k" "V k = Some v" using range_scan_mem [OF assms(2)] kv(1) by auto
  obtain i s q where k: "k = FragmentKey i s q" using fragment_key_cases assms(3) r(1) kv(2) by blast
  obtain g where "decodeFragments v = [g]" "Seq g = q" using db_okD [OF assms(1)] r(2) k by metis
  then have "frag_at V i s f" "q = Seq f" using kv(3) r(2) k by (auto simp: frag_at_def)
  then show "f \<in> {f. \<exists>i s. frag_at V i s f \<and> in_range lo hi (FragmentKey i s (Seq f))}" using r(1) k by auto
next
  fix f assume "f \<in> {f. \<exists>i s. frag_at V i s f \<and> in_range lo hi (FragmentKey i s (Seq f))}"
  then obtain i s v where f: "V (FragmentKey i s (Seq f)) = Some v" "decodeFragments v = [f]"
      "in_range lo hi (FragmentKey i s (Seq f))" by (auto simp: frag_at_def)
  then have "(FragmentKey i s (Seq f), v) \<in> set kvs" using range_scan_mem [OF assms(2)] by simp
  moreover have "IsFragmentKey (FragmentKey i s (Seq f))" by (simp add: IsFragmentKey_def FragmentKey_def)
  ultimately show "f \<in> set (decode_entries kvs)" using f(2) unfolding decode_entries_def by force
qed

text \<open>Iterators of the engine that always reach the end of their range.\<close>

definition iter_complete :: "'db pebble \<Rightarrow> bool" where
  "iter_complete P \<longleftrightarrow> (\<forall>db lo hi kvs e. p_iter P db lo hi \<noteq> Inr (kvs, Some e))"

lemma mem_iter_complete: "iter_complete mem_pebble"
  by (simp add: iter_complete_def)

context pebble_engine
begin

lemma fragmentsInRange_set:
  assumes "iter_complete P" "db_ok idx (view (ixDB idx))" "fragmentsInRange P idx inode a b = Inr frags"
  shows "set frags = {f. \<exists>s. frag_at (view (ixDB idx)) inode s f \<and> a \<le> s \<and> s \<le> b}"
proof -
  let ?V = "view (ixDB idx)"
  obtain kvs e where it: "DB_Iter P (ixDB idx) (FragmentStripePrefix inode a) (stripe_range_hi inode b) = Inr (kvs, e)"
      and fr: "frags = decode_entries kvs"
    using assms(3) by (auto simp: fragmentsInRange_def scan_fragments_def bindE_ok)
  then have "e = None" using assms(1) by (cases e) (auto simp: iter_complete_def DB_Iter_def)
  then have rs: "range_scan ?V (FragmentStripePrefix inode a) (stripe_range_hi inode b) kvs"
    using it DB_Iter_view by simp
  have "set (decode_entries kvs) = {f. \<exists>i s. frag_at ?V i s f \<and>
      in_range (FragmentStripePrefix inode a) (stripe_range_hi inode b) (FragmentKey i s (Seq f))}"
    by (rule scan_decode [OF assms(2) rs]) (rule stripe_range_tag)
  then show ?thesis by (auto simp: fr stripe_range_FragmentKey)
qed

end

section \<open>From the plan to the bytes\<close>

lemma planRead_loc_length:
  assumes "s \<in> set (planRead frags off len)" "\<not> slSparse s"
  shows "locLength (slLocator s) = slLength s"
  using assms by (auto simp: planRead_def sweep_pieces emitSlice_def sparseSlice_def split: if_splits prod.splits)

text \<open>The newest of the fragments that a scan returned is the newest of the file.\<close>

lemma is_newest_newest:
  assumes "db_ok idx V" "0 < ixStripeSize idx" "0 \<le> a" "a \<le> x" "x \<le> b" "b < max_off idx"
    and fr: "set frags = {f. \<exists>s. frag_at V i s f \<and> stripeOf idx a \<le> s \<and> s \<le> stripeOf idx b}"
  shows "is_newest frags x f \<longleftrightarrow> newest V i x f"
    and "(\<forall>f \<in> set frags. \<not> covers f x) \<longleftrightarrow> (\<forall>f \<in> live V i. \<not> covers f x)"
proof -
  have "g \<in> set frags \<longleftrightarrow> g \<in> live V i" if c: "covers g x" for g
  proof
    assume "g \<in> live V i"
    then obtain s where s: "frag_at V i s g" by (auto simp: live_def)
    then have "in_stripe idx s g" using frag_atD [OF assms(1)] by (simp add: frag_ok_def)
    then have u: "uint s = x div ixStripeSize idx" by (rule in_stripe_covers [OF _ c assms(2)])
    have "uint (stripeOf idx a) \<le> uint s" "uint s \<le> uint (stripeOf idx b)"
      unfolding u using assms(2-6) by (simp_all add: stripeOf_uint zdiv_mono1)
    then show "g \<in> set frags" using s fr by (auto simp: word_le_def)
  qed (use fr in \<open>auto simp: live_def\<close>)
  then show "is_newest frags x f \<longleftrightarrow> newest V i x f"
    and "(\<forall>f \<in> set frags. \<not> covers f x) \<longleftrightarrow> (\<forall>f \<in> live V i. \<not> covers f x)"
    by (auto simp: is_newest_def newest_def)
qed

lemma loc_byte_frag_loc:
  "frag_loc f x = (t, sid, o') \<Longrightarrow> loc_byte idx f x =
     (case set_data (setFor idx t) sid of Some d \<Rightarrow> byte_at (nat o') d | None \<Rightarrow> None)"
  by (auto simp: frag_loc_def loc_byte_def)

definition slice_byte :: "'db Index \<Rightarrow> ReadSlice \<Rightarrow> int \<Rightarrow> byte option" where
  "slice_byte idx s x = (if slSparse s then None else
     case set_data (setFor idx (locTier (slLocator s))) (locSegmentID (slLocator s)) of
       Some d \<Rightarrow> byte_at (nat (locOffset (slLocator s) + (x - slLogicalOff s))) d | None \<Rightarrow> None)"

lemma loc_byte_some:
  assumes "located idx f" "wf_frag f" "covers f x"
  shows "loc_byte idx f x \<noteq> None"
  using assms by (auto simp: located_def loc_byte_def byte_at_def wf_frag_def covers_def)

lemma tiles_bounds: "tiles a b us \<Longrightarrow> hits x us \<noteq> 0 \<Longrightarrow> a \<le> x \<and> x < b"
proof (induction us arbitrary: a)
  case (Cons u us)
  have "tiles c b vs \<Longrightarrow> c \<le> b" for c vs by (induction vs arbitrary: c) fastforce+
  then have "snd u \<le> b" using Cons.prems(1) by auto
  then show ?case using Cons by (force simp: hits_Cons split: if_splits)
qed simp

lemma tiles_covers: "tiles a b us \<Longrightarrow> a \<le> x \<Longrightarrow> x < b \<Longrightarrow> \<exists>u \<in> set us. fst u \<le> x \<and> x < snd u"
proof (induction us arbitrary: a)
  case (Cons u us)
  then show ?case by (cases "x < snd u") auto
qed simp

context pebble_engine
begin

lemma PlanRead_content:
  assumes it: "iter_complete P" and ok: "index_ok view idx" and r: "0 \<le> off" "0 < len" "off + len \<le> max_off idx"
    and pl: "Index_PlanRead P idx inode off len = Inr slices"
  shows "tiles off (off + len) (map slice_iv slices)"
    and "s \<in> set slices \<Longrightarrow> in_slice x s \<Longrightarrow> slice_byte idx s x = file_byte idx (view (ixDB idx)) inode x \<and>
      (slSparse s \<longleftrightarrow> file_byte idx (view (ixDB idx)) inode x = None) \<and>
      (\<not> slSparse s \<longrightarrow> 0 \<le> locOffset (slLocator s) + (x - slLogicalOff s) \<and> locLength (slLocator s) = slLength s)"
proof -
  let ?V = "view (ixDB idx)"
  have ix: "db_ok idx ?V" "0 < ixStripeSize idx" using ok by (simp_all add: index_ok_def ix_ok_def)
  have b: "off + len < 2 ^ 63" using r(3) ix(2) by (simp add: max_off_def)
  have e: "i64 (i64 (off + len) - 1) = off + len - 1" using b r by (simp add: i64_small)
  obtain frags where fr: "fragmentsInRange P idx inode (stripeOf idx off) (stripeOf idx (off + len - 1)) = Inr frags"
      and sl: "slices = planRead frags off len"
    using pl r(2) by (auto simp: Index_PlanRead_def bindE_ok e)
  note fs = fragmentsInRange_set [OF it ix(1) fr]
  have wf: "list_all wf_frag frags" using fs frag_atD [OF ix(1)] by (auto simp: list_all_iff frag_ok_def)
  note pr = planRead_correct [OF wf r(1,2) b]
  show t: "tiles off (off + len) (map slice_iv slices)" using pr(1) sl by simp
  assume s: "s \<in> set slices" "in_slice x s"
  have "hits x (map slice_iv slices) \<noteq> 0" using s hits_pos [of x "map slice_iv slices"]
    by (force simp: in_slice_def slice_iv_def)
  then have x: "off \<le> x" "x \<le> off + len - 1" using tiles_bounds [OF t] by auto
  note nw = is_newest_newest [OF ix r(1) x _ fs]
  show "slice_byte idx s x = file_byte idx ?V inode x \<and> (slSparse s \<longleftrightarrow> file_byte idx ?V inode x = None) \<and>
      (\<not> slSparse s \<longrightarrow> 0 \<le> locOffset (slLocator s) + (x - slLogicalOff s) \<and> locLength (slLocator s) = slLength s)"
  proof (cases "slSparse s")
    case True
    then have "\<forall>f \<in> live ?V inode. \<not> covers f x" using pr(2) [of s x] s sl nw(2) r(3) by simp
    then show ?thesis using True file_byte_none [of ?V inode x idx] by (auto simp: slice_byte_def)
  next
    case False
    then obtain f where f: "is_newest frags x f" "slice_loc s x = frag_loc f x" using pr(2) [of s x] s sl by auto
    then have n: "newest ?V inode x f" using nw(1) r(3) by simp
    have fl: "frag_loc f x = (locTier (slLocator s), locSegmentID (slLocator s), locOffset (slLocator s) + (x - slLogicalOff s))"
      using f(2) by (simp add: slice_loc_def)
    from loc_byte_frag_loc [OF fl, of idx] have "slice_byte idx s x = loc_byte idx f x"
      using False by (simp add: slice_byte_def)
    moreover obtain st where fo: "frag_ok idx st f" using n frag_atD [OF ix(1)] by (auto simp: newest_def live_def)
    then have "loc_byte idx f x \<noteq> None" using n loc_byte_some [of idx f x] by (simp add: frag_ok_def newest_def)
    moreover have "0 \<le> locOffset (slLocator s) + (x - slLogicalOff s)"
      using fl fo n by (simp add: frag_loc_def frag_ok_def wf_frag_def newest_def covers_def)
    ultimately show ?thesis
      using False file_byte_newest [OF ix n] planRead_loc_length [of s frags off len] s(1) sl by simp
  qed
qed

end

text \<open>Reading the located bytes of a slice.\<close>

lemma Segment_ReadAt_data:
  assumes "Segment_ReadAt ss osq i n off = (osq', Inr bs)" "0 < n"
  shows "0 \<le> off \<and> (\<exists>d. set_data ss i = Some d \<and> gslice (nat off) n d = Some bs)"
  using assms
  by (auto simp: Segment_ReadAt_def set_data_def andThen_def split: option.splits if_splits prod.splits sum.splits)

lemma gslice_nth: "gslice o' n d = Some bs \<Longrightarrow> length bs = n \<and> (\<forall>k < n. byte_at (o' + k) d = Some (bs ! k))"
  by (auto simp: gslice_def byte_at_def split: if_splits)

lemma gslice_exists: "(\<And>k. k < n \<Longrightarrow> byte_at (o' + k) d \<noteq> None) \<Longrightarrow> 0 < n \<Longrightarrow> gslice o' n d \<noteq> None"
proof -
  assume b: "\<And>k. k < n \<Longrightarrow> byte_at (o' + k) d \<noteq> None" and "0 < n"
  then have "byte_at (o' + (n - 1)) d \<noteq> None" by (intro b) simp
  then show ?thesis using \<open>0 < n\<close> by (auto simp: byte_at_def gslice_def split: if_splits)
qed

lemma ReadAt_slice:
  assumes ns: "\<not> slSparse s" "0 < n" "int n \<le> slLength s" "locLength (slLocator s) = slLength s"
    and o: "0 \<le> locOffset (slLocator s)"
    and av: "\<And>k. k < n \<Longrightarrow> slice_byte idx s (slLogicalOff s + int k) \<noteq> None"
    and r: "Index_ReadAt idx (slLocator s) n = (idx', r)"
  shows "\<forall>bs. r = Inr bs \<longrightarrow> length bs = n \<and> (\<forall>k < n. slice_byte idx s (slLogicalOff s + int k) = Some (bs ! k))"
    and "ixOS idx = [] \<Longrightarrow> \<exists>bs. r = Inr bs"
proof -
  let ?ss = "setFor idx (locTier (slLocator s))" and ?i = "locSegmentID (slLocator s)" and ?o = "locOffset (slLocator s)"
  obtain d where d: "set_data ?ss ?i = Some d" using av [of 0] ns by (auto simp: slice_byte_def split: option.splits)
  have sb: "slice_byte idx s (slLogicalOff s + int k) = byte_at (nat ?o + k) d" for k
    using d ns(1) o by (simp add: slice_byte_def nat_add_distrib)
  obtain sg where sg: "seg_of ?ss ?i = Some sg" "segOpen sg" "d = fData (the_file (ssDir ?ss) ?i)"
    using d by (auto simp: set_data_def split: option.splits if_splits)
  obtain osq' where ra: "Segment_ReadAt ?ss (ixOS idx) ?i n ?o = (osq', r)"
    using r sg(1) ns by (auto simp: Index_ReadAt_def Set_Get_def Let_def split: prod.splits)
  show "\<forall>bs. r = Inr bs \<longrightarrow> length bs = n \<and> (\<forall>k < n. slice_byte idx s (slLogicalOff s + int k) = Some (bs ! k))"
    using Segment_ReadAt_data ra ns(2) d gslice_nth unfolding sb by fastforce
  have "gslice (nat ?o) n d \<noteq> None" using av ns(2) unfolding sb by (rule gslice_exists)
  then show "\<exists>bs. r = Inr bs" if "ixOS idx = []"
    using ra that sg o ns(2) by (auto simp: Segment_ReadAt_def)
qed

section \<open>An engine whose iterators fail\<close>

definition failing_pebble :: "kvpair list pebble" where
  "failing_pebble = mem_pebble\<lparr>p_iter := (\<lambda>db lo hi. Inr ([], Some EIO))\<rparr>"

lemma failing_pebble_engine: "pebble_engine failing_pebble map_of"
proof
qed (auto simp: failing_pebble_def map_of_mem_ops ErrNotFound_def split: option.splits, metis mem_scan_range)

section \<open>Properties\<close>



text \<open>
  C37 (a defect of the code): \<open>fragmentsInRange\<close> does not look at the error of its iterator.
  With an engine whose iterator stops at a read error, the plan for a file with data reports
  success and a hole where the data is.
\<close>

theorem PlanRead_drops_scan_error:
  "pebble_engine failing_pebble map_of \<and>
   (\<exists>idx s. index_ok map_of idx \<and> file_byte idx (map_of (ixDB idx)) 1 4096 = Some 8 \<and>
      Index_PlanRead failing_pebble idx 1 4096 1 = Inr [s] \<and> slSparse s \<and> in_slice 4096 s)"
proof -
  obtain idx where idx: "index_ok map_of idx" "file_byte idx (map_of (ixDB idx)) 1 4096 = Some 8"
    using fresh_append by blast
  have "Index_PlanRead failing_pebble idx 1 4096 1 = Inr (planRead [] 4096 1)"
    by (simp add: Index_PlanRead_def fragmentsInRange_def scan_fragments_def DB_Iter_def failing_pebble_def decode_entries_def)
  moreover have "planRead [] 4096 1 = [sparseSlice (4096, 4097)]"
    by (simp add: planRead_def sort_desc_def i64_small)
  moreover have "slSparse (sparseSlice (4096, 4097))" "in_slice 4096 (sparseSlice (4096, 4097))"
    by (simp_all add: sparseSlice_def in_slice_def i64_small)
  ultimately show ?thesis using idx failing_pebble_engine by metis
qed

end
