(* ===== verification/Index_Edit.thy ===== *)
theory Index_Edit
  imports Index_Read
begin

text \<open>
  \<open>Truncate\<close> and \<open>DeleteInode\<close>: what they do to the fragments of one file and to nothing
  else, in terms of the content of the file.
\<close>

section \<open>Editing the fragments of one file\<close>

text \<open>
  An edit replaces each fragment of one inode by at most one other, with the same sequence
  number, in the same stripe; \<open>g\<close> says by which.
\<close>

definition edits :: "(Fragment \<Rightarrow> Fragment option) \<Rightarrow> u64 \<Rightarrow> (bytes \<rightharpoonup> bytes) \<Rightarrow> (bytes \<rightharpoonup> bytes) \<Rightarrow> bool" where
  "edits g inode V V' \<longleftrightarrow>
     (\<forall>i s q. i \<noteq> inode \<longrightarrow> V' (FragmentKey i s q) = V (FragmentKey i s q)) \<and>
     (\<forall>s q. V (FragmentKey inode s q) = None \<longrightarrow> V' (FragmentKey inode s q) = None) \<and>
     (\<forall>s q v f. V (FragmentKey inode s q) = Some v \<longrightarrow> decodeFragments v = [f] \<longrightarrow>
        map_option decodeFragments (V' (FragmentKey inode s q)) = map_option (\<lambda>f. [f]) (g f))"

lemma editsD:
  assumes "edits g inode V V'"
  shows "i \<noteq> inode \<Longrightarrow> V' (FragmentKey i s q) = V (FragmentKey i s q)"
    and "V (FragmentKey inode s q) = None \<Longrightarrow> V' (FragmentKey inode s q) = None"
    and "V (FragmentKey inode s q) = Some v \<Longrightarrow> decodeFragments v = [f] \<Longrightarrow>
      map_option decodeFragments (V' (FragmentKey inode s q)) = map_option (\<lambda>f. [f]) (g f)"
  using assms unfolding edits_def by blast+

lemma edits_live:
  assumes e: "edits g inode V V'" and ok: "db_ok idx V"
    and sq: "\<And>f f'. g f = Some f' \<Longrightarrow> Seq f' = Seq f"
  shows "live V' i = (if i = inode then {f'. \<exists>f \<in> live V i. g f = Some f'} else live V i)"
proof (cases "i = inode")
  case False
  then show ?thesis using editsD(1) [OF e] by (simp add: live_def frag_at_def)
next
  case True
  note none = editsD(2) [OF e] and key = editsD(3) [OF e]
  show ?thesis
  proof (intro set_eqI iffI)
    fix f' assume "f' \<in> live V' i"
    then obtain s v' where v': "V' (FragmentKey inode s (Seq f')) = Some v'" "decodeFragments v' = [f']"
      using True by (auto simp: live_def frag_at_def)
    then obtain v where v: "V (FragmentKey inode s (Seq f')) = Some v" using none by fastforce
    obtain f where f: "decodeFragments v = [f]" "frag_at V inode s f" using db_okD [OF ok v] by metis
    have "g f = Some f'" using key [OF v f(1)] v' by (cases "g f") auto
    then show "f' \<in> (if i = inode then {f'. \<exists>f \<in> live V i. g f = Some f'} else live V i)"
      using True f(2) by (auto simp: live_def)
  next
    fix f' assume "f' \<in> (if i = inode then {f'. \<exists>f \<in> live V i. g f = Some f'} else live V i)"
    then obtain f s v where f: "g f = Some f'" "V (FragmentKey inode s (Seq f)) = Some v" "decodeFragments v = [f]"
      using True by (auto simp: live_def frag_at_def)
    then have "\<exists>v'. V' (FragmentKey inode s (Seq f')) = Some v' \<and> decodeFragments v' = [f']"
      using key [OF f(2,3)] sq [OF f(1)] by auto
    then show "f' \<in> live V' i" using True by (auto simp: live_def frag_at_def)
  qed
qed

lemma edits_db_ok:
  assumes e: "edits g inode V V'" and ok: "db_ok idx V"
    and g: "\<And>s f f'. frag_ok idx s f \<Longrightarrow> g f = Some f' \<Longrightarrow> frag_ok idx s f' \<and> Seq f' = Seq f"
  shows "db_ok idx V'"
proof (rule db_okI)
  fix i s q v' assume v': "V' (FragmentKey i s q) = Some v'"
  show "\<exists>f. decodeFragments v' = [f] \<and> Seq f = q \<and> frag_ok idx s f \<and> q \<le> ixSeqGen idx"
  proof (cases "i = inode")
    case False
    then have "V (FragmentKey i s q) = Some v'" using editsD(1) [OF e] v' by simp
    then show ?thesis using db_okD [OF ok] by metis
  next
    case True
    have "V (FragmentKey i s q) \<noteq> None" using editsD(2) [OF e, of s q] v' True by auto
    then obtain v where v: "V (FragmentKey i s q) = Some v" by auto
    obtain f where f: "decodeFragments v = [f]" "Seq f = q" "frag_ok idx s f" "q \<le> ixSeqGen idx"
      using db_okD [OF ok v] by metis
    have "map_option decodeFragments (V' (FragmentKey i s q)) = map_option (\<lambda>f. [f]) (g f)"
      using editsD(3) [OF e] v f(1) True by simp
    then obtain f' where "g f = Some f'" "decodeFragments v' = [f']" using v' by (cases "g f") auto
    then show ?thesis using g [OF f(3)] f(2,4) by auto
  qed
qed

section \<open>Truncate\<close>

definition clip :: "int \<Rightarrow> Fragment \<Rightarrow> Fragment option" where
  "clip sz f = (if sz \<le> LogicalOff f then None
     else if sz < LogicalOff f + Length f then Some (f\<lparr>Length := sz - LogicalOff f\<rparr>) else Some f)"

lemma clip_ok: "frag_ok idx s f \<Longrightarrow> clip sz f = Some f' \<Longrightarrow> frag_ok idx s f' \<and> Seq f' = Seq f"
  by (auto simp: clip_def frag_ok_def wf_frag_def in_stripe_def located_def durable_def log_durable_def split: if_splits)

lemma clip_covers: "clip sz f = Some f' \<Longrightarrow> covers f' x \<longleftrightarrow> covers f x \<and> x < sz"
  by (auto simp: clip_def covers_def split: if_splits)

lemma clip_none: "clip sz f = None \<Longrightarrow> covers f x \<Longrightarrow> sz \<le> x"
  by (auto simp: clip_def covers_def split: if_splits)

lemma clip_loc: "clip sz f = Some f' \<Longrightarrow> loc_byte idx f' x = loc_byte idx f x"
  by (auto simp: clip_def loc_byte_def split: if_splits option.splits)

text \<open>What the loop of \<open>Truncate\<close> queues for one entry.\<close>

lemma truncate_entry_ok:
  assumes ok: "frag_ok idx s f" "Seq f = q" "decodeFragments v = [f]" and pos: "0 < ixStripeSize idx"
  shows "truncate_entry idx sz (FragmentKey i s q, v) = Inr (case clip sz f of
     None \<Rightarrow> [BDelete (FragmentKey i s q)]
   | Some f' \<Rightarrow> if f' = f then [] else [BSet (FragmentKey i s q) (encodeFragments [f'])])"
proof -
  have k: "IsFragmentKey (FragmentKey i s q)" by (simp add: IsFragmentKey_def FragmentKey_def)
  have w: "wf_frag f" "uint s * ixStripeSize idx \<le> LogicalOff f" using ok by (simp_all add: frag_ok_def in_stripe_def)
  have st: "i64 (uint s * ixStripeSize idx) = uint s * ixStripeSize idx"
    using w pos by (intro i64_small) (auto simp: wf_frag_def)
  have "i64 (sz - LogicalOff f) = sz - LogicalOff f" if "LogicalOff f < sz" "sz < fEnd f"
    using that w(1) by (intro i64_small) (auto simp: wf_frag_def fEnd_wf)
  moreover have "f\<lparr>Length := sz - LogicalOff f\<rparr> = f \<longleftrightarrow> sz = LogicalOff f + Length f"
    by (cases f) auto
  ultimately show ?thesis
    using k st w ok(3) fEnd_wf [OF w(1)]
    by (auto simp: truncate_entry_def or_panic_def firstFragment_def clip_def)
qed

lemma truncate_ops_lookup:
  assumes "truncate_ops idx sz kvs = Inr ops" "distinct (map fst kvs)"
  shows "apply_ops ops V k = (case map_of kvs k of None \<Rightarrow> V k
    | Some v \<Rightarrow> apply_ops (projr (truncate_entry idx sz (k, v))) V k)"
  using assms
proof (induction kvs arbitrary: ops V)
  case (Cons kv kvs)
  obtain k0 v0 where kv: "kv = (k0, v0)" by fastforce
  obtain o1 os where o: "truncate_entry idx sz kv = Inr o1" "truncate_ops idx sz kvs = Inr os" "ops = o1 @ os"
    using Cons.prems(1) by (auto simp: bindE_ok)
  have keys: "op_key ` set o1 \<subseteq> {k0}"
    using o(1) by (auto simp: kv truncate_entry_def bindE_ok split: if_splits)
  note IH = Cons.IH [OF o(2), of "apply_ops o1 V"]
  show ?case
  proof (cases "k = k0")
    case True
    then have "map_of kvs k = None" using Cons.prems(2) by (auto simp: kv map_of_eq_None_iff)
    then show ?thesis using IH Cons.prems(2) o True by (simp add: kv)
  next
    case False
    then have "apply_ops o1 W k = W k" for W using keys by (intro apply_ops_other) auto
    moreover have "apply_ops p (apply_ops o1 V) k = apply_ops p V k" for p
      by (rule apply_ops_local) (rule calculation)
    ultimately show ?thesis using IH Cons.prems(2) o False by (simp add: kv split: option.splits)
  qed
qed simp

context pebble_engine
begin

lemma Truncate_edits:
  assumes ok: "index_ok view idx" and r: "Index_Truncate P idx inode sz = (idx', r)"
  shows "\<exists>db. idx' = idx\<lparr>ixDB := db\<rparr> \<and> (view db = view (ixDB idx) \<and> r \<noteq> Inr () \<or> edits (clip sz) inode (view (ixDB idx)) (view db))"
proof -
  let ?V = "view (ixDB idx)" and ?pre = "StripePrefix inode"
  have ix: "db_ok idx ?V" "0 < ixStripeSize idx" using ok by (simp_all add: index_ok_def ix_ok_def)
  have stop: "idx = idx\<lparr>ixDB := ixDB idx\<rparr>" by simp
  obtain it where it: "DB_Iter P (ixDB idx) ?pre (PrefixUpperBound ?pre) = it" by simp
  consider (err) e where "idx' = idx" "r = Inl e"
    | (go) kvs ops where "it = Inr (kvs, None)" "truncate_ops idx sz kvs = Inr ops" "commit_batch P idx ops = (idx', r)"
    using r it by (auto simp: Index_Truncate_def Let_def split: sum.splits prod.splits option.splits)
  then show ?thesis
  proof cases
    case err
    then show ?thesis using stop by fastforce
  next
    case go
    have rs: "range_scan ?V ?pre (PrefixUpperBound ?pre) kvs" using DB_Iter_view it go(1) by simp
    note d = range_scan_distinct [OF rs]
    have m: "map_of kvs k = (if prefix ?pre k then ?V k else None)" for k
      unfolding prefix_range [symmetric] by (rule range_scan_map_of [OF rs])
    have "edits (clip sz) inode ?V (apply_ops ops ?V)"
      unfolding edits_def
    proof (intro conjI allI impI)
      fix i s q assume "i \<noteq> inode"
      then show "apply_ops ops ?V (FragmentKey i s q) = ?V (FragmentKey i s q)"
        using truncate_ops_lookup [OF go(2) d] m by simp
    next
      fix s q assume "?V (FragmentKey inode s q) = None"
      then show "apply_ops ops ?V (FragmentKey inode s q) = None" using truncate_ops_lookup [OF go(2) d] m by simp
    next
      fix s q v f assume v: "?V (FragmentKey inode s q) = Some v" "decodeFragments v = [f]"
      then have f: "frag_ok idx s f" "Seq f = q" using db_okD [OF ix(1) v(1)] by auto
      have "apply_ops ops ?V (FragmentKey inode s q) =
          apply_ops (projr (truncate_entry idx sz (FragmentKey inode s q, v))) ?V (FragmentKey inode s q)"
        using truncate_ops_lookup [OF go(2) d] m v(1) by simp
      then show "map_option decodeFragments (apply_ops ops ?V (FragmentKey inode s q)) = map_option (\<lambda>f. [f]) (clip sz f)"
        unfolding truncate_entry_ok [OF f v(2) ix(2)]
      proof (cases "clip sz f")
        case (Some f')
        then have "wf_frag f'" using clip_ok [OF f(1)] by (simp add: frag_ok_def)
        then show ?thesis if "apply_ops ops ?V (FragmentKey inode s q) = apply_ops (projr (Inr (case clip sz f of
             None \<Rightarrow> [BDelete (FragmentKey inode s q)]
           | Some f' \<Rightarrow> if f' = f then [] else [BSet (FragmentKey inode s q) (encodeFragments [f'])]))) ?V (FragmentKey inode s q)"
          using that Some v decode_one [of f'] by (cases "f' = f") simp_all
      qed simp
    qed
    then show ?thesis using commit_batch_view [OF go(3)] by metis
  qed
qed

lemma Truncate_effect:
  assumes ok: "index_ok view idx" and r: "Index_Truncate P idx inode sz = (idx', r)"
  shows "index_ok view idx' \<and>
    (file_byte idx' (view (ixDB idx')) =
       (\<lambda>i x. if i = inode \<and> sz \<le> x then None else file_byte idx (view (ixDB idx)) i x) \<or>
     r \<noteq> Inr () \<and> file_byte idx' (view (ixDB idx')) = file_byte idx (view (ixDB idx)))"
proof -
  let ?V = "view (ixDB idx)" and ?V' = "view (ixDB idx')"
  have ix: "ix_ok idx" "db_ok idx ?V" "0 < ixStripeSize idx" using ok by (simp_all add: index_ok_def ix_ok_def)
  obtain db where db: "idx' = idx\<lparr>ixDB := db\<rparr>" "?V' = ?V \<and> r \<noteq> Inr () \<or> edits (clip sz) inode ?V ?V'"
    using Truncate_edits [OF ok r] by auto
  have same: "db_ok idx' W \<longleftrightarrow> db_ok idx W" "loc_byte idx' = loc_byte idx" "file_byte idx' W = file_byte idx W" for W
    by (simp_all add: db(1) db_ok_def frag_ok_def in_stripe_def located_def durable_def fun_eq_iff file_byte_def loc_byte_def)
  have ixo: "ix_ok idx'" using ix(1) by (simp add: db(1) ix_ok_def)
  show ?thesis
  proof (cases "?V' = ?V \<and> r \<noteq> Inr ()")
    case True
    then show ?thesis using ixo ix(2) same by (simp add: index_ok_def)
  next
    case False
    then have e: "edits (clip sz) inode ?V ?V'" using db(2) by blast
    have ok': "db_ok idx ?V'" by (rule edits_db_ok [OF e ix(2)]) (rule clip_ok)
    have lv: "live ?V' i = (if i = inode then {f'. \<exists>f \<in> live ?V i. clip sz f = Some f'} else live ?V i)" for i
      by (rule edits_live [OF e ix(2)]) (auto simp: clip_def split: if_splits)
    have "file_byte idx ?V' i x = (if i = inode \<and> sz \<le> x then None else file_byte idx ?V i x)" for i x
    proof (cases "i = inode")
      case False
      then have "newest ?V' i x = newest ?V i x" by (simp add: fun_eq_iff newest_def lv)
      then show ?thesis using False by (simp add: file_byte_def)
    next
      case True
      show ?thesis
      proof (cases "sz \<le> x")
        case True
        then show ?thesis using \<open>i = inode\<close> clip_covers by (auto simp: lv intro!: file_byte_none)
      next
        case nx: False
        from ix(2,3) show ?thesis
        proof (cases rule: file_byte_cases [of idx ?V i x])
          case (data f)
          have cf: "covers f x" "f \<in> live ?V i" using data(1) by (auto simp: newest_def)
          then obtain f' where f': "clip sz f = Some f'" using clip_none nx by (cases "clip sz f") auto
          have sq: "Seq h' = Seq h" if "clip sz h = Some h'" for h h' using that by (auto simp: clip_def split: if_splits)
          have "newest ?V' i x f'"
            using data(1) f' True nx sq clip_covers [of sz] by (fastforce simp: newest_def lv)
          then show ?thesis using file_byte_newest [OF ok' ix(3)] clip_loc [OF f'] data(2) nx by simp
        next
          case hole
          then have "\<not> covers g x" if "g \<in> live ?V' i" for g using that True clip_covers by (auto simp: lv)
          then show ?thesis using hole(2) nx file_byte_none [of ?V' i x idx] by simp
        qed
      qed
    qed
    then show ?thesis using ok' ixo same by (simp add: index_ok_def fun_eq_iff)
  qed
qed


section \<open>Delete\<close>

lemma BDelete_keys: "map (\<lambda>(k, v). BDelete k) kvs = map BDelete (map fst kvs)"
  by (induction kvs) auto

lemma commit_same:
  assumes "idx' = idx\<lparr>ixDB := db\<rparr>"
  shows "ix_ok idx' = ix_ok idx" "db_ok idx' = db_ok idx" "file_byte idx' = file_byte idx"
  by (simp_all add: assms ix_ok_def fun_eq_iff db_ok_def frag_ok_def in_stripe_def located_def durable_def
      file_byte_def loc_byte_def)

lemma Delete_edits:
  assumes r: "DeleteInode P idx inode = (idx', r)"
  shows "\<exists>db. idx' = idx\<lparr>ixDB := db\<rparr> \<and> (view db = view (ixDB idx) \<and> r \<noteq> Inr () \<or>
    edits (\<lambda>_. None) inode (view (ixDB idx)) (view db))"
proof -
  let ?V = "view (ixDB idx)" and ?pre = "StripePrefix inode"
  obtain it where it: "DB_Iter P (ixDB idx) ?pre (PrefixUpperBound ?pre) = it" by simp
  have ed: "edits (\<lambda>_. None) inode ?V W" if "\<And>k. W k = (if prefix ?pre k then None else ?V k)" for W
    using that by (simp add: edits_def)
  have m: "map_of kvs k = (if prefix ?pre k then ?V k else None)" if "it = Inr (kvs, None)" for kvs k
    unfolding prefix_range [symmetric] by (rule range_scan_map_of) (use that it DB_Iter_view in simp)
  consider (err) e where "idx' = idx" "r = Inl e" | (empty) "it = Inr ([], None)" "idx' = idx"
    | (go) kvs where "it = Inr (kvs, None)" "commit_batch P idx (map BDelete (map fst kvs)) = (idx', r)"
    using r it by (auto simp: DeleteInode_def Let_def BDelete_keys
        split: sum.splits prod.splits option.splits if_splits)
  then show ?thesis
  proof cases
    case err
    then show ?thesis by (intro exI [of _ "ixDB idx"]) simp
  next
    case empty
    have "prefix ?pre k \<Longrightarrow> ?V k = None" for k using m [OF empty(1), of k] by simp
    then show ?thesis using empty(2) by (intro exI [of _ "ixDB idx"]) (simp add: ed)
  next
    case go
    have "apply_ops (map BDelete (map fst kvs)) ?V k = (if prefix ?pre k then None else ?V k)" for k
    proof (cases "prefix ?pre k")
      case True
      then have "k \<notin> set (map fst kvs) \<Longrightarrow> ?V k = None"
        using m [OF go(1), of k] map_of_eq_None_iff [of kvs k] by simp
      then show ?thesis using True unfolding apply_ops_deletes_iff by auto
    next
      case False
      then have "k \<notin> set (map fst kvs)" using m [OF go(1), of k] map_of_eq_None_iff [of kvs k] by simp
      then show ?thesis using False unfolding apply_ops_deletes_iff by simp
    qed
    then have "edits (\<lambda>_. None) inode ?V (apply_ops (map BDelete (map fst kvs)) ?V)" by (rule ed)
    then show ?thesis using commit_batch_view [OF go(2)] by metis
  qed
qed

lemma Delete_effect:
  assumes ok: "index_ok view idx" and r: "DeleteInode P idx inode = (idx', r)"
  shows "index_ok view idx' \<and>
    (file_byte idx' (view (ixDB idx')) = (\<lambda>i x. if i = inode then None else file_byte idx (view (ixDB idx)) i x) \<or>
     r \<noteq> Inr () \<and> file_byte idx' (view (ixDB idx')) = file_byte idx (view (ixDB idx)))"
proof -
  let ?V = "view (ixDB idx)" and ?V' = "view (ixDB idx')"
  have ix: "ix_ok idx" "db_ok idx ?V" using ok by (simp_all add: index_ok_def)
  obtain db where db: "idx' = idx\<lparr>ixDB := db\<rparr>" "?V' = ?V \<and> r \<noteq> Inr () \<or> edits (\<lambda>_. None) inode ?V ?V'"
    using Delete_edits [OF r] by auto
  show ?thesis
  proof (cases "?V' = ?V \<and> r \<noteq> Inr ()")
    case True
    then show ?thesis using ix commit_same [OF db(1)] by (simp add: index_ok_def)
  next
    case False
    then have e: "edits (\<lambda>_. None) inode ?V ?V'" using db(2) by blast
    have ok': "db_ok idx ?V'" by (rule edits_db_ok [OF e ix(2)]) simp
    have lv: "live ?V' i = (if i = inode then {} else live ?V i)" for i
      using edits_live [OF e ix(2), of i] by auto
    have "file_byte idx ?V' i x = (if i = inode then None else file_byte idx ?V i x)" for i x
    proof (cases "i = inode")
      case True
      then show ?thesis using file_byte_none [of ?V' i x idx] by (simp add: lv)
    next
      case False
      then have "newest ?V' i x = newest ?V i x" by (simp add: fun_eq_iff newest_def lv)
      then show ?thesis using False by (simp add: file_byte_def)
    qed
    then show ?thesis using ok' ix(1) commit_same [OF db(1)] by (simp add: index_ok_def fun_eq_iff)
  qed
qed

end

section \<open>Properties\<close>

text \<open>
  C30: truncating a file to a size removes every byte from that size on and changes nothing
  else; on an error this has happened completely or not at all.
\<close>

theorem Truncate_cuts_content:
  assumes "pebble_engine P view" "index_ok view idx" "Index_Truncate P idx inode sz = (idx', r)"
  shows "index_ok view idx' \<and>
    (file_byte idx' (view (ixDB idx')) =
       (\<lambda>i x. if i = inode \<and> sz \<le> x then None else file_byte idx (view (ixDB idx)) i x) \<or>
     r \<noteq> Inr () \<and> file_byte idx' (view (ixDB idx')) = file_byte idx (view (ixDB idx)))"
  using pebble_engine.Truncate_effect [OF assms] .

theorem Truncate_cuts_content_witness:
  "\<exists>idx idx' r. file_byte idx (map_of (ixDB idx)) 1 4096 = Some 8 \<and>
     Index_Truncate mem_pebble idx 1 4096 = (idx', r) \<and> index_ok map_of idx'"
proof -
  obtain idx where idx: "index_ok map_of idx" "file_byte idx (map_of (ixDB idx)) 1 4096 = Some 8"
    using fresh_append by blast
  obtain idx' r where t: "Index_Truncate mem_pebble idx 1 4096 = (idx', r)" by fastforce
  show ?thesis using Truncate_cuts_content [OF mem.pebble_engine_axioms idx(1) t] idx(2) t by blast
qed

text \<open>
  C31: deleting an inode leaves no byte of it and changes no other file; on an error this has
  happened completely or not at all.
\<close>

theorem DeleteInode_removes_content:
  assumes "pebble_engine P view" "index_ok view idx" "DeleteInode P idx inode = (idx', r)"
  shows "index_ok view idx' \<and>
    (file_byte idx' (view (ixDB idx')) = (\<lambda>i x. if i = inode then None else file_byte idx (view (ixDB idx)) i x) \<or>
     r \<noteq> Inr () \<and> file_byte idx' (view (ixDB idx')) = file_byte idx (view (ixDB idx)))"
  using pebble_engine.Delete_effect [OF assms] .

theorem DeleteInode_removes_content_witness:
  "\<exists>idx idx'. file_byte idx (map_of (ixDB idx)) 1 4096 = Some 8 \<and>
     DeleteInode mem_pebble idx 1 = (idx', Inr ()) \<and> file_byte idx' (map_of (ixDB idx')) 1 4096 = None"
proof -
  obtain idx where idx: "index_ok map_of idx" "file_byte idx (map_of (ixDB idx)) 1 4096 = Some 8"
    using fresh_append by blast
  have "\<exists>idx'. DeleteInode mem_pebble idx 1 = (idx', Inr ())"
    by (simp add: DeleteInode_def Let_def DB_Iter_def commit_batch_def Batch_Commit_def split: if_split)
  then obtain idx' where t: "DeleteInode mem_pebble idx 1 = (idx', Inr ())" by blast
  show ?thesis using DeleteInode_removes_content [OF mem.pebble_engine_axioms idx(1) t] idx(2) t by fastforce
qed

end
