(* ===== verification/Index_Move.thy ===== *)
theory Index_Move
  imports Index_Edit
begin

text \<open>
  \<open>Move\<close>: rewriting the canonical view of one stripe into a target tier keeps the content
  of every file, whatever fails on the way, and on success leaves the stripe entirely in
  the target tier.
\<close>

section \<open>Copying one fragment\<close>

lemma read_source_ok:
  assumes ok: "ix_ok idx" and f: "wf_frag f" and r: "read_source idx f = (idx', r)"
  shows "ix_step idx idx' \<and> (\<forall>t. setFor idx' t = setFor idx t) \<and>
    (\<forall>buf. r = Inr buf \<longrightarrow> int (length buf) = Length f \<and>
       (\<forall>x. covers f x \<longrightarrow> loc_byte idx f x = Some (buf ! nat (x - LogicalOff f))))"
proof -
  let ?ss = "setFor idx (FTier f)" and ?n = "nat (Length f)"
  have l: "0 < Length f" "0 \<le> SegmentOffset f" using f by (simp_all add: wf_frag_def)
  obtain osq0 r0 where ra: "Segment_ReadAt ?ss (ixOS idx) (SegmentID f) ?n (SegmentOffset f) = (osq0, r0)" by fastforce
  consider e where "idx' = idx" "r = Inl e"
    | osq where "Segment_ReadAt ?ss (ixOS idx) (SegmentID f) ?n (SegmentOffset f) = (osq, r)" "idx' = idx\<lparr>ixOS := osq\<rparr>"
    using r l ra by (cases "Set_Get ?ss (SegmentID f)") (auto simp: read_source_def)
  then show ?thesis
  proof cases
    case 1
    then show ?thesis using ok ix_step_refl by simp
  next
    case (2 osq)
    have "no_partial osq"
      using 2(1) ok sys_no_partial [of "ixOS idx"]
      by (auto simp: Segment_ReadAt_def ix_ok_def andThen_def split: option.splits if_splits prod.splits sum.splits)
    then have "ix_step idx idx'" using ok by (simp add: 2(2) ix_step_def ix_ok_def ix_extends_def)
    moreover have "int (length buf) = Length f \<and>
       (\<forall>x. covers f x \<longrightarrow> loc_byte idx f x = Some (buf ! nat (x - LogicalOff f)))" if b: "r = Inr buf" for buf
    proof -
      obtain d where d: "set_data ?ss (SegmentID f) = Some d" "gslice (nat (SegmentOffset f)) ?n d = Some buf"
        using Segment_ReadAt_data [of ?ss "ixOS idx" "SegmentID f" ?n "SegmentOffset f"] 2(1) b l by auto
      note g = gslice_nth [OF d(2)]
      have "loc_byte idx f x = Some (buf ! nat (x - LogicalOff f))" if c: "covers f x" for x
      proof -
        have k: "nat (x - LogicalOff f) < ?n" "nat (SegmentOffset f + (x - LogicalOff f)) = nat (SegmentOffset f) + nat (x - LogicalOff f)"
          using c l by (auto simp: covers_def nat_add_distrib)
        then show ?thesis using g d(1) by (simp add: loc_byte_def)
      qed
      then show ?thesis using g l by simp
    qed
    ultimately show ?thesis by (simp add: 2(2))
  qed
qed

text \<open>\<open>h\<close> holds, in the target tier, the bytes that \<open>g\<close> holds before the move.\<close>

definition moved :: "'db Index \<Rightarrow> 'db Index \<Rightarrow> u32 \<Rightarrow> Tier \<Rightarrow> Fragment \<Rightarrow> Fragment \<Rightarrow> bool" where
  "moved idx idx' sid target g h \<longleftrightarrow> LogicalOff h = LogicalOff g \<and> Length h = Length g \<and> FTier h = target \<and>
     frag_ok idx' sid h \<and> (\<forall>x. covers g x \<longrightarrow> loc_byte idx' h x = loc_byte idx g x)"

lemma moved_covers: "moved idx idx' sid target g h \<Longrightarrow> covers h x \<longleftrightarrow> covers g x"
  by (simp add: moved_def covers_def)

lemma moved_extends:
  assumes "moved idx1 idx2 sid target g h" "ix_extends idx2 idx3"
  shows "moved idx1 idx3 sid target g h"
  using assms frag_ok_extends [OF assms(2)] loc_byte_extends [OF assms(2)] moved_covers [OF assms(1)]
  by (auto simp: moved_def frag_ok_def)

lemma moved_earlier:
  assumes "moved idx1 idx2 sid target g h" "ix_extends idx0 idx1" "frag_ok idx0 sid g"
  shows "moved idx0 idx2 sid target g h"
  using assms(1,3) loc_byte_extends [OF assms(2)] by (auto simp: moved_def frag_ok_def)

lemma moved_keep:
  "frag_ok idx sid g \<Longrightarrow> FTier g = target \<Longrightarrow> moved idx idx sid target g (g\<lparr>Seq := q\<rparr>)"
  by (auto simp: moved_def frag_ok_def wf_frag_def in_stripe_def located_def durable_def loc_byte_def split: option.splits)

lemma moved_copy:
  assumes ok: "ix_ok idx2" and g: "frag_ok idx1 sid g" and x: "ix_extends idx1 idx2"
    and buf: "int (length buf) = Length g" "\<forall>x. covers g x \<longrightarrow> loc_byte idx1 g x = Some (buf ! nat (x - LogicalOff g))"
    and t: "target = TierHot \<or> target = TierCold"
    and a: "append_record idx2 target \<lparr>hInode = inode, hStripeID = sid, hSeq = q, hLogicalOff = LogicalOff g,
       hLength = u32_of_int64 (int (length buf))\<rparr> buf = (idx3, Inr (seg, off))"
    and s: "on_set idx3 target (\<lambda>ss osq. Segment_Sync ss osq seg) = (idx4, Inr ())"
  shows "moved idx1 idx4 sid target g \<lparr>Seq = q, LogicalOff = LogicalOff g, Length = Length g, FTier = target,
       SegmentID = seg, SegmentOffset = off\<rparr>"
proof -
  let ?h = "\<lparr>Seq = q, LogicalOff = LogicalOff g, Length = Length g, FTier = target, SegmentID = seg, SegmentOffset = off\<rparr>"
  let ?e = "\<lparr>eSeq = q, eOff = LogicalOff g, eData = buf, eTier = target\<rparr>"
  let ?p = "(stripeOf idx3 (LogicalOff g), ?h)"
  have wf: "wf_frag g" "in_stripe idx1 sid g" using g by (simp_all add: frag_ok_def)
  have "in_i64 (LogicalOff g)" using wf(1) by (simp add: wf_frag_def in_i64_def)
  then have ar: "ix_step idx2 idx3" "log_stored set_data (setFor idx3 target) seg off buf" "off + int (length buf) < 2 ^ 63"
    using append_record_ok [OF ok _ a] by auto
  have st: "staged idx3 ?e ?p" using ar(2,3) buf(1) by (simp add: staged_def)
  have ok3: "ix_ok idx3" using ar(1) by (simp add: ix_step_def)
  have "setFor idx3 target = setFor idx3 (if target = TierCold then TierCold else TierHot)"
    "put_set target ss osq idx3 = put_set (if target = TierCold then TierCold else TierHot) ss osq idx3" for ss osq
    by (auto simp: setFor_def put_set_def tier_defs)
  then have "sync_touched idx3 [(target = TierCold, seg)] = (idx4, Inr ())" using s by (simp add: on_set_def)
  from staged_synced [OF ok3 st _ this]
  have 4: "staged idx4 ?e ?p" "located idx4 ?h" "durable idx4 ?h" by simp_all
  have x4: "ix_extends idx1 idx4"
    using x ar(1) on_set_Sync [OF ok3 s] by (auto simp: ix_step_def intro: ix_extends_trans)
  have "frag_ok idx4 sid ?h"
    using 4 wf t in_stripe_extends [OF x4] ar(2,3) buf(1)
    by (auto simp: frag_ok_def wf_frag_def in_stripe_def log_stored_def)
  moreover have "loc_byte idx4 ?h x = loc_byte idx1 g x" if c: "covers g x" for x
    using staged_loc_byte [OF 4(1), of x] buf c by (simp add: in_ext_def covers_def)
  ultimately show ?thesis by (simp add: moved_def)
qed

text \<open>Copying one fragment ends with an error, or goes on with the copy in place.\<close>

lemma copy_fragment_cases:
  assumes ok: "ix_ok idx" and g: "frag_ok idx sid g" and t: "target = TierHot \<or> target = TierCold"
    and c: "andThen (read_source idx g) (\<lambda>idx2 buf. andThen (append_record idx2 target
            \<lparr>hInode = inode, hStripeID = sid, hSeq = q, hLogicalOff = LogicalOff g,
             hLength = u32_of_int64 (int (length buf))\<rparr> buf) (\<lambda>idx3 (seg, off).
          andThen (on_set idx3 target (\<lambda>ss osq. Segment_Sync ss osq seg)) (\<lambda>idx4 _. k idx4 seg off))) = (idx', r)"
  obtains (err) e where "r = Inl e" "ix_step idx idx'"
  | (copied) idx4 seg off where "ix_step idx idx4" "k idx4 seg off = (idx', r)"
      "moved idx idx4 sid target g \<lparr>Seq = q, LogicalOff = LogicalOff g, Length = Length g, FTier = target,
         SegmentID = seg, SegmentOffset = off\<rparr>"
proof -
  have wf: "wf_frag g" using g by (simp add: frag_ok_def)
  from c show ?thesis
  proof (cases rule: andThen_cases)
    case (err e)
    then show ?thesis using that(1) read_source_ok [OF ok wf] by blast
  next
    case (ok idx2 buf)
    have s2: "ix_step idx idx2" "ix_ok idx2" "ix_extends idx idx2" "int (length buf) = Length g"
        "\<forall>x. covers g x \<longrightarrow> loc_byte idx g x = Some (buf ! nat (x - LogicalOff g))"
      using read_source_ok [OF \<open>ix_ok idx\<close> wf ok(1)] by (auto simp: ix_step_def)
    let ?h = "\<lparr>hInode = inode, hStripeID = sid, hSeq = q, hLogicalOff = LogicalOff g,
             hLength = u32_of_int64 (int (length buf))\<rparr>"
    have i: "in_i64 (hLogicalOff ?h)" using wf by (simp add: wf_frag_def in_i64_def)
    from ok(2) show ?thesis
    proof (cases rule: andThen_cases)
      case (err e)
      then show ?thesis using that(1) append_record_ok [OF s2(2) i] ix_step_trans [OF s2(1)] by blast
    next
      case (ok idx3 so)
      have s3: "ix_step idx idx3" "ix_ok idx3"
        using append_record_ok [OF s2(2) i ok(1)] ix_step_trans [OF s2(1)] by (auto simp: ix_step_def)
      obtain seg off where so: "so = (seg, off)" by fastforce
      from ok(2) have "andThen (on_set idx3 target (\<lambda>ss osq. Segment_Sync ss osq seg)) (\<lambda>idx4 _. k idx4 seg off) = (idx', r)"
        by (simp add: so)
      then show ?thesis
      proof (cases rule: andThen_cases)
        case (err e)
        then show ?thesis using that(1) on_set_Sync [OF s3(2)] ix_step_trans [OF s3(1)] by blast
      next
        case sy: (ok idx4 u)
        have "ix_step idx idx4" using on_set_Sync [OF s3(2) sy(1)] ix_step_trans [OF s3(1)] by blast
        moreover have "moved idx idx4 sid target g \<lparr>Seq = q, LogicalOff = LogicalOff g, Length = Length g, FTier = target,
           SegmentID = seg, SegmentOffset = off\<rparr>"
          using moved_copy [OF s2(2) g s2(3-5) t] ok(1) so sy(1) by simp
        ultimately show ?thesis using that(2) sy(2) by blast
      qed
    qed
  qed
qed

section \<open>The loop\<close>

lemma move_loop_ok:
  assumes "ix_ok idx" "\<forall>g \<in> set gs. frag_ok idx sid g" "target = TierHot \<or> target = TierCold"
    and "unat (ixSeqGen idx) + length gs < 2 ^ 64" "move_loop idx inode sid target gs acc = (idx', r)"
  shows "ix_ok idx' \<and> ix_extends idx idx' \<and> ixDB idx' = ixDB idx \<and> ixSeqGen idx \<le> ixSeqGen idx' \<and>
    unat (ixSeqGen idx') \<le> unat (ixSeqGen idx) + length gs \<and>
    (\<forall>nf. r = Inr nf \<longrightarrow> (\<exists>hs. nf = acc @ hs \<and> list_all2 (moved idx idx' sid target) gs hs \<and>
       (\<forall>h \<in> set hs. ixSeqGen idx < Seq h \<and> Seq h \<le> ixSeqGen idx') \<and> distinct (map Seq hs)))"
  using assms
proof (induction gs arbitrary: idx acc)
  case Nil
  then show ?case by auto
next
  case (Cons g gs)
  define idx1 where "idx1 = idx\<lparr>ixSeqGen := ixSeqGen idx + 1\<rparr>"
  have sq: "unat (ixSeqGen idx1) = unat (ixSeqGen idx) + 1" "ixSeqGen idx < ixSeqGen idx1"
    using u64_Suc [of "ixSeqGen idx"] Cons.prems(4) by (auto simp: idx1_def)
  have x1: "ix_extends idx idx1" "ix_ok idx1" "ixDB idx1 = ixDB idx"
    using Cons.prems(1) by (simp_all add: idx1_def ix_extends_def ix_ok_def)
  have g: "frag_ok idx sid g" "frag_ok idx1 sid g" using Cons.prems(2) frag_ok_extends [OF x1(1)] by simp_all
  have step: ?case
    if rec: "move_loop idx2 inode sid target gs (acc @ [h]) = (idx', r)" and m: "moved idx1 idx2 sid target g h"
      and x2: "ix_step idx1 idx2" and h: "Seq h = ixSeqGen idx1" for idx2 h
  proof -
    have e2: "ix_ok idx2" "ix_extends idx1 idx2" "ixDB idx2 = ixDB idx1" "ixSeqGen idx2 = ixSeqGen idx1"
      using x2 by (simp_all add: ix_step_def)
    have e02: "ix_extends idx idx2" by (rule ix_extends_trans [OF x1(1) e2(2)])
    have fo: "\<forall>g \<in> set gs. frag_ok idx2 sid g" using Cons.prems(2) frag_ok_extends [OF e02] by simp
    have bd: "unat (ixSeqGen idx2) + length gs < 2 ^ 64" using Cons.prems(4) sq e2(4) by simp
    note IH = Cons.IH [OF e2(1) fo Cons.prems(3) bd rec]
    have e3: "ix_extends idx2 idx'" using IH by blast
    have m0: "moved idx idx' sid target g h"
      using moved_extends [OF moved_earlier [OF m x1(1) g(1)] e3] .
    have r': "\<exists>hs. nf = acc @ hs \<and> list_all2 (moved idx idx' sid target) (g # gs) hs \<and>
        (\<forall>h \<in> set hs. ixSeqGen idx < Seq h \<and> Seq h \<le> ixSeqGen idx') \<and> distinct (map Seq hs)" if nf: "r = Inr nf" for nf
    proof -
      obtain hs where hs: "nf = (acc @ [h]) @ hs" "list_all2 (moved idx2 idx' sid target) gs hs"
          "\<forall>h \<in> set hs. ixSeqGen idx2 < Seq h \<and> Seq h \<le> ixSeqGen idx'" "distinct (map Seq hs)"
        using IH nf by blast
      have "list_all2 (moved idx idx' sid target) gs hs"
        using hs(2) Cons.prems(2) moved_earlier [OF _ e02] by (fastforce simp: list_all2_conv_all_nth)
      then show ?thesis
        using hs m0 h sq(2) e2(4) IH by (intro exI [of _ "h # hs"]) auto
    qed
    show ?thesis using IH ix_extends_trans [OF e02 e3] e2 x1(3) sq r' by auto
  qed
  show ?case
  proof (cases "FTier g = target")
    case True
    show ?thesis
    proof (rule step [of idx1 "g\<lparr>Seq := ixSeqGen idx1\<rparr>"])
      show "move_loop idx1 inode sid target gs (acc @ [g\<lparr>Seq := ixSeqGen idx1\<rparr>]) = (idx', r)"
        using Cons.prems(5) True by (simp add: nextSeq_def idx1_def)
    qed (use moved_keep [OF g(2) True] ix_step_refl [OF x1(2)] in auto)
  next
    case False
    then have "andThen (read_source idx1 g) (\<lambda>idx2 buf. andThen (append_record idx2 target
            \<lparr>hInode = inode, hStripeID = sid, hSeq = ixSeqGen idx1, hLogicalOff = LogicalOff g,
             hLength = u32_of_int64 (int (length buf))\<rparr> buf) (\<lambda>idx3 (seg, off).
          andThen (on_set idx3 target (\<lambda>ss osq. Segment_Sync ss osq seg)) (\<lambda>idx4 _.
            move_loop idx4 inode sid target gs (acc @ [\<lparr>Seq = ixSeqGen idx1, LogicalOff = LogicalOff g,
              Length = Length g, FTier = target, SegmentID = seg, SegmentOffset = off\<rparr>])))) = (idx', r)"
      using Cons.prems(5) by (simp add: nextSeq_def idx1_def)
    from copy_fragment_cases [OF x1(2) g(2) Cons.prems(3) this] show ?thesis
    proof cases
      case (1 e)
      then show ?thesis using x1 sq by (auto simp: ix_step_def intro: ix_extends_trans)
    next
      case (2 idx4 seg off)
      show ?thesis by (rule step [OF 2(2,3,1)]) simp
    qed
  qed
qed

section \<open>The canonical view of a stripe\<close>

lemma disjoint_length:
  assumes "sorted_wrt (\<lambda>f g. LogicalOff f + Length f \<le> LogicalOff g) gs" "list_all wf_frag gs" "a \<le> b"
    and "\<forall>g \<in> set gs. a \<le> LogicalOff g \<and> LogicalOff g + Length g \<le> b"
  shows "int (length gs) \<le> b - a"
  using assms
proof (induction gs arbitrary: a)
  case (Cons g gs)
  have g: "a \<le> LogicalOff g" "0 < Length g" "LogicalOff g + Length g \<le> b" using Cons.prems by (auto simp: wf_frag_def)
  have "int (length gs) \<le> b - (LogicalOff g + Length g)"
    using Cons.prems g by (intro Cons.IH) auto
  then show ?case using g by simp
qed simp

lemma view_frag_ok:
  assumes "\<forall>f \<in> set frags. frag_ok idx sid f" "g \<in> set (canonicalView frags)"
  shows "frag_ok idx sid g"
proof -
  have wf: "list_all wf_frag frags" using assms(1) by (simp add: list_all_iff frag_ok_def)
  obtain f where f: "f \<in> set frags" "LogicalOff f \<le> LogicalOff g" "LogicalOff g + Length g \<le> LogicalOff f + Length f"
      "FTier g = FTier f" "SegmentID g = SegmentID f" "SegmentOffset g = SegmentOffset f + (LogicalOff g - LogicalOff f)"
    using canonicalView_part [OF wf assms(2)] by blast
  have "wf_frag g" using canonicalView_wf [OF wf] assms(2) by (simp add: list_all_iff)
  moreover have "frag_ok idx sid f" using assms(1) f(1) by blast
  ultimately show ?thesis
    using f(2-6) by (auto simp: frag_ok_def in_stripe_def located_def durable_def log_durable_def)
qed

lemma view_length:
  assumes "\<forall>f \<in> set frags. frag_ok idx sid f" "0 < ixStripeSize idx"
  shows "int (length (canonicalView frags)) \<le> ixStripeSize idx"
proof -
  have wf: "list_all wf_frag frags" using assms(1) by (simp add: list_all_iff frag_ok_def)
  have "int (length (canonicalView frags)) \<le> (uint sid + 1) * ixStripeSize idx - uint sid * ixStripeSize idx"
    using canonicalView_disjoint [OF wf] canonicalView_wf [OF wf] view_frag_ok [OF assms(1)] assms(2)
    by (intro disjoint_length) (auto simp: frag_ok_def in_stripe_def)
  then show ?thesis by (simp add: distrib_right)
qed

lemma moved_one:
  assumes l: "list_all2 (moved idx idx' sid target) gs hs"
    and d: "sorted_wrt (\<lambda>f g. LogicalOff f + Length f \<le> LogicalOff g) gs"
    and h: "h \<in> set hs" "h' \<in> set hs" "covers h x" "covers h' x"
  shows "h = h'"
proof -
  obtain j k where j: "j < length hs" "hs ! j = h" and k: "k < length hs" "hs ! k = h'" using h by (meson in_set_conv_nth)
  have m: "moved idx idx' sid target (gs ! j) h" "moved idx idx' sid target (gs ! k) h'" "length gs = length hs"
    using l j k by (auto simp: list_all2_conv_all_nth)
  have c: "covers (gs ! j) x" "covers (gs ! k) x" using m h moved_covers by blast+
  have "\<not> j < k" "\<not> k < j"
    using sorted_wrt_nth_less [OF d] c j k m(3) unfolding covers_def by (metis less_le_trans not_less)+
  then show ?thesis using j k by simp
qed

section \<open>The swap\<close>

definition without_stripe :: "u64 \<Rightarrow> u32 \<Rightarrow> (bytes \<rightharpoonup> bytes) \<Rightarrow> (bytes \<rightharpoonup> bytes) \<Rightarrow> bool" where
  "without_stripe inode sid V W \<longleftrightarrow> (\<forall>i s q. W (FragmentKey i s q) =
     (if i = inode \<and> s = sid then None else V (FragmentKey i s q)))"

lemma without_stripe_at:
  "without_stripe inode sid V W \<Longrightarrow> frag_at W i s f \<longleftrightarrow> frag_at V i s f \<and> \<not> (i = inode \<and> s = sid)"
  by (auto simp: without_stripe_def frag_at_def)

lemma without_stripe_ok: "without_stripe inode sid V W \<Longrightarrow> db_ok idx V \<Longrightarrow> db_ok idx W"
  by (auto simp: without_stripe_def db_ok_def split: if_splits)

lemma without_stripe_byte:
  assumes w: "without_stripe inode sid V W" and no: "i = inode \<Longrightarrow> \<forall>f. frag_at V inode sid f \<longrightarrow> \<not> covers f x"
  shows "file_byte idx W i x = file_byte idx V i x"
proof -
  have "f \<in> live W i \<and> covers f x \<longleftrightarrow> f \<in> live V i \<and> covers f x" for f
    using without_stripe_at [OF w] no by (auto simp: live_def)
  then have "newest W i x = newest V i x" unfolding newest_def fun_eq_iff by blast
  then show ?thesis by (simp add: file_byte_def)
qed

lemma swap_content:
  assumes ok: "db_ok idx V" "0 < ixStripeSize idx" and ext: "ix_extends idx idx'" "ixSeqGen idx \<le> ixSeqGen idx'"
    and w: "without_stripe inode sid V W" and fr: "set frags = {f. frag_at V inode sid f}"
    and l: "list_all2 (moved idx idx' sid target) (canonicalView frags) hs"
    and sq: "\<forall>h \<in> set hs. ixSeqGen idx < Seq h \<and> Seq h \<le> ixSeqGen idx'"
    and a: "adds W V' inode (map (Pair sid) hs)"
  shows "db_ok idx' V'" "file_byte idx' V' i x = file_byte idx V i x"
proof -
  have fok: "\<forall>f \<in> set frags. frag_ok idx sid f" using fr frag_atD [OF ok(1)] by simp
  have wf: "list_all wf_frag frags" using fok by (simp add: list_all_iff frag_ok_def)
  have mv: "\<exists>g \<in> set (canonicalView frags). moved idx idx' sid target g h" if "h \<in> set hs" for h
    using l that by (metis in_set_conv_nth list_all2_conv_all_nth)
  have mv': "\<exists>h \<in> set hs. moved idx idx' sid target g h" if "g \<in> set (canonicalView frags)" for g
    using l that by (metis in_set_conv_nth list_all2_conv_all_nth)
  have new: "\<forall>(s, f) \<in> set (map (Pair sid) hs). frag_ok idx' s f \<and> ixSeqGen idx < Seq f \<and> Seq f \<le> ixSeqGen idx'"
    using sq mv by (auto simp: moved_def)
  have one: "f = f'" if "(s, f) \<in> set (map (Pair sid) hs)" "(s', f') \<in> set (map (Pair sid) hs)" "covers f x" "covers f' x"
    for s f s' f' x
    using moved_one [OF l canonicalView_disjoint [OF wf], of f f' x] that by auto
  note fb = adds_file_byte [OF a without_stripe_ok [OF w ok(1)] ok(2) ext new one]
  show "db_ok idx' V'" by (rule fb(1))
  show "file_byte idx' V' i x = file_byte idx V i x"
  proof (cases "i = inode \<and> (\<exists>f \<in> set frags. covers f x)")
    case True
    then obtain g where g: "g \<in> set (canonicalView frags)" "covers g x" using canonicalView_covers [OF wf] by blast
    obtain h where h: "h \<in> set hs" "moved idx idx' sid target g h" using mv' [OF g(1)] by blast
    obtain f where f: "is_newest frags x f" "frag_loc g x = frag_loc f x" using canonicalView_newest [OF wf g] by blast
    have "newest V inode x f"
    proof -
      have st: "s = sid" if "frag_at V inode s k" "covers k x" for s k
        using same_stripe [of idx s k sid f x] frag_atD(1) [OF ok(1) that(1)] that(2) f(1) fok ok(2)
        by (auto simp: is_newest_def frag_ok_def)
      then show ?thesis using f(1) fr unfolding newest_def is_newest_def live_def by blast
    qed
    then have "file_byte idx V i x = loc_byte idx f x" using file_byte_newest [OF ok] True by simp
    also have "\<dots> = loc_byte idx g x"
      using f(2) loc_byte_frag_loc [of f x] loc_byte_frag_loc [of g x] by (metis prod_cases3)
    also have "\<dots> = loc_byte idx' h x" using h(2) g(2) by (simp add: moved_def)
    also have "\<dots> = file_byte idx' V' i x"
      by (rule sym, rule fb(2) [where s = sid]) (use True h moved_covers [OF h(2)] g(2) in auto)
    finally show ?thesis by simp
  next
    case False
    have "\<not> covers h x" if "i = inode" "h \<in> set hs" for h
      using mv [OF that(2)] moved_covers canonicalView_covers [OF wf, of x] False that(1) by blast
    then have "file_byte idx' V' i x = file_byte idx W i x" by (intro fb(3)) auto
    also have "\<dots> = file_byte idx V i x" by (rule without_stripe_byte [OF w]) (use False fr in auto)
    finally show ?thesis .
  qed
qed

lemma adds_cases:
  assumes "adds V V' inode ps" "V' (FragmentKey i s q) = Some v"
  obtains (new) f where "i = inode" "(s, f) \<in> set ps" "Seq f = q" "v = encodeFragments [f]"
  | (old) "V (FragmentKey i s q) = Some v"
proof (cases "i = inode \<and> (\<exists>f. (s, f) \<in> set ps \<and> Seq f = q)")
  case True
  then obtain f where f: "(s, f) \<in> set ps" "Seq f = q" by blast
  then have "V' (FragmentKey inode s q) = Some (encodeFragments [f])" using assms(1) unfolding adds_def by blast
  then show ?thesis using new f True assms(2) by simp
next
  case False
  then have "V' (FragmentKey i s q) = V (FragmentKey i s q)" using assms(1) unfolding adds_def by blast
  then show ?thesis using old assms(2) by simp
qed

lemma frag_batch_split: "frag_batch inode ps b = b @ frag_batch inode ps NewBatch"
  by (simp add: frag_batch_eq NewBatch_def)

lemma stripe_prefix_tag:
  "in_range (FragmentStripePrefix i s) (PrefixUpperBound (FragmentStripePrefix i s)) k \<Longrightarrow> prefix StripeAllPrefix k"
  using prefix_range stripe_prefix_all by blast

context pebble_engine
begin

lemma stripe_scan:
  assumes ok: "db_ok idx (view db)"
    and it: "DB_Iter P db (FragmentStripePrefix inode sid) (PrefixUpperBound (FragmentStripePrefix inode sid)) = Inr (kvs, None)"
  shows "set (decode_entries kvs) = {f. frag_at (view db) inode sid f}"
    and "without_stripe inode sid (view db) (apply_ops (map BDelete (filter IsFragmentKey (map fst kvs))) (view db))"
proof -
  let ?pre = "FragmentStripePrefix inode sid"
  have rs: "range_scan (view db) ?pre (PrefixUpperBound ?pre) kvs" by (rule DB_Iter_view [OF it])
  have "set (decode_entries kvs) = {f. \<exists>i s. frag_at (view db) i s f \<and> in_range ?pre (PrefixUpperBound ?pre) (FragmentKey i s (Seq f))}"
    by (rule scan_decode [OF ok rs]) (rule stripe_prefix_tag)
  then show "set (decode_entries kvs) = {f. frag_at (view db) inode sid f}" by (auto simp: prefix_range)
  have "FragmentKey i s q \<in> set (filter IsFragmentKey (map fst kvs)) \<longleftrightarrow> i = inode \<and> s = sid \<and> view db (FragmentKey i s q) \<noteq> None"
    for i s q
  proof -
    have "FragmentKey i s q \<in> fst ` set kvs \<longleftrightarrow> map_of kvs (FragmentKey i s q) \<noteq> None" by (simp add: map_of_eq_None_iff)
    then show ?thesis
      using range_scan_map_of [OF rs, of "FragmentKey i s q"] by (auto simp: prefix_range)
  qed
  then show "without_stripe inode sid (view db) (apply_ops (map BDelete (filter IsFragmentKey (map fst kvs))) (view db))"
    unfolding without_stripe_def apply_ops_deletes_iff by auto
qed

lemma Move_effect:
  assumes ok: "index_ok view idx" and t: "target = TierHot \<or> target = TierCold"
    and sq: "unat (ixSeqGen idx) + nat (ixStripeSize idx) < 2 ^ 64" and r: "Move P idx inode sid target = (idx', r)"
  shows "index_ok view idx' \<and> file_byte idx' (view (ixDB idx')) = file_byte idx (view (ixDB idx)) \<and>
    ixStripeSize idx' = ixStripeSize idx \<and> unat (ixSeqGen idx') \<le> unat (ixSeqGen idx) + nat (ixStripeSize idx) \<and>
    (r = Inr () \<longrightarrow> (\<forall>f. frag_at (view (ixDB idx')) inode sid f \<longrightarrow> FTier f = target \<and> ixSeqGen idx < Seq f))"
proof -
  let ?V = "view (ixDB idx)" and ?pre = "FragmentStripePrefix inode sid"
  have ix: "ix_ok idx" "db_ok idx ?V" "0 < ixStripeSize idx" using ok by (auto simp: index_ok_def ix_ok_def)
  obtain it where it: "DB_Iter P (ixDB idx) ?pre (PrefixUpperBound ?pre) = it" by simp
  consider (err) e where "idx' = idx" "r = Inl e"
    | (empty) kvs where "it = Inr (kvs, None)" "decode_entries kvs = []" "idx' = idx"
    | (go) kvs where "it = Inr (kvs, None)" "decode_entries kvs \<noteq> []"
        "andThen (move_loop idx inode sid target (canonicalView (decode_entries kvs)) []) (\<lambda>idx1 newFrags.
           commit_batch P idx1 (frag_batch inode (map (Pair sid) newFrags)
             (map BDelete (filter IsFragmentKey (map fst kvs))))) = (idx', r)"
    using r it by (auto simp: Move_def Let_def split: sum.splits prod.splits option.splits if_splits)
  then show ?thesis
  proof cases
    case err
    then show ?thesis using ok by simp
  next
    case empty
    then have "\<not> frag_at ?V inode sid f" for f
      using stripe_scan(1) [OF ix(2) it [unfolded empty(1)]] by simp
    then show ?thesis using ok empty(3) by simp
  next
    case go
    let ?frags = "decode_entries kvs" and ?del = "map BDelete (filter IsFragmentKey (map fst kvs))"
    note sc = stripe_scan [OF ix(2) it [unfolded go(1)]]
    have fok: "\<forall>f \<in> set ?frags. frag_ok idx sid f" using sc(1) frag_atD [OF ix(2)] by simp
    have vl: "length (canonicalView ?frags) \<le> nat (ixStripeSize idx)" using view_length [OF fok ix(3)] by simp
    then have len: "unat (ixSeqGen idx) + length (canonicalView ?frags) < 2 ^ 64" using sq by linarith
    obtain idx1 r1 where ml: "move_loop idx inode sid target (canonicalView ?frags) [] = (idx1, r1)" by fastforce
    note m = move_loop_ok [OF ix(1) _ t len ml]
    have m': "ix_ok idx1" "ix_extends idx idx1" "ixDB idx1 = ixDB idx" "ixSeqGen idx \<le> ixSeqGen idx1"
      using m view_frag_ok [OF fok] by blast+
    have "unat (ixSeqGen idx1) \<le> unat (ixSeqGen idx) + length (canonicalView ?frags)" using m view_frag_ok [OF fok] by blast
    then have sz: "ixStripeSize idx1 = ixStripeSize idx" "unat (ixSeqGen idx1) \<le> unat (ixSeqGen idx) + nat (ixStripeSize idx)"
      using vl m'(2) by (simp_all add: ix_extends_def)
    have stay: "db_ok idx1 ?V \<and> file_byte idx1 ?V = file_byte idx ?V"
      using frag_eq_unchanged [OF m'(2,4) ix(2,3)] by (simp add: frag_eq_def)
    show ?thesis
    proof (cases r1)
      case (Inl e)
      then show ?thesis using go(3) ml m' stay sz by (auto simp: index_ok_def)
    next
      case (Inr hs)
      have hs: "list_all2 (moved idx idx1 sid target) (canonicalView ?frags) hs"
          "\<forall>h \<in> set hs. ixSeqGen idx < Seq h \<and> Seq h \<le> ixSeqGen idx1" "distinct (map Seq hs)"
        using m view_frag_ok [OF fok] Inr by auto
      let ?ps = "map (Pair sid) hs" and ?W = "apply_ops ?del ?V"
      have cb: "commit_batch P idx1 (frag_batch inode ?ps ?del) = (idx', r)" using go(3) ml Inr by simp
      let ?V2 = "apply_ops (frag_batch inode ?ps ?del) ?V"
      have "distinct (map (Seq \<circ> snd) ?ps)" using hs(3) by (simp add: comp_def)
      then have ad: "adds ?W ?V2 inode ?ps" using frag_batch_adds by (simp add: frag_batch_split [of _ _ ?del])
      note sw = swap_content [OF ix(2,3) m'(2,4) sc(2,1) hs(1,2) ad]
      obtain db where db: "idx' = idx1\<lparr>ixDB := db\<rparr>" "r = Inr () \<longrightarrow> view db = ?V2" "view db = ?V \<or> view db = ?V2"
        using commit_batch_view [OF cb] m'(3) by auto
      have tier: "FTier f = target \<and> ixSeqGen idx < Seq f" if fa: "frag_at ?V2 inode sid f" for f
      proof -
        obtain v where v: "?V2 (FragmentKey inode sid (Seq f)) = Some v" "decodeFragments v = [f]"
          using fa unfolding frag_at_def by blast
        have "?W (FragmentKey inode sid (Seq f)) = None" using sc(2) by (simp add: without_stripe_def)
        then obtain h where h: "h \<in> set hs" "v = encodeFragments [h]" using adds_cases [OF ad v(1)] by auto
        have m: "moved idx idx1 sid target g h \<Longrightarrow> wf_frag h \<and> FTier h = target" for g by (simp add: moved_def frag_ok_def)
        have "wf_frag h \<and> FTier h = target"
          using hs(1) h(1) m by (metis in_set_conv_nth list_all2_conv_all_nth)
        then show ?thesis using decode_one [of h] v(2) h hs(2) by auto
      qed
      have after: "db_ok idx1 (view db) \<and> file_byte idx1 (view db) = file_byte idx ?V"
        using db(3)
      proof
        assume "view db = ?V"
        then show ?thesis using stay by (simp only:)
      next
        assume "view db = ?V2"
        moreover have "file_byte idx1 ?V2 = file_byte idx ?V" using sw(2) by (intro ext)
        ultimately show ?thesis using sw(1) by (simp only:)
      qed
      have "ixDB idx' = db" "ixStripeSize idx' = ixStripeSize idx1" "ixSeqGen idx' = ixSeqGen idx1" using db(1) by simp_all
      then show ?thesis using after db(2) tier m'(1) sz commit_same [OF db(1)] by (simp add: index_ok_def)
    qed
  qed
qed

end

section \<open>Properties\<close>

text \<open>
  C32: moving a stripe to another tier never changes the content of any file, whatever fails
  on the way; when it reports success, every fragment of the stripe lies in the target tier.
\<close>

theorem Move_preserves_content:
  assumes "pebble_engine P view" "index_ok view idx" "target = TierHot \<or> target = TierCold"
    and "unat (ixSeqGen idx) + nat (ixStripeSize idx) < 2 ^ 64" "Move P idx inode sid target = (idx', r)"
  shows "index_ok view idx' \<and> file_byte idx' (view (ixDB idx')) = file_byte idx (view (ixDB idx)) \<and>
    (r = Inr () \<longrightarrow> (\<forall>f. frag_at (view (ixDB idx')) inode sid f \<longrightarrow> FTier f = target))"
  using pebble_engine.Move_effect [OF assms] by blast

theorem Move_preserves_content_witness:
  "\<exists>idx idx' r. index_ok map_of idx \<and> Move mem_pebble idx 1 1 TierCold = (idx', r) \<and>
     file_byte idx' (map_of (ixDB idx')) 1 4096 = Some 8"
proof -
  obtain idx where idx: "index_ok map_of idx" "ixStripeSize idx = 4096" "unat (ixSeqGen idx) \<le> 2"
      "file_byte idx (map_of (ixDB idx)) 1 4096 = Some 8"
    using fresh_append by blast
  obtain idx' r where t: "Move mem_pebble idx 1 1 TierCold = (idx', r)" by fastforce
  have "unat (ixSeqGen idx) + nat (ixStripeSize idx) < 2 ^ 64" using idx(2,3) by simp
  then have "file_byte idx' (map_of (ixDB idx')) = file_byte idx (map_of (ixDB idx))"
    using Move_preserves_content [OF mem.pebble_engine_axioms idx(1) _ _ t] by simp
  then show ?thesis using idx(1,4) t by (metis (no_types))
qed

end
