(* ===== verification/Index_GC.thy ===== *)
theory Index_GC
  imports Index_Move
begin

text \<open>
  Garbage collection keeps every file: only segments that no fragment refers to (and that
  are not active) are removed, whatever fails on the way, and after a successful run every
  remaining segment is referenced or active.
\<close>

section \<open>Removing segments from a set\<close>

text \<open>The segments in \<open>K\<close> keep their bytes and what is durable of them.\<close>

definition set_spares :: "u32 set \<Rightarrow> SegSet \<Rightarrow> SegSet \<Rightarrow> bool" where
  "set_spares K ss ss' \<longleftrightarrow> set_ok ss' \<and> ssTier ss' = ssTier ss \<and>
     (\<forall>i \<in> K. set_data ss' i = set_data ss i \<and> set_durable ss i \<le> set_durable ss' i)"

lemma set_spares_refl: "set_ok ss \<Longrightarrow> set_spares K ss ss"
  by (simp add: set_spares_def)

lemma set_spares_trans: "set_spares K a b \<Longrightarrow> set_spares K b c \<Longrightarrow> set_spares K a c"
  unfolding set_spares_def by (metis order_trans)

text \<open>A directory in which one name is gone and the others are the same or newly linked.\<close>

lemma dir_without:
  assumes ok: "set_ok ss" and d: "d = AList.delete nm (ssDir ss) \<or> d = link_all (AList.delete nm (ssDir ss))"
    and seg: "seg_of ss' = (seg_of ss)(j := None)" and nm: "\<And>i. i \<noteq> j \<Longrightarrow> seg_of ss i \<noteq> None \<Longrightarrow> segFileName i \<noteq> nm"
    and rest: "ssDir ss' = d" "ssTier ss' = ssTier ss" "ssActive ss' = ssActive ss" "ssActive ss \<noteq> Some j" "j \<notin> K"
    and K: "\<And>i. i \<in> K \<Longrightarrow> seg_of ss i \<noteq> None"
  shows "set_spares K ss ss'"
proof -
  have at: "map_of d n = (if n = nm then None else map_of (ssDir ss) n) \<or>
      map_of d n = (if n = nm then None else map_option (\<lambda>f. f\<lparr>fLinked := True\<rparr>) (map_of (ssDir ss) n))" for n
    using d by (auto simp: delete_conv' map_of_link_all)
  have "dir_ok d"
    unfolding dir_ok_def
  proof (intro allI impI)
    fix i f assume "map_of d (segFileName i) = Some f"
    then obtain g where "map_of (ssDir ss) (segFileName i) = Some g" "fData f = fData g" "fSynced f = fSynced g"
      using at [of "segFileName i"] by (cases "map_of (ssDir ss) (segFileName i)") (auto split: if_splits)
    then show "file_ok f"
      using ok file_ok_cong [of f g] by (auto simp: set_ok_def dir_ok_def)
  qed
  moreover have kept: "\<exists>g. map_of d (segFileName i) = Some g \<and> fData g = fData f \<and> fSynced g = fSynced f \<and> (fLinked f \<longrightarrow> fLinked g)"
    if "i \<noteq> j" "seg_of ss i \<noteq> None" "map_of (ssDir ss) (segFileName i) = Some f" for i f
    using at [of "segFileName i"] nm [OF that(1,2)] that(3) by auto
  moreover have "seg_ok d i s" if "seg_of ss' i = Some s" for i s
  proof -
    have i: "i \<noteq> j" "seg_of ss i = Some s" using that seg by (auto split: if_splits)
    then have "seg_ok (ssDir ss) i s" using ok by (simp add: set_ok_def)
    then show ?thesis using kept i unfolding seg_ok_def by fastforce
  qed
  ultimately have "set_ok ss'" using ok rest seg by (auto simp: set_ok_def)
  moreover have "set_data ss' i = set_data ss i \<and> set_durable ss i \<le> set_durable ss' i" if iK: "i \<in> K" for i
  proof -
    have ij: "i \<noteq> j" using iK rest(5) by blast
    obtain s where s: "seg_of ss i = Some s" using K [OF iK] by blast
    obtain f where f: "map_of (ssDir ss) (segFileName i) = Some f" using ok s by (rule set_okD)
    obtain g where g: "map_of d (segFileName i) = Some g" "fData g = fData f" "fSynced g = fSynced f" "fLinked f \<longrightarrow> fLinked g"
      using kept ij s f by blast
    have "seg_of ss' i = Some s" using seg ij s by simp
    then show ?thesis using s f g rest(1) by (simp add: set_data_def set_durable_def the_file_Some)
  qed
  ultimately show ?thesis using rest(2) by (simp add: set_spares_def)
qed

lemma Set_Remove_spares:
  assumes ok: "set_ok ss" and np: "no_partial osq" and j: "j \<notin> K" "ssActive ss \<noteq> Some j"
    and K: "\<And>i. i \<in> K \<Longrightarrow> seg_of ss i \<noteq> None" and r: "Set_Remove ss osq j = ((ss', osq'), r)"
  shows "set_spares K ss ss' \<and> no_partial osq' \<and> ssActive ss' = ssActive ss \<and> seg_of ss' = (seg_of ss)(j := None)"
proof (cases "seg_of ss j")
  case None
  then have "(seg_of ss)(j := None) = seg_of ss" by auto
  then show ?thesis using None r ok np by (auto simp: Set_Remove_def set_spares_refl)
next
  case (Some s)
  let ?ss1 = "ss\<lparr>ssSegments := AList.delete j (ssSegments ss)\<rparr>"
  have seg: "seg_of ?ss1 = (seg_of ss)(j := None)" by (simp add: seg_of_def fun_eq_iff delete_conv')
  have stay: "set_spares K ss ?ss1"
  proof -
    have "set_ok ?ss1" using ok j(2) by (auto simp: set_ok_def seg split: if_splits)
    moreover have "set_data ?ss1 i = set_data ss i \<and> set_durable ss i \<le> set_durable ?ss1 i" if "i \<in> K" for i
      using that j(1) by (auto simp: set_data_def set_durable_def seg split: option.splits)
    ultimately show ?thesis by (simp add: set_spares_def)
  qed
  obtain osq1 r1 where q1: "sys osq = (osq1, r1)" by fastforce
  have np1: "no_partial osq1" by (rule sys_no_partial [OF np q1])
  obtain d osq2 r2 where q2: "fsyncDir (AList.delete (segFileName j) (ssDir ss)) osq1 = ((d, osq2), r2)" by (metis prod.collapse)
  note fd = fsyncDir_cases [OF np1 q2]
  have "set_spares K ss (?ss1\<lparr>ssDir := d\<rparr>)"
    using fd seg j K by (intro dir_without [OF ok, of d "segFileName j" _ j]) (auto simp: fun_eq_iff)
  then show ?thesis
    using r Some q1 q2 j(2) stay np1 fd seg
    by (auto simp: Set_Remove_def Let_def fun_eq_iff split: sum.splits if_splits)
qed

lemma gc_segments_spares:
  "set_ok ss \<Longrightarrow> no_partial osq \<Longrightarrow> (\<And>i. i \<in> K \<Longrightarrow> seg_of ss i \<noteq> None \<and> (ssTier ss, i) \<in> set rs) \<Longrightarrow>
   (\<And>a. ssActive ss = Some a \<Longrightarrow> (ssTier ss, a) \<in> set rs) \<Longrightarrow> gc_segments rs is ss osq = ((ss', osq'), r) \<Longrightarrow>
   set_spares K ss ss' \<and> no_partial osq' \<and> ssActive ss' = ssActive ss \<and>
   (\<forall>i. seg_of ss i = None \<longrightarrow> seg_of ss' i = None) \<and>
   (r = Inr () \<longrightarrow> (\<forall>i \<in> set is. seg_of ss' i = None \<or> (ssTier ss, i) \<in> set rs))"
proof (induction "is" arbitrary: ss osq)
  case Nil
  then show ?case by (auto simp: set_spares_refl)
next
  case (Cons j js)
  show ?case
  proof (cases "(ssTier ss, j) \<in> set rs")
    case True
    then show ?thesis using Cons.IH [OF Cons.prems(1-4)] Cons.prems(5) by auto
  next
    case False
    have j: "j \<notin> K" "ssActive ss \<noteq> Some j" using False Cons.prems(3,4) by auto
    obtain ss1 osq1 r1 where rm: "Set_Remove ss osq j = ((ss1, osq1), r1)" by (metis prod.collapse)
    have rr: "set_spares K ss ss1 \<and> no_partial osq1 \<and> ssActive ss1 = ssActive ss \<and> seg_of ss1 = (seg_of ss)(j := None)"
      using Set_Remove_spares [OF Cons.prems(1,2) j _ rm] Cons.prems(3) by blast
    have ok1: "set_ok ss1" "ssTier ss1 = ssTier ss" using rr by (auto simp: set_spares_def)
    show ?thesis
    proof (cases r1)
      case (Inl e)
      then show ?thesis using Cons.prems(5) False rm rr by (auto split: if_splits)
    next
      case (Inr u)
      have go: "gc_segments rs js ss1 osq1 = ((ss', osq'), r)" using Cons.prems(5) False rm Inr by simp
      have "set_spares K ss1 ss' \<and> no_partial osq' \<and> ssActive ss' = ssActive ss1 \<and>
          (\<forall>i. seg_of ss1 i = None \<longrightarrow> seg_of ss' i = None) \<and>
   (r = Inr () \<longrightarrow> (\<forall>i \<in> set js. seg_of ss' i = None \<or> (ssTier ss1, i) \<in> set rs))"
        using rr ok1 Cons.prems(3,4) j by (intro Cons.IH [OF ok1(1) _ _ _ go]) auto
      moreover have "set_spares K ss ss'" using calculation rr set_spares_trans by blast
      ultimately show ?thesis using rr ok1(2) by (auto simp: fun_upd_def split: if_splits)
    qed
  qed
qed

lemma gc_strays_spares:
  "set_ok ss \<Longrightarrow> no_partial osq \<Longrightarrow> (\<And>i. i \<in> K \<Longrightarrow> seg_of ss i \<noteq> None) \<Longrightarrow> gc_strays rs names ss osq = ((ss', osq'), r) \<Longrightarrow>
   set_spares K ss ss' \<and> no_partial osq' \<and> ssActive ss' = ssActive ss \<and> seg_of ss' = seg_of ss"
proof (induction names arbitrary: ss osq)
  case Nil
  then show ?case by (simp add: set_spares_refl)
next
  case (Cons nm nms)
  consider (skip) osq1 where "no_partial osq1" "gc_strays rs nms ss osq1 = ((ss', osq'), r)"
    | (err) "ss' = ss" "no_partial osq'"
    | (del) i osq1 where "parseSegName nm = Some i" "seg_of ss i = None" "no_partial osq1"
        "gc_strays rs nms (ss\<lparr>ssDir := AList.delete nm (ssDir ss)\<rparr>) osq1 = ((ss', osq'), r)"
    using Cons.prems(2,4) sys_no_partial [OF Cons.prems(2)]
    by (auto simp: Set_Get_def split: option.splits if_splits prod.splits sum.splits)
  then show ?case
  proof cases
    case skip
    then show ?thesis using Cons.IH [OF Cons.prems(1) _ Cons.prems(3)] by blast
  next
    case err
    then show ?thesis using Cons.prems(1) by (simp add: set_spares_refl)
  next
    case (del i osq1)
    let ?ss1 = "ss\<lparr>ssDir := AList.delete nm (ssDir ss)\<rparr>"
    have "ssActive ss \<noteq> Some i" using Cons.prems(1) del(2) by (auto simp: set_ok_def)
    moreover have "segFileName k \<noteq> nm" if "seg_of ss k \<noteq> None" for k using that del(1,2) by auto
    moreover have "seg_of ss = (seg_of ss)(i := None)" using del(2) by auto
    moreover have "i \<notin> K" using Cons.prems(3) [of i] del(2) by blast
    ultimately have s1: "set_spares K ss ?ss1"
      using Cons.prems(3) by (intro dir_without [OF Cons.prems(1), of _ nm _ i]) auto
    then have "set_ok ?ss1" by (simp add: set_spares_def)
    then have "set_spares K ?ss1 ss' \<and> no_partial osq' \<and> ssActive ss' = ssActive ?ss1 \<and> seg_of ss' = seg_of ?ss1"
      using Cons.prems(3) by (intro Cons.IH [OF _ del(3) _ del(4)]) auto
    then show ?thesis using set_spares_trans [OF s1] by (auto simp: fun_eq_iff)
  qed
qed

lemma Set_All_iff: "i \<in> set (Set_All ss) \<longleftrightarrow> seg_of ss i \<noteq> None"
  by (auto simp: Set_All_def seg_of_def map_of_eq_None_iff image_iff)

lemma gc_set_spares:
  assumes ok: "set_ok ss" "no_partial osq" and K: "\<And>i. i \<in> K \<Longrightarrow> seg_of ss i \<noteq> None \<and> (ssTier ss, i) \<in> set rs"
    and act: "\<And>a. ssActive ss = Some a \<Longrightarrow> (ssTier ss, a) \<in> set rs" and r: "gc_set rs ss osq = ((ss', osq'), r)"
  shows "set_spares K ss ss' \<and> no_partial osq' \<and> ssActive ss' = ssActive ss \<and>
    (r = Inr () \<longrightarrow> (\<forall>i \<in> set (Set_All ss'). (ssTier ss, i) \<in> set rs))"
proof -
  obtain ss1 osq1 r1 where g: "gc_segments rs (Set_All ss) ss osq = ((ss1, osq1), r1)" by (metis prod.collapse)
  have g1: "set_spares K ss ss1 \<and> no_partial osq1 \<and> ssActive ss1 = ssActive ss \<and> (\<forall>i. seg_of ss i = None \<longrightarrow> seg_of ss1 i = None) \<and>
      (r1 = Inr () \<longrightarrow> (\<forall>i \<in> set (Set_All ss). seg_of ss1 i = None \<or> (ssTier ss, i) \<in> set rs))"
    using gc_segments_spares [OF ok K act g] by blast
  then have ok1: "set_ok ss1" by (simp add: set_spares_def)
  have K1: "seg_of ss1 i \<noteq> None" if iK: "i \<in> K" for i
  proof -
    obtain s where s: "seg_of ss i = Some s" using K [OF iK] by blast
    then have "set_data ss i \<noteq> None" using ok(1) by (auto simp: set_data_def set_ok_def seg_ok_def)
    then have "set_data ss1 i \<noteq> None" using g1 iK by (simp add: set_spares_def)
    then show ?thesis by (auto simp: set_data_def split: option.splits)
  qed
  have left: "(ssTier ss, i) \<in> set rs" if "r1 = Inr ()" "seg_of ss1 i \<noteq> None" for i
    using that g1 by (metis Set_All_iff)
  obtain osq2 r2 where q: "sys osq1 = (osq2, r2)" by fastforce
  have np2: "no_partial osq2" using sys_no_partial q g1 by blast
  show ?thesis
  proof (cases r1)
    case (Inl e)
    then show ?thesis using r g g1 by (auto simp: gc_set_def)
  next
    case (Inr u)
    consider (stop) "ss' = ss1" "osq' = osq2"
      | (strays) "gc_strays rs (sort (remdups (map fst (ssDir ss1)))) ss1 osq2 = ((ss', osq'), r)"
      using r g Inr q by (auto simp: gc_set_def split: sum.splits if_splits)
    then show ?thesis
    proof cases
      case stop
      then show ?thesis using g1 np2 Inr left by (simp add: Set_All_iff)
    next
      case strays
      have "set_spares K ss1 ss' \<and> no_partial osq' \<and> ssActive ss' = ssActive ss1 \<and> seg_of ss' = seg_of ss1"
        using gc_strays_spares [OF ok1 np2 K1 strays] by blast
      then show ?thesis using g1 Inr left set_spares_trans [of K ss ss1 ss'] by (simp add: Set_All_iff)
    qed
  qed
qed

section \<open>References\<close>

lemma add_refs_set:
  "add_refs fs rs = Inr rs' \<Longrightarrow> set rs' = set rs \<union> (\<lambda>f. (FTier f, SegmentID f)) ` set fs"
proof (induction fs arbitrary: rs)
  case (Cons f fs)
  then obtain rs1 where a: "add_ref (FTier f) (SegmentID f) rs = Inr rs1" "add_refs fs rs1 = Inr rs'"
    by (auto simp: bindE_ok)
  then have "set rs1 = set rs \<union> {(FTier f, SegmentID f)}" by (auto simp: add_ref_def split: if_splits)
  then show ?case using Cons.IH [OF a(2)] by auto
qed simp

lemma add_active_set:
  "add_active ss rs = Inr rs' \<Longrightarrow> set rs' = set rs \<union> (case ssActive ss of Some a \<Rightarrow> {(ssTier ss, a)} | None \<Rightarrow> {})"
  by (auto simp: add_active_def add_ref_def Set_ActiveID_def split: option.splits if_splits)

section \<open>The index after removals\<close>

definition spared :: "'db Index \<Rightarrow> (Tier \<times> u32) set \<Rightarrow> 'db Index \<Rightarrow> bool" where
  "spared idx R idx' \<longleftrightarrow> ix_ok idx' \<and> ixDB idx' = ixDB idx \<and> ixSeqGen idx' = ixSeqGen idx \<and>
     ixStripeSize idx' = ixStripeSize idx \<and>
     (\<forall>t i. (t, i) \<in> R \<and> (t = TierHot \<or> t = TierCold) \<and> set_data (setFor idx t) i \<noteq> None \<longrightarrow>
        set_data (setFor idx' t) i = set_data (setFor idx t) i \<and> set_durable (setFor idx t) i \<le> set_durable (setFor idx' t) i)"

lemma spared_trans:
  assumes 1: "spared a R b" and 2: "spared b R c"
  shows "spared a R c"
proof -
  have "set_data (setFor c t) i = set_data (setFor a t) i \<and> set_durable (setFor a t) i \<le> set_durable (setFor c t) i"
    if t: "(t, i) \<in> R" "t = TierHot \<or> t = TierCold" "set_data (setFor a t) i \<noteq> None" for t i
  proof -
    have b: "set_data (setFor b t) i = set_data (setFor a t) i" "set_durable (setFor a t) i \<le> set_durable (setFor b t) i"
      using 1 t unfolding spared_def by blast+
    then have "set_data (setFor c t) i = set_data (setFor b t) i" "set_durable (setFor b t) i \<le> set_durable (setFor c t) i"
      using 2 t unfolding spared_def by metis+
    then show ?thesis using b by simp
  qed
  then show ?thesis using 1 2 unfolding spared_def by simp
qed

lemma spared_frag:
  assumes s: "spared idx R idx'" and ok: "frag_ok idx s f" and R: "(FTier f, SegmentID f) \<in> R"
  shows "frag_ok idx' s f" "loc_byte idx' f x = loc_byte idx f x"
proof -
  have "set_data (setFor idx (FTier f)) (SegmentID f) \<noteq> None" "FTier f = TierHot \<or> FTier f = TierCold"
    using ok by (auto simp: frag_ok_def located_def)
  then have d: "set_data (setFor idx' (FTier f)) (SegmentID f) = set_data (setFor idx (FTier f)) (SegmentID f)"
      "set_durable (setFor idx (FTier f)) (SegmentID f) \<le> set_durable (setFor idx' (FTier f)) (SegmentID f)"
    using s R unfolding spared_def by blast+
  show "loc_byte idx' f x = loc_byte idx f x" by (simp add: loc_byte_def d(1))
  have "ixStripeSize idx' = ixStripeSize idx" using s by (simp add: spared_def)
  then show "frag_ok idx' s f"
    using ok d by (simp add: frag_ok_def located_def durable_def log_durable_def in_stripe_def)
qed

lemma spared_content:
  assumes s: "spared idx R idx'" and ok: "db_ok idx V" "0 < ixStripeSize idx"
    and R: "\<And>i sid f. frag_at V i sid f \<Longrightarrow> (FTier f, SegmentID f) \<in> R"
  shows "db_ok idx' V \<and> file_byte idx' V = file_byte idx V"
proof
  have sq: "ixSeqGen idx' = ixSeqGen idx" "0 < ixStripeSize idx'" using s ok(2) by (auto simp: spared_def)
  show ok': "db_ok idx' V"
  proof (rule db_okI)
    fix i sid q v assume v: "V (FragmentKey i sid q) = Some v"
    obtain f where f: "decodeFragments v = [f]" "Seq f = q" "frag_ok idx sid f" "q \<le> ixSeqGen idx" "frag_at V i sid f"
      by (rule db_okD [OF ok(1) v])
    then show "\<exists>f. decodeFragments v = [f] \<and> Seq f = q \<and> frag_ok idx' sid f \<and> q \<le> ixSeqGen idx'"
      using spared_frag(1) [OF s f(3) R [OF f(5)]] sq(1) by auto
  qed
  show "file_byte idx' V = file_byte idx V"
  proof (intro ext)
    fix i x
    show "file_byte idx' V i x = file_byte idx V i x"
      using ok
    proof (cases rule: file_byte_cases [of idx V i x])
      case (data f)
      obtain sid where f: "frag_at V i sid f" using data(1) by (auto simp: newest_def live_def)
      show ?thesis
        using file_byte_newest [OF ok' sq(2) data(1)] data(2) spared_frag(2) [OF s frag_atD(1) [OF ok(1) f] R [OF f]]
        by simp
    next
      case hole
      then show ?thesis using file_byte_none [of V i x idx'] by simp
    qed
  qed
qed

lemma on_set_gc:
  assumes ix: "ix_ok idx" and t: "t = TierHot \<or> t = TierCold" and act: "\<And>a. ssActive (setFor idx t) = Some a \<Longrightarrow> (t, a) \<in> set rs"
    and r: "on_set idx t (gc_set rs) = (idx', r)"
  shows "spared idx (set rs) idx' \<and> (\<forall>u. ssActive (setFor idx' u) = ssActive (setFor idx u)) \<and>
    (\<forall>u. (u = TierCold) \<noteq> (t = TierCold) \<longrightarrow> setFor idx' u = setFor idx u) \<and>
    (r = Inr () \<longrightarrow> (\<forall>i \<in> set (Set_All (setFor idx' t)). (t, i) \<in> set rs))"
proof -
  let ?K = "{i. (t, i) \<in> set rs \<and> seg_of (setFor idx t) i \<noteq> None}"
  have tt: "ssTier (setFor idx t) = t" using ix t by (auto simp: ix_ok_def setFor_def TierHot_def TierCold_def)
  obtain ss osq where g: "gc_set rs (setFor idx t) (ixOS idx) = ((ss, osq), r)" "idx' = put_set t ss osq idx"
    using r by (auto simp: on_set_def split: prod.splits)
  have sp: "set_spares ?K (setFor idx t) ss \<and> no_partial osq \<and> ssActive ss = ssActive (setFor idx t) \<and>
      (r = Inr () \<longrightarrow> (\<forall>i \<in> set (Set_All ss). (ssTier (setFor idx t), i) \<in> set rs))"
    using ix act tt by (intro gc_set_spares [OF ix_ok_setFor [OF ix] _ _ _ g(1)]) (auto simp: ix_ok_def)
  have other: "setFor idx' u = (if (u = TierCold) = (t = TierCold) then ss else setFor idx u)" for u
    using g(2) by (auto simp: put_set_def setFor_def)
  have "ix_ok idx'" using ix sp t tt g(2) by (auto simp: ix_ok_def put_set_def set_spares_def setFor_def)
  moreover have "set_data (setFor idx' u) i = set_data (setFor idx u) i \<and>
      set_durable (setFor idx u) i \<le> set_durable (setFor idx' u) i"
    if u: "(u, i) \<in> set rs" "u = TierHot \<or> u = TierCold" "set_data (setFor idx u) i \<noteq> None" for u i
  proof (cases "u = t")
    case True
    have "seg_of (setFor idx u) i \<noteq> None" using u(3) by (auto simp: set_data_def split: option.splits)
    then show ?thesis using True u(1) sp other by (auto simp: set_spares_def)
  next
    case False
    then show ?thesis using other [of u] t u(2) by (auto simp: TierHot_def TierCold_def)
  qed
  ultimately have "spared idx (set rs) idx'" using g(2) by (auto simp: spared_def put_set_def)
  moreover have "ssActive (setFor idx' u) = ssActive (setFor idx u)" for u
    using other [of u] sp setFor_tier [of u t idx] by auto
  ultimately show ?thesis using sp other tt by simp
qed

context pebble_engine
begin

lemma GC_effect:
  assumes ok: "index_ok view idx" and r: "GC P idx = (idx', r)"
  shows "index_ok view idx' \<and> ixDB idx' = ixDB idx \<and> ixSeqGen idx' = ixSeqGen idx \<and> ixStripeSize idx' = ixStripeSize idx \<and>
    file_byte idx' (view (ixDB idx')) = file_byte idx (view (ixDB idx)) \<and>
    (r = Inr () \<longrightarrow> (\<forall>t i. (t = TierHot \<or> t = TierCold) \<and> i \<in> set (SegmentIDs idx' t) \<longrightarrow>
       ssActive (setFor idx' t) = Some i \<or>
       (\<exists>ino sid f. frag_at (view (ixDB idx)) ino sid f \<and> FTier f = t \<and> SegmentID f = i)))"
proof -
  let ?V = "view (ixDB idx)" and ?hi = "PrefixUpperBound StripeAllPrefix"
  have ix: "ix_ok idx" "db_ok idx ?V" "0 < ixStripeSize idx" using ok by (auto simp: index_ok_def ix_ok_def)
  obtain it where it: "DB_Iter P (ixDB idx) StripeAllPrefix ?hi = it" by simp
  consider (err) e where "idx' = idx" "r = Inl e"
    | (go) kvs rs rs1 rs2 where "it = Inr (kvs, None)" "add_refs (decode_entries kvs) [] = Inr rs"
        "add_active (ixHot idx) rs = Inr rs1" "add_active (ixCold idx) rs1 = Inr rs2"
        "andThen (on_set idx TierHot (gc_set rs2)) (\<lambda>idx1 _. on_set idx1 TierCold (gc_set rs2)) = (idx', r)"
    using r it by (auto simp: GC_def bindE_def split: sum.splits prod.splits option.splits)
  then show ?thesis
  proof cases
    case err
    then show ?thesis using ok by simp
  next
    case go
    have rs: "range_scan ?V StripeAllPrefix ?hi kvs" by (rule DB_Iter_view [OF it [unfolded go(1)]])
    have frags: "set (decode_entries kvs) = {f. \<exists>i s. frag_at ?V i s f}"
      using scan_decode [OF ix(2) rs] by (simp add: prefix_range stripe_prefix_all)
    have refs: "set rs2 = (\<lambda>f. (FTier f, SegmentID f)) ` {f. \<exists>i s. frag_at ?V i s f} \<union>
        (case ssActive (ixHot idx) of Some a \<Rightarrow> {(TierHot, a)} | None \<Rightarrow> {}) \<union>
        (case ssActive (ixCold idx) of Some a \<Rightarrow> {(TierCold, a)} | None \<Rightarrow> {})"
      using add_refs_set [OF go(2)] add_active_set [OF go(3)] add_active_set [OF go(4)] frags ix(1)
      by (simp add: ix_ok_def split: option.splits)
    have act: "(t, a) \<in> set rs2" if "ssActive (setFor idx t) = Some a" "t = TierHot \<or> t = TierCold" for t a
      using that refs by (auto simp: setFor_def TierHot_def TierCold_def)
    have R: "(FTier f, SegmentID f) \<in> set rs2" if "frag_at ?V i s f" for i s f using refs that by blast
    have owner: "ssActive (setFor idx t) = Some i \<or> (\<exists>ino sid f. frag_at ?V ino sid f \<and> FTier f = t \<and> SegmentID f = i)"
      if "(t, i) \<in> set rs2" for t i
      using that refs by (auto simp: setFor_def TierHot_def TierCold_def split: option.splits)
    have keep: ?thesis if sp: "spared idx (set rs2) idx'"
        and a: "\<And>u. ssActive (setFor idx' u) = ssActive (setFor idx u)"
        and l: "r = Inr () \<Longrightarrow> (\<forall>t i. (t = TierHot \<or> t = TierCold) \<and> i \<in> set (Set_All (setFor idx' t)) \<longrightarrow> (t, i) \<in> set rs2)"
      using spared_content [OF sp ix(2,3) R] sp a l owner by (auto simp: index_ok_def spared_def SegmentIDs_def)
    from go(5) show ?thesis
    proof (cases rule: andThen_cases)
      case (err e)
      then show ?thesis using on_set_gc [OF ix(1) _ _ err(1)] act keep by blast
    next
      case (ok idx1 u)
      have g1: "spared idx (set rs2) idx1" "\<And>u. ssActive (setFor idx1 u) = ssActive (setFor idx u)"
          "\<forall>i \<in> set (Set_All (setFor idx1 TierHot)). (TierHot, i) \<in> set rs2"
        using on_set_gc [OF ix(1) _ _ ok(1)] act by auto
      then have ix1: "ix_ok idx1" by (simp add: spared_def)
      have g2: "spared idx1 (set rs2) idx'" "\<And>u. ssActive (setFor idx' u) = ssActive (setFor idx1 u)"
          "setFor idx' TierHot = setFor idx1 TierHot"
          "r = Inr () \<longrightarrow> (\<forall>i \<in> set (Set_All (setFor idx' TierCold)). (TierCold, i) \<in> set rs2)"
        using on_set_gc [OF ix1 _ _ ok(2)] act g1(2) by (auto simp: TierHot_def TierCold_def)
      show ?thesis
      proof (rule keep)
        show "spared idx (set rs2) idx'" by (rule spared_trans [OF g1(1) g2(1)])
        show "ssActive (setFor idx' u) = ssActive (setFor idx u)" for u using g1(2) g2(2) by simp
        show "\<forall>t i. (t = TierHot \<or> t = TierCold) \<and> i \<in> set (Set_All (setFor idx' t)) \<longrightarrow> (t, i) \<in> set rs2" if "r = Inr ()"
          using that g1(3) g2(3,4) by auto
      qed
    qed
  qed
qed

end

section \<open>Properties\<close>

text \<open>
  C6: garbage collection changes no byte of any file and leaves the database alone, on every
  outcome; after success every segment that is left is the active one of its tier or holds a
  fragment of some file.
\<close>

theorem GC_preserves_content:
  assumes "pebble_engine P view" "index_ok view idx" "GC P idx = (idx', r)"
  shows "index_ok view idx' \<and> ixDB idx' = ixDB idx \<and>
    file_byte idx' (view (ixDB idx')) = file_byte idx (view (ixDB idx)) \<and>
    (r = Inr () \<longrightarrow> (\<forall>t i. (t = TierHot \<or> t = TierCold) \<and> i \<in> set (SegmentIDs idx' t) \<longrightarrow>
       ssActive (setFor idx' t) = Some i \<or>
       (\<exists>ino sid f. frag_at (view (ixDB idx)) ino sid f \<and> FTier f = t \<and> SegmentID f = i)))"
  using pebble_engine.GC_effect [OF assms] by blast

theorem GC_preserves_content_witness:
  "\<exists>idx idx' r. index_ok map_of idx \<and> GC mem_pebble idx = (idx', r) \<and>
     file_byte idx' (map_of (ixDB idx')) 1 4096 = Some 8"
proof -
  obtain idx where idx: "index_ok map_of idx" "file_byte idx (map_of (ixDB idx)) 1 4096 = Some 8"
    using fresh_append by blast
  obtain idx' r where t: "GC mem_pebble idx = (idx', r)" by fastforce
  then have "file_byte idx' (map_of (ixDB idx')) = file_byte idx (map_of (ixDB idx))"
    using GC_preserves_content [OF mem.pebble_engine_axioms idx(1) t] by blast
  then show ?thesis using idx t by (metis (no_types))
qed

end
