(* ===== verification/Index_Machine.thy ===== *)
theory Index_Machine
  imports Index_GC
begin

text \<open>
  The index as a state machine. An operation of \<open>src/index/index.go\<close> is a letter; running it
  is the corresponding handler. The abstract machine keeps only the contents of the files:
  an append overwrites a range, a truncate cuts, a delete empties, and moves, collections
  and syncs do nothing. The index refines it: every run of handlers, with any failures, is a
  run of the abstract machine, and the invariant holds throughout.
\<close>

section \<open>Operations\<close>

datatype ix_op = OpAppend u64 int bytes Tier | OpTruncate u64 int | OpDelete u64 | OpMove u64 u32 Tier | OpGC | OpSync

fun ix_run :: "'db pebble \<Rightarrow> ix_op \<Rightarrow> 'db Index \<Rightarrow> ('db Index, unit) outcome" where
  "ix_run P (OpAppend inode off d t) idx = AppendTo P idx inode off d t"
| "ix_run P (OpTruncate inode sz) idx = Index_Truncate P idx inode sz"
| "ix_run P (OpDelete inode) idx = DeleteInode P idx inode"
| "ix_run P (OpMove inode sid t) idx = Move P idx inode sid t"
| "ix_run P OpGC idx = GC P idx"
| "ix_run P OpSync idx = Index_Sync P idx"

text \<open>What an operation may consume of the sequence counter, and when it is in range.\<close>

fun op_seqs :: "'db Index \<Rightarrow> ix_op \<Rightarrow> nat" where
  "op_seqs idx (OpAppend inode off d t) = length d"
| "op_seqs idx (OpMove inode sid t) = nat (ixStripeSize idx)"
| "op_seqs idx _ = 0"

fun op_ok :: "'db Index \<Rightarrow> ix_op \<Rightarrow> bool" where
  "op_ok idx (OpAppend inode off d t) \<longleftrightarrow> 0 \<le> off \<and> off + int (length d) \<le> max_off idx \<and> (t = TierHot \<or> t = TierCold)"
| "op_ok idx (OpMove inode sid t) \<longleftrightarrow> t = TierHot \<or> t = TierCold"
| "op_ok idx _ \<longleftrightarrow> True"

type_synonym contents = "u64 \<Rightarrow> int \<Rightarrow> byte option"

fun spec_op :: "ix_op \<Rightarrow> contents \<Rightarrow> contents" where
  "spec_op (OpAppend inode off d t) c = written c inode off d"
| "spec_op (OpTruncate inode sz) c = (\<lambda>i x. if i = inode \<and> sz \<le> x then None else c i x)"
| "spec_op (OpDelete inode) c = (\<lambda>i x. if i = inode then None else c i x)"
| "spec_op _ c = c"

text \<open>A failed operation has happened or has not; nothing in between.\<close>

definition spec_step :: "ix_op \<Rightarrow> goerr + unit \<Rightarrow> contents \<Rightarrow> contents \<Rightarrow> bool" where
  "spec_step op r c c' \<longleftrightarrow> c' = spec_op op c \<or> r \<noteq> Inr () \<and> c' = c"

section \<open>Sync\<close>

lemma Set_SyncIds_keeps:
  "set_ok ss \<Longrightarrow> no_partial osq \<Longrightarrow> Set_SyncIds ss osq is = ((ss', osq'), r) \<Longrightarrow>
   set_ok ss' \<and> no_partial osq' \<and> set_extends ss ss' \<and> ssTier ss' = ssTier ss"
proof (induction "is" arbitrary: ss osq)
  case (Cons i js)
  obtain ss1 osq1 r1 where s: "Segment_Sync ss osq i = ((ss1, osq1), r1)" by (metis prod.collapse)
  have k: "set_ok ss1 \<and> no_partial osq1 \<and> set_extends ss ss1" by (rule segs.sync_keeps [OF Cons.prems(1,2) s])
  show ?case
  proof (cases r1)
    case (Inl e)
    then show ?thesis using Cons.prems(3) s k Segment_Sync_tier [OF s] by auto
  next
    case (Inr u)
    then show ?thesis
      using Cons.IH [of ss1 osq1] Cons.prems(3) s k Segment_Sync_tier [OF s] set_extends_trans by auto
  qed
qed simp

lemma on_set_SyncAll:
  assumes "ix_ok idx" "on_set idx t Set_SyncAll = (idx', r)"
  shows "ix_step idx idx'"
proof -
  obtain ss osq where a: "Set_SyncAll (setFor idx t) (ixOS idx) = ((ss, osq), r)" "idx' = put_set t ss osq idx"
    using assms(2) by (auto simp: on_set_def split: prod.splits)
  have "set_ok ss \<and> no_partial osq \<and> set_extends (setFor idx t) ss \<and> ssTier ss = ssTier (setFor idx t)"
    using Set_SyncIds_keeps [OF ix_ok_setFor [OF assms(1)] _ a(1) [unfolded Set_SyncAll_def]] assms(1) by (simp add: ix_ok_def)
  then show ?thesis using put_set_step [OF assms(1)] a(2) by blast
qed

section \<open>Simulation\<close>

lemma ix_step_content:
  assumes "index_ok view idx" "ix_step idx idx'"
  shows "index_ok view idx' \<and> file_byte idx' (view (ixDB idx')) = file_byte idx (view (ixDB idx))"
  using frag_eq_unchanged [of idx idx' "view (ixDB idx)"] assms
  by (simp add: index_ok_def ix_step_def ix_ok_def frag_eq_def)

context pebble_engine
begin

abbreviation "content idx \<equiv> file_byte idx (view (ixDB idx))"

lemma Sync_effect:
  assumes ok: "index_ok view idx" and r: "Index_Sync P idx = (idx', r)"
  shows "index_ok view idx' \<and> content idx' = content idx \<and> ixStripeSize idx' = ixStripeSize idx \<and> ixSeqGen idx' = ixSeqGen idx"
proof -
  have ix: "ix_ok idx" using ok by (simp add: index_ok_def)
  have keep: ?thesis if s: "ix_step idx idx1" and e: "idx' = idx1\<lparr>ixDB := db\<rparr>" "view db = view (ixDB idx1)" for idx1 db
    using ix_step_content [OF ok s] s e(2) commit_same [OF e(1)] e(1) by (simp add: index_ok_def ix_step_def ix_extends_def)
  have self: "idx1 = idx1\<lparr>ixDB := ixDB idx1\<rparr>" for idx1 :: "'a Index" by simp
  from r show ?thesis
    unfolding Index_Sync_def
  proof (cases rule: andThen_cases)
    case (err e)
    then show ?thesis using keep [OF on_set_SyncAll [OF ix err(1)] self] by simp
  next
    case (ok idx1 u)
    have s1: "ix_step idx idx1" by (rule on_set_SyncAll [OF ix ok(1)])
    then have ix1: "ix_ok idx1" by (simp add: ix_step_def)
    from ok(2) show ?thesis
    proof (cases rule: andThen_cases)
      case (err e)
      then show ?thesis using keep [OF ix_step_trans [OF s1 on_set_SyncAll [OF ix1 err(1)]] self] by simp
    next
      case (ok idx2 u)
      then obtain db where "idx' = idx2\<lparr>ixDB := db\<rparr>" "view db = view (ixDB idx2)"
        using commit_batch_view [OF ok(2)] by (auto simp: NewBatch_def)
      then show ?thesis using keep ix_step_trans [OF s1 on_set_SyncAll [OF ix1 ok(1)]] by blast
    qed
  qed
qed

lemma Truncate_params:
  "index_ok view idx \<Longrightarrow> Index_Truncate P idx inode sz = (idx', r) \<Longrightarrow> ixStripeSize idx' = ixStripeSize idx \<and> ixSeqGen idx' = ixSeqGen idx"
  using Truncate_edits [of idx inode sz idx' r] by auto

lemma Delete_params:
  "DeleteInode P idx inode = (idx', r) \<Longrightarrow> ixStripeSize idx' = ixStripeSize idx \<and> ixSeqGen idx' = ixSeqGen idx"
  using Delete_edits [of idx inode idx' r] by auto

text \<open>One handler is one abstract step.\<close>

lemma ix_run_effect:
  assumes ok: "index_ok view idx" and op: "op_ok idx op" and sq: "unat (ixSeqGen idx) + op_seqs idx op < 2 ^ 64"
    and r: "ix_run P op idx = (idx', r)"
  shows "index_ok view idx' \<and> spec_step op r (content idx) (content idx') \<and>
    ixStripeSize idx' = ixStripeSize idx \<and> unat (ixSeqGen idx') \<le> unat (ixSeqGen idx) + op_seqs idx op"
proof (cases op)
  case (OpAppend inode off d t)
  then show ?thesis
    using AppendToWithTx_effect [OF ok, of off d t None inode idx' r] op sq r by (auto simp: AppendTo_def spec_step_def)
next
  case (OpTruncate inode sz)
  then show ?thesis using Truncate_effect [OF ok] Truncate_params [OF ok] r by (auto simp: spec_step_def)
next
  case (OpDelete inode)
  then show ?thesis using Delete_effect [OF ok] Delete_params r by (auto simp: spec_step_def)
next
  case (OpMove inode sid t)
  then show ?thesis using Move_effect [OF ok, of t inode sid idx' r] op sq r by (auto simp: spec_step_def)
next
  case OpGC
  then have "GC P idx = (idx', r)" using r by simp
  then have "index_ok view idx' \<and> content idx' = content idx \<and> ixSeqGen idx' = ixSeqGen idx \<and> ixStripeSize idx' = ixStripeSize idx"
    using GC_effect [OF ok, of idx' r] by blast
  then show ?thesis using OpGC unfolding spec_step_def by (metis le_add1 spec_op.simps(5))
next
  case OpSync
  then show ?thesis using Sync_effect [OF ok, of idx' r] r by (simp add: spec_step_def)
qed

end

section \<open>Runs\<close>

text \<open>A run of handlers with the result of each, and a run of the abstract machine.\<close>

inductive ix_runs :: "'db pebble \<Rightarrow> 'db Index \<Rightarrow> (ix_op \<times> (goerr + unit)) list \<Rightarrow> 'db Index \<Rightarrow> bool" for P where
  runs_nil: "ix_runs P idx [] idx"
| runs_step: "op_ok idx op \<Longrightarrow> unat (ixSeqGen idx) + op_seqs idx op < 2 ^ 64 \<Longrightarrow> ix_run P op idx = (idx1, r) \<Longrightarrow>
    ix_runs P idx1 tr idx2 \<Longrightarrow> ix_runs P idx ((op, r) # tr) idx2"

inductive spec_runs :: "contents \<Rightarrow> (ix_op \<times> (goerr + unit)) list \<Rightarrow> contents \<Rightarrow> bool" where
  spec_nil: "spec_runs c [] c"
| spec_cons: "spec_step op r c c1 \<Longrightarrow> spec_runs c1 tr c2 \<Longrightarrow> spec_runs c ((op, r) # tr) c2"

inductive_cases ix_runs_ConsE: "ix_runs P idx ((op, r) # tr) idx'"
inductive_simps spec_runs_Nil [simp]: "spec_runs c [] c'"
inductive_simps spec_runs_Cons [simp]: "spec_runs c ((op, r) # tr) c'"

text \<open>Without failures the abstract machine is a function of the operations.\<close>

lemma spec_runs_ok:
  "spec_runs c tr c' \<Longrightarrow> \<forall>(op, r) \<in> set tr. r = Inr () \<Longrightarrow> c' = fold (\<lambda>(op, r). spec_op op) tr c"
  by (induction rule: spec_runs.induct) (auto simp: spec_step_def)

lemma spec_runs_append: "spec_runs a tr b \<Longrightarrow> spec_runs b tr' c \<Longrightarrow> spec_runs a (tr @ tr') c"
  by (induction rule: spec_runs.induct) auto

context pebble_engine
begin

lemma runs_effect:
  assumes "ix_runs P idx tr idx'" "index_ok view idx"
  shows "index_ok view idx' \<and> spec_runs (content idx) tr (content idx')"
  using assms
proof (induction rule: ix_runs.induct)
  case (runs_step idx op idx1 r tr idx2)
  then show ?case using ix_run_effect [of idx op idx1 r] by auto
qed simp

end

section \<open>Properties\<close>





end
