(* ===== verification/Mover_Safety.thy ===== *)
theory Mover_Safety
  imports Mover Index_Machine
begin

text \<open>
  The background mover on top of the index: a turn of its loop, with any number of moves and a
  collection, any failures and any cancellation, changes no file.
\<close>

section \<open>How many stripes are queued\<close>

lemma evict_visit_length: "length (fst (fst (evict_visit want acc s))) \<le> Suc (length (fst acc))"
  by (auto simp: evict_visit_def Let_def split: prod.splits)

lemma flush_stripe_length:
  "length (fst (fst (flush_stripe (evict_visit want) cur acc))) \<le> length (fst acc) + (if cur = None then 0 else 1)"
  using evict_visit_length by (auto simp: flush_stripe_def split: option.splits)

lemma iter_stripes_length:
  "length (fst (fst (iter_stripes (evict_visit want) kvs cur acc))) \<le> length (fst acc) + length kvs + (if cur = None then 0 else 1)"
proof (induction kvs arbitrary: cur acc)
  case Nil
  then show ?case using flush_stripe_length by simp
next
  case (Cons kv kvs)
  obtain k v where kv: "kv = (k, v)" by fastforce
  show ?case
  proof (cases "IsFragmentKey k")
    case False
    then show ?thesis using Cons.IH [of cur acc] by (simp add: kv)
  next
    case True
    let ?c = "if cur = None then 0 else 1 :: nat" and ?it = "iter_stripes (evict_visit want)"
    obtain acc1 go where fl: "flush_stripe (evict_visit want) cur acc = (acc1, go)" by fastforce
    have len: "length (fst acc1) \<le> length (fst acc) + ?c"
      using flush_stripe_length [of want cur acc] fl by simp
    have step: "length (fst (fst (?it kvs (Some a) v1))) \<le> length (fst acc) + Suc (length kvs) + ?c"
      if "length (fst v1) \<le> length (fst acc) + ?c" for a v1
      using Cons.IH [of "Some a" v1] that by simp
    have stop: "length (fst v1) \<le> length (fst acc) + Suc (length kvs) + ?c"
      if "length (fst v1) \<le> length (fst acc) + ?c" for v1 :: "cand list \<times> int"
      using that by simp
    obtain v1 where v1: "length (fst v1) \<le> length (fst acc) + ?c"
        "(\<exists>z. ?it (kv # kvs) cur acc = (v1, z)) \<or> (\<exists>a. ?it (kv # kvs) cur acc = ?it kvs (Some a) v1)"
    proof (cases "StripeInodeFromFragmentKey k = None \<or> StripeIDFromFragmentKey k = None")
      case bad: True
      then show ?thesis using that [of acc] True by (auto simp: kv split: option.splits)
    next
      case False
      then obtain ino sid where ids: "StripeInodeFromFragmentKey k = Some ino" "StripeIDFromFragmentKey k = Some sid" by auto
      let ?fresh = "case cur of None \<Rightarrow> True | Some a \<Rightarrow> ino \<noteq> saInode a \<or> sid \<noteq> saStripe a"
      let ?v1 = "if ?fresh then acc1 else acc"
      show ?thesis
        by (rule that [of ?v1]) (use len True ids fl in \<open>auto simp: kv Let_def split: sum.splits option.splits\<close>)
    qed
    then show ?thesis using step [OF v1(1)] stop [OF v1(1)] by auto
  qed
qed

section \<open>A turn of the loop\<close>

context pebble_engine
begin

lemma evict_loop_safe:
  assumes "index_ok view idx" "unat (ixSeqGen idx) + length cs * nat (ixStripeSize idx) < 2 ^ 64"
    "evict_loop P target cancelled dur i cs (m, idx) = ((m', idx'), r)"
  shows "index_ok view idx' \<and> content idx' = content idx"
  using assms
proof (induction cs arbitrary: idx m i)
  case (Cons c cs)
  obtain ino sid hot where c: "c = (ino, sid, hot)" by (cases c)
  obtain idx1 r1 where mv: "Move P idx ino sid TierCold = (idx1, r1)" by fastforce
  have "unat (ixSeqGen idx) + nat (ixStripeSize idx) < 2 ^ 64" using Cons.prems(2) by simp
  then have e: "index_ok view idx1" "content idx1 = content idx" "ixStripeSize idx1 = ixStripeSize idx"
      "unat (ixSeqGen idx1) \<le> unat (ixSeqGen idx) + nat (ixStripeSize idx)"
    using Move_effect [OF Cons.prems(1) _ _ mv] by auto
  have b: "unat (ixSeqGen idx1) + length cs * nat (ixStripeSize idx1) < 2 ^ 64" using e(3,4) Cons.prems(2) by simp
  show ?case
    using Cons.prems(1,3) Cons.IH [OF e(1) b] e(1,2) mv by (auto simp: c split: option.splits if_splits sum.splits goerr.splits)
qed simp

lemma evictOnce_safe:
  assumes ok: "index_ok view idx" and r: "evictOnce P cfg cancelled dur (m, idx) = ((m', idx'), r)"
    and sq: "\<And>kvs e. DB_Iter P (ixDB idx) StripeAllPrefix (PrefixUpperBound StripeAllPrefix) = Inr (kvs, e) \<Longrightarrow>
      unat (ixSeqGen idx) + length kvs * nat (ixStripeSize idx) < 2 ^ 64"
  shows "index_ok view idx' \<and> content idx' = content idx"
proof -
  let ?want = "i64 (HotUsedBytes idx - mcHotTargetBytes cfg)"
  consider (quit) "idx' = idx"
    | (go) cands q m1 where "IterStripes P idx (evict_visit ?want) ([], 0) = ((cands, q), Inr ())"
        "evict_loop P (mcHotTargetBytes cfg) cancelled dur 0 cands (m1, idx) = ((m', idx'), r)"
    using r by (auto simp: evictOnce_def Let_def split: if_splits sum.splits prod.splits)
  then show ?thesis
  proof cases
    case quit
    then show ?thesis using ok by simp
  next
    case go
    obtain kvs e where it: "DB_Iter P (ixDB idx) StripeAllPrefix (PrefixUpperBound StripeAllPrefix) = Inr (kvs, e)"
        "iter_stripes (evict_visit ?want) kvs None ([], 0) = ((cands, q), Inr ())"
      using go(1) by (auto simp: IterStripes_def split: sum.splits prod.splits)
    then have "length cands \<le> length kvs" using iter_stripes_length [of ?want kvs None "([], 0)"] by simp
    then have "length cands * nat (ixStripeSize idx) \<le> length kvs * nat (ixStripeSize idx)" by (rule mult_le_mono1)
    then have "unat (ixSeqGen idx) + length cands * nat (ixStripeSize idx) < 2 ^ 64" using sq [OF it(1)] by linarith
    then show ?thesis using evict_loop_safe [OF ok _ go(2)] by blast
  qed
qed

lemma gcOnce_safe:
  assumes "index_ok view idx" "gcOnce P dur (m, idx) = ((m', idx'), r)"
  shows "index_ok view idx' \<and> content idx' = content idx"
proof -
  have "GC P idx = (idx', r)" using assms(2) by (auto simp: gcOnce_def split: prod.splits)
  then show ?thesis using GC_effect [OF assms(1)] by blast
qed

end

section \<open>Properties\<close>



end
