(* ===== verification/Node.thy ===== *)
theory Node
  imports Encoding
begin

text \<open>
  The per-inode metadata of the file layer (\<open>src/store/store.go\<close>): mode bits, the node
  record with its 58-byte fixed encoding followed by the symlink target, and the values of
  directory entries. Go strings are byte strings.
\<close>

unbundle bit_operations_syntax

section \<open>Modes\<close>

type_synonym Mode = u32

definition ModeRegular :: Mode where "ModeRegular = 0x8000"
definition ModeDir :: Mode where "ModeDir = 0x4000"
definition ModeSymlink :: Mode where "ModeSymlink = 0xA000"
definition ModeMask :: Mode where "ModeMask = 0xF000"
definition PermMask :: Mode where "PermMask = 0xFFF"

lemmas mode_defs = ModeRegular_def ModeDir_def ModeSymlink_def ModeMask_def PermMask_def

definition IsDir :: "Mode \<Rightarrow> bool" where "IsDir m \<longleftrightarrow> m AND ModeMask = ModeDir"
definition IsRegular :: "Mode \<Rightarrow> bool" where "IsRegular m \<longleftrightarrow> m AND ModeMask = ModeRegular"
definition IsSymlink :: "Mode \<Rightarrow> bool" where "IsSymlink m \<longleftrightarrow> m AND ModeMask = ModeSymlink"

definition RootInode :: u64 where "RootInode = 1"

section \<open>Nodes\<close>

record Node =
  nInode :: u64
  nMode :: Mode
  nNlink :: u32
  nUID :: u32
  nGID :: u32
  nSize :: int
  nMtime :: int
  nCtime :: int
  nAtime :: int
  nSymlinkTarget :: bytes

definition nodeFixedSize :: nat where "nodeFixedSize = 58"

definition encodeNode :: "Node \<Rightarrow> bytes" where
  "encodeNode n = le64 (nInode n) @ le32 (nMode n) @ le32 (nNlink n) @ le32 (nUID n) @ le32 (nGID n)
     @ le64 (u64_of_int64 (nSize n)) @ le64 (u64_of_int64 (nMtime n)) @ le64 (u64_of_int64 (nCtime n))
     @ le64 (u64_of_int64 (nAtime n)) @ le16 (word_of_nat (length (nSymlinkTarget n))) @ nSymlinkTarget n"

definition decodeNode :: "bytes \<Rightarrow> goerr + Node" where
  "decodeNode buf =
     (if length buf < nodeFixedSize then Inl (ErrText ''store: node blob too short'')
      else case (le64_at 0 buf, le32_at 8 buf, le32_at 12 buf, le32_at 16 buf, le32_at 20 buf,
          le64_at 24 buf, le64_at 32 buf, le64_at 40 buf, le64_at 48 buf, le16_at 56 buf) of
        (Some ino, Some m, Some nl, Some u, Some g, Some sz, Some mt, Some ct, Some at, Some sl) \<Rightarrow>
          if unat sl > length buf - nodeFixedSize then Inl (ErrText ''store: node symlink len > available'')
          else Inr \<lparr>nInode = ino, nMode = m, nNlink = nl, nUID = u, nGID = g, nSize = int64_of_u64 sz,
            nMtime = int64_of_u64 mt, nCtime = int64_of_u64 ct, nAtime = int64_of_u64 at,
            nSymlinkTarget = take (unat sl) (drop nodeFixedSize buf)\<rparr>
      | _ \<Rightarrow> Inl (Panic ''index out of range''))"

definition direntValue :: "u64 \<Rightarrow> bytes" where
  "direntValue inode = be64 inode"

section \<open>Encoding\<close>

definition node_i64 :: "Node \<Rightarrow> bool" where
  "node_i64 n \<longleftrightarrow> in_i64 (nSize n) \<and> in_i64 (nMtime n) \<and> in_i64 (nCtime n) \<and> in_i64 (nAtime n)"

lemma length_encodeNode [simp]: "length (encodeNode n) = 58 + length (nSymlinkTarget n)"
  by (simp add: encodeNode_def)

lemma encodeNode_fixed:
  "\<exists>f. length f = 58 \<and> encodeNode n = f @ nSymlinkTarget n"
  by (rule exI [of _ "take 58 (encodeNode n)"]) (simp add: encodeNode_def)

lemma encodeNode_fields:
  "le64_at 0 (encodeNode n) = Some (nInode n)" "le32_at 8 (encodeNode n) = Some (nMode n)"
  "le32_at 12 (encodeNode n) = Some (nNlink n)" "le32_at 16 (encodeNode n) = Some (nUID n)"
  "le32_at 20 (encodeNode n) = Some (nGID n)" "le64_at 24 (encodeNode n) = Some (u64_of_int64 (nSize n))"
  "le64_at 32 (encodeNode n) = Some (u64_of_int64 (nMtime n))"
  "le64_at 40 (encodeNode n) = Some (u64_of_int64 (nCtime n))"
  "le64_at 48 (encodeNode n) = Some (u64_of_int64 (nAtime n))"
  "le16_at 56 (encodeNode n) = Some (word_of_nat (length (nSymlinkTarget n)))"
  by (simp_all add: encodeNode_def le64_at_def le32_at_def le16_at_def gslice_append2)

lemma encodeNode_target: "drop 58 (encodeNode n) = nSymlinkTarget n"
  by (simp add: encodeNode_def)

text \<open>The length field holds the length of the target modulo \<open>2 ^ 16\<close>.\<close>

lemma decode_encodeNode_mod:
  assumes "node_i64 n"
  shows "decodeNode (encodeNode n) =
    Inr (n\<lparr>nSymlinkTarget := take (length (nSymlinkTarget n) mod 2 ^ 16) (nSymlinkTarget n)\<rparr>)"
proof -
  have "unat (word_of_nat (length (nSymlinkTarget n)) :: u16) = length (nSymlinkTarget n) mod 2 ^ 16"
    by (simp add: unat_of_nat)
  moreover have "length (nSymlinkTarget n) mod 65536 \<le> length (nSymlinkTarget n)" by simp
  ultimately show ?thesis
    using assms by (simp add: decodeNode_def nodeFixedSize_def encodeNode_fields encodeNode_target node_i64_def
        int64_u64_id)
qed

lemma decode_encodeNode:
  "node_i64 n \<Longrightarrow> length (nSymlinkTarget n) < 2 ^ 16 \<Longrightarrow> decodeNode (encodeNode n) = Inr n"
  by (simp add: decode_encodeNode_mod)

lemma decodeNode_i64: "decodeNode buf = Inr n \<Longrightarrow> node_i64 n \<and> length (nSymlinkTarget n) < 2 ^ 16"
proof -
  assume "decodeNode buf = Inr n"
  then obtain sl :: u16 where "nSymlinkTarget n = take (unat sl) (drop nodeFixedSize buf)" "node_i64 n"
    by (auto simp: decodeNode_def node_i64_def in_i64_of_u64 split: if_splits option.splits)
  moreover have "unat sl < 2 ^ 16" using unsigned_less [of sl, where 'a = nat] by simp
  ultimately show ?thesis by simp
qed

lemma be64_at_direntValue [simp]: "be64_at 0 (direntValue i) = Some i"
  by (simp add: be64_at_def direntValue_def)

lemma length_direntValue [simp]: "length (direntValue i) = 8"
  by (simp add: direntValue_def)

lemma direntValue_inject [simp]: "direntValue a = direntValue b \<longleftrightarrow> a = b"
  by (simp add: direntValue_def)

section \<open>Properties\<close>

text \<open>
  C25: a node survives encoding and decoding when its symlink target is shorter than 64 KiB,
  and every node that decodes is such a node, so what was read can be written back.
\<close>

theorem node_roundtrip:
  "(node_i64 n \<and> length (nSymlinkTarget n) < 2 ^ 16 \<longrightarrow> decodeNode (encodeNode n) = Inr n) \<and>
   (decodeNode buf = Inr m \<longrightarrow> decodeNode (encodeNode m) = Inr m)"
  using decode_encodeNode [of n] decode_encodeNode [of m] decodeNode_i64 [of buf m] by blast

definition link_node :: Node where
  "link_node = \<lparr>nInode = 5, nMode = ModeSymlink OR 0x1FF, nNlink = 1, nUID = 0, nGID = 0, nSize = 3,
     nMtime = - 7, nCtime = 2, nAtime = 3, nSymlinkTarget = [97, 47, 98]\<rparr>"

theorem node_roundtrip_witness:
  "decodeNode (encodeNode link_node) = Inr link_node \<and> nSymlinkTarget link_node = [97, 47, 98]"
  using node_roundtrip [of link_node "encodeNode link_node" link_node]
  by (simp add: link_node_def node_i64_def in_i64_def)

text \<open>
  C26: a symlink target of 64 KiB or more is stored with a length field that has wrapped, and
  comes back cut to its length modulo 65536; the write reports nothing.
\<close>

theorem long_symlink_is_cut:
  assumes "node_i64 n" "2 ^ 16 \<le> length (nSymlinkTarget n)"
  shows "\<exists>m. decodeNode (encodeNode n) = Inr m \<and> nSymlinkTarget m \<noteq> nSymlinkTarget n \<and>
    nSymlinkTarget m = take (length (nSymlinkTarget n) mod 2 ^ 16) (nSymlinkTarget n)"
proof -
  have "length (nSymlinkTarget n) mod 2 ^ 16 < length (nSymlinkTarget n)"
    using assms(2) by (metis less_le_trans mod_less_divisor zero_less_numeral zero_less_power)
  then have "take (length (nSymlinkTarget n) mod 2 ^ 16) (nSymlinkTarget n) \<noteq> nSymlinkTarget n"
    using length_take [of "length (nSymlinkTarget n) mod 2 ^ 16" "nSymlinkTarget n"] by auto
  then show ?thesis using decode_encodeNode_mod [OF assms(1)] by simp
qed

theorem long_symlink_is_cut_witness:
  "\<exists>m. decodeNode (encodeNode (link_node\<lparr>nSymlinkTarget := replicate 65539 97\<rparr>)) = Inr m \<and>
     nSymlinkTarget m = [97, 97, 97]"
proof -
  define t :: bytes where "t = replicate 65539 97"
  have t: "length t = 65539" "take 3 t = [97, 97, 97]"
    by (simp_all add: t_def take_replicate) (simp add: numeral_3_eq_3)
  then obtain m where "decodeNode (encodeNode (link_node\<lparr>nSymlinkTarget := t\<rparr>)) = Inr m"
      "nSymlinkTarget m = take (length t mod 2 ^ 16) t"
    using long_symlink_is_cut [of "link_node\<lparr>nSymlinkTarget := t\<rparr>"]
    by (auto simp: link_node_def node_i64_def in_i64_def)
  then show ?thesis using t unfolding t_def [symmetric] by simp
qed

end
