(* ===== verification/Coalescer.thy ===== *)
theory Coalescer
  imports Node Maintenance
begin

text \<open>
  The write-back buffer of the file layer (\<open>src/store/coalescer.go\<close>).

  Every method is a definition on the pair of the index and the buffer. A flush is split at
  the point where the code drops the buffer's lock: \<open>flush_swap\<close> moves the current batch to
  \<open>flushing\<close>, \<open>flush_finish\<close> writes it through the index and settles it, and other calls may
  happen in between. A call that waits for a flush in flight (\<open>Fsync\<close>, \<open>Drop\<close>) is modelled
  with the remaining steps of that flush done at the point of the wait. The weighted semaphore
  is a package of its own and a parameter (record \<open>weighted\<close>). Channels are numbers; the list
  of the closed ones is part of the state. \<open>now\<close> is what \<open>time.Now().UnixNano()\<close> returns.
\<close>

text \<open>
  The \<open>err\<close> field of a batch is left out: the flusher sets it on a batch that is no longer
  in the buffer, and nothing reads it.
\<close>

section \<open>State\<close>

record 'sem weighted =
  w_new :: "int \<Rightarrow> 'sem"
  w_acquire :: "'sem \<Rightarrow> int \<Rightarrow> ('sem, unit) outcome"
  w_release :: "'sem \<Rightarrow> int \<Rightarrow> ('sem, unit) outcome"

record coalescerOptions =
  coPerInodeCap :: int
  coGlobalCap :: int
  coFlushInterval :: int
  coWorkers :: int
  coQueueSize :: int

definition defaultCoalescerOptions :: coalescerOptions where
  "defaultCoalescerOptions = \<lparr>coPerInodeCap = 64 * 2 ^ 20, coGlobalCap = 4 * 2 ^ 30,
     coFlushInterval = 100000000, coWorkers = 4, coQueueSize = 1024\<rparr>"

record bufExtent =
  xSeq :: u64
  xOff :: int
  xData :: bytes

record bufBatch =
  bbExtents :: "bufExtent list"
  bbBytes :: int
  bbMaxEnd :: int
  bbMtime :: int
  bbDone :: nat

record inodeBuf =
  ibInode :: u64
  ibTier :: Tier
  ibCurrent :: "bufBatch option"
  ibFlushing :: "bufBatch option"
  ibOnDiskSize :: int
  ibOnDiskMtime :: int
  ibLiveSize :: int
  ibLiveMtime :: int
  ibPoisoned :: "goerr option"

record flushReq =
  frInode :: u64
  frFired :: "nat option"

record 'sem coalescer =
  coOpts :: coalescerOptions
  coSem :: 'sem
  coBuffers :: "(u64 \<times> inodeBuf) list"
  coQueue :: "flushReq list"
  coClosing :: bool
  coNextChan :: nat
  coClosed :: "nat list"

type_synonym ('db, 'sem) buffered = "'db Index \<times> 'sem coalescer"

definition positive_or :: "int \<Rightarrow> int \<Rightarrow> int" where
  "positive_or d x = (if x \<le> 0 then d else x)"

definition newCoalescerWithOptions :: "'sem weighted \<Rightarrow> coalescerOptions \<Rightarrow> 'sem coalescer" where
  "newCoalescerWithOptions W opts0 =
     (let opts = \<lparr>coPerInodeCap = positive_or (64 * 2 ^ 20) (coPerInodeCap opts0),
            coGlobalCap = positive_or (4 * 2 ^ 30) (coGlobalCap opts0),
            coFlushInterval = positive_or 100000000 (coFlushInterval opts0),
            coWorkers = positive_or 4 (coWorkers opts0), coQueueSize = positive_or 1024 (coQueueSize opts0)\<rparr>
      in \<lparr>coOpts = opts, coSem = w_new W (coGlobalCap opts), coBuffers = [], coQueue = [],
          coClosing = False, coNextChan = 0, coClosed = []\<rparr>)"

definition newCoalescer :: "'sem weighted \<Rightarrow> 'sem coalescer" where
  "newCoalescer W = newCoalescerWithOptions W defaultCoalescerOptions"

definition co_buf :: "'sem coalescer \<Rightarrow> u64 \<Rightarrow> inodeBuf option" where
  "co_buf co inode = map_of (coBuffers co) inode"

definition put_buf :: "u64 \<Rightarrow> inodeBuf \<Rightarrow> 'sem coalescer \<Rightarrow> 'sem coalescer" where
  "put_buf inode buf co = co\<lparr>coBuffers := AList.update inode buf (coBuffers co)\<rparr>"

text \<open>Closing a channel a second time panics.\<close>

definition close_chan :: "nat \<Rightarrow> 'sem coalescer \<Rightarrow> ('sem coalescer, unit) outcome" where
  "close_chan ch co = (if ch \<in> set (coClosed co) then (co, Inl (Panic ''close of closed channel''))
     else (co\<lparr>coClosed := ch # coClosed co\<rparr>, Inr ()))"

definition close_fired :: "nat option \<Rightarrow> 'sem coalescer \<Rightarrow> ('sem coalescer, unit) outcome" where
  "close_fired f co = (case f of None \<Rightarrow> (co, Inr ()) | Some ch \<Rightarrow> close_chan ch co)"

definition sem_release :: "'sem weighted \<Rightarrow> int \<Rightarrow> 'sem coalescer \<Rightarrow> ('sem coalescer, unit) outcome" where
  "sem_release W n co = (case w_release W (coSem co) n of (sem, r) \<Rightarrow> (co\<lparr>coSem := sem\<rparr>, r))"

definition newBufBatch :: "'sem coalescer \<Rightarrow> 'sem coalescer \<times> bufBatch" where
  "newBufBatch co = (co\<lparr>coNextChan := Suc (coNextChan co)\<rparr>,
     \<lparr>bbExtents = [], bbBytes = 0, bbMaxEnd = 0, bbMtime = 0, bbDone = coNextChan co\<rparr>)"

definition getOrCreateBuf :: "'sem coalescer \<Rightarrow> u64 \<Rightarrow> Tier \<Rightarrow> 'sem coalescer \<times> inodeBuf" where
  "getOrCreateBuf co inode tier = (case co_buf co inode of
     Some buf \<Rightarrow> (co, buf)
   | None \<Rightarrow> let buf = \<lparr>ibInode = inode, ibTier = tier, ibCurrent = None, ibFlushing = None, ibOnDiskSize = 0,
         ibOnDiskMtime = 0, ibLiveSize = 0, ibLiveMtime = 0, ibPoisoned = None\<rparr>
       in (put_buf inode buf co, buf))"

section \<open>Writing\<close>

definition add_extent :: "u64 \<Rightarrow> int \<Rightarrow> bytes \<Rightarrow> bufBatch \<Rightarrow> bufBatch" where
  "add_extent sq off chunk b = (let n = int (length chunk); e = i64 (off + n)
     in b\<lparr>bbExtents := bbExtents b @ [\<lparr>xSeq = sq, xOff = off, xData = chunk\<rparr>],
          bbBytes := i64 (bbBytes b + n), bbMaxEnd := (if e > bbMaxEnd b then e else bbMaxEnd b)\<rparr>)"

definition buf_take :: "'db Index \<Rightarrow> int \<Rightarrow> bytes \<Rightarrow> int" where
  "buf_take idx curOff rem = (let se = i64 (i64 (go_div curOff (ixStripeSize idx) + 1) * ixStripeSize idx);
       n = int (length rem)
     in if i64 (curOff + n) > se then i64 (se - curOff) else n)"

function write_chunks :: "'db Index \<Rightarrow> int \<Rightarrow> bytes \<Rightarrow> bufBatch \<Rightarrow> ('db Index \<times> bufBatch, unit) outcome" where
  "write_chunks idx curOff rem b =
     (if rem = [] then ((idx, b), Inr ())
      else let n = buf_take idx curOff rem
        in if n \<le> 0 \<or> n > int (length rem) then ((idx, b), Inl (Panic ''makeslice: len out of range''))
           else case nextSeq idx of (idx1, sq) \<Rightarrow>
             write_chunks idx1 (i64 (curOff + n)) (drop (nat n) rem) (add_extent sq curOff (take (nat n) rem) b))"
  by pat_completeness auto
termination
  by (relation "measure (\<lambda>(idx, off, rem, b). length rem)") auto

declare write_chunks.simps [simp del]

text \<open>The select with a default case: a full queue drops the request.\<close>

definition try_enqueue :: "flushReq \<Rightarrow> 'sem coalescer \<Rightarrow> 'sem coalescer" where
  "try_enqueue req co = (if int (length (coQueue co)) < coQueueSize (coOpts co)
     then co\<lparr>coQueue := coQueue co @ [req]\<rparr> else co)"

definition co_Write :: "'sem weighted \<Rightarrow> ('db, 'sem) buffered \<Rightarrow> int \<Rightarrow> u64 \<Rightarrow> int \<Rightarrow> bytes \<Rightarrow> Tier
    \<Rightarrow> (('db, 'sem) buffered, unit) outcome" where
  "co_Write W st now inode off data tier = (case st of (idx, co0) \<Rightarrow>
     if coClosing co0 then (st, Inl (ErrText ''store: write to closing coalescer''))
     else if data = [] then (st, Inr ())
     else case w_acquire W (coSem co0) (int (length data)) of
         (sem, Inl e) \<Rightarrow> ((idx, co0\<lparr>coSem := sem\<rparr>), Inl e)
       | (sem, Inr _) \<Rightarrow>
           (case getOrCreateBuf (co0\<lparr>coSem := sem\<rparr>) inode tier of (co1, buf) \<Rightarrow>
            case ibPoisoned buf of
              Some e \<Rightarrow> (case sem_release W (int (length data)) co1 of
                  (co2, Inl p) \<Rightarrow> ((idx, co2), Inl p)
                | (co2, Inr _) \<Rightarrow> ((idx, co2), Inl e))
            | None \<Rightarrow>
                (case (case ibCurrent buf of Some b \<Rightarrow> (co1, b) | None \<Rightarrow> newBufBatch co1) of (co2, b) \<Rightarrow>
                 case write_chunks idx off data b of
                   ((idx1, b1), Inl p) \<Rightarrow> ((idx1, put_buf inode (buf\<lparr>ibCurrent := Some b1\<rparr>) co2), Inl p)
                 | ((idx1, b1), Inr _) \<Rightarrow>
                     (let e = i64 (off + int (length data));
                          buf1 = buf\<lparr>ibCurrent := Some (b1\<lparr>bbMtime := now\<rparr>),
                            ibLiveSize := (if e > ibLiveSize buf then e else ibLiveSize buf),
                            ibLiveMtime := now\<rparr>;
                          co3 = put_buf inode buf1 co2
                      in ((idx1, if bbBytes b1 \<ge> coPerInodeCap (coOpts co3)
                                 then try_enqueue \<lparr>frInode = inode, frFired = None\<rparr> co3 else co3), Inr ())))))"

section \<open>Reading\<close>

definition LiveAttrs :: "'sem coalescer \<Rightarrow> u64 \<Rightarrow> (int \<times> int) option" where
  "LiveAttrs co inode = map_option (\<lambda>buf. (ibLiveSize buf, ibLiveMtime buf)) (co_buf co inode)"

definition xEnd :: "bufExtent \<Rightarrow> int" where
  "xEnd x = i64 (xOff x + int (length (xData x)))"

definition opt_extents :: "bufBatch option \<Rightarrow> bufExtent list" where
  "opt_extents b = (case b of None \<Rightarrow> [] | Some b \<Rightarrow> bbExtents b)"

definition mem_fragment :: "bufExtent \<Rightarrow> Fragment" where
  "mem_fragment x = \<lparr>Seq = xSeq x, LogicalOff = xOff x, Length = int (length (xData x)), FTier = TierMem,
     SegmentID = 0, SegmentOffset = int64_of_u64 (xSeq x)\<rparr>"

definition FragmentsFor :: "'sem coalescer \<Rightarrow> u64 \<Rightarrow> int \<Rightarrow> int \<Rightarrow> Fragment list" where
  "FragmentsFor co inode off len = (if len \<le> 0 then [] else case co_buf co inode of
     None \<Rightarrow> []
   | Some buf \<Rightarrow> map mem_fragment (filter (\<lambda>x. \<not> (xEnd x \<le> off \<or> xOff x \<ge> i64 (off + len)))
       (opt_extents (ibCurrent buf) @ opt_extents (ibFlushing buf))))"

definition CopyOut :: "'sem coalescer \<Rightarrow> u64 \<Rightarrow> Locator \<Rightarrow> int \<Rightarrow> nat \<Rightarrow> goerr + bytes" where
  "CopyOut co inode loc extentBaseOff n = (case co_buf co inode of
     None \<Rightarrow> Inl (ErrText ''store: coalescer.CopyOut: no buffer for inode'')
   | Some buf \<Rightarrow>
       (case find (\<lambda>x. xSeq x = u64_of_int64 (locOffset loc))
           (opt_extents (ibCurrent buf) @ opt_extents (ibFlushing buf)) of
          None \<Rightarrow> Inl (ErrText ''store: coalescer.CopyOut: extent gone'')
        | Some x \<Rightarrow>
            (let delta = i64 (extentBaseOff - xOff x)
             in if delta < 0 \<or> i64 (delta + locLength loc) > int (length (xData x))
                then Inl (ErrText ''store: coalescer.CopyOut: bounds out of range'')
                else if locLength loc < 0 then Inl (Panic ''slice bounds out of range'')
                else Inr (take n (take (nat (locLength loc)) (drop (nat delta) (xData x)))))))"

section \<open>Flushing\<close>

text \<open>The transaction hook that bumps the size and times of the node with the fragments.\<close>

definition node_hook :: "'db pebble \<Rightarrow> u64 \<Rightarrow> int \<Rightarrow> int \<Rightarrow> string \<Rightarrow> 'db txhook" where
  "node_hook P inode end mtime msg = (\<lambda>db b.
     bindE (Batch_Get P db b (NodeKey inode)) (\<lambda>v. case v of
       None \<Rightarrow> Inl (ErrText msg)
     | Some v \<Rightarrow> bindE (decodeNode v) (\<lambda>n.
         Inr (Batch_Set (NodeKey inode) (encodeNode (n\<lparr>nSize := (if end > nSize n then end else nSize n),
           nMtime := mtime, nCtime := mtime\<rparr>)) b))))"

definition flush_swap :: "'sem coalescer \<Rightarrow> u64 \<Rightarrow> 'sem coalescer \<times> bool" where
  "flush_swap co inode = (case co_buf co inode of
     None \<Rightarrow> (co, False)
   | Some buf \<Rightarrow> (case ibCurrent buf of
       None \<Rightarrow> (co, False)
     | Some batch \<Rightarrow>
         if ibFlushing buf \<noteq> None \<or> bbBytes batch = 0 then (co, False)
         else case newBufBatch co of (co1, nb) \<Rightarrow>
           (put_buf inode (buf\<lparr>ibFlushing := Some batch, ibCurrent := Some nb\<rparr>) co1, True)))"

definition append_extent :: "Tier \<Rightarrow> bufExtent \<Rightarrow> AppendExtent" where
  "append_extent tier x = \<lparr>eSeq = xSeq x, eOff = xOff x, eData = xData x, eTier = tier\<rparr>"

definition settle :: "goerr + unit \<Rightarrow> bufBatch \<Rightarrow> inodeBuf \<Rightarrow> inodeBuf" where
  "settle r batch buf = (case r of
     Inl e \<Rightarrow> buf\<lparr>ibPoisoned := Some e, ibFlushing := None\<rparr>
   | Inr _ \<Rightarrow> buf\<lparr>ibOnDiskSize := max (bbMaxEnd batch) (ibOnDiskSize buf),
       ibOnDiskMtime := max (bbMtime batch) (ibOnDiskMtime buf), ibFlushing := None\<rparr>)"

definition flush_finish :: "'db pebble \<Rightarrow> 'sem weighted \<Rightarrow> ('db, 'sem) buffered \<Rightarrow> u64
    \<Rightarrow> (('db, 'sem) buffered, unit) outcome" where
  "flush_finish P W st inode = (case st of (idx, co) \<Rightarrow>
     case co_buf co inode of
       None \<Rightarrow> (st, Inr ())
     | Some buf \<Rightarrow> (case ibFlushing buf of
         None \<Rightarrow> (st, Inr ())
       | Some batch \<Rightarrow>
           (case AppendBatch P idx inode (map (append_extent (ibTier buf)) (bbExtents batch))
               (Some (node_hook P inode (bbMaxEnd batch) (bbMtime batch) ''store: coalescer flush: no node entry'')) of
             (idx1, r) \<Rightarrow>
               (case andThen (close_chan (bbDone batch) (put_buf inode (settle r batch buf) co))
                   (\<lambda>co1 _. sem_release W (bbBytes batch) co1) of
                 (co2, r2) \<Rightarrow> ((idx1, co2), r2)))))"

definition flushInode :: "'db pebble \<Rightarrow> 'sem weighted \<Rightarrow> ('db, 'sem) buffered \<Rightarrow> flushReq
    \<Rightarrow> (('db, 'sem) buffered, unit) outcome" where
  "flushInode P W st req = (case st of (idx, co) \<Rightarrow>
     case flush_swap co (frInode req) of (co1, swapped) \<Rightarrow>
     case close_fired (frFired req) co1 of
       (co2, Inl e) \<Rightarrow> ((idx, co2), Inl e)
     | (co2, Inr _) \<Rightarrow> if swapped then flush_finish P W (idx, co2) (frInode req) else ((idx, co2), Inr ()))"

text \<open>One turn of a worker, and one tick.\<close>

definition flusher_turn :: "'db pebble \<Rightarrow> 'sem weighted \<Rightarrow> ('db, 'sem) buffered
    \<Rightarrow> (('db, 'sem) buffered, unit) outcome" where
  "flusher_turn P W st = (case st of (idx, co) \<Rightarrow> (case coQueue co of
     [] \<Rightarrow> (st, Inr ())
   | req # q \<Rightarrow> flushInode P W (idx, co\<lparr>coQueue := q\<rparr>) req))"

definition tick_victim :: "inodeBuf \<Rightarrow> bool" where
  "tick_victim buf \<longleftrightarrow> (case ibCurrent buf of None \<Rightarrow> False | Some b \<Rightarrow> bbBytes b > 0 \<and> ibFlushing buf = None)"

definition tick :: "'sem coalescer \<Rightarrow> 'sem coalescer" where
  "tick co = foldl (\<lambda>co ino. try_enqueue \<lparr>frInode = ino, frFired = None\<rparr> co) co
     (map fst (filter (\<lambda>(ino, buf). tick_victim buf) (AList.clearjunk (coBuffers co))))"

section \<open>Fsync, truncate, drop and drain\<close>

definition co_Fsync :: "'db pebble \<Rightarrow> 'sem weighted \<Rightarrow> ('db, 'sem) buffered \<Rightarrow> u64
    \<Rightarrow> (('db, 'sem) buffered, unit) outcome" where
  "co_Fsync P W st inode = (case co_buf (snd st) inode of
     None \<Rightarrow> (st, Inr ())
   | Some buf \<Rightarrow> (case ibPoisoned buf of
       Some e \<Rightarrow> (st, Inl e)
     | None \<Rightarrow>
         (let needTrigger = (case ibCurrent buf of None \<Rightarrow> False | Some b \<Rightarrow> bbBytes b > 0)
          in andThen (flush_finish P W st inode) (\<lambda>st1 _.
             andThen (if needTrigger then flushInode P W st1 \<lparr>frInode = inode, frFired = None\<rparr> else (st1, Inr ()))
               (\<lambda>st2 _. case co_buf (snd st2) inode of
                  Some buf2 \<Rightarrow> (case ibPoisoned buf2 of Some e \<Rightarrow> (st2, Inl e) | None \<Rightarrow> (st2, Inr ()))
                | None \<Rightarrow> (st2, Inr ()))))))"

text \<open>
  The closure \<open>clip\<close> of \<open>InvalidatePastSize\<close>: it adds to the one variable \<open>freed\<close> that both
  of its calls share, and subtracts that variable from the batch.
\<close>

fun clip_extents :: "int \<Rightarrow> bufExtent list \<Rightarrow> bufExtent list \<times> int \<times> int \<Rightarrow> bufExtent list \<times> int \<times> int" where
  "clip_extents sz [] acc = acc"
| "clip_extents sz (x # xs) (kept, newMax, freed) =
     (if xOff x \<ge> sz then clip_extents sz xs (kept, newMax, i64 (freed + int (length (xData x))))
      else if xEnd x > sz
      then (let keepLen = i64 (sz - xOff x); e = i64 (xOff x + keepLen)
            in clip_extents sz xs (kept @ [x\<lparr>xData := take (nat keepLen) (xData x)\<rparr>],
                 if e > newMax then e else newMax, i64 (freed + i64 (int (length (xData x)) - keepLen))))
      else clip_extents sz xs (kept @ [x], if xEnd x > newMax then xEnd x else newMax, freed))"

definition clip_batch :: "int \<Rightarrow> bufBatch option \<Rightarrow> int \<Rightarrow> bufBatch option \<times> int" where
  "clip_batch sz batch freed = (case batch of None \<Rightarrow> (None, freed)
     | Some b \<Rightarrow> (case clip_extents sz (bbExtents b) ([], 0, freed) of (kept, newMax, freed') \<Rightarrow>
         (Some (b\<lparr>bbExtents := kept, bbBytes := i64 (bbBytes b - freed'),
            bbMaxEnd := (if bbMaxEnd b > newMax then newMax else bbMaxEnd b)\<rparr>), freed')))"

definition InvalidatePastSize :: "'sem weighted \<Rightarrow> 'sem coalescer \<Rightarrow> u64 \<Rightarrow> int \<Rightarrow> ('sem coalescer, unit) outcome" where
  "InvalidatePastSize W co inode sz = (case co_buf co inode of
     None \<Rightarrow> (co, Inr ())
   | Some buf \<Rightarrow>
       (case clip_batch sz (ibCurrent buf) 0 of (cur, freed1) \<Rightarrow>
        case clip_batch sz (ibFlushing buf) freed1 of (fl, freed) \<Rightarrow>
          (let co1 = put_buf inode (buf\<lparr>ibCurrent := cur, ibFlushing := fl,
                 ibLiveSize := (if ibLiveSize buf > sz then sz else ibLiveSize buf)\<rparr>) co
           in if freed > 0 then sem_release W freed co1 else (co1, Inr ()))))"

definition drop_buf :: "u64 \<Rightarrow> 'sem coalescer \<Rightarrow> 'sem coalescer" where
  "drop_buf inode co = co\<lparr>coBuffers := AList.delete inode (coBuffers co)\<rparr>"

definition co_Drop :: "'db pebble \<Rightarrow> 'sem weighted \<Rightarrow> ('db, 'sem) buffered \<Rightarrow> u64
    \<Rightarrow> (('db, 'sem) buffered, unit) outcome" where
  "co_Drop P W st inode = (case co_buf (snd st) inode of
     None \<Rightarrow> (st, Inr ())
   | Some _ \<Rightarrow> andThen (flush_finish P W st inode) (\<lambda>(idx, co) _.
       case co_buf co inode of
         None \<Rightarrow> ((idx, co), Inr ())
       | Some buf \<Rightarrow>
           (case ibCurrent buf of
              None \<Rightarrow> ((idx, drop_buf inode co), Inr ())
            | Some b \<Rightarrow>
                (case andThen (close_chan (bbDone b) (put_buf inode (buf\<lparr>ibCurrent := None, ibLiveSize := 0,
                       ibLiveMtime := 0\<rparr>) co))
                     (\<lambda>co1 _. if bbBytes b > 0 then sem_release W (bbBytes b) co1 else (co1, Inr ())) of
                   (co2, Inl e) \<Rightarrow> ((idx, co2), Inl e)
                 | (co2, Inr _) \<Rightarrow> ((idx, drop_buf inode co2), Inr ())))))"

fun drain_loop :: "'db pebble \<Rightarrow> 'sem weighted \<Rightarrow> u64 list \<Rightarrow> ('db, 'sem) buffered \<Rightarrow> goerr + unit
    \<Rightarrow> (('db, 'sem) buffered, unit) outcome" where
  "drain_loop P W [] st firstErr = (st, firstErr)"
| "drain_loop P W (ino # inos) st firstErr = (case co_Fsync P W st ino of
     (st1, Inl (Panic p)) \<Rightarrow> (st1, Inl (Panic p))
   | (st1, r) \<Rightarrow> drain_loop P W inos st1 (if firstErr = Inr () then r else firstErr))"

definition co_Drain :: "'db pebble \<Rightarrow> 'sem weighted \<Rightarrow> ('db, 'sem) buffered
    \<Rightarrow> (('db, 'sem) buffered, unit) outcome" where
  "co_Drain P W st = (case st of (idx, co) \<Rightarrow>
     drain_loop P W (remdups (map fst (coBuffers co))) (idx, co\<lparr>coClosing := True\<rparr>) (Inr ()))"

text \<open>Closing: the workers run the requests that are still queued, then exit.\<close>

fun flush_queue :: "'db pebble \<Rightarrow> 'sem weighted \<Rightarrow> flushReq list \<Rightarrow> ('db, 'sem) buffered
    \<Rightarrow> (('db, 'sem) buffered, unit) outcome" where
  "flush_queue P W [] st = (st, Inr ())"
| "flush_queue P W (req # q) st = andThen (flushInode P W st req) (\<lambda>st1 _. flush_queue P W q st1)"

definition co_Close :: "'db pebble \<Rightarrow> 'sem weighted \<Rightarrow> ('db, 'sem) buffered
    \<Rightarrow> (('db, 'sem) buffered, unit) outcome" where
  "co_Close P W st = (case st of (idx, co) \<Rightarrow>
     flush_queue P W (coQueue co) (idx, co\<lparr>coClosing := True, coQueue := []\<rparr>))"

end
