(* ===== verification/Store.thy ===== *)
theory Store
  imports Coalescer
begin

text \<open>
  The namespace of the file layer (\<open>src/store/store.go\<close>): directory entries and nodes in the
  database, on top of the index and the write-back buffer.

  Operations run one at a time. \<open>now\<close> is the reading of the clock; where an operation may
  read it several times, \<open>now\<close> is the sequence of its readings. Go strings are byte strings.
\<close>

unbundle bit_operations_syntax

section \<open>State and helpers\<close>

record ('db, 'sem) Store =
  stIdx :: "'db Index"
  stCo :: "'sem coalescer option"

definition st_commit :: "'db pebble \<Rightarrow> ('db, 'sem) Store \<Rightarrow> batch \<Rightarrow> (('db, 'sem) Store, unit) outcome" where
  "st_commit P st b = (case commit_batch P (stIdx st) b of (idx, r) \<Rightarrow> (st\<lparr>stIdx := idx\<rparr>, r))"

text \<open>A call on the coalescer, when there is one.\<close>

definition on_co :: "('db, 'sem) Store \<Rightarrow> (('db, 'sem) buffered \<Rightarrow> (('db, 'sem) buffered, unit) outcome)
    \<Rightarrow> (('db, 'sem) Store, unit) outcome" where
  "on_co st f = (case stCo st of None \<Rightarrow> (st, Inr ())
     | Some co \<Rightarrow> (case f (stIdx st, co) of ((idx, co1), r) \<Rightarrow> (st\<lparr>stIdx := idx, stCo := Some co1\<rparr>, r)))"

definition on_idx :: "('db, 'sem) Store \<Rightarrow> ('db Index \<Rightarrow> ('db Index, 'a) outcome) \<Rightarrow> (('db, 'sem) Store, 'a) outcome" where
  "on_idx st f = (case f (stIdx st) of (idx, r) \<Rightarrow> (st\<lparr>stIdx := idx\<rparr>, r))"

definition st_get :: "'db pebble \<Rightarrow> ('db, 'sem) Store \<Rightarrow> bytes \<Rightarrow> goerr + bytes option" where
  "st_get P st k = DB_Get P (ixDB (stIdx st)) k"

text \<open>A pure check before the state changes.\<close>

definition checked :: "'s \<Rightarrow> goerr + 'a \<Rightarrow> ('a \<Rightarrow> ('s, 'b) outcome) \<Rightarrow> ('s, 'b) outcome" where
  "checked s r k = (case r of Inl e \<Rightarrow> (s, Inl e) | Inr x \<Rightarrow> k x)"

lemma checked_simps [simp, go_flow]: "checked s (Inl e) k = (s, Inl e)" "checked s (Inr x) k = k x"
  by (simp_all add: checked_def)

lemma checked_cases:
  assumes "checked s r k = (t, z)"
  obtains (err) e where "r = Inl e" "t = s" "z = Inl e" | (ok) x where "r = Inr x" "k x = (t, z)"
  using assms by (cases r) auto

definition Store_Open :: "'db pebble \<Rightarrow> 'sem weighted \<Rightarrow> int \<Rightarrow> 'db Index \<Rightarrow> ('db Index, ('db, 'sem) Store) outcome" where
  "Store_Open P W now idx =
     checked idx (DB_Get P (ixDB idx) StoreNextInodeKey) (\<lambda>v.
       let next = (case v of Some v \<Rightarrow>
              (if length v = 8 then (case le64_at 0 v of
                   Some n \<Rightarrow> if n < RootInode + 1 then RootInode + 1 else n | None \<Rightarrow> RootInode + 1)
               else RootInode + 1) | None \<Rightarrow> RootInode + 1);
           b = Batch_Set StoreNextInodeKey (le64 next) NewBatch
       in checked idx (DB_Get P (ixDB idx) (NodeKey RootInode)) (\<lambda>rv.
          let b1 = (case rv of Some _ \<Rightarrow> b | None \<Rightarrow> Batch_Set (NodeKey RootInode) (encodeNode
                 \<lparr>nInode = RootInode, nMode = ModeDir OR 0x1ED, nNlink = 2, nUID = 0, nGID = 0, nSize = 0,
                  nMtime = now, nCtime = now, nAtime = now, nSymlinkTarget = []\<rparr>) b)
          in andThen (commit_batch P idx b1) (\<lambda>idx1 _.
               (idx1, Inr \<lparr>stIdx = idx1, stCo = Some (newCoalescer W)\<rparr>))))"

definition Store_Close :: "'db pebble \<Rightarrow> 'sem weighted \<Rightarrow> ('db, 'sem) Store \<Rightarrow> (('db, 'sem) Store, unit) outcome" where
  "Store_Close P W st =
     (case on_co st (co_Drain P W) of
        (st1, Inl (Panic p)) \<Rightarrow> (st1, Inl (Panic p))
      | (st1, _) \<Rightarrow> andThen (on_co st1 (co_Close P W)) (\<lambda>st2 _. on_idx (st2\<lparr>stCo := None\<rparr>) (Index_Close P)))"

definition allocInode :: "'db pebble \<Rightarrow> ('db, 'sem) Store \<Rightarrow> batch \<Rightarrow> goerr + u64 \<times> batch" where
  "allocInode P st b = bindE (st_get P st StoreNextInodeKey) (\<lambda>v.
     let next = (case v of Some v \<Rightarrow> (if length v = 8 then (case le64_at 0 v of Some n \<Rightarrow> n | None \<Rightarrow> RootInode + 1)
          else RootInode + 1) | None \<Rightarrow> RootInode + 1)
     in Inr (next, Batch_Set StoreNextInodeKey (le64 (next + 1)) b))"

section \<open>Reading the namespace\<close>

definition merge_live :: "(int \<times> int) option \<Rightarrow> Node \<Rightarrow> Node" where
  "merge_live live n = (case live of None \<Rightarrow> n
     | Some (sz, mt) \<Rightarrow>
         let n1 = (if sz > nSize n then n\<lparr>nSize := sz\<rparr> else n)
         in if mt > nMtime n1 then n1\<lparr>nMtime := mt, nCtime := mt\<rparr> else n1)"

definition live_of :: "('db, 'sem) Store \<Rightarrow> u64 \<Rightarrow> (int \<times> int) option" where
  "live_of st inode = (case stCo st of None \<Rightarrow> None | Some co \<Rightarrow> LiveAttrs co inode)"

definition Stat :: "'db pebble \<Rightarrow> ('db, 'sem) Store \<Rightarrow> u64 \<Rightarrow> goerr + Node" where
  "Stat P st inode = bindE (st_get P st (NodeKey inode)) (\<lambda>v. case v of
     None \<Rightarrow> Inl ENOENT
   | Some v \<Rightarrow> bindE (decodeNode v) (\<lambda>n. Inr (merge_live (live_of st inode) n)))"

definition requireDir :: "'db pebble \<Rightarrow> ('db, 'sem) Store \<Rightarrow> u64 \<Rightarrow> goerr + unit" where
  "requireDir P st inode = bindE (Stat P st inode) (\<lambda>n. if IsDir (nMode n) then Inr () else Inl ENOTDIR)"

definition readDirent :: "'db pebble \<Rightarrow> ('db, 'sem) Store \<Rightarrow> u64 \<Rightarrow> bytes \<Rightarrow> goerr + u64 option" where
  "readDirent P st parent name = bindE (st_get P st (DirentKey parent name)) (\<lambda>v. case v of
     None \<Rightarrow> Inr None
   | Some v \<Rightarrow> if length v \<noteq> 8 then Inl (ErrText ''store: dirent blob (want 8)'')
       else bindE (or_panic (be64_at 0 v)) (\<lambda>i. Inr (Some i)))"

definition validName :: "bytes \<Rightarrow> goerr + unit" where
  "validName name = (if name = [] \<or> name = [46] \<or> name = [46, 46] \<or> 47 \<in> set name \<or> 0 \<in> set name
     then Inl EINVAL else Inr ())"

definition text_err :: "string \<Rightarrow> goerr + 'a \<Rightarrow> goerr + 'a" where
  "text_err msg r = (case r of Inl _ \<Rightarrow> Inl (ErrText msg) | Inr x \<Rightarrow> Inr x)"

definition Lookup :: "'db pebble \<Rightarrow> ('db, 'sem) Store \<Rightarrow> u64 \<Rightarrow> bytes \<Rightarrow> goerr + Node" where
  "Lookup P st parent name = bindE (validName name) (\<lambda>_. bindE (readDirent P st parent name) (\<lambda>c. case c of
     None \<Rightarrow> Inl ENOENT
   | Some child \<Rightarrow> text_err ''store: dangling dirent'' (Stat P st child)))"

text \<open>
  \<open>path.Clean\<close> of a rooted path: empty elements and \<open>.\<close> vanish, \<open>..\<close> removes the element
  before it and is dropped at the root.
\<close>

fun split_slash :: "bytes \<Rightarrow> bytes \<Rightarrow> bytes list" where
  "split_slash cur [] = [cur]"
| "split_slash cur (c # cs) = (if c = 47 then cur # split_slash [] cs else split_slash (cur @ [c]) cs)"

definition clean_step :: "bytes list \<Rightarrow> bytes \<Rightarrow> bytes list" where
  "clean_step out c = (if c = [] \<or> c = [46] then out else if c = [46, 46] then butlast out else out @ [c])"

definition splitPath :: "bytes \<Rightarrow> bytes list" where
  "splitPath p = foldl clean_step [] (split_slash [] p)"

fun walk :: "'db pebble \<Rightarrow> ('db, 'sem) Store \<Rightarrow> Node \<Rightarrow> bytes list \<Rightarrow> goerr + Node" where
  "walk P st node [] = Inr node"
| "walk P st node (name # names) = (if \<not> IsDir (nMode node) then Inl ENOTDIR
     else bindE (Lookup P st (nInode node) name) (\<lambda>child. walk P st child names))"

definition LookupPath :: "'db pebble \<Rightarrow> ('db, 'sem) Store \<Rightarrow> bytes \<Rightarrow> goerr + Node" where
  "LookupPath P st p = bindE (Stat P st RootInode) (\<lambda>root. walk P st root (splitPath p))"

definition Readlink :: "'db pebble \<Rightarrow> ('db, 'sem) Store \<Rightarrow> u64 \<Rightarrow> goerr + bytes" where
  "Readlink P st inode = bindE (Stat P st inode) (\<lambda>n.
     if IsSymlink (nMode n) then Inr (nSymlinkTarget n) else Inl EINVAL)"

record DirEntry =
  deName :: bytes
  deInode :: u64
  deMode :: Mode

definition dir_entry :: "'db pebble \<Rightarrow> ('db, 'sem) Store \<Rightarrow> kvpair \<Rightarrow> DirEntry list" where
  "dir_entry P st kv = (case kv of (k, v) \<Rightarrow>
     if length v \<noteq> 8 then []
     else case (DirentNameFromKey k, be64_at 0 v) of
        (Some name, Some child) \<Rightarrow> (case Stat P st child of
           Inl e \<Rightarrow> [] | Inr cn \<Rightarrow> [\<lparr>deName = name, deInode = child, deMode = nMode cn\<rparr>])
      | _ \<Rightarrow> [])"

definition Readdir :: "'db pebble \<Rightarrow> ('db, 'sem) Store \<Rightarrow> u64 \<Rightarrow> goerr + DirEntry list" where
  "Readdir P st inode = bindE (requireDir P st inode) (\<lambda>_.
     bindE (DB_Iter P (ixDB (stIdx st)) (DirentPrefix inode) (PrefixUpperBound (DirentPrefix inode))) (\<lambda>(kvs, _).
       Inr (concat (map (dir_entry P st) kvs))))"

definition OpenInode :: "'db pebble \<Rightarrow> ('db, 'sem) Store \<Rightarrow> u64 \<Rightarrow> goerr + u64" where
  "OpenInode P st inode = bindE (Stat P st inode) (\<lambda>_. Inr inode)"

record StatfsInfo =
  sfBlockSize :: u32
  sfBlocks :: u64
  sfBlocksFree :: u64
  sfBlocksAvail :: u64

text \<open>The result of the system call is an argument.\<close>

definition Store_Statfs :: "goerr + int \<times> u64 \<times> u64 \<times> u64 \<Rightarrow> goerr + StatfsInfo" where
  "Store_Statfs res = bindE res (\<lambda>(bsize, blocks, bfree, bavail).
     Inr \<lparr>sfBlockSize = u32_of_int64 bsize, sfBlocks = blocks, sfBlocksFree = bfree, sfBlocksAvail = bavail\<rparr>)"

section \<open>Creating entries\<close>

text \<open>The name must not be taken.\<close>

definition require_free :: "'db pebble \<Rightarrow> ('db, 'sem) Store \<Rightarrow> u64 \<Rightarrow> bytes \<Rightarrow> goerr + unit" where
  "require_free P st parent name = bindE (readDirent P st parent name) (\<lambda>c.
     case c of Some _ \<Rightarrow> Inl EEXIST | None \<Rightarrow> Inr ())"

definition new_node :: "u64 \<Rightarrow> Mode \<Rightarrow> u32 \<Rightarrow> u32 \<Rightarrow> u32 \<Rightarrow> int \<Rightarrow> bytes \<Rightarrow> int \<Rightarrow> Node" where
  "new_node inode mode nlink uid gid sz target now = \<lparr>nInode = inode, nMode = mode, nNlink = nlink, nUID = uid,
     nGID = gid, nSize = sz, nMtime = now, nCtime = now, nAtime = now, nSymlinkTarget = target\<rparr>"

definition Create :: "'db pebble \<Rightarrow> ('db, 'sem) Store \<Rightarrow> int \<Rightarrow> u64 \<Rightarrow> bytes \<Rightarrow> Mode \<Rightarrow> u32 \<Rightarrow> u32
    \<Rightarrow> (('db, 'sem) Store, Node) outcome" where
  "Create P st now parent name mode uid gid =
     checked st (validName name) (\<lambda>_.
     checked st (requireDir P st parent) (\<lambda>_.
     checked st (require_free P st parent name) (\<lambda>_.
     checked st (allocInode P st NewBatch) (\<lambda>(inode, b).
       let n = new_node inode (ModeRegular OR (mode AND PermMask)) 1 uid gid 0 [] now
       in andThen (st_commit P st (Batch_Set (DirentKey parent name) (direntValue inode)
            (Batch_Set (NodeKey inode) (encodeNode n) b))) (\<lambda>st1 _. (st1, Inr n))))))"

definition Mkdir :: "'db pebble \<Rightarrow> ('db, 'sem) Store \<Rightarrow> int \<Rightarrow> u64 \<Rightarrow> bytes \<Rightarrow> Mode \<Rightarrow> u32 \<Rightarrow> u32
    \<Rightarrow> (('db, 'sem) Store, Node) outcome" where
  "Mkdir P st now parent name mode uid gid =
     checked st (validName name) (\<lambda>_.
     checked st (Stat P st parent) (\<lambda>pn.
     if \<not> IsDir (nMode pn) then (st, Inl ENOTDIR)
     else checked st (require_free P st parent name) (\<lambda>_.
     checked st (allocInode P st NewBatch) (\<lambda>(inode, b).
       let n = new_node inode (ModeDir OR (mode AND PermMask)) 2 uid gid 0 [] now
       in andThen (st_commit P st
            (Batch_Set (NodeKey parent) (encodeNode (pn\<lparr>nNlink := nNlink pn + 1, nCtime := now\<rparr>))
              (Batch_Set (DirentKey parent name) (direntValue inode)
                (Batch_Set (NodeKey inode) (encodeNode n) b)))) (\<lambda>st1 _. (st1, Inr n))))))"

definition Symlink :: "'db pebble \<Rightarrow> ('db, 'sem) Store \<Rightarrow> int \<Rightarrow> u64 \<Rightarrow> bytes \<Rightarrow> bytes \<Rightarrow> u32 \<Rightarrow> u32
    \<Rightarrow> (('db, 'sem) Store, Node) outcome" where
  "Symlink P st now parent name target uid gid =
     checked st (validName name) (\<lambda>_.
     checked st (requireDir P st parent) (\<lambda>_.
     checked st (require_free P st parent name) (\<lambda>_.
     checked st (allocInode P st NewBatch) (\<lambda>(inode, b).
       let n = new_node inode (ModeSymlink OR 0x1FF) 1 uid gid (int (length target)) target now
       in andThen (st_commit P st (Batch_Set (DirentKey parent name) (direntValue inode)
            (Batch_Set (NodeKey inode) (encodeNode n) b))) (\<lambda>st1 _. (st1, Inr n))))))"

definition Link :: "'db pebble \<Rightarrow> ('db, 'sem) Store \<Rightarrow> int \<Rightarrow> u64 \<Rightarrow> u64 \<Rightarrow> bytes \<Rightarrow> (('db, 'sem) Store, Node) outcome" where
  "Link P st now targetInode newParent newName =
     checked st (validName newName) (\<lambda>_.
     checked st (Stat P st targetInode) (\<lambda>tn.
     if IsDir (nMode tn) then (st, Inl EPERM)
     else checked st (requireDir P st newParent) (\<lambda>_.
     checked st (require_free P st newParent newName) (\<lambda>_.
       let tn1 = tn\<lparr>nNlink := nNlink tn + 1, nCtime := now\<rparr>
       in andThen (st_commit P st (Batch_Set (DirentKey newParent newName) (direntValue targetInode)
            (Batch_Set (NodeKey targetInode) (encodeNode tn1) NewBatch))) (\<lambda>st1 _. (st1, Inr tn1))))))"

section \<open>Removing entries\<close>

text \<open>The end of \<open>Unlink\<close> and \<open>Rename\<close>: the buffer and the fragments of a freed inode go.\<close>

definition free_inode :: "'db pebble \<Rightarrow> 'sem weighted \<Rightarrow> ('db, 'sem) Store \<Rightarrow> u64 \<Rightarrow> (('db, 'sem) Store, unit) outcome" where
  "free_inode P W st freeInode = (if freeInode = 0 then (st, Inr ())
     else andThen (on_co st (\<lambda>c. co_Drop P W c freeInode)) (\<lambda>st1 _.
       on_idx st1 (\<lambda>idx. DeleteInode P idx freeInode)))"

text \<open>One link less: the node goes with the last link. The second component is the inode to free.\<close>

definition drop_link :: "u64 \<Rightarrow> Node \<Rightarrow> int \<Rightarrow> batch \<Rightarrow> batch \<times> u64" where
  "drop_link child n now b = (let n1 = n\<lparr>nNlink := nNlink n - 1, nCtime := now\<rparr>
     in if nNlink n1 = 0 then (Batch_Delete (NodeKey child) b, child)
        else (Batch_Set (NodeKey child) (encodeNode n1) b, 0))"

definition Unlink :: "'db pebble \<Rightarrow> 'sem weighted \<Rightarrow> ('db, 'sem) Store \<Rightarrow> int \<Rightarrow> u64 \<Rightarrow> bytes
    \<Rightarrow> (('db, 'sem) Store, unit) outcome" where
  "Unlink P W st now parent name =
     checked st (validName name) (\<lambda>_.
     checked st (readDirent P st parent name) (\<lambda>c. case c of None \<Rightarrow> (st, Inl ENOENT) | Some child \<Rightarrow>
     checked st (text_err ''store: dangling dirent'' (Stat P st child)) (\<lambda>n.
     if IsDir (nMode n) then (st, Inl EISDIR)
     else case drop_link child n now (Batch_Delete (DirentKey parent name) NewBatch) of (b, freeInode) \<Rightarrow>
       andThen (st_commit P st b) (\<lambda>st1 _. free_inode P W st1 freeInode))))"

definition hasDirentChildren :: "'db pebble \<Rightarrow> ('db, 'sem) Store \<Rightarrow> u64 \<Rightarrow> goerr + bool" where
  "hasDirentChildren P st parent =
     bindE (DB_Iter P (ixDB (stIdx st)) (DirentPrefix parent) (PrefixUpperBound (DirentPrefix parent)))
       (\<lambda>(kvs, _). Inr (kvs \<noteq> []))"

definition Rmdir :: "'db pebble \<Rightarrow> ('db, 'sem) Store \<Rightarrow> int \<Rightarrow> u64 \<Rightarrow> bytes \<Rightarrow> (('db, 'sem) Store, unit) outcome" where
  "Rmdir P st now parent name =
     checked st (validName name) (\<lambda>_.
     checked st (readDirent P st parent name) (\<lambda>c. case c of None \<Rightarrow> (st, Inl ENOENT) | Some child \<Rightarrow>
     checked st (text_err ''store: dangling dirent'' (Stat P st child)) (\<lambda>n.
     if \<not> IsDir (nMode n) then (st, Inl ENOTDIR)
     else checked st (hasDirentChildren P st child) (\<lambda>has.
     if has then (st, Inl ENOTEMPTY)
     else checked st (Stat P st parent) (\<lambda>pn.
       st_commit P st (Batch_Set (NodeKey parent) (encodeNode (pn\<lparr>nNlink := nNlink pn - 1, nCtime := now\<rparr>))
         (Batch_Delete (NodeKey child) (Batch_Delete (DirentKey parent name) NewBatch))))))))"

section \<open>Rename\<close>

text \<open>
  \<open>findParent\<close> returns the parent of the first entry, in key order, that leads to the inode.
  \<open>isDescendant\<close> climbs at most a thousand levels.
\<close>

fun equalBytes :: "bytes \<Rightarrow> bytes \<Rightarrow> bool" where
  "equalBytes [] [] = True"
| "equalBytes (a # as) (b # bs) = (length as = length bs \<and> a = b \<and> equalBytes as bs)"
| "equalBytes _ _ = False"

lemma equalBytes_eq [simp]: "equalBytes a b \<longleftrightarrow> a = b"
  by (induction a b rule: equalBytes.induct) auto

definition findParent :: "'db pebble \<Rightarrow> ('db, 'sem) Store \<Rightarrow> u64 \<Rightarrow> goerr + u64 option" where
  "findParent P st inode = bindE (DB_Iter P (ixDB (stIdx st)) [tagDirent] (PrefixUpperBound [tagDirent])) (\<lambda>(kvs, _).
     case find (\<lambda>(k, v). equalBytes v (direntValue inode)) kvs of
       None \<Rightarrow> Inr None
     | Some (k, v) \<Rightarrow> bindE (or_panic (DirentParentFromKey k)) (\<lambda>p. Inr (Some p)))"

fun climb :: "'db pebble \<Rightarrow> ('db, 'sem) Store \<Rightarrow> u64 \<Rightarrow> nat \<Rightarrow> u64 \<Rightarrow> goerr + bool" where
  "climb P st root 0 cur = Inr False"
| "climb P st root (Suc n) cur = (if cur = RootInode then Inr False
     else bindE (findParent P st cur) (\<lambda>p. case p of
         None \<Rightarrow> Inr False
       | Some parent \<Rightarrow> if parent = root then Inr True else climb P st root n parent))"

definition isDescendant :: "'db pebble \<Rightarrow> ('db, 'sem) Store \<Rightarrow> u64 \<Rightarrow> u64 \<Rightarrow> goerr + bool" where
  "isDescendant P st candidate root = climb P st root 1000 candidate"

definition no_cycle :: "'db pebble \<Rightarrow> ('db, 'sem) Store \<Rightarrow> Node \<Rightarrow> u64 \<Rightarrow> u64 \<Rightarrow> goerr + unit" where
  "no_cycle P st srcNode newParent srcInode = (if \<not> IsDir (nMode srcNode) then Inr ()
     else if newParent = srcInode then Inl EINVAL
     else bindE (isDescendant P st newParent srcInode) (\<lambda>d. if d then Inl EINVAL else Inr ()))"

text \<open>Replacing an existing target: the batch so far and the inode to free.\<close>

definition replace_target :: "'db pebble \<Rightarrow> ('db, 'sem) Store \<Rightarrow> int \<Rightarrow> Node \<Rightarrow> u64 \<Rightarrow> u64 \<Rightarrow> goerr + batch \<times> u64" where
  "replace_target P st now srcNode newParent dstInode =
     bindE (text_err ''store: dangling dst dirent'' (Stat P st dstInode)) (\<lambda>dstNode.
     if IsDir (nMode srcNode) \<noteq> IsDir (nMode dstNode)
     then Inl (if IsDir (nMode srcNode) then ENOTDIR else EISDIR)
     else if IsDir (nMode dstNode)
     then bindE (hasDirentChildren P st dstInode) (\<lambda>has. if has then Inl ENOTEMPTY
       else bindE (Stat P st newParent) (\<lambda>np.
         Inr (Batch_Set (NodeKey newParent) (encodeNode (np\<lparr>nNlink := nNlink np - 1, nCtime := now\<rparr>))
           (Batch_Delete (NodeKey dstInode) NewBatch), 0)))
     else Inr (drop_link dstInode dstNode now NewBatch))"

text \<open>The link counts of the two parents when a directory changes its parent.\<close>

definition reparent :: "'db pebble \<Rightarrow> ('db, 'sem) Store \<Rightarrow> int \<Rightarrow> int \<Rightarrow> u64 \<Rightarrow> u64 \<Rightarrow> batch \<Rightarrow> goerr + batch" where
  "reparent P st now1 now2 oldParent newParent b =
     bindE (Stat P st oldParent) (\<lambda>op. bindE (Stat P st newParent) (\<lambda>np.
       Inr (Batch_Set (NodeKey newParent) (encodeNode (np\<lparr>nNlink := nNlink np + 1, nCtime := now2\<rparr>))
         (Batch_Set (NodeKey oldParent) (encodeNode (op\<lparr>nNlink := nNlink op - 1, nCtime := now1\<rparr>)) b))))"

definition Rename :: "'db pebble \<Rightarrow> 'sem weighted \<Rightarrow> ('db, 'sem) Store \<Rightarrow> (nat \<Rightarrow> int) \<Rightarrow> u64 \<Rightarrow> bytes \<Rightarrow> u64 \<Rightarrow> bytes
    \<Rightarrow> (('db, 'sem) Store, unit) outcome" where
  "Rename P W st now oldParent oldName newParent newName =
     checked st (validName oldName) (\<lambda>_.
     checked st (validName newName) (\<lambda>_.
     checked st (readDirent P st oldParent oldName) (\<lambda>c. case c of None \<Rightarrow> (st, Inl ENOENT) | Some srcInode \<Rightarrow>
     checked st (text_err ''store: dangling src dirent'' (Stat P st srcInode)) (\<lambda>srcNode.
     checked st (requireDir P st newParent) (\<lambda>_.
     checked st (no_cycle P st srcNode newParent srcInode) (\<lambda>_.
     checked st (readDirent P st newParent newName) (\<lambda>d.
     if d = Some srcInode then (st, Inr ())
     else checked st (case d of None \<Rightarrow> Inr (NewBatch, 0)
            | Some dstInode \<Rightarrow> replace_target P st (now 0) srcNode newParent dstInode) (\<lambda>(b, freeInode).
       let b1 = Batch_Set (DirentKey newParent newName) (direntValue srcInode)
             (Batch_Delete (DirentKey oldParent oldName) b)
       in checked st (if IsDir (nMode srcNode) \<and> oldParent \<noteq> newParent
             then reparent P st (now 1) (now 2) oldParent newParent b1 else Inr b1) (\<lambda>b2.
          andThen (st_commit P st b2) (\<lambda>st1 _. free_inode P W st1 freeInode))))))))))"

section \<open>Attributes\<close>

record SetAttr =
  saMode :: "Mode option"
  saUID :: "u32 option"
  saGID :: "u32 option"
  saSize :: "int option"
  saMtime :: "int option"
  saAtime :: "int option"

definition or_keep :: "'a option \<Rightarrow> 'a \<Rightarrow> 'a" where
  "or_keep x y = (case x of Some v \<Rightarrow> v | None \<Rightarrow> y)"

definition set_attrs :: "SetAttr \<Rightarrow> int \<Rightarrow> Node \<Rightarrow> Node" where
  "set_attrs sa now n = n\<lparr>nMode := (case saMode sa of Some m \<Rightarrow> (nMode n AND ModeMask) OR (m AND PermMask)
        | None \<Rightarrow> nMode n),
     nUID := or_keep (saUID sa) (nUID n), nGID := or_keep (saGID sa) (nGID n),
     nMtime := or_keep (saMtime sa) (nMtime n), nAtime := or_keep (saAtime sa) (nAtime n),
     nSize := or_keep (saSize sa) (nSize n), nCtime := now\<rparr>"

text \<open>The shrinking half: buffered extents first, then the fragments.\<close>

definition shrink :: "'db pebble \<Rightarrow> 'sem weighted \<Rightarrow> ('db, 'sem) Store \<Rightarrow> u64 \<Rightarrow> int \<Rightarrow> (('db, 'sem) Store, unit) outcome" where
  "shrink P W st inode sz =
     andThen (on_co st (\<lambda>(idx, co). case InvalidatePastSize W co inode sz of (co1, r) \<Rightarrow> ((idx, co1), r))) (\<lambda>st1 _.
       on_idx st1 (\<lambda>idx. Index_Truncate P idx inode sz))"

definition Setattr :: "'db pebble \<Rightarrow> 'sem weighted \<Rightarrow> ('db, 'sem) Store \<Rightarrow> int \<Rightarrow> u64 \<Rightarrow> SetAttr
    \<Rightarrow> (('db, 'sem) Store, Node) outcome" where
  "Setattr P W st now inode sa =
     andThen (case saSize sa of None \<Rightarrow> (st, Inr ())
        | Some sz \<Rightarrow> checked st (Stat P st inode) (\<lambda>cur.
            if sz < nSize cur then shrink P W st inode sz else (st, Inr ()))) (\<lambda>st1 _.
     checked st1 (Stat P st1 inode) (\<lambda>n.
       let nn = set_attrs sa now n
       in andThen (st_commit P st1 (Batch_Set (NodeKey inode) (encodeNode nn) NewBatch)) (\<lambda>st2 _. (st2, Inr nn))))"

end
