(* ===== verification/Handle.thy ===== *)
theory Handle
  imports Store
begin

text \<open>
  Open files (\<open>src/store/handle.go\<close>): reads that merge the write-back buffer with the fragments
  on disk, writes through the buffer or straight to the index, bulk sessions with their node
  update, and \<open>fsync\<close>. A handle is the inode it stands for.
\<close>

section \<open>Reading\<close>

definition buf_put :: "nat \<Rightarrow> bytes \<Rightarrow> bytes \<Rightarrow> bytes" where
  "buf_put i d p = take i p @ d @ drop (i + length d) p"

text \<open>The bytes of one planned slice.\<close>

definition read_slice :: "('db, 'sem) Store \<Rightarrow> u64 \<Rightarrow> ReadSlice \<Rightarrow> nat \<Rightarrow> (('db, 'sem) Store, bytes) outcome" where
  "read_slice st inode sl n =
     (if slSparse sl then (st, Inr (replicate n 0))
      else if locTier (slLocator sl) = TierMem
      then (st, case stCo st of
          None \<Rightarrow> Inl (Panic ''invalid memory address or nil pointer dereference'')
        | Some co \<Rightarrow> CopyOut co inode (slLocator sl) (slLogicalOff sl) n)
      else on_idx st (\<lambda>idx. Index_ReadAt idx (slLocator sl) n))"

fun read_slices :: "('db, 'sem) Store \<Rightarrow> u64 \<Rightarrow> int \<Rightarrow> ReadSlice list \<Rightarrow> bytes \<Rightarrow> (('db, 'sem) Store, bytes) outcome" where
  "read_slices st inode off [] p = (st, Inr p)"
| "read_slices st inode off (sl # sls) p =
     (let a = i64 (slLogicalOff sl - off); b = i64 (a + slLength sl)
      in if a < 0 \<or> b < a \<or> b > int (length p) then (st, Inl (Panic ''slice bounds out of range''))
         else andThen (read_slice st inode sl (nat (b - a))) (\<lambda>st1 d.
           read_slices st1 inode off sls (buf_put (nat a) d p)))"

text \<open>A read into the buffer \<open>p\<close> returns the bytes that were read.\<close>

definition ReadAt :: "'db pebble \<Rightarrow> ('db, 'sem) Store \<Rightarrow> u64 \<Rightarrow> bytes \<Rightarrow> int \<Rightarrow> (('db, 'sem) Store, bytes) outcome" where
  "ReadAt P st inode p0 off =
     (if p0 = [] then (st, Inr [])
      else checked st (Stat P st inode) (\<lambda>node.
        if off \<ge> nSize node then (st, Inr [])
        else let p = (if i64 (off + int (length p0)) > nSize node then take (nat (i64 (nSize node - off))) p0 else p0);
                 n = int (length p)
          in checked st (FragmentsInRange P (stIdx st) inode off n) (\<lambda>diskFrags.
               let memFrags = (case stCo st of None \<Rightarrow> [] | Some co \<Rightarrow> FragmentsFor co inode off n)
               in read_slices st inode off (planRead (diskFrags @ memFrags) off n) p)))"

section \<open>Writing\<close>

definition writeAtTierSync :: "'db pebble \<Rightarrow> ('db, 'sem) Store \<Rightarrow> int \<Rightarrow> u64 \<Rightarrow> bytes \<Rightarrow> int \<Rightarrow> Tier
    \<Rightarrow> (('db, 'sem) Store, int) outcome" where
  "writeAtTierSync P st now inode p off tier =
     andThen (on_idx st (\<lambda>idx. AppendToWithTx P idx inode off p tier
        (Some (node_hook P inode (i64 (off + int (length p))) now ''store: write to inode with no node entry''))))
       (\<lambda>st1 _. (st1, Inr (int (length p))))"

definition WriteAtTier :: "'db pebble \<Rightarrow> 'sem weighted \<Rightarrow> ('db, 'sem) Store \<Rightarrow> int \<Rightarrow> u64 \<Rightarrow> bytes \<Rightarrow> int \<Rightarrow> Tier
    \<Rightarrow> (('db, 'sem) Store, int) outcome" where
  "WriteAtTier P W st now inode p off tier =
     (if p = [] then (st, Inr 0)
      else if stCo st = None then writeAtTierSync P st now inode p off tier
      else andThen (on_co st (\<lambda>c. co_Write W c now inode off p tier)) (\<lambda>st1 _. (st1, Inr (int (length p)))))"

definition WriteAt :: "'db pebble \<Rightarrow> 'sem weighted \<Rightarrow> ('db, 'sem) Store \<Rightarrow> int \<Rightarrow> u64 \<Rightarrow> bytes \<Rightarrow> int
    \<Rightarrow> (('db, 'sem) Store, int) outcome" where
  "WriteAt P W st now inode p off = WriteAtTier P W st now inode p off TierHot"

section \<open>Bulk writers\<close>

record BulkWriter =
  bwInode :: u64
  bwSess :: BulkSession
  bwMaxEnd :: int

definition NewBulkWriter :: "u64 \<Rightarrow> Tier \<Rightarrow> BulkWriter" where
  "NewBulkWriter inode tier = \<lparr>bwInode = inode, bwSess = NewBulkSession inode tier, bwMaxEnd = 0\<rparr>"

definition BulkWriter_Write :: "('db, 'sem) Store \<times> BulkWriter \<Rightarrow> int \<Rightarrow> bytes
    \<Rightarrow> (('db, 'sem) Store \<times> BulkWriter, unit) outcome" where
  "BulkWriter_Write sw off payload = (case sw of (st, bw) \<Rightarrow>
     if payload = [] then (sw, Inr ())
     else let e = i64 (off + int (length payload));
              bw1 = (if e > bwMaxEnd bw then bw\<lparr>bwMaxEnd := e\<rparr> else bw)
       in case BulkSession_Write (stIdx st, bwSess bw1) off payload of
            ((idx, sess), r) \<Rightarrow> ((st\<lparr>stIdx := idx\<rparr>, bw1\<lparr>bwSess := sess\<rparr>), r))"

definition BulkWriter_Commit :: "'db pebble \<Rightarrow> ('db, 'sem) Store \<Rightarrow> int \<Rightarrow> BulkWriter \<Rightarrow> (('db, 'sem) Store, unit) outcome" where
  "BulkWriter_Commit P st now bw =
     andThen (on_idx st (\<lambda>idx. BulkSession_Commit P idx (bwSess bw))) (\<lambda>st1 _.
     checked st1 (st_get P st1 (NodeKey (bwInode bw))) (\<lambda>v. case v of
       None \<Rightarrow> (st1, Inl (ErrText ''store: bulk commit on inode with no node entry''))
     | Some v \<Rightarrow> checked st1 (decodeNode v) (\<lambda>n.
         st_commit P st1 (Batch_Set (NodeKey (bwInode bw)) (encodeNode
           (n\<lparr>nSize := (if bwMaxEnd bw > nSize n then bwMaxEnd bw else nSize n), nMtime := now, nCtime := now\<rparr>))
           NewBatch))))"

definition BulkWriter_Abort :: "BulkWriter \<Rightarrow> BulkWriter" where
  "BulkWriter_Abort bw = bw\<lparr>bwSess := BulkSession_Abort (bwSess bw)\<rparr>"

section \<open>Sync\<close>

definition Handle_Sync :: "'db pebble \<Rightarrow> 'sem weighted \<Rightarrow> ('db, 'sem) Store \<Rightarrow> u64 \<Rightarrow> (('db, 'sem) Store, unit) outcome" where
  "Handle_Sync P W st inode =
     andThen (on_co st (\<lambda>c. co_Fsync P W c inode)) (\<lambda>st1 _. on_idx st1 (Index_Sync P))"

end
