(* ===== verification/Buffer_Content.thy ===== *)
theory Buffer_Content
  imports Coalescer Index_Machine
begin

text \<open>
  What a reader of a file sees through the write-back buffer: the content on disk with the
  buffered extents laid over it in the order of their sequence numbers. \<open>buffers_ok\<close> is the
  invariant that makes this order the order of the writes.
\<close>

section \<open>Laying writes over contents\<close>

definition overlay :: "contents \<Rightarrow> u64 \<Rightarrow> (int \<times> bytes) list \<Rightarrow> contents" where
  "overlay c inode ws = foldl (\<lambda>c (off, d). written c inode off d) c ws"

definition hits_at :: "int \<Rightarrow> int \<times> bytes \<Rightarrow> bool" where
  "hits_at x w \<longleftrightarrow> fst w \<le> x \<and> x < fst w + int (length (snd w))"

lemma overlay_simps [simp]:
  "overlay c inode [] = c" "overlay c inode (ws @ ws') = overlay (overlay c inode ws) inode ws'"
  "overlay c inode [w] = written c inode (fst w) (snd w)"
  "overlay c inode (w # ws) = overlay (written c inode (fst w) (snd w)) inode ws"
  by (simp_all add: overlay_def split_def)

lemma overlay_other: "i \<noteq> inode \<Longrightarrow> overlay c inode ws i = c i"
  by (induction ws arbitrary: c) (simp_all add: written_def)

text \<open>The last write that hits a byte decides it.\<close>

lemma overlay_at:
  "overlay c inode ws inode x = (case find (hits_at x) (rev ws) of
     Some w \<Rightarrow> Some (snd w ! nat (x - fst w)) | None \<Rightarrow> c inode x)"
proof (induction ws rule: rev_induct)
  case (snoc w ws)
  then show ?case by (cases w) (simp add: hits_at_def written_def)
qed simp

text \<open>An overlay depends on the contents below it one file at a time.\<close>

lemma overlay_local: "c i = c' i \<Longrightarrow> overlay c i ws i = overlay c' i ws i"
  by (intro ext) (simp add: overlay_at split: option.splits)

lemma find_rev_last:
  assumes "sorted_wrt (<) (map k xs)" "find P (rev xs) = Some x"
  shows "x \<in> set xs" "P x" "\<And>y. y \<in> set xs \<Longrightarrow> P y \<Longrightarrow> k y \<le> (k x :: 'b::linorder)"
  using assms
proof (induction xs rule: rev_induct)
  case (snoc a xs)
  {
    case 1
    then show ?case using snoc.IH(1) by (auto simp: sorted_wrt_append split: if_splits)
  next
    case 2
    then show ?case using snoc.IH(2) by (auto simp: sorted_wrt_append split: if_splits)
  next
    case (3 y)
    then show ?case using snoc.IH(1,3) by (fastforce simp: sorted_wrt_append split: if_splits)
  }
qed simp_all

lemma find_map: "find P (map f xs) = map_option f (find (P \<circ> f) xs)"
  by (induction xs) simp_all

text \<open>Consecutive chunks of one write are that write.\<close>

lemma written_Nil [simp]: "written c i off [] = c"
  by (auto simp: fun_eq_iff written_def)

lemma written_append:
  "written (written c i off d) i (off + int (length d)) d' = written c i off (d @ d')"
proof -
  have k: "nat (x - (off + int (length d))) = nat (x - off) - length d" for x by arith
  show ?thesis by (auto simp: written_def fun_eq_iff nth_append k)
qed

section \<open>Committed extents\<close>

definition ext_write :: "AppendExtent \<Rightarrow> int \<times> bytes" where
  "ext_write e = (eOff e, eData e)"

lemma hits_ext_write: "hits_at x (ext_write e) = in_ext x e"
  by (simp add: hits_at_def ext_write_def in_ext_def)

text \<open>
  Fragments that are newer than every fragment of the file and ordered among themselves put
  their data over the content, in that order; other files and numbers play no part.
\<close>

lemma extents_written:
  assumes ok: "db_ok idx V" "0 < ixStripeSize idx" and ext: "ix_extends idx idx'" "ixSeqGen idx \<le> ixSeqGen idx'"
    and older: "\<And>f e. f \<in> live V inode \<Longrightarrow> e \<in> set es \<Longrightarrow> Seq f < eSeq e"
    and seqs: "sorted_wrt (<) (map eSeq es)" "\<And>e. e \<in> set es \<Longrightarrow> eSeq e \<le> ixSeqGen idx'"
    and ps: "list_all2 (staged idx') es ps" "list_all (\<lambda>p. frag_ok idx' (fst p) (snd p)) ps" "adds V V' inode ps"
  shows "db_ok idx' V'" "file_byte idx' V' = overlay (file_byte idx V) inode (map ext_write es)"
    "live V' i = live V i \<union> (if i = inode then snd ` set ps else {})"
proof -
  have pair: "\<exists>e \<in> set es. staged idx' e p" if "p \<in> set ps" for p
    using ps(1) that by (metis in_set_conv_nth list_all2_conv_all_nth)
  have pair': "\<exists>p \<in> set ps. staged idx' e p" if "e \<in> set es" for e
    using ps(1) that by (metis in_set_conv_nth list_all2_conv_all_nth)
  have new: "frag_ok idx' s f \<and> Seq f \<le> ixSeqGen idx' \<and> (\<forall>g \<in> live V inode. Seq g < Seq f)" if "(s, f) \<in> set ps" for s f
    using ps(2) pair [OF that] that seqs(2) older by (fastforce simp: list_all_iff staged_def)
  have ok1: "db_ok idx' V" by (rule db_ok_extends [OF ext ok(1)])
  have pos: "0 < ixStripeSize idx'" using ext ok(2) by (simp add: ix_extends_def)
  show ok': "db_ok idx' V'" by (rule adds_db_ok [OF ps(3) ok1]) (use new in auto)
  have free: "V (FragmentKey inode s (Seq f)) = None" if sf: "(s, f) \<in> set ps" for s f
  proof (rule ccontr)
    assume "V (FragmentKey inode s (Seq f)) \<noteq> None"
    then obtain g where "Seq g = Seq f" "frag_at V inode s g" using db_okD [OF ok(1)] by blast
    then show False using new [OF sf] by (auto simp: live_def)
  qed
  show lv: "live V' i = live V i \<union> (if i = inode then snd ` set ps else {})" for i
    using new free by (intro adds_live [OF ps(3)]) (auto simp: frag_ok_def)
  have at: "file_byte idx' V' i x = overlay (file_byte idx V) inode (map ext_write es) i x" for i x
  proof (cases "i = inode \<and> (\<exists>e \<in> set es. in_ext x e)")
    case True
    then have "find (in_ext x) (rev es) \<noteq> None" by (auto simp: find_None_iff)
    then obtain e where e: "find (in_ext x) (rev es) = Some e" by blast
    note last = find_rev_last [OF seqs(1) e]
    obtain s f where p: "(s, f) \<in> set ps" "staged idx' e (s, f)" using pair' [OF last(1)] by fastforce
    note lb = staged_loc_byte [OF p(2) last(2)]
    have "Seq g \<le> Seq f" if g: "g \<in> live V' i" "covers g x" for g
    proof (cases "g \<in> live V inode")
      case False
      then obtain t where "(t, g) \<in> set ps" using g(1) lv True by auto
      then obtain e' where "e' \<in> set es" "staged idx' e' (t, g)" using pair by blast
      then show ?thesis using last(3) staged_covers g(2) p(2) by (fastforce simp: staged_def)
    qed (use new [OF p(1)] in \<open>auto intro: less_imp_le\<close>)
    then have "newest V' i x f" using p(1) lv True lb by (force simp: newest_def)
    then have "file_byte idx' V' i x = Some (eData e ! nat (x - eOff e))"
      using file_byte_newest [OF ok' pos] lb by simp
    moreover have "find (hits_at x) (rev (map ext_write es)) = map_option ext_write (find (in_ext x) (rev es))"
      by (simp add: rev_map find_map comp_def hits_ext_write)
    ultimately show ?thesis using True e by (simp add: overlay_at ext_write_def)
  next
    case False
    have "\<not> covers f x" if "i = inode" "(s, f) \<in> set ps" for s f
      using pair [OF that(2)] staged_covers False that(1) by fastforce
    then have "newest V' i x = newest V i x" using lv by (auto simp: fun_eq_iff newest_def split: if_splits)
    then have "file_byte idx' V' i x = file_byte idx' V i x" by (simp add: file_byte_def)
    also have "\<dots> = file_byte idx V i x" by (rule file_byte_extends [OF ext ok])
    also have "\<dots> = overlay (file_byte idx V) inode (map ext_write es) i x"
    proof (cases "i = inode")
      case True
      then have "find (hits_at x) (rev (map ext_write es)) = None"
        using False by (auto simp: find_None_iff hits_ext_write)
      then show ?thesis using True by (simp add: overlay_at)
    qed (simp add: overlay_other)
    finally show ?thesis .
  qed
  show "file_byte idx' V' = overlay (file_byte idx V) inode (map ext_write es)" by (simp add: fun_eq_iff at)
qed

end
