(* ===== verification/Write_Back.thy ===== *)
theory Write_Back
  imports Buffer_Content
begin

text \<open>
  The write-back buffer implements the file contents: a write changes exactly its range of what
  readers see, a flush changes nothing of it, and \<open>Fsync\<close> returns success only when all of
  it is on disk.
\<close>

section \<open>The invariant of the buffer\<close>

definition buf_extents :: "inodeBuf \<Rightarrow> bufExtent list" where
  "buf_extents buf = opt_extents (ibFlushing buf) @ opt_extents (ibCurrent buf)"

definition co_extents :: "'sem coalescer \<Rightarrow> u64 \<Rightarrow> bufExtent list" where
  "co_extents co i = (case co_buf co i of None \<Rightarrow> [] | Some buf \<Rightarrow> buf_extents buf)"

definition x_write :: "bufExtent \<Rightarrow> int \<times> bytes" where
  "x_write x = (xOff x, xData x)"

definition seen :: "('db \<Rightarrow> bytes \<rightharpoonup> bytes) \<Rightarrow> ('db, 'sem) buffered \<Rightarrow> contents" where
  "seen view st = (case st of (idx, co) \<Rightarrow>
     (\<lambda>i. overlay (file_byte idx (view (ixDB idx))) i (map x_write (co_extents co i)) i))"

definition x_total :: "bufExtent list \<Rightarrow> int" where
  "x_total xs = (\<Sum>x\<leftarrow>xs. int (length (xData x)))"

definition buf_ok :: "'db Index \<Rightarrow> (bytes \<rightharpoonup> bytes) \<Rightarrow> u64 \<Rightarrow> inodeBuf \<Rightarrow> bool" where
  "buf_ok idx V i buf \<longleftrightarrow> (ibTier buf = TierHot \<or> ibTier buf = TierCold) \<and>
     sorted_wrt (<) (map xSeq (buf_extents buf)) \<and>
     (\<forall>x \<in> set (buf_extents buf). ext_ok idx (append_extent (ibTier buf) x) \<and> xSeq x \<le> ixSeqGen idx \<and>
        (\<forall>f \<in> live V i. Seq f < xSeq x)) \<and>
     (\<forall>b. ibCurrent buf = Some b \<longrightarrow> bbBytes b = x_total (bbExtents b))"

definition buffers_ok :: "('db \<Rightarrow> bytes \<rightharpoonup> bytes) \<Rightarrow> ('db, 'sem) buffered \<Rightarrow> bool" where
  "buffers_ok view st \<longleftrightarrow> (case st of (idx, co) \<Rightarrow> index_ok view idx \<and>
     (\<forall>i buf. co_buf co i = Some buf \<longrightarrow> buf_ok idx (view (ixDB idx)) i buf))"

lemma co_buf_put [simp]: "co_buf (put_buf i buf co) j = (if i = j then Some buf else co_buf co j)"
  by (simp add: co_buf_def put_buf_def update_conv')

lemma co_buf_same [simp]:
  "co_buf (co\<lparr>coSem := s\<rparr>) = co_buf co" "co_buf (co\<lparr>coNextChan := n\<rparr>) = co_buf co" "co_buf (co\<lparr>coClosed := cl\<rparr>) = co_buf co"
  "co_buf (co\<lparr>coQueue := q\<rparr>) = co_buf co" "co_buf (co\<lparr>coClosing := c\<rparr>) = co_buf co" "co_buf (try_enqueue req co) = co_buf co"
  by (simp_all add: co_buf_def fun_eq_iff try_enqueue_def)

lemma co_buf_calls:
  "close_chan ch co = (co1, r) \<Longrightarrow> co_buf co1 = co_buf co" "sem_release W n co = (co1, r) \<Longrightarrow> co_buf co1 = co_buf co"
  "close_fired f co = (co1, r) \<Longrightarrow> co_buf co1 = co_buf co"
  by (auto simp: close_chan_def sem_release_def close_fired_def split: if_splits prod.splits option.splits)

lemma co_extents_put [simp]: "co_extents (put_buf i buf co) j = (if i = j then buf_extents buf else co_extents co j)"
  by (simp add: co_extents_def)

lemma co_extents_cong: "co_buf co = co_buf co' \<Longrightarrow> co_extents co = co_extents co'"
  by (simp add: co_extents_def fun_eq_iff)

lemma seen_apply: "seen view (idx, co) i = overlay (file_byte idx (view (ixDB idx))) i (map x_write (co_extents co i)) i"
  by (simp add: seen_def)

lemma x_total_nonneg: "0 \<le> x_total xs"
  unfolding x_total_def by (rule sum_list_nonneg) auto

text \<open>A buffer stays in order when the index grows and no fragment of its file is added.\<close>

lemma buf_ok_mono:
  assumes "buf_ok idx V i buf" "ix_extends idx idx'" "ixSeqGen idx \<le> ixSeqGen idx'" "live V' i \<subseteq> live V i"
  shows "buf_ok idx' V' i buf"
  using assms by (fastforce simp: buf_ok_def ext_ok_def max_off_def ix_extends_def append_extent_def)

section \<open>Writing\<close>

lemma buf_take_eq:
  assumes "0 < ixStripeSize idx" "0 \<le> off" "rem \<noteq> []" "off + int (length rem) \<le> max_off idx"
  shows "buf_take idx off rem = chunk_len idx off rem"
proof -
  have x: "off < max_off idx" using assms(3,4) by (cases rem) auto
  have u: "uint (stripeOf idx off) = off div ixStripeSize idx" by (rule stripeOf_uint [OF assms(1,2) x])
  have "off div ixStripeSize idx \<le> off" using zdiv_mono2 [of off 1 "ixStripeSize idx"] assms(1,2) by simp
  then have "i64 (off div ixStripeSize idx + 1) = off div ixStripeSize idx + 1"
    using assms(1,2) x by (intro i64_small) (auto simp: max_off_def pos_imp_zdiv_nonneg_iff)
  then show ?thesis using assms(1,2) by (simp add: buf_take_def chunk_len_def stripeEnd_def u go_div_nonneg Let_def)
qed

definition grown :: "'db Index \<Rightarrow> u64 \<Rightarrow> Tier \<Rightarrow> int \<Rightarrow> bytes \<Rightarrow> bufExtent list \<Rightarrow> bool" where
  "grown idx g tier off rem xs \<longleftrightarrow> (\<forall>c i. overlay c i (map x_write xs) = written c i off rem) \<and>
     sorted_wrt (<) (map xSeq xs) \<and> x_total xs = int (length rem) \<and>
     (\<forall>x \<in> set xs. ext_ok idx (append_extent tier x) \<and> ixSeqGen idx < xSeq x \<and> xSeq x \<le> g)"

lemma grown_Cons:
  assumes n: "0 < n" "n \<le> length rem" and rng: "0 \<le> off" "off + int (length rem) \<le> max_off idx" and t: "tier = TierHot \<or> tier = TierCold"
    and q: "ixSeqGen idx < q" "q \<le> g" and idx1: "idx1 = idx\<lparr>ixSeqGen := q\<rparr>"
    and xs: "grown idx1 g tier (off + int n) (drop n rem) xs"
  shows "grown idx g tier off rem (\<lparr>xSeq = q, xOff = off, xData = take n rem\<rparr> # xs)"
proof -
  have len: "int (length (take n rem)) = int n" using n by simp
  have "written (written c i off (take n rem)) i (off + int n) (drop n rem) = written c i off rem" for c i
    using written_append [of c i off "take n rem" "drop n rem"] len by simp
  then show ?thesis
    using xs n rng t q idx1
    by (auto simp: grown_def x_write_def x_total_def ext_ok_def append_extent_def max_off_def len)
qed

lemma write_chunks_ok:
  assumes "0 < ixStripeSize idx" "0 \<le> off" "off + int (length rem) \<le> max_off idx" "tier = TierHot \<or> tier = TierCold"
    and "unat (ixSeqGen idx) + length rem < 2 ^ 64" "0 \<le> bbBytes b" "bbBytes b + int (length rem) < 2 ^ 63"
  shows "\<exists>xs g b'. write_chunks idx off rem b = ((idx\<lparr>ixSeqGen := g\<rparr>, b'), Inr ()) \<and>
    bbExtents b' = bbExtents b @ xs \<and> bbBytes b' = bbBytes b + int (length rem) \<and> bbDone b' = bbDone b \<and>
    ixSeqGen idx \<le> g \<and> unat g \<le> unat (ixSeqGen idx) + length rem \<and> grown idx g tier off rem xs"
  using assms
proof (induction idx off rem b rule: write_chunks.induct)
  case (1 idx off rem b)
  show ?case
  proof (cases "rem = []")
    case True
    then show ?thesis
      by (intro exI [of _ "[]"] exI [of _ "ixSeqGen idx"] exI [of _ b])
        (simp add: write_chunks.simps grown_def x_total_def)
  next
    case False
    define n where "n = buf_take idx off rem"
    have nn: "n = chunk_len idx off rem" using buf_take_eq [OF 1(2,3) False 1(4)] by (simp add: n_def)
    note c = chunk_len_eq [OF 1(2,3) False 1(4), folded nn]
    define q where "q = ixSeqGen idx + 1"
    define idx1 where "idx1 = idx\<lparr>ixSeqGen := q\<rparr>"
    define b1 where "b1 = add_extent q off (take (nat n) rem) b"
    have l: "int (length (take (nat n) rem)) = n" "1 \<le> length rem" using c False by (auto simp: Suc_leI)
    have o1: "i64 (off + n) = off + n" using c 1(3,4) by (intro i64_small) (auto simp: max_off_def)
    have g: "unat q = unat (ixSeqGen idx) + 1" "ixSeqGen idx < q"
      using u64_Suc [of "ixSeqGen idx"] 1(6) l(2) by (simp_all add: q_def)
    have b1: "bbExtents b1 = bbExtents b @ [\<lparr>xSeq = q, xOff = off, xData = take (nat n) rem\<rparr>]"
        "bbBytes b1 = bbBytes b + n" "bbDone b1 = bbDone b"
      using l(1) c 1(7,8) by (simp_all add: b1_def add_extent_def Let_def i64_small)
    have unf: "write_chunks idx off rem b = write_chunks idx1 (off + n) (drop (nat n) rem) b1"
      using False c(2,3) o1 by (subst write_chunks.simps) (simp add: n_def [symmetric] Let_def nextSeq_def idx1_def q_def b1_def)
    have nx: "(idx1, q) = nextSeq idx" by (simp add: nextSeq_def idx1_def q_def)
    have "\<exists>xs g b'. write_chunks idx1 (off + n) (drop (nat n) rem) b1 = ((idx1\<lparr>ixSeqGen := g\<rparr>, b'), Inr ()) \<and>
        bbExtents b' = bbExtents b1 @ xs \<and> bbBytes b' = bbBytes b1 + int (length (drop (nat n) rem)) \<and> bbDone b' = bbDone b1 \<and>
        ixSeqGen idx1 \<le> g \<and> unat g \<le> unat (ixSeqGen idx1) + length (drop (nat n) rem) \<and>
        grown idx1 g tier (off + n) (drop (nat n) rem) xs"
      unfolding b1_def
    proof (rule 1(1) [OF False n_def _ nx, unfolded o1])
      show "\<not> (n \<le> 0 \<or> int (length rem) < n)" using c(2,3) by linarith
      show "0 < ixStripeSize idx1" "0 \<le> off + n" "off + n + int (length (drop (nat n) rem)) \<le> max_off idx1"
        using 1(2-4) c(2,3) by (simp_all add: idx1_def max_off_def of_nat_diff)
      show "unat (ixSeqGen idx1) + length (drop (nat n) rem) < 2 ^ 64"
        using g(1) 1(6) c(2) l(2) by (auto simp: idx1_def)
      show "0 \<le> bbBytes (add_extent q off (take (nat n) rem) b)"
        "bbBytes (add_extent q off (take (nat n) rem) b) + int (length (drop (nat n) rem)) < 2 ^ 63"
        using b1(2) 1(7,8) c(2,3) by (simp_all add: b1_def of_nat_diff)
    qed (rule 1(5))
    then obtain xs k b' where k: "write_chunks idx1 (off + n) (drop (nat n) rem) b1 = ((idx1\<lparr>ixSeqGen := k\<rparr>, b'), Inr ())"
        "bbExtents b' = bbExtents b1 @ xs" "bbBytes b' = bbBytes b1 + int (length (drop (nat n) rem))" "bbDone b' = bbDone b1"
        "ixSeqGen idx1 \<le> k" "unat k \<le> unat (ixSeqGen idx1) + length (drop (nat n) rem)"
        "grown idx1 k tier (off + n) (drop (nat n) rem) xs"
      by blast
    have "grown idx k tier off rem (\<lparr>xSeq = q, xOff = off, xData = take (nat n) rem\<rparr> # xs)"
      using k(5,7) c(2,3) 1(3-5) g(2) by (intro grown_Cons [of "nat n" rem off idx tier q k idx1]) (simp_all add: idx1_def)
    moreover have "idx1\<lparr>ixSeqGen := k\<rparr> = idx\<lparr>ixSeqGen := k\<rparr>" by (simp add: idx1_def)
    ultimately show ?thesis
      using k b1 c(2,3) g l unf
      by (intro exI [of _ "\<lparr>xSeq = q, xOff = off, xData = take (nat n) rem\<rparr> # xs"] exI [of _ k] exI [of _ b'])
        (auto simp: idx1_def of_nat_diff)
  qed
qed

text \<open>States that agree on the index and on the buffers show the same and are equally in order.\<close>

lemma same_buffers:
  assumes "co_buf co = co_buf co'"
  shows "seen view (idx, co) = seen view (idx, co')" "buffers_ok view (idx, co) = buffers_ok view (idx, co')"
  using co_extents_cong [OF assms] assms by (simp_all add: seen_def buffers_ok_def)

lemma same_buffers_updates [simp]:
  "seen view (idx, co\<lparr>coSem := s\<rparr>) = seen view (idx, co)" "buffers_ok view (idx, co\<lparr>coSem := s\<rparr>) = buffers_ok view (idx, co)"
  by (rule same_buffers, simp)+

lemma getOrCreateBuf_ok:
  assumes ok: "buffers_ok view (idx, co)" and t: "tier = TierHot \<or> tier = TierCold"
    and g: "getOrCreateBuf co inode tier = (co1, buf)"
  shows "buffers_ok view (idx, co1)" "seen view (idx, co1) = seen view (idx, co)" "co_buf co1 inode = Some buf"
    "co_buf co inode = Some buf \<or> ibCurrent buf = None"
proof -
  have e: "co_extents co1 = co_extents co"
  proof (cases "co_buf co inode")
    case None
    then show ?thesis using g by (auto simp: getOrCreateBuf_def Let_def co_extents_def buf_extents_def opt_extents_def fun_eq_iff)
  qed (use g in \<open>simp add: getOrCreateBuf_def\<close>)
  then show "seen view (idx, co1) = seen view (idx, co)" by (simp add: seen_def)
  have "buffers_ok view (idx, co1) \<and> co_buf co1 inode = Some buf \<and> (co_buf co inode = Some buf \<or> ibCurrent buf = None)"
  proof (cases "co_buf co inode")
    case None
    let ?buf = "\<lparr>ibInode = inode, ibTier = tier, ibCurrent = None, ibFlushing = None, ibOnDiskSize = 0,
      ibOnDiskMtime = 0, ibLiveSize = 0, ibLiveMtime = 0, ibPoisoned = None\<rparr>"
    have c: "co1 = put_buf inode ?buf co" "buf = ?buf" using g None by (auto simp: getOrCreateBuf_def Let_def)
    have "buf_ok idx (view (ixDB idx)) inode ?buf" using t by (simp add: buf_ok_def buf_extents_def opt_extents_def)
    then show ?thesis using ok by (simp add: buffers_ok_def c)
  qed (use g ok in \<open>simp add: getOrCreateBuf_def\<close>)
  then show "buffers_ok view (idx, co1)" "co_buf co1 inode = Some buf" "co_buf co inode = Some buf \<or> ibCurrent buf = None"
    by simp_all
qed

lemma buf_ok_write:
  assumes ok: "buf_ok idx V i buf" and b: "ibCurrent buf = Some b \<or> ibCurrent buf = None \<and> bbExtents b = [] \<and> bbBytes b = 0"
    and old: "\<And>f. f \<in> live V i \<Longrightarrow> Seq f \<le> ixSeqGen idx" and g: "ixSeqGen idx \<le> g"
    and xs: "grown idx g (ibTier buf) off d xs" and b': "bbExtents b' = bbExtents b @ xs" "bbBytes b' = bbBytes b + int (length d)"
    and idx': "idx' = idx\<lparr>ixSeqGen := g\<rparr>" and buf': "ibCurrent buf' = Some b'" "ibFlushing buf' = ibFlushing buf" "ibTier buf' = ibTier buf"
  shows "buf_ok idx' V i buf'" "buf_extents buf' = buf_extents buf @ xs"
proof -
  show e: "buf_extents buf' = buf_extents buf @ xs" using b b' buf' by (auto simp: buf_extents_def opt_extents_def)
  have m: "ext_ok idx' = ext_ok idx" by (simp add: idx' ext_ok_def max_off_def fun_eq_iff)
  have lt: "xSeq x < xSeq y" if "x \<in> set (buf_extents buf)" "y \<in> set xs" for x y
    using that ok xs unfolding buf_ok_def grown_def by (meson le_less_trans)
  have "xSeq x \<le> ixSeqGen idx'" if "x \<in> set (buf_extents buf)" for x
    using that ok g by (auto simp: buf_ok_def idx')
  moreover have "ixSeqGen idx' = g" by (simp add: idx')
  moreover have "bbBytes b' = x_total (bbExtents b')"
    using ok b b' xs by (auto simp: buf_ok_def grown_def x_total_def)
  moreover have "Seq f < xSeq x" if "f \<in> live V i" "x \<in> set xs" for f x
    using that old xs unfolding grown_def by (meson le_less_trans)
  ultimately show "buf_ok idx' V i buf'"
    using ok xs buf' lt unfolding buf_ok_def e m grown_def by (auto simp: sorted_wrt_append)
qed

lemma Write_effect:
  assumes ok: "buffers_ok view (idx, co)" and rng: "0 \<le> off" "off + int (length data) \<le> max_off idx"
    and sq: "unat (ixSeqGen idx) + length data < 2 ^ 64" and t: "tier = TierHot \<or> tier = TierCold"
    and room: "\<And>buf b. co_buf co inode = Some buf \<Longrightarrow> ibCurrent buf = Some b \<Longrightarrow> bbBytes b + int (length data) < 2 ^ 63"
    and r: "co_Write W (idx, co) now inode off data tier = ((idx', co'), r)"
  shows "buffers_ok view (idx', co') \<and> ixDB idx' = ixDB idx \<and>
    seen view (idx', co') = (if r = Inr () then written (seen view (idx, co)) inode off data else seen view (idx, co))"
proof -
  have ix: "index_ok view idx" "0 < ixStripeSize idx" using ok by (auto simp: buffers_ok_def index_ok_def ix_ok_def)
  have keep: ?thesis if "idx' = idx" "co_buf co' = co_buf co" "r = Inr () \<Longrightarrow> data = []"
    using that same_buffers [OF that(2), of view idx] ok by auto
  show ?thesis
  proof (cases "coClosing co \<or> data = []")
    case True
    then show ?thesis using r by (intro keep) (auto simp: co_Write_def split: if_splits)
  next
    case go: False
    obtain sem ra where aq: "w_acquire W (coSem co) (int (length data)) = (sem, ra)" by fastforce
    show ?thesis
    proof (cases ra)
      case (Inl e)
      then show ?thesis using r go aq by (intro keep) (auto simp: co_Write_def)
    next
      case (Inr u)
      obtain co1 buf where gb: "getOrCreateBuf (co\<lparr>coSem := sem\<rparr>) inode tier = (co1, buf)" by fastforce
      have ok0: "buffers_ok view (idx, co\<lparr>coSem := sem\<rparr>)" using ok by simp
      note g = getOrCreateBuf_ok [OF ok0 t gb]
      have s1: "seen view (idx, co1) = seen view (idx, co)" using g(2) by simp
      show ?thesis
      proof (cases "ibPoisoned buf")
        case (Some e)
        obtain co2 r2 where sr: "sem_release W (int (length data)) co1 = (co2, r2)" by fastforce
        have "idx' = idx \<and> co' = co2 \<and> r \<noteq> Inr ()"
          using r go aq Inr gb Some sr by (auto simp: co_Write_def split: sum.splits)
        then show ?thesis using same_buffers [OF co_buf_calls(2) [OF sr], of view idx] g(1) s1 by simp
      next
        case None
        define nb where "nb = (case ibCurrent buf of Some b \<Rightarrow> (co1, b) | None \<Rightarrow> newBufBatch co1)"
        obtain co2 b where nb: "nb = (co2, b)" by fastforce
        have b: "ibCurrent buf = Some b \<or> ibCurrent buf = None \<and> bbExtents b = [] \<and> bbBytes b = 0" "co_buf co2 = co_buf co1"
          using nb by (auto simp: nb_def newBufBatch_def split: option.splits)
        have bo: "buf_ok idx (view (ixDB idx)) inode buf" using g(1,3) by (auto simp: buffers_ok_def)
        have "int (length data) < 2 ^ 63" using rng ix(2) by (simp add: max_off_def)
        then have bb: "0 \<le> bbBytes b" "bbBytes b + int (length data) < 2 ^ 63"
          using b(1) bo g(4) room x_total_nonneg by (auto simp: buf_ok_def)
        have tt: "ibTier buf = TierHot \<or> ibTier buf = TierCold" using bo by (simp add: buf_ok_def)
        obtain xs k b' where w: "write_chunks idx off data b = ((idx\<lparr>ixSeqGen := k\<rparr>, b'), Inr ())"
            "bbExtents b' = bbExtents b @ xs" "bbBytes b' = bbBytes b + int (length data)" "ixSeqGen idx \<le> k"
            "grown idx k (ibTier buf) off data xs"
          using write_chunks_ok [OF ix(2) rng tt sq bb] by blast
        define buf1 where "buf1 = buf\<lparr>ibCurrent := Some (b'\<lparr>bbMtime := now\<rparr>),
          ibLiveSize := (if i64 (off + int (length data)) > ibLiveSize buf then i64 (off + int (length data)) else ibLiveSize buf),
          ibLiveMtime := now\<rparr>"
        let ?V = "view (ixDB idx)"
        have res: "idx' = idx\<lparr>ixSeqGen := k\<rparr>" "co_buf co' = co_buf (put_buf inode buf1 co1)" "r = Inr ()"
          using r go aq Inr gb None nb w(1) b(2)
          by (auto simp: co_Write_def nb_def [symmetric] Let_def buf1_def fun_eq_iff co_buf_put split: if_splits)
        have old: "Seq f \<le> ixSeqGen idx" if "f \<in> live ?V i" for f i
          using that ix(1) frag_atD(2) by (auto simp: live_def index_ok_def)
        have b1: "ibCurrent buf1 = Some (b'\<lparr>bbMtime := now\<rparr>)" "ibFlushing buf1 = ibFlushing buf" "ibTier buf1 = ibTier buf"
          by (simp_all add: buf1_def)
        have new: "buf_ok idx' ?V inode buf1" "buf_extents buf1 = buf_extents buf @ xs"
          using buf_ok_write [OF bo b(1) old w(4,5) _ _ res(1) b1] w(2,3) by simp_all
        have x: "ix_extends idx idx'" "ixSeqGen idx \<le> ixSeqGen idx'" "ixDB idx' = ixDB idx" "file_byte idx' = file_byte idx"
          using w(4) by (simp_all add: res(1) ix_extends_def file_byte_def loc_byte_def fun_eq_iff)
        have "index_ok view idx'"
          using ix(1) db_ok_extends [OF x(1,2)] by (simp add: index_ok_def res(1) ix_ok_def)
        moreover have "buf_ok idx' ?V j bj" if "co_buf co' j = Some bj" for j bj
          using that new(1) g(1) buf_ok_mono [OF _ x(1,2) subset_refl] by (auto simp: res(2) buffers_ok_def split: if_splits)
        ultimately have "buffers_ok view (idx', co')" using x(3) by (simp add: buffers_ok_def)
        moreover have "seen view (idx', co') i = written (seen view (idx, co1)) inode off data i" for i
        proof -
          have e: "co_extents co' i = (if i = inode then co_extents co1 inode @ xs else co_extents co1 i)"
            using co_extents_cong [OF res(2)] new(2) g(3) by (simp add: co_extents_def)
          show ?thesis
            using w(5) by (auto simp: seen_def x e grown_def) (auto simp: written_def fun_eq_iff)
        qed
        ultimately show ?thesis using res(3) x(3) s1 by (simp add: fun_eq_iff)
      qed
    qed
  qed
qed

section \<open>Flushing\<close>

lemma flush_swap_effect:
  assumes "buffers_ok view (idx, co)" "flush_swap co inode = (co', b)"
  shows "buffers_ok view (idx, co') \<and> seen view (idx, co') = seen view (idx, co)"
proof (cases "\<exists>buf batch. co_buf co inode = Some buf \<and> ibCurrent buf = Some batch \<and> ibFlushing buf = None \<and> bbBytes batch \<noteq> 0")
  case False
  then have "co' = co" using assms(2) by (auto simp: flush_swap_def split: option.splits if_splits)
  then show ?thesis using assms(1) by simp
next
  case True
  then obtain buf batch where b: "co_buf co inode = Some buf" "ibCurrent buf = Some batch" "ibFlushing buf = None" "bbBytes batch \<noteq> 0"
    by blast
  obtain co1 nb where nb: "newBufBatch co = (co1, nb)" by fastforce
  let ?buf = "buf\<lparr>ibFlushing := Some batch, ibCurrent := Some nb\<rparr>"
  have n: "co_buf co1 = co_buf co" "bbExtents nb = []" "bbBytes nb = 0" using nb by (auto simp: newBufBatch_def)
  have c: "co' = put_buf inode ?buf co1" using assms(2) b nb by (simp add: flush_swap_def)
  have e: "buf_extents ?buf = buf_extents buf" using b n by (simp add: buf_extents_def opt_extents_def)
  have "buf_ok idx (view (ixDB idx)) inode buf" using assms(1) b(1) by (simp add: buffers_ok_def)
  then have "buf_ok idx (view (ixDB idx)) inode ?buf" using n unfolding buf_ok_def e by (simp add: x_total_def)
  moreover have "co_extents co' = co_extents co"
    using b(1) e n(1) by (auto simp: c co_extents_def fun_eq_iff)
  ultimately show ?thesis using assms(1) n(1) by (auto simp: c buffers_ok_def seen_def)
qed

lemma node_hook_ok: "hook_ok (Some (node_hook P i e mt msg))"
  by (auto simp: hook_ok_def node_hook_def bindE_ok Batch_Set_def NodeKey_def StripeAllPrefix_def tag_defs
      split: option.splits)

lemma map_ext_write: "map ext_write (map (append_extent t) xs) = map x_write xs"
  by (simp add: ext_write_def append_extent_def x_write_def)

context pebble_engine
begin

lemma AppendBatch_overlay:
  assumes ok: "index_ok view idx" and es: "list_all (ext_ok idx) es" "sorted_wrt (<) (map eSeq es)"
      "\<And>e. e \<in> set es \<Longrightarrow> eSeq e \<le> ixSeqGen idx" "\<And>f e. f \<in> live (view (ixDB idx)) inode \<Longrightarrow> e \<in> set es \<Longrightarrow> Seq f < eSeq e"
    and h: "hook_ok (Some hook)" and r: "AppendBatch P idx inode es (Some hook) = (idx', r)"
  shows "index_ok view idx' \<and> ix_extends idx idx' \<and> ixSeqGen idx' = ixSeqGen idx \<and>
    (r \<noteq> Inr () \<and> content idx' = content idx \<and> live (view (ixDB idx')) = live (view (ixDB idx)) \<or>
     content idx' = overlay (content idx) inode (map ext_write es) \<and>
     (\<forall>i. \<forall>f \<in> live (view (ixDB idx')) i. f \<in> live (view (ixDB idx)) i \<or> i = inode \<and> (\<exists>e \<in> set es. Seq f = eSeq e)))"
proof -
  let ?V = "view (ixDB idx)" and ?V' = "view (ixDB idx')"
  have ix: "ix_ok idx" "db_ok idx ?V" "0 < ixStripeSize idx" using ok by (auto simp: index_ok_def ix_ok_def)
  have same: "index_ok view idx' \<and> content idx' = content idx \<and> live ?V' = live ?V"
    if "ix_ok idx'" "ix_extends idx idx'" "ixSeqGen idx' = ixSeqGen idx" "frag_eq ?V ?V'"
    using frag_eq_unchanged [OF that(2) _ ix(2,3) that(4)] frag_eq_live [OF that(4)] that by (auto simp: index_ok_def fun_eq_iff)
  show ?thesis
  proof (cases "es = []")
    case True
    then have "run_hook P idx (Some hook) NewBatch = (idx', r)" using r by (simp add: AppendBatch_def)
    then obtain db where db: "idx' = idx\<lparr>ixDB := db\<rparr>" "frag_eq ?V (view db)"
      using run_hook_view [OF h] by (fastforce simp: NewBatch_def)
    have "ix_ok idx'" "ix_extends idx idx'" "ixSeqGen idx' = ixSeqGen idx" "frag_eq ?V ?V'"
      using ix(1) db by (simp_all add: ix_ok_def ix_extends_def)
    then show ?thesis using same True by simp
  next
    case False
    have d: "distinct (map eSeq es)" using es(2) by (simp add: strict_sorted_iff)
    note e = AppendBatch_effect [OF ix(1) False es(1) d h r]
    have x: "ix_ok idx'" "ix_extends idx idx'" "ixSeqGen idx' = ixSeqGen idx" using e by blast+
    from e consider (keep) "r \<noteq> Inr ()" "frag_eq ?V ?V'"
      | (add) ps where "list_all2 (staged idx') es ps" "list_all (\<lambda>p. frag_ok idx' (fst p) (snd p)) ps" "adds ?V ?V' inode ps"
      by blast
    then show ?thesis
    proof cases
      case keep
      then show ?thesis using same x by blast
    next
      case add
      have "ixSeqGen idx \<le> ixSeqGen idx'" "\<And>e. e \<in> set es \<Longrightarrow> eSeq e \<le> ixSeqGen idx'" using x(3) es(3) by simp_all
      note w = extents_written [OF ix(2,3) x(2) this(1) es(4,2) this(2) add]
      have "\<exists>e \<in> set es. Seq (snd p) = eSeq e" if "p \<in> set ps" for p
      proof -
        have "(Seq \<circ> snd) ` set ps = eSeq ` set es" using staged_Seqs [OF add(1)] by (metis set_map)
        then show ?thesis using that by (metis (no_types, lifting) comp_apply image_iff)
      qed
      then have "f \<in> live ?V i \<or> i = inode \<and> (\<exists>e \<in> set es. Seq f = eSeq e)" if "f \<in> live ?V' i" for f i
        using that w(3) by (auto split: if_splits)
      then show ?thesis using w(1,2) x by (simp add: index_ok_def)
    qed
  qed
qed

lemma flush_finish_effect:
  assumes ok: "buffers_ok view (idx, co)" and r: "flush_finish P W (idx, co) inode = ((idx', co'), r)"
  shows "buffers_ok view (idx', co')" "\<And>i. i \<noteq> inode \<Longrightarrow> co_buf co' i = co_buf co i \<and> seen view (idx', co') i = seen view (idx, co) i"
    "co_buf co inode = None \<Longrightarrow> idx' = idx \<and> co' = co"
    "co_buf co inode = Some buf \<Longrightarrow> \<exists>buf'. co_buf co' inode = Some buf' \<and> ibFlushing buf' = None \<and> ibCurrent buf' = ibCurrent buf \<and>
       (ibPoisoned buf' = None \<longrightarrow> ibPoisoned buf = None \<and> seen view (idx', co') = seen view (idx, co))"
proof -
  have ix: "index_ok view idx" using ok by (simp add: buffers_ok_def)
  consider (none) "idx' = idx" "co' = co" "\<forall>buf. co_buf co inode = Some buf \<longrightarrow> ibFlushing buf = None"
    | (go) buf batch r1 where "co_buf co inode = Some buf" "ibFlushing buf = Some batch"
        "AppendBatch P idx inode (map (append_extent (ibTier buf)) (bbExtents batch))
          (Some (node_hook P inode (bbMaxEnd batch) (bbMtime batch) ''store: coalescer flush: no node entry'')) = (idx', r1)"
        "co_buf co' = co_buf (put_buf inode (settle r1 batch buf) co)"
    using r by (auto simp: flush_finish_def andThen_def split: option.splits prod.splits sum.splits dest!: co_buf_calls)
  then have main: "buffers_ok view (idx', co') \<and> (\<forall>i. i \<noteq> inode \<longrightarrow> co_buf co' i = co_buf co i \<and> seen view (idx', co') i = seen view (idx, co) i) \<and>
    (co_buf co inode = None \<longrightarrow> idx' = idx \<and> co' = co) \<and>
    (\<forall>buf. co_buf co inode = Some buf \<longrightarrow> (\<exists>buf'. co_buf co' inode = Some buf' \<and> ibFlushing buf' = None \<and> ibCurrent buf' = ibCurrent buf \<and>
       (ibPoisoned buf' = None \<longrightarrow> ibPoisoned buf = None \<and> seen view (idx', co') = seen view (idx, co))))"
  proof cases
    case none
    then show ?thesis using ok by auto
  next
    case go
    let ?es = "map (append_extent (ibTier buf)) (bbExtents batch)" and ?buf = "settle r1 batch buf"
    have bo: "buf_ok idx (view (ixDB idx)) inode buf" using ok go(1) by (simp add: buffers_ok_def)
    define cur where "cur = opt_extents (ibCurrent buf)"
    have xs: "buf_extents buf = bbExtents batch @ cur" using go(2) by (simp add: buf_extents_def opt_extents_def cur_def)
    have st: "ibFlushing ?buf = None" "ibCurrent ?buf = ibCurrent buf" "ibTier ?buf = ibTier buf" "buf_extents ?buf = cur"
        "ibPoisoned ?buf = None \<longrightarrow> r1 = Inr () \<and> ibPoisoned buf = None"
      by (auto simp: settle_def buf_extents_def opt_extents_def cur_def split: sum.splits)
    have eq: "map eSeq ?es = map xSeq (bbExtents batch)" by (simp add: append_extent_def)
    have p: "list_all (ext_ok idx) ?es" "sorted_wrt (<) (map eSeq ?es)" "\<And>e. e \<in> set ?es \<Longrightarrow> eSeq e \<le> ixSeqGen idx"
        "\<And>f e. f \<in> live (view (ixDB idx)) inode \<Longrightarrow> e \<in> set ?es \<Longrightarrow> Seq f < eSeq e"
      using bo unfolding buf_ok_def xs eq by (auto simp: list_all_iff sorted_wrt_append) (auto simp: append_extent_def)
    note a = AppendBatch_overlay [OF ix p node_hook_ok go(3), unfolded map_ext_write]
    have x: "index_ok view idx'" "ix_extends idx idx'" "ixSeqGen idx' = ixSeqGen idx" using a by blast+
    have lv: "f \<in> live (view (ixDB idx)) i \<or> i = inode \<and> (\<exists>x \<in> set (bbExtents batch). Seq f = xSeq x)"
      if "f \<in> live (view (ixDB idx')) i" for f i
      using a that by (auto simp: append_extent_def)
    have "buf_ok idx (view (ixDB idx')) inode ?buf"
    proof -
      have "Seq f < xSeq y" if "f \<in> live (view (ixDB idx')) inode" "y \<in> set cur" for f y
        using lv [OF that(1)] bo that(2) unfolding buf_ok_def xs by (auto simp: sorted_wrt_append)
      then show ?thesis using bo unfolding buf_ok_def xs st by (auto simp: sorted_wrt_append st)
    qed
    then have "buf_ok idx' (view (ixDB idx')) inode ?buf" using buf_ok_mono [OF _ x(2) _ subset_refl] x(3) by simp
    moreover have "buf_ok idx' (view (ixDB idx')) i b" if "co_buf co i = Some b" "i \<noteq> inode" for i b
    proof (rule buf_ok_mono [OF _ x(2)])
      show "buf_ok idx (view (ixDB idx)) i b" using ok that(1) by (simp add: buffers_ok_def)
      show "ixSeqGen idx \<le> ixSeqGen idx'" using x(3) by simp
      show "live (view (ixDB idx')) i \<subseteq> live (view (ixDB idx)) i" using lv that(2) by blast
    qed
    ultimately have ok': "buffers_ok view (idx', co')" using x(1) go(4) by (auto simp: buffers_ok_def)
    have ex: "co_extents co' i = (if i = inode then cur else co_extents co i)" for i
      using co_extents_cong [OF go(4)] st(4) by simp
    have other: "seen view (idx', co') i = seen view (idx, co) i" if "i \<noteq> inode" for i
    proof -
      have "content idx' i = content idx i" using a that overlay_other by metis
      then show ?thesis using that overlay_local [of "content idx'" i "content idx"] by (simp add: seen_apply ex)
    qed
    have "seen view (idx', co') inode = seen view (idx, co) inode" if "r1 = Inr ()"
    proof -
      have "content idx' = overlay (content idx) inode (map x_write (bbExtents batch))" using a that by blast
      moreover have "co_extents co inode = bbExtents batch @ cur" using go(1) xs by (simp add: co_extents_def)
      ultimately show ?thesis by (simp add: seen_apply ex)
    qed
    then have all: "seen view (idx', co') = seen view (idx, co)" if "r1 = Inr ()" using other that by (metis ext)
    have b': "co_buf co' inode = Some ?buf" "\<And>i. i \<noteq> inode \<Longrightarrow> co_buf co' i = co_buf co i" using go(4) by simp_all
    have "\<exists>buf'. co_buf co' inode = Some buf' \<and> ibFlushing buf' = None \<and> ibCurrent buf' = ibCurrent buf0 \<and>
       (ibPoisoned buf' = None \<longrightarrow> ibPoisoned buf0 = None \<and> seen view (idx', co') = seen view (idx, co))"
      if "co_buf co inode = Some buf0" for buf0
      using that go(1) b'(1) st(1,2,5) all by (intro exI [of _ ?buf]) auto
    then show ?thesis using ok' other b'(2) go(1) by simp
  qed
  show "buffers_ok view (idx', co')" using main by blast
  show "co_buf co' i = co_buf co i \<and> seen view (idx', co') i = seen view (idx, co) i" if "i \<noteq> inode" for i using main that by blast
  show "idx' = idx \<and> co' = co" if "co_buf co inode = None" using main that by blast
  show "\<exists>buf'. co_buf co' inode = Some buf' \<and> ibFlushing buf' = None \<and> ibCurrent buf' = ibCurrent buf \<and>
       (ibPoisoned buf' = None \<longrightarrow> ibPoisoned buf = None \<and> seen view (idx', co') = seen view (idx, co))" if "co_buf co inode = Some buf"
    using main that by blast
qed

lemma flushInode_effect:
  assumes ok: "buffers_ok view (idx, co)" and r: "flushInode P W (idx, co) \<lparr>frInode = inode, frFired = None\<rparr> = ((idx', co'), r)"
  shows "buffers_ok view (idx', co')" "\<And>i. i \<noteq> inode \<Longrightarrow> seen view (idx', co') i = seen view (idx, co) i"
    "co_buf co inode = Some buf \<Longrightarrow> ibFlushing buf = None \<Longrightarrow> \<exists>buf'. co_buf co' inode = Some buf' \<and> ibFlushing buf' = None \<and>
       (ibPoisoned buf' = None \<longrightarrow> ibPoisoned buf = None \<and> seen view (idx', co') = seen view (idx, co)) \<and>
       ((\<exists>b. ibCurrent buf = Some b \<and> bbBytes b \<noteq> 0) \<longrightarrow> opt_extents (ibCurrent buf') = [])"
proof -
  obtain co1 sw where s: "flush_swap co inode = (co1, sw)" by fastforce
  note e1 = flush_swap_effect [OF ok s]
  have fin: "if sw then flush_finish P W (idx, co1) inode = ((idx', co'), r) else (idx', co') = (idx, co1)"
    using r s by (auto simp: flushInode_def close_fired_def split: if_splits)
  have unsw: "\<not> sw \<Longrightarrow> co1 = co" using s by (auto simp: flush_swap_def split: option.splits if_splits prod.splits)
  show "buffers_ok view (idx', co')" using fin e1 flush_finish_effect(1) by (cases sw) auto
  show "seen view (idx', co') i = seen view (idx, co) i" if "i \<noteq> inode" for i
    using fin e1 flush_finish_effect(2) [of idx co1 W inode idx' co' r i] that by (cases sw) auto
  assume b: "co_buf co inode = Some buf" "ibFlushing buf = None"
  show "\<exists>buf'. co_buf co' inode = Some buf' \<and> ibFlushing buf' = None \<and>
       (ibPoisoned buf' = None \<longrightarrow> ibPoisoned buf = None \<and> seen view (idx', co') = seen view (idx, co)) \<and>
       ((\<exists>b. ibCurrent buf = Some b \<and> bbBytes b \<noteq> 0) \<longrightarrow> opt_extents (ibCurrent buf') = [])"
  proof (cases sw)
    case False
    then show ?thesis using fin b unsw s by (auto simp: flush_swap_def split: option.splits prod.splits if_splits)
  next
    case True
    obtain buf1 where b1: "co_buf co1 inode = Some buf1" "ibPoisoned buf1 = ibPoisoned buf" "opt_extents (ibCurrent buf1) = []"
      using s b True
      by (auto simp: flush_swap_def newBufBatch_def opt_extents_def split: option.splits prod.splits if_splits)
    then show ?thesis
      using flush_finish_effect(4) [OF conjunct1 [OF e1] _ b1(1)] fin True e1 by (metis (no_types, lifting))
  qed
qed

lemma no_extents: "buf_ok idx V i buf \<Longrightarrow> ibCurrent buf = Some b \<Longrightarrow> bbBytes b = 0 \<Longrightarrow> bbExtents b = []"
proof (rule ccontr)
  assume a: "buf_ok idx V i buf" "ibCurrent buf = Some b" "bbBytes b = 0" "bbExtents b \<noteq> []"
  then obtain x xs where x: "bbExtents b = x # xs" by (cases "bbExtents b") auto
  have "x \<in> set (buf_extents buf)" using a(2) x by (simp add: buf_extents_def opt_extents_def)
  then have "xData x \<noteq> []" using a(1) by (auto simp: buf_ok_def ext_ok_def append_extent_def)
  then have "0 < int (length (xData x))" by simp
  moreover have "x_total (bbExtents b) = int (length (xData x)) + x_total xs" using x by (simp add: x_total_def)
  ultimately have "0 < x_total (bbExtents b)" using x_total_nonneg [of xs] by linarith
  then show False using a by (simp add: buf_ok_def)
qed

lemma Fsync_effect:
  assumes ok: "buffers_ok view (idx, co)" and r: "co_Fsync P W (idx, co) inode = ((idx', co'), r)"
  shows "buffers_ok view (idx', co') \<and> (\<forall>i. i \<noteq> inode \<longrightarrow> seen view (idx', co') i = seen view (idx, co) i) \<and>
    (r = Inr () \<longrightarrow> seen view (idx', co') = seen view (idx, co) \<and> co_extents co' inode = [])"
proof (cases "co_buf co inode")
  case None
  then show ?thesis using r ok by (auto simp: co_Fsync_def co_extents_def)
next
  case (Some buf)
  note b = this
  show ?thesis
  proof (cases "ibPoisoned buf")
    case (Some e)
    then show ?thesis using b r ok by (auto simp: co_Fsync_def)
  next
    case None
    define trig where "trig = (case ibCurrent buf of None \<Rightarrow> False | Some b \<Rightarrow> bbBytes b > 0)"
    obtain idx1 co1 r1 where f1: "flush_finish P W (idx, co) inode = ((idx1, co1), r1)" by (metis prod.collapse)
    note e1 = flush_finish_effect [OF ok f1]
    from e1(4) [OF b] obtain buf1 where B: "co_buf co1 inode = Some buf1 \<and> ibFlushing buf1 = None \<and> ibCurrent buf1 = ibCurrent buf \<and>
       (ibPoisoned buf1 = None \<longrightarrow> ibPoisoned buf = None \<and> seen view (idx1, co1) = seen view (idx, co))" by (rule exE)
    have b1: "co_buf co1 inode = Some buf1" "ibFlushing buf1 = None" "ibCurrent buf1 = ibCurrent buf"
        "ibPoisoned buf1 = None \<longrightarrow> seen view (idx1, co1) = seen view (idx, co)"
      using B by simp_all
    have bo1: "buf_ok idx1 (view (ixDB idx1)) inode buf1" using e1(1) b1(1) by (simp add: buffers_ok_def)
    obtain idx2 co2 r2 where f2: "(if trig then flushInode P W (idx1, co1) \<lparr>frInode = inode, frFired = None\<rparr> else ((idx1, co1), Inr ())) = ((idx2, co2), r2)"
      by (metis prod.collapse)
    have ok2: "buffers_ok view (idx2, co2)"
      using f2 e1(1) flushInode_effect(1) [OF e1(1), of W inode idx2 co2 r2] by (cases trig) simp_all
    have oth: "seen view (idx2, co2) i = seen view (idx1, co1) i" if "i \<noteq> inode" for i
      using f2 flushInode_effect(2) [OF e1(1), of W inode idx2 co2 r2 i] that by (cases trig) simp_all
    have fl: "\<exists>buf2. co_buf co2 inode = Some buf2 \<and> ibFlushing buf2 = None \<and> opt_extents (ibCurrent buf2) = [] \<and>
        (ibPoisoned buf2 = None \<longrightarrow> ibPoisoned buf1 = None \<and> seen view (idx2, co2) = seen view (idx1, co1))"
    proof (cases trig)
      case True
      then have "\<exists>b. ibCurrent buf1 = Some b \<and> bbBytes b \<noteq> 0" using b1(3) by (auto simp: trig_def split: option.splits)
      then show ?thesis using flushInode_effect(3) [OF e1(1) _ b1(1,2)] f2 True by (metis (no_types, lifting))
    next
      case False
      have "opt_extents (ibCurrent buf1) = []"
      proof (cases "ibCurrent buf1")
        case (Some b)
        then have "bbBytes b = 0" using False b1(3) bo1 x_total_nonneg [of "bbExtents b"] by (auto simp: trig_def buf_ok_def)
        then show ?thesis using no_extents [OF bo1 Some] Some by (simp add: opt_extents_def)
      qed (simp add: opt_extents_def)
      then show ?thesis using b1(1,2) f2 False by auto
    qed
    then obtain buf2 where B2: "co_buf co2 inode = Some buf2 \<and> ibFlushing buf2 = None \<and> opt_extents (ibCurrent buf2) = [] \<and>
        (ibPoisoned buf2 = None \<longrightarrow> ibPoisoned buf1 = None \<and> seen view (idx2, co2) = seen view (idx1, co1))" by (rule exE)
    have b2: "co_buf co2 inode = Some buf2" "ibFlushing buf2 = None" "opt_extents (ibCurrent buf2) = []"
        "ibPoisoned buf2 = None \<longrightarrow> ibPoisoned buf1 = None \<and> seen view (idx2, co2) = seen view (idx1, co1)"
      using B2 by simp_all
    have un: "co_Fsync P W (idx, co) inode = andThen (flush_finish P W (idx, co) inode) (\<lambda>st1 _.
        andThen (if trig then flushInode P W st1 \<lparr>frInode = inode, frFired = None\<rparr> else (st1, Inr ())) (\<lambda>st2 _.
          case co_buf (snd st2) inode of Some buf2 \<Rightarrow> (case ibPoisoned buf2 of Some e \<Rightarrow> (st2, Inl e) | None \<Rightarrow> (st2, Inr ()))
            | None \<Rightarrow> (st2, Inr ())))"
      using b None by (simp add: co_Fsync_def trig_def)
    show ?thesis
    proof (cases "r1 = Inr () \<and> r2 = Inr ()")
      case False
      then have "(idx', co') = (idx1, co1) \<and> r \<noteq> Inr () \<or> (idx', co') = (idx2, co2) \<and> r \<noteq> Inr ()"
        using r f1 f2 unfolding un by (cases r1; cases r2) auto
      then show ?thesis using e1(1,2) ok2 oth by auto
    next
      case True
      then have fin: "idx' = idx2" "co' = co2" "r = Inr () \<longrightarrow> ibPoisoned buf2 = None"
        using r f1 f2 b2(1) unfolding un by (auto split: option.splits)
      have "co_extents co2 inode = []" using b2(1-3) by (simp add: co_extents_def buf_extents_def opt_extents_def)
      then show ?thesis using fin ok2 oth e1(2) b2(4) b1(4) by auto
    qed
  qed
qed

end

section \<open>A semaphore and a buffer for the witnesses\<close>

definition counter_sem :: "int weighted" where
  "counter_sem = \<lparr>w_new = (\<lambda>n. n),
     w_acquire = (\<lambda>s n. if n \<le> s then (s - n, Inr ()) else (s, Inl (ErrText ''context canceled''))),
     w_release = (\<lambda>s n. (s + n, Inr ()))\<rparr>"

lemma fresh_buffers_ok: "buffers_ok map_of (fresh_index, newCoalescer counter_sem)"
  using fresh_index_ok by (simp add: buffers_ok_def newCoalescer_def newCoalescerWithOptions_def Let_def co_buf_def)

lemma fresh_seen: "seen map_of (fresh_index, newCoalescer counter_sem) i x = None"
  using fresh_file_byte [of i x]
  by (simp add: seen_def co_extents_def newCoalescer_def newCoalescerWithOptions_def Let_def co_buf_def)

section \<open>Properties\<close>

text \<open>
  C9: a buffered write keeps the buffer's invariant, touches no durable state and changes
  exactly the written range of what readers of the file see; when it is refused (closing,
  semaphore, poisoned buffer) nothing changes.
\<close>

theorem Write_updates_seen:
  assumes "buffers_ok view (idx, co)" "0 \<le> off" "off + int (length data) \<le> max_off idx"
    and "unat (ixSeqGen idx) + length data < 2 ^ 64" "tier = TierHot \<or> tier = TierCold"
    and "\<And>buf b. co_buf co inode = Some buf \<Longrightarrow> ibCurrent buf = Some b \<Longrightarrow> bbBytes b + int (length data) < 2 ^ 63"
    and "co_Write W (idx, co) now inode off data tier = ((idx', co'), r)"
  shows "buffers_ok view (idx', co') \<and> ixDB idx' = ixDB idx \<and>
    seen view (idx', co') = (if r = Inr () then written (seen view (idx, co)) inode off data else seen view (idx, co))"
  by (rule Write_effect [OF assms])

lemma fresh_write: "\<exists>idx' co'. co_Write counter_sem (fresh_index, newCoalescer counter_sem) 9 1 4095 [7, 8] TierHot = ((idx', co'), Inr ())"
proof -
  obtain xs g b' where w: "write_chunks fresh_index 4095 [7, 8] \<lparr>bbExtents = [], bbBytes = 0, bbMaxEnd = 0, bbMtime = 0, bbDone = 0\<rparr> =
      ((fresh_index\<lparr>ixSeqGen := g\<rparr>, b'), Inr ())"
    using write_chunks_ok [of fresh_index 4095 "[7, 8]" TierHot "\<lparr>bbExtents = [], bbBytes = 0, bbMaxEnd = 0, bbMtime = 0, bbDone = 0\<rparr>"]
    by (auto simp: max_off_def)
  then show ?thesis
    by (simp add: co_Write_def newCoalescer_def newCoalescerWithOptions_def Let_def counter_sem_def getOrCreateBuf_def co_buf_def
        newBufBatch_def put_buf_def positive_or_def defaultCoalescerOptions_def)
qed

theorem Write_updates_seen_witness:
  "\<exists>idx' co'. co_Write counter_sem (fresh_index, newCoalescer counter_sem) 9 1 4095 [7, 8] TierHot = ((idx', co'), Inr ()) \<and>
     buffers_ok map_of (idx', co') \<and> seen map_of (idx', co') 1 4096 = Some 8"
proof -
  obtain idx' co' where w: "co_Write counter_sem (fresh_index, newCoalescer counter_sem) 9 1 4095 [7, 8] TierHot = ((idx', co'), Inr ())"
    using fresh_write by blast
  have "buffers_ok map_of (idx', co') \<and> seen map_of (idx', co') = written (seen map_of (fresh_index, newCoalescer counter_sem)) 1 4095 [7, 8]"
    using Write_updates_seen [OF fresh_buffers_ok _ _ _ _ _ w]
    by (simp add: max_off_def newCoalescer_def newCoalescerWithOptions_def Let_def co_buf_def)
  then show ?thesis using w by (simp add: written_def)
qed

text \<open>
  C10: a flush does not change what readers see. Between its two steps and after them every
  file shows the same bytes, unless the append of the batch failed; then the buffer of the file
  is poisoned and all other files are unchanged.
\<close>

theorem flush_keeps_seen:
  assumes "pebble_engine P view" "buffers_ok view (idx, co)"
    and "flush_swap co inode = (co1, sw)" "flush_finish P W (idx, co1) inode = ((idx2, co2), r)"
  shows "buffers_ok view (idx, co1) \<and> seen view (idx, co1) = seen view (idx, co) \<and> buffers_ok view (idx2, co2) \<and>
    (\<forall>i. i \<noteq> inode \<longrightarrow> seen view (idx2, co2) i = seen view (idx, co) i) \<and>
    (\<forall>buf. co_buf co2 inode = Some buf \<longrightarrow> ibPoisoned buf = None \<longrightarrow> seen view (idx2, co2) = seen view (idx, co))"
proof -
  note e1 = flush_swap_effect [OF assms(2,3)]
  note e2 = pebble_engine.flush_finish_effect [OF assms(1) conjunct1 [OF e1] assms(4)]
  have "seen view (idx2, co2) = seen view (idx, co)" if b: "co_buf co2 inode = Some buf" "ibPoisoned buf = None" for buf
  proof (cases "co_buf co1 inode")
    case None
    then show ?thesis using e2(3) e1 by simp
  next
    case (Some buf1)
    then show ?thesis using e2(4) [OF Some] b e1 by auto
  qed
  then show ?thesis using e1 e2(1,2) by simp
qed

theorem flush_keeps_seen_witness:
  "\<exists>idx1 co1 co2 sw idx3 co3 r.
     co_Write counter_sem (fresh_index, newCoalescer counter_sem) 9 1 4095 [7, 8] TierHot = ((idx1, co1), Inr ()) \<and>
     flush_swap co1 1 = (co2, sw) \<and> flush_finish mem_pebble counter_sem (idx1, co2) 1 = ((idx3, co3), r) \<and>
     buffers_ok map_of (idx3, co3) \<and> seen map_of (idx1, co2) 1 4096 = Some 8"
proof -
  obtain idx1 co1 where w: "co_Write counter_sem (fresh_index, newCoalescer counter_sem) 9 1 4095 [7, 8] TierHot = ((idx1, co1), Inr ())"
    using fresh_write by blast
  have e: "buffers_ok map_of (idx1, co1) \<and> seen map_of (idx1, co1) = written (seen map_of (fresh_index, newCoalescer counter_sem)) 1 4095 [7, 8]"
    using Write_effect [OF fresh_buffers_ok _ _ _ _ _ w]
    by (simp add: max_off_def newCoalescer_def newCoalescerWithOptions_def Let_def co_buf_def)
  obtain co2 sw where s: "flush_swap co1 1 = (co2, sw)" by fastforce
  obtain idx3 co3 r where f: "flush_finish mem_pebble counter_sem (idx1, co2) 1 = ((idx3, co3), r)" by (metis prod.collapse)
  have "buffers_ok map_of (idx3, co3)" "seen map_of (idx1, co2) = seen map_of (idx1, co1)"
    using flush_keeps_seen [OF mem.pebble_engine_axioms conjunct1 [OF e] s f] by simp_all
  then have "buffers_ok map_of (idx3, co3)" "seen map_of (idx1, co2) 1 4096 = Some 8" using e by (simp_all add: written_def)
  then show ?thesis using w s f by blast
qed



end
