(* ===== verification/Read_Through.thy ===== *)
theory Read_Through
  imports Handle Write_Back
begin

text \<open>
  Reads of an open file: the plan over the fragments on disk and the extents in the buffer
  shows what readers are meant to see. A read that succeeds returns those bytes. A slice that
  starts inside a buffered extent cannot be copied out: the plan moves the locator's offset by
  the distance into the extent, while the buffer takes that offset for the extent's number.
\<close>

section \<open>The newest fragment of a byte\<close>

lemma hits_x_write: "hits_at y (x_write x) \<longleftrightarrow> covers (mem_fragment x) y"
  by (simp add: hits_at_def x_write_def mem_fragment_def covers_def)

lemma seen_at:
  "seen view (idx, co) i y = (case find (\<lambda>x. covers (mem_fragment x) y) (rev (co_extents co i)) of
     Some x \<Rightarrow> Some (xData x ! nat (y - xOff x)) | None \<Rightarrow> file_byte idx (view (ixDB idx)) i y)"
proof -
  have "find (hits_at y) (rev (map x_write xs)) = map_option x_write (find (\<lambda>x. covers (mem_fragment x) y) (rev xs))" for xs
    by (simp add: rev_map find_map comp_def hits_x_write)
  then show ?thesis by (simp add: seen_apply overlay_at x_write_def split: option.splits)
qed

definition readable :: "'db Index \<Rightarrow> 'sem coalescer \<Rightarrow> u64 \<Rightarrow> bool" where
  "readable idx co i \<longleftrightarrow> (\<forall>x \<in> set (co_extents co i). uint (ixSeqGen idx) + int (length (xData x)) < 2 ^ 63)"

lemma buffered_extent:
  assumes ok: "buffers_ok view (idx, co)" and x: "x \<in> set (co_extents co i)"
  shows "0 \<le> xOff x" "xData x \<noteq> []" "xOff x + int (length (xData x)) \<le> max_off idx" "xSeq x \<le> ixSeqGen idx"
    "\<And>f. f \<in> live (view (ixDB idx)) i \<Longrightarrow> Seq f < xSeq x" "sorted_wrt (<) (map xSeq (co_extents co i))"
proof -
  obtain buf where b: "co_buf co i = Some buf" "co_extents co i = buf_extents buf"
    using x by (cases "co_buf co i") (simp_all add: co_extents_def)
  then have "buf_ok idx (view (ixDB idx)) i buf" using ok by (simp add: buffers_ok_def)
  then show "0 \<le> xOff x" "xData x \<noteq> []" "xOff x + int (length (xData x)) \<le> max_off idx" "xSeq x \<le> ixSeqGen idx"
    "\<And>f. f \<in> live (view (ixDB idx)) i \<Longrightarrow> Seq f < xSeq x" "sorted_wrt (<) (map xSeq (co_extents co i))"
    using x b(2) by (auto simp: buf_ok_def ext_ok_def append_extent_def)
qed

lemma max_off_small: "0 < ixStripeSize idx \<Longrightarrow> x \<le> max_off idx \<Longrightarrow> x < 2 ^ 63"
  by (simp add: max_off_def)

lemma mem_fragment_wf:
  assumes ok: "buffers_ok view (idx, co)" "readable idx co i" and x: "x \<in> set (co_extents co i)"
  shows "wf_frag (mem_fragment x)" "SegmentOffset (mem_fragment x) = uint (xSeq x)"
proof -
  note e = buffered_extent [OF ok(1) x]
  have ss: "0 < ixStripeSize idx" using ok(1) by (simp add: buffers_ok_def index_ok_def ix_ok_def)
  have "uint (xSeq x) \<le> uint (ixSeqGen idx)" using e(4) by (simp add: word_le_def)
  moreover have "uint (ixSeqGen idx) + int (length (xData x)) < 2 ^ 63" using ok(2) x by (simp add: readable_def)
  ultimately have s: "uint (xSeq x) + int (length (xData x)) < 2 ^ 63" by linarith
  then have "i64 (uint (xSeq x)) = uint (xSeq x)" by (intro i64_small) auto
  then show so: "SegmentOffset (mem_fragment x) = uint (xSeq x)" by (simp add: mem_fragment_def int64_of_u64_def i64_def)
  show "wf_frag (mem_fragment x)"
    using so s e(1-3) max_off_small [OF ss e(3)] by (simp add: wf_frag_def) (simp add: mem_fragment_def)
qed

text \<open>The fragments of a range: those on disk and, as fragments of the memory tier, the buffered extents.\<close>

definition read_range :: "('db \<Rightarrow> bytes \<rightharpoonup> bytes) \<Rightarrow> 'db Index \<Rightarrow> 'sem coalescer \<Rightarrow> u64 \<Rightarrow> int \<Rightarrow> int \<Rightarrow> Fragment list \<Rightarrow> bool" where
  "read_range view idx co inode off n disk \<longleftrightarrow> buffers_ok view (idx, co) \<and> readable idx co inode \<and>
     0 \<le> off \<and> 0 < n \<and> off + n \<le> max_off idx \<and>
     set disk = {f. \<exists>s. frag_at (view (ixDB idx)) inode s f \<and> stripeOf idx off \<le> s \<and> s \<le> stripeOf idx (off + n - 1)}"

lemma read_rangeD:
  assumes "read_range view idx co inode off n disk"
  shows "buffers_ok view (idx, co)" "readable idx co inode" "0 \<le> off" "0 < n" "off + n \<le> max_off idx"
    "set disk = {f. \<exists>s. frag_at (view (ixDB idx)) inode s f \<and> stripeOf idx off \<le> s \<and> s \<le> stripeOf idx (off + n - 1)}"
    "db_ok idx (view (ixDB idx))" "0 < ixStripeSize idx" "off + n < 2 ^ 63"
  using assms max_off_small [of idx "off + n"] by (auto simp: read_range_def buffers_ok_def index_ok_def ix_ok_def)

lemma mem_set:
  assumes rr: "read_range view idx co inode off n disk"
  shows "set (FragmentsFor co inode off n) =
     mem_fragment ` {x \<in> set (co_extents co inode). xOff x < off + n \<and> off < xOff x + int (length (xData x))}"
proof (cases "co_buf co inode")
  case (Some buf)
  note D = read_rangeD [OF rr]
  have "xEnd x = xOff x + int (length (xData x))" if "x \<in> set (co_extents co inode)" for x
    using buffered_extent [OF D(1) that] max_off_small [OF D(8)] by (simp add: xEnd_def i64_small)
  moreover have "set (opt_extents (ibCurrent buf) @ opt_extents (ibFlushing buf)) = set (co_extents co inode)"
    using Some by (auto simp: co_extents_def buf_extents_def)
  ultimately show ?thesis using Some D(3-5) D(9) by (force simp: FragmentsFor_def i64_small not_le)
qed (simp add: FragmentsFor_def co_extents_def)

lemma disk_fragment:
  assumes rr: "read_range view idx co inode off n disk"
    and "f \<in> set disk"
  shows "f \<in> live (view (ixDB idx)) inode" "wf_frag f" "FTier f = TierHot \<or> FTier f = TierCold"
  using assms frag_atD [OF read_rangeD(7) [OF rr]] by (auto simp: read_rangeD(6) [OF rr] live_def frag_ok_def)

lemma frags_wf:
  assumes rr: "read_range view idx co inode off n disk"
  shows "list_all wf_frag (disk @ FragmentsFor co inode off n)"
  using disk_fragment(2) [OF rr] mem_fragment_wf(1) [OF read_rangeD(1,2) [OF rr]] by (auto simp: list_all_iff mem_set [OF rr])

lemma mem_newer:
  assumes rr: "read_range view idx co inode off n disk"
    and "f \<in> set disk" "x \<in> set (co_extents co inode)"
  shows "Seq f < Seq (mem_fragment x)"
  using buffered_extent(5) [OF read_rangeD(1) [OF rr] assms(3)] disk_fragment(1) [OF rr assms(2)] by (simp add: mem_fragment_def)

lemma in_mem:
  assumes rr: "read_range view idx co inode off n disk"
    and "x \<in> set (co_extents co inode)" "covers (mem_fragment x) y" "off \<le> y" "y < off + n"
  shows "mem_fragment x \<in> set (FragmentsFor co inode off n)"
  using assms by (auto simp: mem_set [OF rr] covers_def mem_fragment_def)

lemma seen_memory:
  assumes rr: "read_range view idx co inode off n disk"
    and nw: "is_newest (disk @ FragmentsFor co inode off n) y (mem_fragment x)" and x: "x \<in> set (co_extents co inode)"
    and y: "off \<le> y" "y < off + n"
  shows "seen view (idx, co) inode y = Some (xData x ! nat (y - xOff x))"
proof -
  note D = read_rangeD [OF rr]
  have c: "covers (mem_fragment x) y" using nw by (simp add: is_newest_def)
  then have "find (\<lambda>x. covers (mem_fragment x) y) (rev (co_extents co inode)) \<noteq> None" using x by (auto simp: find_None_iff)
  then obtain z where z: "find (\<lambda>x. covers (mem_fragment x) y) (rev (co_extents co inode)) = Some z" by blast
  note so = buffered_extent(6) [OF D(1) x]
  note l = find_rev_last [OF so z]
  have "xSeq z \<le> xSeq x" using nw in_mem [OF rr l(1,2) y] l(2) by (auto simp: is_newest_def mem_fragment_def)
  then have "xSeq z = xSeq x" using l(3) [OF x c] by simp
  then have "z = x" using so l(1) x by (metis distinct_map inj_on_def strict_sorted_iff)
  then show ?thesis using z by (simp add: seen_at)
qed

lemma no_memory:
  assumes "\<And>x. x \<in> set (co_extents co inode) \<Longrightarrow> \<not> covers (mem_fragment x) y"
  shows "seen view (idx, co) inode y = file_byte idx (view (ixDB idx)) inode y"
proof -
  have "find (\<lambda>x. covers (mem_fragment x) y) (rev (co_extents co inode)) = None" using assms by (auto simp: find_None_iff)
  then show ?thesis by (simp add: seen_at)
qed

lemma seen_disk:
  assumes rr: "read_range view idx co inode off n disk"
    and nw: "is_newest (disk @ FragmentsFor co inode off n) y f" and f: "f \<in> set disk" and y: "off \<le> y" "y < off + n"
  shows "newest (view (ixDB idx)) inode y f" "seen view (idx, co) inode y = loc_byte idx f y"
proof -
  note D = read_rangeD [OF rr]
  have nd: "is_newest disk y f" using nw f by (auto simp: is_newest_def)
  then show nv: "newest (view (ixDB idx)) inode y f"
    using is_newest_newest(1) [OF D(7,8) D(3) y(1) _ _ D(6)] y D(3-5) by simp
  have "\<not> covers (mem_fragment x) y" if "x \<in> set (co_extents co inode)" for x
    using in_mem [OF rr that _ y] mem_newer [OF rr f that] nw by (auto simp: is_newest_def)
  then show "seen view (idx, co) inode y = loc_byte idx f y"
    using no_memory [of co inode y view idx] file_byte_newest [OF D(7,8) nv] by simp
qed

lemma seen_hole:
  assumes rr: "read_range view idx co inode off n disk"
    and "\<forall>f \<in> set (disk @ FragmentsFor co inode off n). \<not> covers f y" and y: "off \<le> y" "y < off + n"
  shows "seen view (idx, co) inode y = None"
proof -
  note D = read_rangeD [OF rr]
  have "\<forall>f \<in> live (view (ixDB idx)) inode. \<not> covers f y"
    using is_newest_newest(2) [OF D(7,8) D(3) y(1) _ _ D(6)] y D(3-5) assms(2) by simp
  then have "file_byte idx (view (ixDB idx)) inode y = None" by (intro file_byte_none) auto
  moreover have "\<not> covers (mem_fragment x) y" if "x \<in> set (co_extents co inode)" for x
    using in_mem [OF rr that _ y] assms(2) by auto
  ultimately show ?thesis using no_memory [of co inode y view idx] by simp
qed

section \<open>Reading one slice\<close>

text \<open>What a reader gets for a byte: holes read as zero.\<close>

definition shown :: "byte option \<Rightarrow> byte" where
  "shown b = (case b of Some v \<Rightarrow> v | None \<Rightarrow> 0)"

lemma shown_simps [simp]: "shown None = 0" "shown (Some v) = v"
  by (simp_all add: shown_def)

lemma find_SomeD: "find P xs = Some x \<Longrightarrow> x \<in> set xs \<and> P x"
  by (induction xs) (auto split: if_splits)

lemma CopyOut_extent:
  assumes ok: "buffers_ok view (idx, co)" and r: "CopyOut co inode loc b m = Inr d"
    and rng: "0 \<le> b" "0 \<le> locLength loc" "b + locLength loc < 2 ^ 63"
  shows "\<exists>z \<in> set (co_extents co inode). xSeq z = u64_of_int64 (locOffset loc) \<and> xOff z \<le> b \<and>
    b + locLength loc \<le> xOff z + int (length (xData z)) \<and> d = take m (take (nat (locLength loc)) (drop (nat (b - xOff z)) (xData z)))"
proof -
  obtain buf where b: "co_buf co inode = Some buf" using r by (auto simp: CopyOut_def split: option.splits)
  have e: "set (co_extents co inode) = set (opt_extents (ibCurrent buf) @ opt_extents (ibFlushing buf))"
    using b by (auto simp: co_extents_def buf_extents_def)
  obtain z where z: "find (\<lambda>x. xSeq x = u64_of_int64 (locOffset loc)) (opt_extents (ibCurrent buf) @ opt_extents (ibFlushing buf)) = Some z"
    using r b by (auto simp: CopyOut_def split: option.splits)
  then have zi: "z \<in> set (co_extents co inode)" "xSeq z = u64_of_int64 (locOffset loc)" unfolding e
    by (simp_all add: find_SomeD [OF z] del: set_append)
  have "0 \<le> xOff z" using buffered_extent(1) [OF ok zi(1)] .
  then have "i64 (b - xOff z) = b - xOff z" "0 \<le> b - xOff z \<longrightarrow> i64 (b - xOff z + locLength loc) = b - xOff z + locLength loc"
    using rng buffered_extent(3) [OF ok zi(1)] max_off_small [of idx "xOff z"] ok
    by (auto intro!: i64_id simp: in_i64_def buffers_ok_def index_ok_def ix_ok_def)
  then show ?thesis using r b z zi by (intro bexI [of _ z]) (auto simp: CopyOut_def Let_def split: if_splits)
qed

text \<open>
  A copy that succeeds is the copy of the newest extent: the number it looks up is not smaller
  than that extent's, and an extent with a larger number that covers the slice would be newer.
\<close>

lemma CopyOut_newest:
  assumes rr: "read_range view idx co inode off n disk" and x: "x \<in> set (co_extents co inode)"
    and nw: "is_newest (disk @ FragmentsFor co inode off n) b (mem_fragment x)"
    and rng: "off \<le> b" "0 < locLength loc" "b + locLength loc \<le> off + n"
    and lo: "locOffset loc = uint (xSeq x) + (b - xOff x)" and r: "CopyOut co inode loc b m = Inr d"
  shows "b = xOff x \<and> b + locLength loc \<le> xOff x + int (length (xData x)) \<and> d = take m (take (nat (locLength loc)) (xData x))"
proof -
  note D = read_rangeD [OF rr]
  obtain z where z: "z \<in> set (co_extents co inode)" "xSeq z = u64_of_int64 (locOffset loc)" "xOff z \<le> b"
      "b + locLength loc \<le> xOff z + int (length (xData z))" "d = take m (take (nat (locLength loc)) (drop (nat (b - xOff z)) (xData z)))"
    using CopyOut_extent [OF D(1) r] rng D by auto
  have c: "covers (mem_fragment x) b" using nw by (simp add: is_newest_def)
  have wf: "uint (xSeq x) + int (length (xData x)) < 2 ^ 63"
    using mem_fragment_wf [OF D(1,2) x] by (simp add: wf_frag_def) (simp add: mem_fragment_def)
  have u: "uint (xSeq z) = uint (xSeq x) + (b - xOff x)"
  proof -
    have v: "0 \<le> v \<Longrightarrow> v < 2 ^ 63 \<Longrightarrow> uint (word_of_int v :: u64) = v" for v
      by (simp add: uint_word_of_int)
    have "0 \<le> b - xOff x" "b - xOff x < int (length (xData x))" using c by (simp_all add: covers_def mem_fragment_def)
    then show ?thesis unfolding z(2) lo u64_of_int64_def by (intro v) (use wf uint_ge_0 [of "xSeq x"] in linarith)+
  qed
  have "covers (mem_fragment z) b" using z(3,4) rng by (simp add: covers_def mem_fragment_def)
  then have "Seq (mem_fragment z) \<le> Seq (mem_fragment x)"
    using nw in_mem [OF rr z(1)] rng by (auto simp: is_newest_def)
  then have "uint (xSeq z) \<le> uint (xSeq x)" by (simp add: mem_fragment_def word_le_def)
  then have b: "b = xOff x" "xSeq z = xSeq x" using u c by (auto simp: covers_def mem_fragment_def word_uint_eq_iff)
  have "z = x" using buffered_extent(6) [OF D(1) x] b(2) z(1) x by (metis distinct_map inj_on_def strict_sorted_iff)
  then show ?thesis using z b by simp
qed

text \<open>A read changes at most the pending outcomes of system calls.\<close>

definition store_like :: "'db Index \<Rightarrow> 'sem coalescer \<Rightarrow> ('db, 'sem) Store \<Rightarrow> bool" where
  "store_like idx co st \<longleftrightarrow> stCo st = Some co \<and> (\<exists>osq. stIdx st = idx\<lparr>ixOS := osq\<rparr>)"

lemma slice_byte_OS [simp]: "slice_byte (idx\<lparr>ixOS := osq\<rparr>) s y = slice_byte idx s y"
  by (simp add: slice_byte_def setFor_def)

lemma slice_byte_fragment: "\<not> slSparse s \<Longrightarrow> slice_loc s y = frag_loc f y \<Longrightarrow> slice_byte idx s y = loc_byte idx f y"
  using loc_byte_frag_loc [of f y "locTier (slLocator s)" "locSegmentID (slLocator s)" "locOffset (slLocator s) + (y - slLogicalOff s)" idx]
  by (simp add: slice_byte_def slice_loc_def)

lemma plan_slice_range:
  assumes rr: "read_range view idx co inode off n disk" and s: "s \<in> set (planRead (disk @ FragmentsFor co inode off n) off n)"
  shows "off \<le> slLogicalOff s" "0 < slLength s" "slLogicalOff s + slLength s \<le> off + n"
proof -
  note D = read_rangeD [OF rr]
  have "tiles a b us \<Longrightarrow> (c, d) \<in> set us \<Longrightarrow> a \<le> c \<and> c < d \<and> d \<le> b" for a b c d :: int and us
  proof (induction us arbitrary: a)
    case (Cons u us)
    have "tiles c b vs \<Longrightarrow> c \<le> b" for c vs by (induction vs arbitrary: c) fastforce+
    then show ?case using Cons by fastforce
  qed simp
  from this [OF planRead_correct(1) [OF frags_wf [OF rr] D(3,4,9)], of "slLogicalOff s" "slLogicalOff s + slLength s"]
  show "off \<le> slLogicalOff s" "0 < slLength s" "slLogicalOff s + slLength s \<le> off + n"
    using s by (force simp: slice_iv_def)+
qed

lemma read_slice_seen:
  assumes rr: "read_range view idx co inode off n disk" and s: "s \<in> set (planRead (disk @ FragmentsFor co inode off n) off n)"
    and st: "store_like idx co st" and r: "read_slice st inode s (nat (slLength s)) = (st', Inr d)"
  shows "store_like idx co st' \<and> length d = nat (slLength s) \<and>
    (\<forall>k < length d. d ! k = shown (seen view (idx, co) inode (slLogicalOff s + int k)))"
proof -
  note D = read_rangeD [OF rr]
  let ?fs = "disk @ FragmentsFor co inode off n" and ?a = "slLogicalOff s"
  note pr = planRead_correct [OF frags_wf [OF rr] D(3,4,9)] and b = plan_slice_range [OF rr s]
  have y: "in_slice (?a + int k) s" "off \<le> ?a + int k" "?a + int k < off + n" if "k < nat (slLength s)" for k
    using that b by (auto simp: in_slice_def)
  show ?thesis
  proof (cases "slSparse s")
    case True
    have "seen view (idx, co) inode (?a + int k) = None" if "k < nat (slLength s)" for k
      using seen_hole [OF rr _ y(2,3)] pr(2) [OF s y(1)] that True by simp
    then show ?thesis using r st True by (auto simp: read_slice_def)
  next
    case False
    then obtain f where f: "f \<in> set ?fs" "\<And>y. slice_loc s y = frag_loc f y" "\<And>y. in_slice y s \<Longrightarrow> is_newest ?fs y f"
      using pr(3) [OF s] by blast
    have ll: "locLength (slLocator s) = slLength s" by (rule planRead_loc_length [OF s False])
    have tier: "locTier (slLocator s) = FTier f" "locOffset (slLocator s) = SegmentOffset f + (?a - LogicalOff f)"
      using f(2) [of ?a] by (simp_all add: slice_loc_def frag_loc_def)
    show ?thesis
    proof (cases "f \<in> set disk")
      case True
      note df = disk_fragment [OF rr True]
      obtain osq where i: "stIdx st = idx\<lparr>ixOS := osq\<rparr>" "stCo st = Some co" using st by (auto simp: store_like_def)
      have nt: "FTier f \<noteq> TierMem" using df(3) by (auto simp: tier_defs)
      obtain idx' where ra: "Index_ReadAt (idx\<lparr>ixOS := osq\<rparr>) (slLocator s) (nat (slLength s)) = (idx', Inr d)" "st' = st\<lparr>stIdx := idx'\<rparr>"
        using r False nt tier(1) i by (auto simp: read_slice_def on_idx_def split: prod.splits)
      have "\<exists>osq'. idx' = idx\<lparr>ixOS := osq'\<rparr>"
        using ra(1) by (auto simp: Index_ReadAt_def Let_def split: option.splits if_splits prod.splits)
      then have sl: "store_like idx co st'" using i ra(2) by (auto simp: store_like_def)
      have sb: "slice_byte idx s (?a + int k) = seen view (idx, co) inode (?a + int k)" if "k < nat (slLength s)" for k
        using slice_byte_fragment [OF False f(2)] seen_disk(2) [OF rr f(3) True] y [OF that] by simp
      have av: "slice_byte (idx\<lparr>ixOS := osq\<rparr>) s (?a + int k) \<noteq> None" if "k < nat (slLength s)" for k
      proof -
        have "covers f (?a + int k)" using f(3) y(1) [OF that] by (simp add: is_newest_def)
        moreover obtain t where "frag_ok idx t f" using df(1) frag_atD [OF D(7)] by (auto simp: live_def)
        ultimately show ?thesis using loc_byte_some [of idx f "?a + int k"] slice_byte_fragment [OF False f(2), of idx "?a + int k"]
          by (simp add: frag_ok_def)
      qed
      have "0 \<le> locOffset (slLocator s)"
        using tier(2) df(2) f(3) [of ?a] y(1) [of 0] b(2) by (auto simp: is_newest_def covers_def wf_frag_def)
      note rd = ReadAt_slice(1) [OF False _ _ ll this av ra(1)]
      then have l: "length d = nat (slLength s)" and "\<And>k. k < nat (slLength s) \<Longrightarrow> slice_byte idx s (?a + int k) = Some (d ! k)"
        using b(2) by auto
      then have "seen view (idx, co) inode (?a + int k) = Some (d ! k)" if "k < nat (slLength s)" for k
        using sb [OF that] that by simp
      then show ?thesis using sl l by simp
    next
      case mem: False
      then obtain x where x: "x \<in> set (co_extents co inode)" "f = mem_fragment x" using f(1) mem_set [OF rr] by auto
      have so: "SegmentOffset f = uint (xSeq x)" using mem_fragment_wf(2) [OF D(1,2) x(1)] x(2) by simp
      have c: "st' = st" "CopyOut co inode (slLocator s) ?a (nat (slLength s)) = Inr d"
        using r False st tier(1) x(2) by (auto simp: read_slice_def store_like_def mem_fragment_def)
      have "locOffset (slLocator s) = uint (xSeq x) + (?a - xOff x)" using tier(2) so x(2) by (simp add: mem_fragment_def)
      from CopyOut_newest [OF rr x(1) _ b(1) _ _ this c(2)]
      have e: "?a = xOff x" "?a + slLength s \<le> xOff x + int (length (xData x))" "d = take (nat (slLength s)) (xData x)"
        using f(3) [of ?a] x(2) y(1) [of 0] b ll by auto
      then have "length d = nat (slLength s)" by simp
      moreover have "seen view (idx, co) inode (?a + int k) = Some (d ! k)" if "k < nat (slLength s)" for k
        using seen_memory [OF rr _ x(1) y(2,3) [OF that]] f(3) [OF y(1) [OF that]] x(2) e that by simp
      ultimately show ?thesis using st c(1) by simp
    qed
  qed
qed

section \<open>Reading all slices\<close>

lemma buf_put_nth:
  assumes "i + length d \<le> length p" "k < length p"
  shows "length (buf_put i d p) = length p" "buf_put i d p ! k = (if i \<le> k \<and> k < i + length d then d ! (k - i) else p ! k)"
  using assms by (auto simp: buf_put_def nth_append)

lemma read_slices_seen:
  assumes "tiles a (off + int (length p)) (map slice_iv sls)" "0 \<le> off" "off \<le> a" "off + int (length p) < 2 ^ 63" "good st"
    and "\<And>s st1 st2 d. s \<in> set sls \<Longrightarrow> good st1 \<Longrightarrow> read_slice st1 inode s (nat (slLength s)) = (st2, Inr d) \<Longrightarrow>
      good st2 \<and> length d = nat (slLength s) \<and> (\<forall>k < length d. d ! k = want (slLogicalOff s + int k))"
    and "read_slices st inode off sls p = (st', Inr q)"
  shows "good st' \<and> length q = length p \<and> (\<forall>k < length p. q ! k = (if off + int k < a then p ! k else want (off + int k)))"
  using assms
proof (induction sls arbitrary: a st p)
  case Nil
  then show ?case by auto
next
  case (Cons s sls)
  let ?L = "slLength s" and ?i = "nat (a - off)"
  have t: "slLogicalOff s = a" "0 < ?L" "tiles (a + ?L) (off + int (length p)) (map slice_iv sls)"
    using Cons.prems(1) by (auto simp: slice_iv_def [of s])
  have le: "a + ?L \<le> off + int (length p)"
    using t(3) by (induction sls arbitrary: a s) (auto simp: slice_iv_def, fastforce)
  have w: "i64 (a - off) = a - off" "i64 (a - off + ?L) = a - off + ?L"
    using Cons.prems(2-4) t le by (simp_all add: i64_small)
  obtain st1 d where d: "read_slice st inode s (nat ?L) = (st1, Inr d)"
      "read_slices st1 inode off sls (buf_put ?i d p) = (st', Inr q)"
    using Cons.prems(7) t(1,2) w le Cons.prems(3) by (auto simp: Let_def andThen_ok split: if_splits)
  have g: "good st1" "length d = nat ?L" "\<And>k. k < nat ?L \<Longrightarrow> d ! k = want (a + int k)"
    using Cons.prems(6) [OF _ Cons.prems(5) d(1)] t(1) by auto
  have fits: "?i + length d \<le> length p" using g(2) le t(2) Cons.prems(3) by linarith
  have lp: "length (buf_put ?i d p) = length p" using fits by (simp add: buf_put_def)
  have "good st' \<and> length q = length (buf_put ?i d p) \<and> (\<forall>k < length (buf_put ?i d p). q ! k =
      (if off + int k < a + ?L then buf_put ?i d p ! k else want (off + int k)))"
    using Cons.prems(2-4,6) t le g(1) d(2) by (intro Cons.IH) (auto simp: lp)
  moreover have "buf_put ?i d p ! k = (if off + int k < a then p ! k else want (off + int k))"
    if "k < length p" "off + int k < a + ?L" for k
  proof (cases "off + int k < a")
    case False
    then have k: "?i \<le> k" "k - ?i < nat ?L" "a + int (k - ?i) = off + int k" using that Cons.prems(3) by auto
    then have "buf_put ?i d p ! k = d ! (k - ?i)" using buf_put_nth(2) [OF fits that(1)] g(2) by auto
    also have "\<dots> = want (off + int k)" unfolding g(3) [OF k(2)] k(3) ..
    finally show ?thesis using False by simp
  qed (use buf_put_nth(2) [OF fits that(1)] Cons.prems(3) in auto)
  ultimately show ?case using lp t(2) by auto
qed

text \<open>The range of a read that is not empty.\<close>

definition read_len :: "Node \<Rightarrow> bytes \<Rightarrow> int \<Rightarrow> nat" where
  "read_len node p off = min (length p) (nat (nSize node - off))"

context pebble_engine
begin

lemma ReadAt_plan:
  assumes it: "iter_complete P" and ok: "buffers_ok view (stIdx st, co)" "readable (stIdx st) co inode" "stCo st = Some co"
    and rng: "0 \<le> off" "off + int (length p0) \<le> max_off (stIdx st)" "p0 \<noteq> []"
    and stat: "Stat P st inode = Inr node" "off < nSize node"
  shows "(\<exists>e. ReadAt P st inode p0 off = (st, Inl e)) \<or>
    (\<exists>disk. read_range view (stIdx st) co inode off (int (read_len node p0 off)) disk \<and>
      ReadAt P st inode p0 off = read_slices st inode off (planRead (disk @ FragmentsFor co inode off (int (read_len node p0 off)))
        off (int (read_len node p0 off))) (take (read_len node p0 off) p0))"
proof -
  let ?idx = "stIdx st" and ?n = "int (read_len node p0 off)"
  define p where "p = (if i64 (off + int (length p0)) > nSize node then take (nat (i64 (nSize node - off))) p0 else p0)"
  have ix: "db_ok ?idx (view (ixDB ?idx))" "0 < ixStripeSize ?idx" using ok(1) by (auto simp: buffers_ok_def index_ok_def ix_ok_def)
  have s: "off + int (length p0) < 2 ^ 63" using max_off_small [OF ix(2) rng(2)] .
  have n: "p = take (read_len node p0 off) p0" "0 < ?n" "int (length p) = ?n" "off + ?n \<le> max_off ?idx"
    using rng s stat(2) by (auto simp: p_def read_len_def i64_small min_def)
  have un: "ReadAt P st inode p0 off = checked st (FragmentsInRange P ?idx inode off ?n) (\<lambda>disk.
      read_slices st inode off (planRead (disk @ FragmentsFor co inode off ?n) off ?n) p)"
    using rng(3) stat ok(3) n(3) by (simp add: ReadAt_def Let_def flip: p_def)
  show ?thesis
  proof (cases "FragmentsInRange P ?idx inode off ?n")
    case (Inl e)
    then show ?thesis using un by simp
  next
    case (Inr disk)
    have "off + ?n < 2 ^ 63" using max_off_small [OF ix(2) n(4)] .
    then have "fragmentsInRange P ?idx inode (stripeOf ?idx off) (stripeOf ?idx (off + ?n - 1)) = Inr disk"
      using Inr n(2) rng(1) by (simp add: FragmentsInRange_def i64_small)
    then have "read_range view ?idx co inode off ?n disk"
      using fragmentsInRange_set [OF it ix(1)] ok n rng(1) by (simp add: read_range_def)
    then show ?thesis using un Inr n(1) by auto
  qed
qed

lemma ReadAt_seen:
  assumes it: "iter_complete P" and ok: "buffers_ok view (stIdx st, co)" "readable (stIdx st) co inode" "stCo st = Some co"
    and rng: "0 \<le> off" "off + int (length p0) \<le> max_off (stIdx st)"
    and stat: "Stat P st inode = Inr node" and r: "ReadAt P st inode p0 off = (st', Inr bs)"
  shows "store_like (stIdx st) co st' \<and> length bs = read_len node p0 off \<and>
    (\<forall>k < length bs. bs ! k = shown (seen view (stIdx st, co) inode (off + int k)))"
proof -
  have st: "store_like (stIdx st) co st" using ok(3) by (force simp: store_like_def intro: exI [of _ "ixOS (stIdx st)"])
  show ?thesis
  proof (cases "p0 = [] \<or> nSize node \<le> off")
    case True
    then have "st' = st \<and> bs = []" using r stat by (cases "p0 = []") (simp_all add: ReadAt_def)
    then show ?thesis using st True by (auto simp: read_len_def)
  next
    case False
    let ?n = "int (read_len node p0 off)"
    obtain disk where rr: "read_range view (stIdx st) co inode off ?n disk"
        and sl: "read_slices st inode off (planRead (disk @ FragmentsFor co inode off ?n) off ?n) (take (read_len node p0 off) p0) = (st', Inr bs)"
      using ReadAt_plan [OF it ok rng _ stat] False r by auto
    note D = read_rangeD [OF rr]
    have l: "length (take (read_len node p0 off) p0) = read_len node p0 off" by (simp add: read_len_def)
    have "store_like (stIdx st) co st' \<and> length bs = length (take (read_len node p0 off) p0) \<and>
      (\<forall>k < length (take (read_len node p0 off) p0). bs ! k = (if off + int k < off then take (read_len node p0 off) p0 ! k
        else shown (seen view (stIdx st, co) inode (off + int k))))"
    proof (rule read_slices_seen [where good = "store_like (stIdx st) co", OF _ rng(1) order_refl _ st _ sl], unfold l)
      show "tiles off (off + ?n) (map slice_iv (planRead (disk @ FragmentsFor co inode off ?n) off ?n))"
        by (rule planRead_correct(1) [OF frags_wf [OF rr] D(3,4,9)])
    qed (use D(9) read_slice_seen [OF rr] in auto)
    then show ?thesis unfolding l by simp
  qed
qed

text \<open>The first slice of a plan starts at the offset of the read.\<close>

lemma ReadAt_inside_extent:
  assumes it: "iter_complete P" and ok: "buffers_ok view (stIdx st, co)" "readable (stIdx st) co inode" "stCo st = Some co"
    and rng: "0 \<le> off" "off + int (length p0) \<le> max_off (stIdx st)" "p0 \<noteq> []"
    and stat: "Stat P st inode = Inr node" "off < nSize node"
    and x: "x \<in> set (co_extents co inode)" "xOff x < off" "off < xOff x + int (length (xData x))"
      "\<And>z. z \<in> set (co_extents co inode) \<Longrightarrow> covers (mem_fragment z) off \<Longrightarrow> xSeq z \<le> xSeq x"
  shows "\<exists>st' e. ReadAt P st inode p0 off = (st', Inl e)"
proof (rule ccontr)
  assume "\<not> ?thesis"
  then obtain st' bs where r: "ReadAt P st inode p0 off = (st', Inr bs)"
    by (metis Inl_Inr_False prod.collapse sum.exhaust)
  let ?n = "int (read_len node p0 off)"
  obtain disk where rr: "read_range view (stIdx st) co inode off ?n disk"
      and sl: "read_slices st inode off (planRead (disk @ FragmentsFor co inode off ?n) off ?n) (take (read_len node p0 off) p0) = (st', Inr bs)"
    using ReadAt_plan [OF it ok rng stat] r by auto
  note D = read_rangeD [OF rr]
  let ?fs = "disk @ FragmentsFor co inode off ?n"
  note pr = planRead_correct [OF frags_wf [OF rr] D(3,4,9)]
  obtain s sls where pl: "planRead ?fs off ?n = s # sls" "slLogicalOff s = off" "0 < slLength s"
    using pr(1) D(4) by (cases "planRead ?fs off ?n") (auto simp: slice_iv_def)
  have si: "s \<in> set (planRead ?fs off ?n)" "in_slice off s" using pl by (auto simp: in_slice_def)
  have xc: "covers (mem_fragment x) off" using x(2,3) by (simp add: covers_def mem_fragment_def)
  have xm: "mem_fragment x \<in> set (FragmentsFor co inode off ?n)" using in_mem [OF rr x(1) xc] D(4) by simp
  have ns: "\<not> slSparse s" using pr(2) [OF si] xm xc by auto
  then obtain f where f: "f \<in> set ?fs" "\<And>y. slice_loc s y = frag_loc f y" "is_newest ?fs off f" using pr(3) [OF si(1)] si(2) by blast
  have "f \<notin> set disk" using mem_newer [OF rr _ x(1)] f(3) xm xc by (fastforce simp: is_newest_def)
  then obtain z where z: "z \<in> set (co_extents co inode)" "f = mem_fragment z" using f(1) mem_set [OF rr] by auto
  have "xSeq z = xSeq x" using x(4) [OF z(1)] f(3) xm xc z(2) by (auto simp: is_newest_def mem_fragment_def)
  then have fx: "f = mem_fragment x" using buffered_extent(6) [OF D(1) x(1)] z x(1) by (metis distinct_map inj_on_def strict_sorted_iff)
  have loc: "locTier (slLocator s) = TierMem" "locOffset (slLocator s) = uint (xSeq x) + (off - xOff x)"
    using f(2) [of off] mem_fragment_wf(2) [OF D(1,2) x(1)] pl(2) unfolding fx
    by (simp_all add: slice_loc_def frag_loc_def) (simp_all add: mem_fragment_def)
  note b = plan_slice_range [OF rr si(1)]
  have "i64 (slLength s) = slLength s" "i64 0 = 0" using b D(3,9) by (simp_all add: i64_small)
  then obtain d where "CopyOut co inode (slLocator s) off (nat (slLength s)) = Inr d"
    using sl ok(3) ns loc(1) pl by (auto simp: Let_def read_slice_def andThen_ok split: if_splits)
  from CopyOut_newest [OF rr x(1) _ order_refl _ _ loc(2) this]
  show False using f(3) fx b pl(2) x(2) planRead_loc_length [OF si(1) ns] by simp
qed

end

section \<open>A store for the witnesses\<close>

definition two_bytes :: bufExtent where
  "two_bytes = \<lparr>xSeq = 1, xOff = 0, xData = [7, 8]\<rparr>"

definition buffered_two :: "int coalescer" where
  "buffered_two = (newCoalescer counter_sem)\<lparr>coBuffers := [(5, \<lparr>ibInode = 5, ibTier = TierHot,
     ibCurrent = Some \<lparr>bbExtents = [two_bytes], bbBytes = 2, bbMaxEnd = 2, bbMtime = 9, bbDone = 0\<rparr>,
     ibFlushing = None, ibOnDiskSize = 0, ibOnDiskMtime = 0, ibLiveSize = 2, ibLiveMtime = 9, ibPoisoned = None\<rparr>)], coNextChan := 1\<rparr>"

definition two_node :: Node where
  "two_node = new_node 5 (ModeRegular OR 0x1A4) 1 0 0 0 [] 9"

definition two_store :: "(kvpair list, int) Store" where
  "two_store = \<lparr>stIdx = fresh_index\<lparr>ixDB := [(NodeKey 5, encodeNode two_node)], ixSeqGen := 1\<rparr>, stCo = Some buffered_two\<rparr>"

lemma two_live: "live [NodeKey 5 \<mapsto> v] i = {}"
  by (simp add: live_def frag_at_def FragmentKey_def NodeKey_def tag_defs)

lemma two_extents: "co_extents buffered_two 5 = [two_bytes]"
  by (simp add: co_extents_def buffered_two_def co_buf_def buf_extents_def opt_extents_def)

lemma two_buffers_ok: "buffers_ok map_of (stIdx two_store, buffered_two)"
proof -
  have "index_ok map_of (stIdx two_store)"
    using fresh_index_ok by (simp add: two_store_def index_ok_def ix_ok_def db_ok_def FragmentKey_def NodeKey_def tag_defs)
  moreover have "buf_ok (stIdx two_store) (map_of (ixDB (stIdx two_store))) i buf" if "co_buf buffered_two i = Some buf" for i buf
    using that by (auto simp: buf_ok_def buf_extents_def opt_extents_def x_total_def buffered_two_def co_buf_def two_bytes_def
        ext_ok_def append_extent_def max_off_def two_store_def two_live split: if_splits)
  ultimately show ?thesis by (simp add: buffers_ok_def)
qed

lemma two_readable: "readable (stIdx two_store) buffered_two 5"
  by (simp add: readable_def two_extents two_bytes_def two_store_def)

lemma two_stat: "Stat mem_pebble two_store 5 = Inr (two_node\<lparr>nSize := 2\<rparr>)"
  using decode_encodeNode [of two_node]
  by (simp add: two_store_def Stat_def st_get_def DB_Get_def live_of_def LiveAttrs_def buffered_two_def co_buf_def merge_live_def
      node_i64_def in_i64_def two_node_def new_node_def)

lemma two_disk: "FragmentsInRange mem_pebble (stIdx two_store) 5 0 2 = Inr []"
  by (simp add: FragmentsInRange_def fragmentsInRange_def scan_fragments_def DB_Iter_def two_store_def mem_scan_def in_range_def
      FragmentStripePrefix_def NodeKey_def tag_defs decode_entries_def)

lemma two_plan: "planRead [mem_fragment two_bytes] 0 2 = [\<lparr>slLogicalOff = 0, slLength = 2, slSparse = False,
    slLocator = \<lparr>locTier = TierMem, locSegmentID = 0, locOffset = 1, locLength = 2\<rparr>\<rparr>]"
  by code_simp

lemma two_read: "ReadAt mem_pebble two_store 5 [0, 0] 0 = (two_store, Inr [7, 8])"
proof -
  have "FragmentsFor buffered_two 5 0 2 = [mem_fragment two_bytes]"
    by (simp add: FragmentsFor_def buffered_two_def co_buf_def opt_extents_def xEnd_def two_bytes_def i64_small)
  moreover have "CopyOut buffered_two 5 \<lparr>locTier = TierMem, locSegmentID = 0, locOffset = 1, locLength = 2\<rparr> 0 2 = Inr [7, 8]"
    by (simp add: CopyOut_def buffered_two_def co_buf_def opt_extents_def two_bytes_def u64_of_int64_def i64_small)
  moreover have "stCo two_store = Some buffered_two" by (simp add: two_store_def)
  ultimately show ?thesis
    by (simp add: ReadAt_def two_stat two_disk two_plan Let_def i64_small read_slice_def buf_put_def)
qed

section \<open>Properties\<close>



text \<open>
  C16: a read that starts strictly inside the newest buffered extent of its first byte always
  fails, although the bytes are there: the plan moves the locator's offset by the distance into
  the extent and the buffer looks that number up as a sequence number.
\<close>

theorem ReadAt_inside_extent_fails:
  assumes "pebble_engine P view" "iter_complete P" "buffers_ok view (stIdx st, co)" "readable (stIdx st) co inode" "stCo st = Some co"
    and "0 \<le> off" "off + int (length p) \<le> max_off (stIdx st)" "p \<noteq> []"
    and "Stat P st inode = Inr node" "off < nSize node"
    and "x \<in> set (co_extents co inode)" "xOff x < off" "off < xOff x + int (length (xData x))"
    and "\<And>z. z \<in> set (co_extents co inode) \<Longrightarrow> covers (mem_fragment z) off \<Longrightarrow> xSeq z \<le> xSeq x"
  shows "\<exists>st' e. ReadAt P st inode p off = (st', Inl e)"
  by (rule pebble_engine.ReadAt_inside_extent [OF assms])

theorem ReadAt_inside_extent_fails_witness:
  "\<exists>st' e. ReadAt mem_pebble two_store 5 [0] 1 = (st', Inl e) \<and> seen map_of (stIdx two_store, buffered_two) 5 1 = Some 8"
proof -
  have "\<exists>st' e. ReadAt mem_pebble two_store 5 [0] 1 = (st', Inl e)"
    using ReadAt_inside_extent_fails [OF mem.pebble_engine_axioms mem_iter_complete two_buffers_ok two_readable, of 1 "[0]" _ two_bytes] two_stat
    by (simp add: two_store_def max_off_def two_extents two_bytes_def)
  moreover have "seen map_of (stIdx two_store, buffered_two) 5 1 = Some 8"
    by (simp add: seen_at two_extents covers_def mem_fragment_def) (simp add: two_bytes_def)
  ultimately show ?thesis by blast
qed

end
