(* ===== verification/Move_Race.thy ===== *)
theory Move_Race
  imports Write_Back
begin

text \<open>
  Moving a stripe and flushing the buffer do not commute. A buffered write carries the sequence
  number it got when it was made; \<open>Move\<close> gives the data it copies new, larger numbers. A flush
  after a move therefore puts the newer bytes under the older ones.
\<close>

section \<open>A flush after a move\<close>

context pebble_engine
begin

lemma flush_under:
  assumes ix: "index_ok view idx" and es: "es \<noteq> []" "list_all (ext_ok idx) es" "distinct (map eSeq es)" and h: "hook_ok hook"
    and r: "AppendBatch P idx inode es hook = (idx', r)"
    and f: "newest (view (ixDB idx)) inode y f" and old: "\<And>e. e \<in> set es \<Longrightarrow> eSeq e < Seq f" "\<And>e. e \<in> set es \<Longrightarrow> eSeq e \<le> ixSeqGen idx"
  shows "file_byte idx' (view (ixDB idx')) inode y = file_byte idx (view (ixDB idx)) inode y"
proof -
  let ?V = "view (ixDB idx)" and ?V' = "view (ixDB idx')"
  have ok: "ix_ok idx" "db_ok idx ?V" "0 < ixStripeSize idx" using ix by (auto simp: index_ok_def ix_ok_def)
  note e = AppendBatch_effect [OF ok(1) es h r]
  have x: "ix_extends idx idx'" "ixSeqGen idx' = ixSeqGen idx" using e by blast+
  have keep: "file_byte idx' ?V inode y = file_byte idx ?V inode y" using file_byte_extends [OF x(1) _ ok(2,3)] x(2) by simp
  from e consider (same) "frag_eq ?V ?V'"
    | (add) ps where "list_all2 (staged idx') es ps" "list_all (\<lambda>p. frag_ok idx' (fst p) (snd p)) ps" "adds ?V ?V' inode ps"
    by blast
  then show ?thesis
  proof cases
    case same
    then show ?thesis using frag_eq_file_byte [OF same, of idx'] keep by simp
  next
    case add
    have ps: "\<exists>e \<in> set es. Seq (snd p) = eSeq e" if "p \<in> set ps" for p
      using add(1) that by (metis in_set_conv_nth list_all2_conv_all_nth staged_def)
    have ok1: "db_ok idx' ?V" using db_ok_extends [OF x(1) _ ok(2)] x(2) by simp
    have ok': "db_ok idx' ?V'"
      using add(2) ps old(2) x(2) by (intro adds_db_ok [OF add(3) ok1]) (fastforce simp: list_all_iff)+
    obtain s where s: "frag_at ?V inode s f" using f by (auto simp: newest_def live_def)
    have "?V' (FragmentKey inode s (Seq f)) = ?V (FragmentKey inode s (Seq f))"
      using add(3) ps old(1) unfolding adds_def by (metis less_irrefl snd_conv)
    with s have "frag_at ?V' inode s f" by (simp add: frag_at_def)
    then have l: "f \<in> live ?V' inode" unfolding live_def by blast
    have "Seq g \<le> Seq f" if g: "g \<in> live ?V' inode" "covers g y" for g
    proof -
      obtain t v where v: "?V' (FragmentKey inode t (Seq g)) = Some v" "decodeFragments v = [g]" using g(1) by (auto simp: live_def frag_at_def)
      from add(3) v(1) show ?thesis
      proof (cases rule: adds_cases)
        case (new k)
        then show ?thesis using ps old(1) by (metis less_imp_le snd_conv)
      next
        case old
        then show ?thesis using f v(2) g(2) by (auto simp: newest_def live_def frag_at_def)
      qed
    qed
    then have n: "newest ?V' inode y f" using l f by (simp add: newest_def)
    have "0 < ixStripeSize idx'" using ok(3) x(1) by (simp add: ix_extends_def)
    then have "file_byte idx' ?V' inode y = loc_byte idx' f y" using file_byte_newest [OF ok' _ n] by simp
    also have "\<dots> = file_byte idx' ?V inode y" using file_byte_newest [OF ok1 _ f] ok(3) x(1) by (simp add: ix_extends_def)
    finally show ?thesis using keep by simp
  qed
qed

lemma move_then_flush:
  assumes ok: "buffers_ok view (idx, co)" and t: "target = TierHot \<or> target = TierCold"
    and sq: "unat (ixSeqGen idx) + nat (ixStripeSize idx) < 2 ^ 64" and y: "0 \<le> y" "y < max_off idx"
    and b: "file_byte idx (view (ixDB idx)) inode y = Some b"
    and m: "Move P idx inode (stripeOf idx y) target = (idx1, Inr ())"
    and fl: "flush_finish P W (idx1, co) inode = ((idx2, co2), r)"
  shows "file_byte idx2 (view (ixDB idx2)) inode y = Some b"
proof -
  have ix: "index_ok view idx" "0 < ixStripeSize idx" using ok by (auto simp: buffers_ok_def index_ok_def ix_ok_def)
  note e = Move_effect [OF ix(1) t sq m]
  have ix1: "index_ok view idx1" "ixStripeSize idx1 = ixStripeSize idx" "file_byte idx1 (view (ixDB idx1)) = file_byte idx (view (ixDB idx))"
      "db_ok idx1 (view (ixDB idx1))" "0 < ixStripeSize idx1" using e ix(2) by (auto simp: index_ok_def)
  obtain f where f: "newest (view (ixDB idx1)) inode y f"
    using b ix1(3) by (metis (mono_tags, lifting) file_byte_def option.distinct(1))
  then obtain s where s: "frag_at (view (ixDB idx1)) inode s f" "covers f y" by (auto simp: newest_def live_def)
  have "in_stripe idx1 s f" using frag_atD [OF ix1(4) s(1)] by (simp add: frag_ok_def)
  then have "uint s = y div ixStripeSize idx" using in_stripe_covers [OF _ s(2) ix1(5)] ix1(2) by simp
  then have "s = stripeOf idx y" using stripeOf_uint [OF ix(2) y] by (simp add: word_uint_eq_iff)
  then have big: "ixSeqGen idx < Seq f" using e s(1) by blast
  consider (none) "idx2 = idx1"
    | (go) buf batch r1 where "co_buf co inode = Some buf" "ibFlushing buf = Some batch"
        "AppendBatch P idx1 inode (map (append_extent (ibTier buf)) (bbExtents batch))
          (Some (node_hook P inode (bbMaxEnd batch) (bbMtime batch) ''store: coalescer flush: no node entry'')) = (idx2, r1)"
    using fl by (auto simp: flush_finish_def split: option.splits prod.splits)
  then show ?thesis
  proof cases
    case none
    then show ?thesis using b ix1(3) by simp
  next
    case go
    let ?es = "map (append_extent (ibTier buf)) (bbExtents batch)"
    have bo: "buf_ok idx (view (ixDB idx)) inode buf" using ok go(1) by (simp add: buffers_ok_def)
    have xs: "buf_extents buf = bbExtents batch @ opt_extents (ibCurrent buf)" using go(2) by (simp add: buf_extents_def opt_extents_def)
    have eq: "map eSeq ?es = map xSeq (bbExtents batch)" by (simp add: append_extent_def)
    have p: "list_all (ext_ok idx1) ?es" "distinct (map eSeq ?es)" "\<And>e. e \<in> set ?es \<Longrightarrow> eSeq e \<le> ixSeqGen idx"
      using bo unfolding buf_ok_def xs eq
      by (auto simp: list_all_iff sorted_wrt_append strict_sorted_iff ext_ok_def max_off_def ix1(2)) (auto simp: append_extent_def)
    obtain v where "view (ixDB idx1) (FragmentKey inode s (Seq f)) = Some v" using s(1) by (auto simp: frag_at_def)
    then have "Seq f \<le> ixSeqGen idx1" by (rule db_okD [OF ix1(4)])
    then have g: "ixSeqGen idx \<le> ixSeqGen idx1" using big by simp
    have "file_byte idx2 (view (ixDB idx2)) inode y = file_byte idx1 (view (ixDB idx1)) inode y"
    proof (cases "?es = []")
      case True
      show ?thesis using AppendBatch_overlay [OF ix1(1) _ _ _ _ node_hook_ok go(3)] True by auto
    next
      case False
      have "eSeq e < Seq f" "eSeq e \<le> ixSeqGen idx1" if "e \<in> set ?es" for e using p(3) [OF that] big g by simp_all
      then show ?thesis by (rule flush_under [OF ix1(1) False p(1,2) node_hook_ok go(3) f])
    qed
    then show ?thesis using b ix1(3) by simp
  qed
qed

lemma append_tier:
  assumes ok: "index_ok view idx" and off: "0 \<le> off" "off + int (length payload) \<le> max_off idx" "payload \<noteq> []"
    and seq: "unat (ixSeqGen idx) + length payload < 2 ^ 64" and t: "tier = TierHot \<or> tier = TierCold"
    and old: "live (view (ixDB idx)) inode = {}"
    and r: "AppendToWithTx P idx inode off payload tier None = (idx', Inr ())"
    and f: "f \<in> live (view (ixDB idx')) inode"
  shows "FTier f = tier"
proof -
  have ix: "ix_ok idx" "0 < ixStripeSize idx" using ok by (auto simp: index_ok_def ix_ok_def)
  obtain es g where es: "split_chunks idx off payload tier = (idx\<lparr>ixSeqGen := g\<rparr>, Inr es)"
      "chunked (ixStripeSize idx) off payload es" "distinct (map eSeq es)" "\<forall>e \<in> set es. eTier e = tier"
    using split_chunks_ok [OF ix(2) off(1,2) seq] by blast
  let ?idx1 = "idx\<lparr>ixSeqGen := g\<rparr>"
  have a: "AppendBatch P ?idx1 inode es None = (idx', Inr ())" using r off(3) es(1) by (simp add: AppendToWithTx_def)
  have pre: "es \<noteq> []" "ix_ok ?idx1" using es(2) off(3) ix(1) by (auto simp: ix_ok_def)
  have "list_all (ext_ok ?idx1) es"
    using chunked_bounds [OF es(2)] es(4) off(1,2) t unfolding list_all_iff ext_ok_def max_off_def by fastforce
  from AppendBatch_effect [OF pre(2,1) this es(3) _ a]
  obtain ps where ps: "list_all2 (staged idx') es ps" "list_all (\<lambda>p. frag_ok idx' (fst p) (snd p)) ps"
      "adds (view (ixDB idx)) (view (ixDB idx')) inode ps" by (auto simp: hook_ok_def)
  obtain s v where v: "view (ixDB idx') (FragmentKey inode s (Seq f)) = Some v" "decodeFragments v = [f]"
    using f by (auto simp: live_def frag_at_def)
  from ps(3) v(1) show ?thesis
  proof (cases rule: adds_cases)
    case (new h)
    then have "h = f" using ps(2) v(2) by (auto simp: list_all_iff frag_ok_def decode_one)
    then obtain e where "e \<in> set es" "staged idx' e (s, f)"
      using ps(1) new(2) by (metis in_set_conv_nth list_all2_conv_all_nth)
    then show ?thesis using es(4) by (simp add: staged_def)
  next
    case old
    then show ?thesis using assms(7) v(2) by (auto simp: live_def frag_at_def)
  qed
qed

end

lemma move_loop_same_tier:
  "(\<forall>f \<in> set fs. FTier f = target) \<Longrightarrow> \<exists>idx' hs. move_loop idx inode sid target fs acc = (idx', Inr hs)"
  by (induction fs arbitrary: idx acc) (simp_all add: nextSeq_def Let_def split: prod.split)

context reliable_pebble
begin

lemma Move_same_tier:
  assumes ok: "index_ok view idx" and t: "\<And>f. f \<in> live (view (ixDB idx)) inode \<Longrightarrow> FTier f = target"
  shows "\<exists>idx'. Move P idx inode sid target = (idx', Inr ())"
proof -
  let ?pre = "FragmentStripePrefix inode sid"
  have d: "db_ok idx (view (ixDB idx))" using ok by (simp add: index_ok_def)
  obtain kvs where it: "DB_Iter P (ixDB idx) ?pre (PrefixUpperBound ?pre) = Inr (kvs, None)"
    using iter_total by (fastforce simp: DB_Iter_def)
  have fs: "\<forall>f \<in> set (decode_entries kvs). frag_at (view (ixDB idx)) inode sid f" using stripe_scan(1) [OF d it] by simp
  then have "list_all wf_frag (decode_entries kvs)" using frag_atD [OF d] by (fastforce simp: list_all_iff frag_ok_def)
  then have "\<forall>g \<in> set (canonicalView (decode_entries kvs)). FTier g = target"
    using canonicalView_part fs t unfolding live_def by (metis (mono_tags, lifting) mem_Collect_eq)
  then obtain idx1 hs where "move_loop idx inode sid target (canonicalView (decode_entries kvs)) [] = (idx1, Inr hs)"
    using move_loop_same_tier by blast
  moreover have "\<exists>idx2. commit_batch P idx1 b = (idx2, Inr ())" for b
    using commit_total [of "ixDB idx1" True b] by (auto simp: commit_batch_def Batch_Commit_def)
  ultimately show ?thesis using it by (simp add: Move_def Let_def)
qed

end

section \<open>Properties\<close>

lemma racing_write:
  "\<exists>idx idx1 co1. index_ok map_of idx \<and> file_byte idx (map_of (ixDB idx)) 1 4096 = Some 8 \<and>
     (\<forall>f \<in> live (map_of (ixDB idx)) 1. FTier f = TierHot) \<and>
     co_Write counter_sem (idx, newCoalescer counter_sem) 9 1 4096 [5] TierHot = ((idx1, co1), Inr ()) \<and>
     buffers_ok map_of (idx1, co1) \<and> ixDB idx1 = ixDB idx \<and> ixStripeSize idx1 = 4096 \<and> unat (ixSeqGen idx1) \<le> 3 \<and>
     file_byte idx1 (map_of (ixDB idx)) 1 4096 = Some 8 \<and> seen map_of (idx1, co1) 1 4096 = Some 5"
proof -
  obtain idx where idx: "AppendToWithTx mem_pebble fresh_index 1 4095 [7, 8] TierHot None = (idx, Inr ())" "index_ok map_of idx"
      "ixStripeSize idx = 4096" "unat (ixSeqGen idx) \<le> 2" "file_byte idx (map_of (ixDB idx)) 1 4096 = Some 8"
    using fresh_append by blast
  have hot: "\<forall>f \<in> live (map_of (ixDB idx)) 1. FTier f = TierHot"
    using mem.append_tier [OF fresh_index_ok _ _ _ _ _ _ idx(1)] by (simp add: max_off_def live_def frag_at_def)
  have ok: "buffers_ok map_of (idx, newCoalescer counter_sem)"
    using idx(2) by (simp add: buffers_ok_def newCoalescer_def newCoalescerWithOptions_def Let_def co_buf_def)
  let ?b = "\<lparr>bbExtents = [], bbBytes = 0, bbMaxEnd = 0, bbMtime = 0, bbDone = 0\<rparr>"
  obtain g b' where w: "write_chunks idx 4096 [5] ?b = ((idx\<lparr>ixSeqGen := g\<rparr>, b'), Inr ())" "unat g \<le> 3"
    using write_chunks_ok [of idx 4096 "[5]" TierHot ?b] idx(3,4) by (auto simp: max_off_def)
  obtain co1 where co1: "co_Write counter_sem (idx, newCoalescer counter_sem) 9 1 4096 [5] TierHot = ((idx\<lparr>ixSeqGen := g\<rparr>, co1), Inr ())"
    using w(1) by (simp add: co_Write_def newCoalescer_def newCoalescerWithOptions_def Let_def counter_sem_def getOrCreateBuf_def co_buf_def
        newBufBatch_def put_buf_def positive_or_def defaultCoalescerOptions_def)
  have e: "buffers_ok map_of (idx\<lparr>ixSeqGen := g\<rparr>, co1) \<and> seen map_of (idx\<lparr>ixSeqGen := g\<rparr>, co1) =
      written (seen map_of (idx, newCoalescer counter_sem)) 1 4096 [5]"
    using Write_effect [OF ok _ _ _ _ _ co1] idx(3,4)
    by (simp add: max_off_def newCoalescer_def newCoalescerWithOptions_def Let_def co_buf_def)
  have fb: "file_byte (idx\<lparr>ixSeqGen := g\<rparr>) (map_of (ixDB idx)) 1 4096 = Some 8"
  proof -
    have "loc_byte (idx\<lparr>ixSeqGen := g\<rparr>) f x = loc_byte idx f x" for f x by (simp add: loc_byte_def setFor_def)
    then have "file_byte (idx\<lparr>ixSeqGen := g\<rparr>) = file_byte idx" unfolding file_byte_def by presburger
    then show ?thesis using idx(5) by simp
  qed
  have sn: "seen map_of (idx\<lparr>ixSeqGen := g\<rparr>, co1) 1 4096 = Some 5" using e by (simp add: written_def)
  show ?thesis
    by (rule exI [of _ idx], rule exI [of _ "idx\<lparr>ixSeqGen := g\<rparr>"], rule exI [of _ co1]) (use idx(2,3,5) hot co1 w(2) e fb sn in simp)
qed

text \<open>
  C17: moving a stripe undoes a write that is still in the buffer. Once the stripe has been
  moved, even within its own tier, flushing the buffered write leaves the old byte on disk:
  the copy made by the move carries a larger sequence number than the write.
\<close>

theorem move_undoes_buffered_write:
  assumes "pebble_engine P view" "buffers_ok view (idx, co)" "target = TierHot \<or> target = TierCold"
    and "unat (ixSeqGen idx) + nat (ixStripeSize idx) < 2 ^ 64" "0 \<le> y" "y < max_off idx"
    and "file_byte idx (view (ixDB idx)) inode y = Some b" "seen view (idx, co) inode y \<noteq> Some b"
    and "Move P idx inode (stripeOf idx y) target = (idx1, Inr ())"
    and "flush_swap co inode = (co1, sw)" "flush_finish P W (idx1, co1) inode = ((idx2, co2), r)"
  shows "file_byte idx2 (view (ixDB idx2)) inode y = Some b \<and> file_byte idx2 (view (ixDB idx2)) inode y \<noteq> seen view (idx, co) inode y"
proof -
  have "buffers_ok view (idx, co1)" using flush_swap_effect [OF assms(2,10)] by simp
  then have "file_byte idx2 (view (ixDB idx2)) inode y = Some b"
    by (rule pebble_engine.move_then_flush [OF assms(1) _ assms(3-7,9,11)])
  then show ?thesis using assms(8) by simp
qed

theorem move_undoes_buffered_write_witness:
  "\<exists>idx idx1 co1 idx2 co2 sw idx3 co3 r.
     co_Write counter_sem (idx, newCoalescer counter_sem) 9 1 4096 [5] TierHot = ((idx1, co1), Inr ()) \<and>
     seen map_of (idx1, co1) 1 4096 = Some 5 \<and> Move mem_pebble idx1 1 1 TierHot = (idx2, Inr ()) \<and> flush_swap co1 1 = (co2, sw) \<and>
     flush_finish mem_pebble counter_sem (idx2, co2) 1 = ((idx3, co3), r) \<and> file_byte idx3 (map_of (ixDB idx3)) 1 4096 = Some 8"
proof -
  obtain idx idx1 co1 where w: "co_Write counter_sem (idx, newCoalescer counter_sem) 9 1 4096 [5] TierHot = ((idx1, co1), Inr ())"
      "buffers_ok map_of (idx1, co1)" "\<forall>f \<in> live (map_of (ixDB idx1)) 1. FTier f = TierHot" "ixStripeSize idx1 = 4096" "unat (ixSeqGen idx1) \<le> 3"
      "file_byte idx1 (map_of (ixDB idx1)) 1 4096 = Some 8" "seen map_of (idx1, co1) 1 4096 = Some 5"
    using racing_write by metis
  obtain idx2 where m: "Move mem_pebble idx1 1 (stripeOf idx1 4096) TierHot = (idx2, Inr ())"
    using mem.Move_same_tier [of idx1 1 TierHot "stripeOf idx1 4096"] w(2,3) by (auto simp: buffers_ok_def)
  obtain co2 sw where s: "flush_swap co1 1 = (co2, sw)" by fastforce
  obtain idx3 co3 r where f: "flush_finish mem_pebble counter_sem (idx2, co2) 1 = ((idx3, co3), r)" by (metis prod.collapse)
  have "file_byte idx3 (map_of (ixDB idx3)) 1 4096 = Some 8"
    using move_undoes_buffered_write [OF mem.pebble_engine_axioms w(2) _ _ _ _ w(6) _ m s f] w(4,5,7) by (simp add: max_off_def)
  moreover have "stripeOf idx1 4096 = 1" using w(4) by (simp add: stripeOf_def go_div_def u32_of_int64_def)
  ultimately show ?thesis using w(1,7) m s f by metis
qed

end
