(* ===== verification/Budget.thy ===== *)
theory Budget
  imports Write_Back "HOL-Library.Multiset"
begin

text \<open>
  The memory budget of the write-back buffer (\<open>src/store/coalescer.go\<close>). A write takes its
  bytes out of a weighted semaphore, and every way a byte leaves the buffer (flush, truncate,
  drop, refused write) gives it back. The semaphore is the package
  \<open>golang.org/x/sync/semaphore\<close>; what the buffer relies on is the locale \<open>weighted_sem\<close>. The
  books are kept on the multiset of the batches, of which each operation opens, changes or
  closes one.
\<close>

section \<open>The weighted semaphore\<close>

text \<open>
  \<open>held\<close> is what is taken, \<open>capacity\<close> the size given to \<open>NewWeighted\<close>. Releasing more than is
  held panics, so the law says nothing of it.
\<close>

locale weighted_sem =
  fixes W :: "'sem weighted" and held capacity :: "'sem \<Rightarrow> int"
  assumes new_sem: "0 \<le> n \<Longrightarrow> held (w_new W n) = 0 \<and> capacity (w_new W n) = n"
    and acquire_ok: "0 \<le> n \<Longrightarrow> w_acquire W s n = (s', Inr u) \<Longrightarrow>
      held s' = held s + n \<and> capacity s' = capacity s \<and> held s' \<le> capacity s'"
    and acquire_refused: "w_acquire W s n = (s', Inl e) \<Longrightarrow> held s' = held s \<and> capacity s' = capacity s"
    and release_ok: "n \<le> held s \<Longrightarrow>
      \<exists>s'. w_release W s n = (s', Inr ()) \<and> held s' = held s - n \<and> capacity s' = capacity s"

definition bounded_sem :: "(int \<times> int) weighted" where
  "bounded_sem = \<lparr>w_new = (\<lambda>n. (n, 0)),
     w_acquire = (\<lambda>(c, h) n. if h + n \<le> c then ((c, h + n), Inr ()) else ((c, h), Inl (ErrText ''context canceled''))),
     w_release = (\<lambda>(c, h) n. if h - n < 0 then ((c, h - n), Inl (Panic ''semaphore: released more than held''))
       else ((c, h - n), Inr ()))\<rparr>"

interpretation bsem: weighted_sem bounded_sem snd fst
  by unfold_locales (auto simp: bounded_sem_def split: if_splits)

section \<open>The ledger\<close>

definition batch_ok :: "bufBatch \<Rightarrow> bool" where
  "batch_ok b \<longleftrightarrow> bbBytes b = x_total (bbExtents b) \<and>
     (\<forall>x \<in> set (bbExtents b). 0 \<le> xOff x \<and> xOff x + int (length (xData x)) < 2 ^ 63)"

definition single :: "'a multiset \<Rightarrow> bool" where
  "single M \<longleftrightarrow> (\<forall>x. count M x \<le> 1)"

lemma single_add [simp]: "single (add_mset x M) \<longleftrightarrow> x \<notin># M \<and> single M"
proof
  assume "single (add_mset x M)"
  then have a: "count (add_mset x M) y \<le> 1" for y unfolding single_def by (rule spec)
  have "count M y \<le> 1" for y using a [of y] by (simp split: if_splits)
  moreover have "count M x = 0" using a [of x] by simp
  ultimately show "x \<notin># M \<and> single M" by (simp add: single_def count_eq_zero_iff)
next
  assume "x \<notin># M \<and> single M"
  then show "single (add_mset x M)" by (simp add: single_def not_in_iff)
qed

definition ledger :: "nat \<Rightarrow> nat set \<Rightarrow> int \<Rightarrow> bufBatch multiset \<Rightarrow> bool" where
  "ledger nxt cl h M \<longleftrightarrow> h = (\<Sum>b\<in>#M. bbBytes b) \<and> (\<forall>b \<in># M. batch_ok b \<and> bbDone b < nxt \<and> bbDone b \<notin> cl) \<and>
     single (image_mset bbDone M)"

lemma batch_nonneg: "batch_ok b \<Longrightarrow> 0 \<le> bbBytes b"
  using x_total_nonneg by (simp add: batch_ok_def)

lemma batches_nonneg: "\<forall>b \<in># M. batch_ok b \<Longrightarrow> 0 \<le> (\<Sum>b\<in>#M. bbBytes b)"
  by (induction M) (auto dest: batch_nonneg)

lemma ledger_open:
  assumes "ledger nxt cl h M" "bbExtents b = []" "bbBytes b = 0" "bbDone b = nxt" "\<forall>ch \<in> cl. ch < nxt"
  shows "ledger (Suc nxt) cl h (add_mset b M)"
  using assms by (auto simp: ledger_def batch_ok_def x_total_def less_SucI)

lemma ledger_change:
  assumes "ledger nxt cl h (add_mset b M)" "batch_ok b'" "bbDone b' = bbDone b"
  shows "ledger nxt cl (h + (bbBytes b' - bbBytes b)) (add_mset b' M)"
  using assms by (auto simp: ledger_def)

lemma ledger_close:
  assumes "ledger nxt cl h (add_mset b M)"
  shows "ledger nxt (insert (bbDone b) cl) (h - bbBytes b) M" "bbDone b \<notin> cl" "bbDone b < nxt" "0 \<le> bbBytes b" "bbBytes b \<le> h"
proof -
  show "ledger nxt (insert (bbDone b) cl) (h - bbBytes b) M"
    using assms by (auto simp: ledger_def) (metis imageI)
  show "bbDone b \<notin> cl" "bbDone b < nxt" "0 \<le> bbBytes b" using assms by (auto simp: ledger_def intro: batch_nonneg)
  have "0 \<le> (\<Sum>a\<in>#M. bbBytes a)" using assms by (intro batches_nonneg) (simp add: ledger_def)
  then show "bbBytes b \<le> h" using assms by (simp add: ledger_def)
qed

section \<open>The batches of the buffer\<close>

definition batches_of :: "inodeBuf \<Rightarrow> bufBatch multiset" where
  "batches_of buf = mset (List.map_filter id [ibCurrent buf, ibFlushing buf])"

definition batches :: "'sem coalescer \<Rightarrow> bufBatch multiset" where
  "batches co = (\<Sum>(i, buf)\<leftarrow>coBuffers co. batches_of buf)"

definition batches_at :: "'sem coalescer \<Rightarrow> u64 \<Rightarrow> bufBatch multiset" where
  "batches_at co i = (case co_buf co i of None \<Rightarrow> {#} | Some buf \<Rightarrow> batches_of buf)"

lemma batches_of_simps [simp]:
  "batches_of buf = (case ibCurrent buf of None \<Rightarrow> {#} | Some b \<Rightarrow> {#b#}) + (case ibFlushing buf of None \<Rightarrow> {#} | Some b \<Rightarrow> {#b#})"
  by (simp add: batches_of_def List.map_filter_def split: option.split)

lemma sum_delete:
  fixes f :: "'v \<Rightarrow> 'm :: cancel_comm_monoid_add"
  shows "distinct (map fst bs) \<Longrightarrow> (\<Sum>(k, v)\<leftarrow>bs. f v) =
    (\<Sum>(k, v)\<leftarrow>AList.delete i bs. f v) + (case map_of bs i of None \<Rightarrow> 0 | Some v \<Rightarrow> f v)"
proof (induction bs)
  case (Cons b bs)
  show ?case
  proof (cases "fst b = i")
    case True
    then have "AList.delete i bs = bs" using Cons.prems by (simp add: delete_id)
    then show ?thesis using True by (simp add: case_prod_beta add.commute)
  qed (use Cons in \<open>simp add: case_prod_beta add.assoc\<close>)
qed simp

lemma sum_update:
  fixes f :: "'v \<Rightarrow> 'm :: cancel_comm_monoid_add"
  shows "distinct (map fst bs) \<Longrightarrow> (\<Sum>(k, v)\<leftarrow>AList.update i new bs. f v) = (\<Sum>(k, v)\<leftarrow>AList.delete i bs. f v) + f new"
proof (induction bs)
  case (Cons b bs)
  show ?case
  proof (cases "fst b = i")
    case True
    then have "AList.delete i bs = bs" using Cons.prems by (simp add: delete_id)
    then show ?thesis using True by (cases b) (simp add: add.commute)
  qed (use Cons in \<open>cases b, simp add: add.assoc\<close>)
qed simp

lemma batches_split:
  assumes "distinct (map fst (coBuffers co))"
  obtains R where "batches co = R + batches_at co i" "batches (drop_buf i co) = R"
    "\<And>buf. batches (put_buf i buf co) = R + batches_of buf"
  using that [of "batches (drop_buf i co)"] sum_delete [OF assms, of batches_of i] sum_update [OF assms, of batches_of i]
  by (simp add: batches_def drop_buf_def put_buf_def batches_at_def co_buf_def cong: option.case_cong del: batches_of_simps)

lemma batches_same [simp]:
  "batches (co\<lparr>coSem := s\<rparr>) = batches co" "batches (co\<lparr>coNextChan := n\<rparr>) = batches co" "batches (co\<lparr>coClosed := cl\<rparr>) = batches co"
  "batches (co\<lparr>coQueue := q\<rparr>) = batches co" "batches (co\<lparr>coClosing := c\<rparr>) = batches co"
  by (simp_all add: batches_def)

lemma put_buf_sel [simp]:
  "coSem (put_buf i buf co) = coSem co" "coNextChan (put_buf i buf co) = coNextChan co" "coClosed (put_buf i buf co) = coClosed co"
  "distinct (map fst (coBuffers co)) \<Longrightarrow> distinct (map fst (coBuffers (put_buf i buf co)))"
  by (simp_all add: put_buf_def distinct_update)

lemma drop_buf_sel [simp]:
  "coSem (drop_buf i co) = coSem co" "coNextChan (drop_buf i co) = coNextChan co" "coClosed (drop_buf i co) = coClosed co"
  "distinct (map fst (coBuffers co)) \<Longrightarrow> distinct (map fst (coBuffers (drop_buf i co)))"
  by (simp_all add: drop_buf_def distinct_delete)

definition budget_ok :: "('sem \<Rightarrow> int) \<Rightarrow> ('sem \<Rightarrow> int) \<Rightarrow> 'sem coalescer \<Rightarrow> bool" where
  "budget_ok held capacity co \<longleftrightarrow> distinct (map fst (coBuffers co)) \<and>
     ledger (coNextChan co) (set (coClosed co)) (held (coSem co)) (batches co) \<and> (\<forall>ch \<in> set (coClosed co). ch < coNextChan co) \<and>
     held (coSem co) \<le> capacity (coSem co) \<and> capacity (coSem co) < 2 ^ 63"

lemma budget_ok_same [simp]:
  "budget_ok h c (co\<lparr>coQueue := q\<rparr>) = budget_ok h c co" "budget_ok h c (co\<lparr>coClosing := b\<rparr>) = budget_ok h c co"
  "budget_ok h c (try_enqueue req co) = budget_ok h c co"
  by (simp_all add: budget_ok_def try_enqueue_def)

section \<open>The operations keep the books\<close>

context weighted_sem
begin

abbreviation balanced :: "'sem coalescer \<Rightarrow> bool" where
  "balanced co \<equiv> budget_ok held capacity co"

text \<open>What is returned is what a closed batch had taken.\<close>

lemma close_batch:
  assumes ok: "balanced co" and m: "batches co = add_mset b M" "batches co1 = M"
    and c: "coSem co1 = coSem co" "coNextChan co1 = coNextChan co" "coClosed co1 = coClosed co" "distinct (map fst (coBuffers co1))"
  shows "\<exists>co2. close_chan (bbDone b) co1 = (co2, Inr ()) \<and> co_buf co2 = co_buf co1 \<and>
    (\<exists>co3. sem_release W (bbBytes b) co2 = (co3, Inr ()) \<and> balanced co3 \<and> co_buf co3 = co_buf co1 \<and> coBuffers co3 = coBuffers co1) \<and>
    (bbBytes b = 0 \<longrightarrow> balanced co2) \<and> coBuffers co2 = coBuffers co1"
proof -
  have l: "ledger (coNextChan co) (set (coClosed co)) (held (coSem co)) (add_mset b M)" using ok m by (simp add: budget_ok_def)
  note cl = ledger_close [OF l]
  let ?co2 = "co1\<lparr>coClosed := bbDone b # coClosed co1\<rparr>"
  obtain s' where s: "w_release W (coSem co) (bbBytes b) = (s', Inr ())" "held s' = held (coSem co) - bbBytes b" "capacity s' = capacity (coSem co)"
    using release_ok [OF cl(5)] by blast
  have "balanced (?co2\<lparr>coSem := s'\<rparr>)" using ok cl(1,3,4) c m(2) s(2,3) by (auto simp: budget_ok_def)
  moreover have "bbBytes b = 0 \<longrightarrow> balanced ?co2" using ok cl(1,3) c m(2) by (auto simp: budget_ok_def)
  ultimately show ?thesis using cl(2) c s(1) by (simp add: close_chan_def sem_release_def)
qed

lemma flush_finish_balanced:
  assumes ok: "balanced co" and r: "flush_finish P W (idx, co) inode = ((idx', co'), r)"
  shows "balanced co' \<and> r = Inr () \<and> (\<forall>buf. co_buf co' inode = Some buf \<longrightarrow> ibFlushing buf = None)"
proof (cases "\<exists>buf batch. co_buf co inode = Some buf \<and> ibFlushing buf = Some batch")
  case False
  then show ?thesis using r ok by (auto simp: flush_finish_def split: option.splits)
next
  case True
  then obtain buf batch where b: "co_buf co inode = Some buf" "ibFlushing buf = Some batch" by blast
  obtain idx1 r1 where a: "AppendBatch P idx inode (map (append_extent (ibTier buf)) (bbExtents batch))
      (Some (node_hook P inode (bbMaxEnd batch) (bbMtime batch) ''store: coalescer flush: no node entry'')) = (idx1, r1)" by fastforce
  let ?buf = "settle r1 batch buf"
  have s: "ibFlushing ?buf = None" "ibCurrent ?buf = ibCurrent buf" by (auto simp: settle_def split: sum.split)
  have d: "distinct (map fst (coBuffers co))" using ok by (simp add: budget_ok_def)
  obtain R where "batches co = R + batches_at co inode" "batches (put_buf inode ?buf co) = R + batches_of ?buf"
    using batches_split [OF d] by metis
  then have "batches co = add_mset batch (batches (put_buf inode ?buf co))" using b s by (simp add: batches_at_def)
  from close_batch [OF ok this refl] d obtain co2 co3 where "close_chan (bbDone batch) (put_buf inode ?buf co) = (co2, Inr ())"
      "sem_release W (bbBytes batch) co2 = (co3, Inr ())" "balanced co3" "co_buf co3 = co_buf (put_buf inode ?buf co)" by auto
  then show ?thesis using r a b s by (auto simp: flush_finish_def)
qed

lemma newBufBatch_balanced:
  assumes ok: "balanced co" and d: "distinct (map fst (coBuffers co'))"
    and b: "batches co' = add_mset nb (batches co)" "newBufBatch co = (co1, nb)"
    and c: "coSem co' = coSem co" "coNextChan co' = coNextChan co1" "coClosed co' = coClosed co"
  shows "balanced co'"
proof -
  have nb: "bbExtents nb = []" "bbBytes nb = 0" "bbDone nb = coNextChan co" "coNextChan co1 = Suc (coNextChan co)"
    using b(2) by (auto simp: newBufBatch_def)
  show ?thesis using ok d b c ledger_open [OF _ nb(1-3)] by (auto simp: budget_ok_def nb(4) less_SucI)
qed

lemma flush_swap_balanced:
  assumes ok: "balanced co" and r: "flush_swap co inode = (co', sw)"
  shows "balanced co'"
proof (cases "\<exists>buf batch. co_buf co inode = Some buf \<and> ibCurrent buf = Some batch \<and> ibFlushing buf = None \<and> bbBytes batch \<noteq> 0")
  case False
  then show ?thesis using r ok by (auto simp: flush_swap_def split: option.splits if_splits)
next
  case True
  then obtain buf batch where b: "co_buf co inode = Some buf" "ibCurrent buf = Some batch" "ibFlushing buf = None" "bbBytes batch \<noteq> 0" by blast
  obtain co1 nb where nb: "newBufBatch co = (co1, nb)" by fastforce
  let ?buf = "buf\<lparr>ibFlushing := Some batch, ibCurrent := Some nb\<rparr>"
  have d: "distinct (map fst (coBuffers co))" using ok by (simp add: budget_ok_def)
  have c: "co' = put_buf inode ?buf co1" using r b nb by (simp add: flush_swap_def)
  have n: "co1 = co\<lparr>coNextChan := Suc (coNextChan co)\<rparr>" using nb by (auto simp: newBufBatch_def)
  have p: "batches (put_buf inode ?buf co1) = batches (put_buf inode ?buf co)" by (simp add: n put_buf_def batches_def)
  obtain R where "batches co = R + batches_at co inode" "batches (put_buf inode ?buf co) = R + batches_of ?buf"
    using batches_split [OF d] by metis
  then have "batches co' = add_mset nb (batches co)" using b p by (simp add: batches_at_def c)
  then show ?thesis using d by (intro newBufBatch_balanced [OF ok _ _ nb]) (simp_all add: c n)
qed

lemma flushInode_balanced:
  assumes ok: "balanced co" and r: "flushInode P W (idx, co) \<lparr>frInode = inode, frFired = None\<rparr> = ((idx', co'), r)"
  shows "balanced co' \<and> r = Inr ()"
proof -
  obtain co1 sw where s: "flush_swap co inode = (co1, sw)" by fastforce
  show ?thesis
    using r s flush_swap_balanced [OF ok s] flush_finish_balanced [of co1 P idx inode idx' co' r]
    by (auto simp: flushInode_def close_fired_def split: if_splits)
qed

lemma Fsync_balanced:
  assumes ok: "balanced co" and r: "co_Fsync P W (idx, co) inode = ((idx', co'), r)"
  shows "balanced co'"
proof (cases "\<exists>buf. co_buf co inode = Some buf \<and> ibPoisoned buf = None")
  case False
  then show ?thesis using r ok by (auto simp: co_Fsync_def split: option.splits)
next
  case True
  then obtain buf where b: "co_buf co inode = Some buf" "ibPoisoned buf = None" by blast
  obtain idx1 co1 r1 where f1: "flush_finish P W (idx, co) inode = ((idx1, co1), r1)" by (metis prod.collapse)
  note e1 = flush_finish_balanced [OF ok f1]
  obtain idx2 co2 r2 where f2: "flushInode P W (idx1, co1) \<lparr>frInode = inode, frFired = None\<rparr> = ((idx2, co2), r2)" by (metis prod.collapse)
  note e2 = flushInode_balanced [OF conjunct1 [OF e1] f2]
  show ?thesis using r b f1 f2 e1 e2 by (auto simp: co_Fsync_def Let_def split: option.splits if_splits)
qed

lemma Drop_balanced:
  assumes ok: "balanced co" and r: "co_Drop P W (idx, co) inode = ((idx', co'), r)"
  shows "balanced co' \<and> r = Inr () \<and> co_buf co' inode = None"
proof (cases "co_buf co inode")
  case None
  then show ?thesis using r ok by (simp add: co_Drop_def)
next
  case (Some buf0)
  obtain idx1 co1 r1 where f1: "flush_finish P W (idx, co) inode = ((idx1, co1), r1)" by (metis prod.collapse)
  have ok1: "balanced co1" "r1 = Inr ()" and fl: "\<And>buf. co_buf co1 inode = Some buf \<Longrightarrow> ibFlushing buf = None"
    using flush_finish_balanced [OF ok f1] by auto
  have d: "distinct (map fst (coBuffers co1))" using ok1(1) by (simp add: budget_ok_def)
  show ?thesis
  proof (cases "co_buf co1 inode")
    case None
    then show ?thesis using r f1 ok1 Some by (simp add: co_Drop_def)
  next
    case buf: (Some buf)
    have gone: "co_buf (drop_buf inode c) inode = None" for c :: "'sem coalescer" by (simp add: co_buf_def drop_buf_def delete_conv')
    have dr: "balanced (drop_buf inode c)" if "balanced c" "batches_at c inode = {#}" for c
    proof -
      have dc: "distinct (map fst (coBuffers c))" using that(1) by (simp add: budget_ok_def)
      have "batches (drop_buf inode c) = batches c" using batches_split [OF dc, of inode] that(2) by (metis add.right_neutral)
      then show ?thesis using that(1) dc by (simp add: budget_ok_def)
    qed
    show ?thesis
    proof (cases "ibCurrent buf")
      case None
      then have "batches_at co1 inode = {#}" using buf fl by (simp add: batches_at_def)
      then show ?thesis using r f1 ok1 Some buf None gone dr by (auto simp: co_Drop_def)
    next
      case b: (Some b)
      let ?buf = "buf\<lparr>ibCurrent := None, ibLiveSize := 0, ibLiveMtime := 0\<rparr>" and ?co = "put_buf inode (buf\<lparr>ibCurrent := None, ibLiveSize := 0, ibLiveMtime := 0\<rparr>) co1"
      obtain R where "batches co1 = R + batches_at co1 inode" "batches ?co = R + batches_of ?buf" using batches_split [OF d] by metis
      then have m: "batches co1 = add_mset b (batches ?co)" using buf b fl by (simp add: batches_at_def)
      from close_batch [OF ok1(1) m refl] d obtain co2 co3 where c: "close_chan (bbDone b) ?co = (co2, Inr ())" "co_buf co2 = co_buf ?co"
          "sem_release W (bbBytes b) co2 = (co3, Inr ())" "balanced co3" "co_buf co3 = co_buf ?co" "bbBytes b = 0 \<longrightarrow> balanced co2" by auto
      have "0 \<le> bbBytes b" using ok1(1) m by (auto simp: budget_ok_def ledger_def intro: batch_nonneg)
      then have "bbBytes b > 0 \<or> bbBytes b = 0" by auto
      then show ?thesis
        using r f1 ok1 Some buf b c gone fl by (auto simp: co_Drop_def batches_at_def intro!: dr)
    qed
  qed
qed

text \<open>A write takes its bytes out of the semaphore and puts exactly them into the current batch.\<close>

lemma getOrCreateBuf_batches:
  assumes "distinct (map fst (coBuffers co))" "getOrCreateBuf co inode tier = (co1, buf)"
  shows "batches co1 = batches co" "co_buf co1 inode = Some buf" "coSem co1 = coSem co" "coNextChan co1 = coNextChan co"
    "coClosed co1 = coClosed co" "distinct (map fst (coBuffers co1))"
proof -
  have "batches co1 = batches co \<and> co_buf co1 inode = Some buf \<and> coSem co1 = coSem co \<and> coNextChan co1 = coNextChan co \<and>
    coClosed co1 = coClosed co \<and> distinct (map fst (coBuffers co1))"
  proof (cases "co_buf co inode")
    case None
    obtain R where "batches co = R + batches_at co inode" "\<And>b. batches (put_buf inode b co) = R + batches_of b"
      using batches_split [OF assms(1)] by metis
    then show ?thesis using assms None by (auto simp: getOrCreateBuf_def Let_def batches_at_def)
  qed (use assms in \<open>auto simp: getOrCreateBuf_def\<close>)
  then show "batches co1 = batches co" "co_buf co1 inode = Some buf" "coSem co1 = coSem co" "coNextChan co1 = coNextChan co"
    "coClosed co1 = coClosed co" "distinct (map fst (coBuffers co1))" by simp_all
qed

lemma Write_balanced:
  assumes ok: "balanced co" and ss: "0 < ixStripeSize idx" and rng: "0 \<le> off" "off + int (length data) \<le> max_off idx"
    and sq: "unat (ixSeqGen idx) + length data < 2 ^ 64"
    and r: "co_Write W (idx, co) now inode off data tier = ((idx', co'), r)"
  shows "balanced co'"
proof (cases "coClosing co \<or> data = []")
  case True
  then show ?thesis using r ok by (auto simp: co_Write_def split: if_splits)
next
  case go: False
  let ?n = "int (length data)"
  have d: "distinct (map fst (coBuffers co))" using ok by (simp add: budget_ok_def)
  obtain sem ra where aq: "w_acquire W (coSem co) ?n = (sem, ra)" by fastforce
  show ?thesis
  proof (cases ra)
    case (Inl e)
    then show ?thesis using r go aq ok acquire_refused [of "coSem co" ?n sem e] by (auto simp: co_Write_def budget_ok_def)
  next
    case (Inr u)
    have h: "held sem = held (coSem co) + ?n" "capacity sem = capacity (coSem co)" "held sem \<le> capacity sem"
      using acquire_ok [OF _ aq [unfolded Inr]] by simp_all
    obtain co1 buf where gb: "getOrCreateBuf (co\<lparr>coSem := sem\<rparr>) inode tier = (co1, buf)" by fastforce
    note g = getOrCreateBuf_batches [OF _ gb, simplified, OF d]
    have l1: "ledger (coNextChan co1) (set (coClosed co1)) (held (coSem co)) (batches co1)" "\<forall>ch \<in> set (coClosed co1). ch < coNextChan co1"
        "capacity (coSem co1) < 2 ^ 63"
      using ok g h by (simp_all add: budget_ok_def)
    show ?thesis
    proof (cases "ibPoisoned buf")
      case (Some e)
      have "0 \<le> held (coSem co)" using l1(1) batches_nonneg by (auto simp: ledger_def)
      then obtain s' where "w_release W sem ?n = (s', Inr ())" "held s' = held sem - ?n" "capacity s' = capacity sem"
        using release_ok [of ?n sem] h by auto
      then have "co' = co1\<lparr>coSem := s'\<rparr> \<and> held s' = held (coSem co) \<and> capacity s' = capacity (coSem co)"
        using r go aq Inr gb Some g(3) h by (auto simp: co_Write_def sem_release_def)
      then show ?thesis using ok g l1 by (auto simp: budget_ok_def)
    next
      case None
      obtain co2 b where nb: "(case ibCurrent buf of Some b \<Rightarrow> (co1, b) | None \<Rightarrow> newBufBatch co1) = (co2, b)" by fastforce
      obtain R where R: "batches co1 = R + batches_at co1 inode" "\<And>x. batches (put_buf inode x co1) = R + batches_of x"
        using batches_split [OF g(6)] by metis
      define F where "F = (case ibFlushing buf of None \<Rightarrow> {#} | Some b \<Rightarrow> {#b#})"
      have l2: "ledger (coNextChan co2) (set (coClosed co2)) (held (coSem co)) (add_mset b (R + F))" "\<forall>ch \<in> set (coClosed co2). ch < coNextChan co2"
          "coBuffers co2 = coBuffers co1" "coSem co2 = sem"
        using nb l1 g(2,3) R(1) ledger_open [OF l1(1) _ _ _ l1(2)]
        by (auto simp: batches_at_def F_def newBufBatch_def less_SucI split: option.splits)
      have bb: "0 \<le> bbBytes b" "bbBytes b + ?n < 2 ^ 63" "batch_ok b"
        using ledger_close(4,5) [OF l2(1)] l2(1) h l1(3) g(3) by (auto simp: ledger_def)
      obtain xs k b' where w: "write_chunks idx off data b = ((idx\<lparr>ixSeqGen := k\<rparr>, b'), Inr ())" "bbDone b' = bbDone b"
          "bbExtents b' = bbExtents b @ xs" "bbBytes b' = bbBytes b + ?n" "grown idx k TierHot off data xs"
        using write_chunks_ok [OF ss rng _ sq bb(1,2), of TierHot] by blast
      have "max_off idx < 2 ^ 63" using ss by (simp add: max_off_def)
      then have "batch_ok (b'\<lparr>bbMtime := now\<rparr>)"
        using bb(3) w(3-5) by (auto simp: batch_ok_def grown_def ext_ok_def append_extent_def x_total_def)
      from ledger_change [OF l2(1) this] have l3: "ledger (coNextChan co2) (set (coClosed co2)) (held sem) (add_mset (b'\<lparr>bbMtime := now\<rparr>) (R + F))"
        using w(2,4) h(1) by simp
      define buf1 where "buf1 = buf\<lparr>ibCurrent := Some (b'\<lparr>bbMtime := now\<rparr>),
          ibLiveSize := (if i64 (off + int (length data)) > ibLiveSize buf then i64 (off + int (length data)) else ibLiveSize buf),
          ibLiveMtime := now\<rparr>"
      have "batches (put_buf inode buf1 co2) = batches (put_buf inode buf1 co1)" using l2(3) by (simp add: batches_def put_buf_def)
      then have "balanced (put_buf inode buf1 co2)"
        using l3 l2 h l1(3) g(3,6) R(2) by (simp add: budget_ok_def buf1_def F_def)
      moreover have "co' = put_buf inode buf1 co2 \<or> (\<exists>req. co' = try_enqueue req (put_buf inode buf1 co2))"
        using r go aq Inr gb None nb w(1) by (auto simp: co_Write_def Let_def buf1_def split: if_splits)
      ultimately show ?thesis by auto
    qed
  qed
qed

end

section \<open>Truncation\<close>

text \<open>The bytes of the extents at or past an offset.\<close>

definition past_size :: "int \<Rightarrow> bufExtent list \<Rightarrow> int" where
  "past_size sz xs = (\<Sum>x\<leftarrow>xs. if xOff x \<ge> sz then int (length (xData x)) else max 0 (xOff x + int (length (xData x)) - sz))"

abbreviation in_range_x :: "bufExtent \<Rightarrow> bool" where
  "in_range_x x \<equiv> 0 \<le> xOff x \<and> xOff x + int (length (xData x)) < 2 ^ 63"

lemma past_size_bounds: "0 \<le> past_size sz xs" "past_size sz xs \<le> x_total xs"
  by (induction xs) (auto simp: past_size_def x_total_def)

lemma clip_extents_eq:
  assumes "\<forall>x \<in> set xs. in_range_x x" "0 \<le> sz" "sz < 2 ^ 63" "0 \<le> fr" "fr + x_total xs < 2 ^ 63"
  shows "\<exists>ks m'. clip_extents sz xs (kept, m, fr) = (kept @ ks, m', fr + past_size sz xs) \<and>
    (\<forall>x \<in> set ks. in_range_x x) \<and> x_total ks = x_total xs - past_size sz xs"
  using assms
proof (induction xs arbitrary: kept m fr)
  case Nil
  then show ?case by (simp add: past_size_def x_total_def)
next
  case (Cons x xs)
  let ?l = "int (length (xData x))"
  have x: "in_range_x x" "xEnd x = xOff x + ?l" using Cons.prems(1) by (auto simp: xEnd_def i64_small)
  have t: "x_total (x # xs) = ?l + x_total xs" "0 \<le> x_total xs" using x_total_nonneg by (simp_all add: x_total_def)
  consider (all) "xOff x \<ge> sz" | (cut) "xOff x < sz" "xEnd x > sz" | (keep) "xOff x < sz" "xEnd x \<le> sz" by linarith
  then show ?case
  proof cases
    case all
    have "i64 (fr + ?l) = fr + ?l" using Cons.prems t by (intro i64_small) auto
    then show ?thesis using Cons.IH [of "fr + ?l" kept m] Cons.prems t all by (auto simp: past_size_def algebra_simps)
  next
    case cut
    let ?y = "x\<lparr>xData := take (nat (sz - xOff x)) (xData x)\<rparr>" and ?fr = "fr + (?l - (sz - xOff x))"
    have e: "i64 (sz - xOff x) = sz - xOff x" "i64 (?l - (sz - xOff x)) = ?l - (sz - xOff x)" "i64 ?fr = ?fr"
      using cut x Cons.prems t by (auto intro!: i64_small)
    have y: "in_range_x ?y" "x_total [?y] = sz - xOff x" using x cut by (auto simp: x_total_def)
    let ?m = "if i64 (xOff x + (sz - xOff x)) > m then i64 (xOff x + (sz - xOff x)) else m"
    have "\<exists>ks m'. clip_extents sz xs (kept @ [?y], ?m, ?fr) = ((kept @ [?y]) @ ks, m', ?fr + past_size sz xs) \<and>
        (\<forall>x \<in> set ks. in_range_x x) \<and> x_total ks = x_total xs - past_size sz xs"
      using Cons.prems t cut x by (intro Cons.IH) auto
    then obtain ks m' where k: "clip_extents sz xs (kept @ [?y], ?m, ?fr) = (kept @ ?y # ks, m', ?fr + past_size sz xs)"
        "\<forall>x \<in> set ks. in_range_x x" "x_total ks = x_total xs - past_size sz xs" by auto
    have p: "past_size sz (x # xs) = (?l - (sz - xOff x)) + past_size sz xs" using cut x by (simp add: past_size_def)
    have "clip_extents sz (x # xs) (kept, m, fr) = (kept @ ?y # ks, m', fr + past_size sz (x # xs))"
      using k(1) cut e by (simp add: Let_def p)
    moreover have "x_total (?y # ks) = x_total (x # xs) - past_size sz (x # xs)" using k(3) y(2) p t by (simp add: x_total_def)
    ultimately show ?thesis using k(2) y(1) by (metis set_ConsD)
  next
    case keep
    let ?m = "if xEnd x > m then xEnd x else m"
    obtain ks m' where k: "clip_extents sz xs (kept @ [x], ?m, fr) = ((kept @ [x]) @ ks, m', fr + past_size sz xs)"
        "\<forall>x \<in> set ks. in_range_x x" "x_total ks = x_total xs - past_size sz xs"
      using Cons.IH [of fr "kept @ [x]" ?m] Cons.prems t by auto
    have p: "past_size sz (x # xs) = past_size sz xs" using keep x by (simp add: past_size_def)
    have "clip_extents sz (x # xs) (kept, m, fr) = (kept @ x # ks, m', fr + past_size sz (x # xs))"
      using k(1) keep by (simp add: p)
    moreover have "x_total (x # ks) = x_total (x # xs) - past_size sz (x # xs)" using k(3) p by (simp add: x_total_def)
    ultimately show ?thesis using k(2) x(1) by (metis set_ConsD)
  qed
qed

lemma clip_batch_eq:
  assumes b: "batch_ok b" and sz: "0 \<le> sz" "sz < 2 ^ 63" and fr: "0 \<le> fr" "fr + bbBytes b < 2 ^ 63"
  shows "\<exists>b'. clip_batch sz (Some b) fr = (Some b', fr + past_size sz (bbExtents b)) \<and> bbDone b' = bbDone b \<and>
    (\<forall>x \<in> set (bbExtents b'). in_range_x x) \<and> x_total (bbExtents b') = bbBytes b - past_size sz (bbExtents b) \<and>
    bbBytes b' = x_total (bbExtents b') - fr"
proof -
  have t: "bbBytes b = x_total (bbExtents b)" "\<forall>x \<in> set (bbExtents b). in_range_x x" using b by (auto simp: batch_ok_def)
  obtain ks m' where k: "clip_extents sz (bbExtents b) ([], 0, fr) = (ks, m', fr + past_size sz (bbExtents b))"
      "\<forall>x \<in> set ks. in_range_x x" "x_total ks = x_total (bbExtents b) - past_size sz (bbExtents b)"
    using clip_extents_eq [OF t(2) sz fr(1), of "[]" 0] fr(2) t(1) by auto
  have "i64 (bbBytes b - (fr + past_size sz (bbExtents b))) = bbBytes b - (fr + past_size sz (bbExtents b))"
    using past_size_bounds [of sz "bbExtents b"] t(1) fr batch_nonneg [OF b] by (intro i64_id) (auto simp: in_i64_def)
  then show ?thesis using k t(1) by (auto simp: clip_batch_def)
qed

context weighted_sem
begin

text \<open>The two batches of a buffer, and the sum of what is held beside them.\<close>

lemma batch_bytes:
  assumes ok: "balanced co" and b: "co_buf co inode = Some buf"
  obtains R where "batches co = R + batches_of buf" "\<And>x. batches (put_buf inode x co) = R + batches_of x"
    "held (coSem co) = (\<Sum>b\<in>#R. bbBytes b) + (\<Sum>b\<in>#batches_of buf. bbBytes b)" "0 \<le> (\<Sum>b\<in>#R. bbBytes b)"
    "\<forall>b \<in># R + batches_of buf. batch_ok b" "held (coSem co) < 2 ^ 63"
proof -
  have d: "distinct (map fst (coBuffers co))" using ok by (simp add: budget_ok_def)
  obtain R where R: "batches co = R + batches_of buf" "\<And>x. batches (put_buf inode x co) = R + batches_of x"
    using batches_split [OF d, of inode] b unfolding batches_at_def by (metis option.simps(5))
  have l: "held (coSem co) = (\<Sum>b\<in>#R + batches_of buf. bbBytes b)" "\<forall>b \<in># R + batches_of buf. batch_ok b"
    using ok unfolding budget_ok_def R(1) ledger_def by blast+
  have "0 \<le> (\<Sum>b\<in>#R. bbBytes b)" using l(2) by (intro batches_nonneg) auto
  moreover have "held (coSem co) < 2 ^ 63" using ok by (simp add: budget_ok_def)
  ultimately show ?thesis using that R l by (simp del: batches_of_simps)
qed

text \<open>With no flush in flight a truncation gives back exactly what it cuts.\<close>

lemma truncate_balanced:
  assumes ok: "balanced co" and sz: "0 \<le> sz" "sz < 2 ^ 63" and fl: "\<And>buf. co_buf co inode = Some buf \<Longrightarrow> ibFlushing buf = None"
    and r: "InvalidatePastSize W co inode sz = (co', r)"
  shows "balanced co' \<and> r = Inr ()"
proof (cases "co_buf co inode")
  case None
  then show ?thesis using r ok by (simp add: InvalidatePastSize_def)
next
  case (Some buf)
  have d: "distinct (map fst (coBuffers co))" using ok by (simp add: budget_ok_def)
  obtain R where R: "batches co = R + batches_of buf" "\<And>x. batches (put_buf inode x co) = R + batches_of x"
      "held (coSem co) = (\<Sum>b\<in>#R. bbBytes b) + (\<Sum>b\<in>#batches_of buf. bbBytes b)" "0 \<le> (\<Sum>b\<in>#R. bbBytes b)"
      "\<forall>b \<in># R + batches_of buf. batch_ok b" "held (coSem co) < 2 ^ 63"
    using batch_bytes [OF ok Some] by blast
  define live where "live = (if ibLiveSize buf > sz then sz else ibLiveSize buf)"
  show ?thesis
  proof (cases "ibCurrent buf")
    case None
    have "co' = put_buf inode (buf\<lparr>ibCurrent := None, ibFlushing := None, ibLiveSize := live\<rparr>) co" "r = Inr ()"
      using r Some fl None by (auto simp: InvalidatePastSize_def clip_batch_def Let_def live_def)
    then show ?thesis using ok d R(1,2) fl [OF Some] None by (simp add: budget_ok_def)
  next
    case b: (Some b)
    have bb: "batch_ok b" "0 + bbBytes b < 2 ^ 63" "bbBytes b \<le> held (coSem co)" using R(3-6) b fl [OF Some] by simp_all
    obtain b' where k: "clip_batch sz (Some b) 0 = (Some b', past_size sz (bbExtents b))" "bbDone b' = bbDone b"
        "\<forall>x \<in> set (bbExtents b'). in_range_x x" "x_total (bbExtents b') = bbBytes b - past_size sz (bbExtents b)"
        "bbBytes b' = x_total (bbExtents b')"
      using clip_batch_eq [OF bb(1) sz _ bb(2)] by auto
    let ?f = "past_size sz (bbExtents b)" and ?co = "put_buf inode (buf\<lparr>ibCurrent := Some b', ibFlushing := None, ibLiveSize := live\<rparr>) co"
    have f: "0 \<le> ?f" "?f \<le> held (coSem co)" using past_size_bounds [of sz "bbExtents b"] bb by (auto simp: batch_ok_def)
    obtain s' where s: "w_release W (coSem co) ?f = (s', Inr ())" "held s' = held (coSem co) - ?f" "capacity s' = capacity (coSem co)"
      using release_ok [OF f(2)] by blast
    have l: "ledger (coNextChan co) (set (coClosed co)) (held (coSem co)) (add_mset b R)"
      using ok R(1) b fl [OF Some] by (simp add: budget_ok_def)
    have "batch_ok b'" using k by (simp add: batch_ok_def)
    from ledger_change [OF l this k(2)] have "ledger (coNextChan co) (set (coClosed co)) (held (coSem co) - ?f) (add_mset b' R)"
      using k(4,5) by simp
    then have "balanced (?co\<lparr>coSem := s'\<rparr>)" "?f = 0 \<longrightarrow> balanced ?co" using ok d R(2) s f by (auto simp: budget_ok_def)
    moreover have "(co', r) = (if ?f > 0 then (?co\<lparr>coSem := s'\<rparr>, Inr ()) else (?co, Inr ()))"
      using r Some b fl [OF Some] k(1) s(1) by (auto simp: InvalidatePastSize_def clip_batch_def [of sz None] Let_def live_def sem_release_def)
    ultimately show ?thesis using f(1) by (auto split: if_splits)
  qed
qed

text \<open>
  With a flush in flight, the bytes cut from the current batch are also subtracted from the
  batch of the flush, which then gives back that much too little.
\<close>

lemma truncate_during_flush:
  assumes ok: "balanced co" and sz: "0 \<le> sz" "sz < 2 ^ 63" and b: "co_buf co inode = Some buf" "ibCurrent buf = Some cb" "ibFlushing buf = Some fb"
    and r: "InvalidatePastSize W co inode sz = (co1, r1)" and f: "flush_finish P W (idx, co1) inode = ((idx', co'), r')"
  shows "r1 = Inr () \<and> r' = Inr () \<and>
    held (coSem co') = (\<Sum>b\<in>#batches co'. x_total (bbExtents b)) + past_size sz (bbExtents cb)"
proof -
  obtain R where R: "batches co = R + batches_of buf" "\<And>x. batches (put_buf inode x co) = R + batches_of x"
      "held (coSem co) = (\<Sum>b\<in>#R. bbBytes b) + (\<Sum>b\<in>#batches_of buf. bbBytes b)" "0 \<le> (\<Sum>b\<in>#R. bbBytes b)"
      "\<forall>b \<in># R + batches_of buf. batch_ok b" "held (coSem co) < 2 ^ 63"
    using batch_bytes [OF ok b(1)] by blast
  let ?f = "past_size sz (bbExtents cb)" and ?g = "past_size sz (bbExtents fb)"
  have bb: "batch_ok cb" "batch_ok fb" "held (coSem co) = (\<Sum>b\<in>#R. bbBytes b) + bbBytes cb + bbBytes fb" using R(3,5) b by simp_all
  have fg: "0 \<le> ?f" "?f \<le> bbBytes cb" "0 \<le> ?g" "?g \<le> bbBytes fb"
    using past_size_bounds [of sz] bb(1,2) by (auto simp: batch_ok_def)
  obtain cb' where c: "clip_batch sz (Some cb) 0 = (Some cb', ?f)" "x_total (bbExtents cb') = bbBytes cb - ?f"
    using clip_batch_eq [OF bb(1) sz, of 0] bb(3) R(4,6) batch_nonneg [OF bb(2)] by auto
  obtain fb' where d: "clip_batch sz (Some fb) ?f = (Some fb', ?f + ?g)" "bbDone fb' = bbDone fb" "bbBytes fb' = bbBytes fb - ?g - ?f"
    using clip_batch_eq [OF bb(2) sz fg(1)] bb(3) R(4,6) fg by auto
  define buf1 where "buf1 = buf\<lparr>ibCurrent := Some cb', ibFlushing := Some fb', ibLiveSize := (if ibLiveSize buf > sz then sz else ibLiveSize buf)\<rparr>"
  have "?f + ?g \<le> held (coSem co)" using bb(3) R(4) fg by linarith
  from release_ok [OF this] obtain s where s: "w_release W (coSem co) (?f + ?g) = (s, Inr ())" "held s = held (coSem co) - (?f + ?g)" by blast
  define s1 where "s1 = (if ?f + ?g > 0 then s else coSem co)"
  have h1: "held s1 = held (coSem co) - (?f + ?g)" using s(2) fg by (auto simp: s1_def)
  have r1: "r1 = Inr ()" "co1 = (put_buf inode buf1 co)\<lparr>coSem := s1\<rparr>"
    using r b c(1) d(1) s(1) by (auto simp: InvalidatePastSize_def Let_def buf1_def sem_release_def s1_def split: if_splits)
  have op: "bbDone fb \<notin> set (coClosed co)" using ok R(1) b(3) by (auto simp: budget_ok_def ledger_def)
  have "bbBytes fb' \<le> held s1" using d(3) h1 bb(3) R(4) fg batch_nonneg [OF bb(1)] by linarith
  from release_ok [OF this] obtain s2 where s2: "w_release W s1 (bbBytes fb') = (s2, Inr ())" "held s2 = held s1 - bbBytes fb'" by blast
  obtain idx1 ra where a: "AppendBatch P idx inode (map (append_extent (ibTier buf1)) (bbExtents fb'))
      (Some (node_hook P inode (bbMaxEnd fb') (bbMtime fb') ''store: coalescer flush: no node entry'')) = (idx1, ra)" by fastforce
  let ?buf = "settle ra fb' buf1"
  have q: "ibFlushing ?buf = None" "ibCurrent ?buf = Some cb'" by (auto simp: settle_def buf1_def split: sum.split)
  have b1: "co_buf co1 inode = Some buf1" "ibFlushing buf1 = Some fb'" "bbDone fb' \<notin> set (coClosed co1)" "coSem co1 = s1"
    using op d(2) by (simp_all add: r1(2) buf1_def)
  let ?co2 = "(put_buf inode ?buf co1)\<lparr>coClosed := bbDone fb' # coClosed co1\<rparr>"
  have "flush_finish P W (idx, co1) inode = ((idx1, ?co2\<lparr>coSem := s2\<rparr>), Inr ())"
    using a b1 s2(1) by (simp add: flush_finish_def close_chan_def sem_release_def)
  then have fin: "r' = Inr ()" "coSem co' = s2" "coBuffers co' = coBuffers (put_buf inode ?buf (put_buf inode buf1 co))"
    using f by (auto simp: r1(2) put_buf_def)
  have "batches co' = batches (put_buf inode ?buf co)"
    using fin(3) ok by (simp add: batches_def put_buf_def update_last)
  then have "batches co' = add_mset cb' R" using R(2) q by simp
  moreover have "(\<Sum>b\<in>#R. x_total (bbExtents b)) = (\<Sum>b\<in>#R. bbBytes b)"
    using R(5) by (intro arg_cong [where f = sum_mset] image_mset_cong) (auto simp: batch_ok_def)
  ultimately show ?thesis using r1 fin s2(2) h1 d(3) bb(3) c(2) by simp
qed

end

section \<open>Runs of the buffer\<close>

text \<open>
  The calls of the buffer, in any order. The two halves of a flush are steps of their own, so
  other calls may come between them. A write must stay in the addressable range and the
  sequence counter must not wrap; a truncation is a step here only while no flush of its file
  is in flight.
\<close>

inductive co_step :: "'db pebble \<Rightarrow> 'sem weighted \<Rightarrow> ('db, 'sem) buffered \<Rightarrow> ('db, 'sem) buffered \<Rightarrow> bool" for P W where
  step_write: "0 < ixStripeSize idx \<Longrightarrow> 0 \<le> off \<Longrightarrow> off + int (length data) \<le> max_off idx \<Longrightarrow>
    unat (ixSeqGen idx) + length data < 2 ^ 64 \<Longrightarrow> co_Write W (idx, co) now inode off data tier = ((idx', co'), r) \<Longrightarrow>
    co_step P W (idx, co) (idx', co')"
| step_swap: "flush_swap co inode = (co', sw) \<Longrightarrow> co_step P W (idx, co) (idx, co')"
| step_finish: "flush_finish P W (idx, co) inode = ((idx', co'), r) \<Longrightarrow> co_step P W (idx, co) (idx', co')"
| step_fsync: "co_Fsync P W (idx, co) inode = ((idx', co'), r) \<Longrightarrow> co_step P W (idx, co) (idx', co')"
| step_drop: "co_Drop P W (idx, co) inode = ((idx', co'), r) \<Longrightarrow> co_step P W (idx, co) (idx', co')"
| step_truncate: "0 \<le> sz \<Longrightarrow> sz < 2 ^ 63 \<Longrightarrow> \<forall>buf. co_buf co inode = Some buf \<longrightarrow> ibFlushing buf = None \<Longrightarrow>
    InvalidatePastSize W co inode sz = (co', r) \<Longrightarrow> co_step P W (idx, co) (idx, co')"
| step_tick: "co_step P W (idx, co) (idx, tick co)"

lemma tick_balanced: "budget_ok h c (tick co) = budget_ok h c co"
proof -
  have "budget_ok h c (foldl (\<lambda>co ino. try_enqueue \<lparr>frInode = ino, frFired = None\<rparr> co) co is) = budget_ok h c co" for "is" co
    by (induction "is" arbitrary: co) simp_all
  then show ?thesis by (simp add: tick_def)
qed

context weighted_sem
begin

lemma step_balanced: "co_step P W st st' \<Longrightarrow> balanced (snd st) \<Longrightarrow> balanced (snd st')"
  by (induction rule: co_step.induct)
    (auto simp: tick_balanced dest: Write_balanced flush_swap_balanced flush_finish_balanced Fsync_balanced Drop_balanced truncate_balanced)

lemma run_balanced: "(co_step P W)\<^sup>*\<^sup>* st st' \<Longrightarrow> balanced (snd st) \<Longrightarrow> balanced (snd st')"
  by (induction rule: rtranclp_induct) (auto dest: step_balanced)

lemma new_balanced: "coGlobalCap opts < 2 ^ 63 \<Longrightarrow> balanced (newCoalescerWithOptions W opts)"
  using new_sem [of "positive_or (4 * 2 ^ 30) (coGlobalCap opts)"]
  by (auto simp: newCoalescerWithOptions_def Let_def budget_ok_def batches_def ledger_def single_def positive_or_def split: if_splits)

end

section \<open>Properties\<close>

lemma budget_write:
  "\<exists>idx co. co_Write bounded_sem (fresh_index, newCoalescerWithOptions bounded_sem defaultCoalescerOptions) 9 1 4095 [7, 8] TierHot =
     ((idx, co), Inr ()) \<and> (co_step mem_pebble bounded_sem)\<^sup>*\<^sup>* (fresh_index, newCoalescerWithOptions bounded_sem defaultCoalescerOptions) (idx, co) \<and>
     snd (coSem co) = 2"
proof -
  let ?co = "newCoalescerWithOptions bounded_sem defaultCoalescerOptions" and ?b = "\<lparr>bbExtents = [], bbBytes = 0, bbMaxEnd = 0, bbMtime = 0, bbDone = 0\<rparr>"
  obtain xs g b' where w: "write_chunks fresh_index 4095 [7, 8] ?b = ((fresh_index\<lparr>ixSeqGen := g\<rparr>, b'), Inr ())"
    using write_chunks_ok [of fresh_index 4095 "[7, 8]" TierHot ?b] by (auto simp: max_off_def)
  obtain co where r: "co_Write bounded_sem (fresh_index, ?co) 9 1 4095 [7, 8] TierHot = ((fresh_index\<lparr>ixSeqGen := g\<rparr>, co), Inr ())"
      "snd (coSem co) = 2"
    using w by (simp add: co_Write_def newCoalescerWithOptions_def Let_def bounded_sem_def getOrCreateBuf_def co_buf_def try_enqueue_def
        newBufBatch_def put_buf_def positive_or_def defaultCoalescerOptions_def)
  have "co_step mem_pebble bounded_sem (fresh_index, ?co) (fresh_index\<lparr>ixSeqGen := g\<rparr>, co)"
    by (rule step_write [OF _ _ _ _ r(1)]) (simp_all add: max_off_def)
  then show ?thesis using r by blast
qed



text \<open>
  C18: a truncation while a flush of the file is in flight leaks from the budget. The bytes cut
  from the current batch are given back once, but they are also subtracted from the batch of
  the flush; when that flush has finished, the semaphore holds that many bytes more than are
  buffered, and nothing gives them back.
\<close>

theorem truncate_leaks_budget:
  assumes "weighted_sem W held capacity" "budget_ok held capacity co" "0 \<le> sz" "sz < 2 ^ 63"
    and "co_buf co inode = Some buf" "ibCurrent buf = Some cb" "ibFlushing buf = Some fb"
    and "InvalidatePastSize W co inode sz = (co1, r1)" "flush_finish P W (idx, co1) inode = ((idx', co'), r)"
  shows "held (coSem co') = (\<Sum>b\<in>#batches co'. x_total (bbExtents b)) + past_size sz (bbExtents cb)"
  using weighted_sem.truncate_during_flush [OF assms] by simp

definition two_batches :: "(int \<times> int) coalescer" where
  "two_batches = \<lparr>coOpts = defaultCoalescerOptions, coSem = (4 * 2 ^ 30, 3),
     coBuffers = [(1, \<lparr>ibInode = 1, ibTier = TierHot,
       ibCurrent = Some \<lparr>bbExtents = [\<lparr>xSeq = 2, xOff = 5, xData = [9]\<rparr>], bbBytes = 1, bbMaxEnd = 6, bbMtime = 7, bbDone = 1\<rparr>,
       ibFlushing = Some \<lparr>bbExtents = [\<lparr>xSeq = 1, xOff = 0, xData = [7, 8]\<rparr>], bbBytes = 2, bbMaxEnd = 2, bbMtime = 7, bbDone = 0\<rparr>,
       ibOnDiskSize = 0, ibOnDiskMtime = 0, ibLiveSize = 6, ibLiveMtime = 7, ibPoisoned = None\<rparr>)],
     coQueue = [], coClosing = False, coNextChan = 2, coClosed = []\<rparr>"

theorem truncate_leaks_budget_witness:
  "\<exists>co1 r1 idx' co' r. InvalidatePastSize bounded_sem two_batches 1 2 = (co1, r1) \<and>
     flush_finish mem_pebble bounded_sem (fresh_index, co1) 1 = ((idx', co'), r) \<and>
     snd (coSem co') = (\<Sum>b\<in>#batches co'. x_total (bbExtents b)) + 1"
proof -
  have ok: "budget_ok snd fst two_batches"
    by (simp add: budget_ok_def two_batches_def ledger_def batches_def batch_ok_def x_total_def) (simp add: single_def)
  obtain co1 r1 where r1: "InvalidatePastSize bounded_sem two_batches 1 2 = (co1, r1)" by fastforce
  obtain idx' co' r where f: "flush_finish mem_pebble bounded_sem (fresh_index, co1) 1 = ((idx', co'), r)" by (metis prod.collapse)
  have "snd (coSem co') = (\<Sum>b\<in>#batches co'. x_total (bbExtents b)) + past_size 2 [\<lparr>xSeq = 2, xOff = 5, xData = [9]\<rparr>]"
    using truncate_leaks_budget [OF bsem.weighted_sem_axioms ok _ _ _ _ _ r1 f] by (simp add: two_batches_def co_buf_def)
  then show ?thesis using r1 f by (auto simp: past_size_def)
qed

end
