(* ===== verification/Namespace.thy ===== *)
theory Namespace
  imports Handle Write_Back
begin

text \<open>
  The namespace as a pair of maps: the mode and link count of every node, and the inode of
  every directory entry. \<open>tree_ok\<close> is the invariant of a file system: entries lead from
  directories to nodes that exist, a directory other than the root has exactly one entry, and
  the link count of any other node is the number of its entries.
\<close>

section \<open>The abstract namespace\<close>

type_synonym node_map = "u64 \<rightharpoonup> Mode \<times> u32"
type_synonym dirent_map = "u64 \<times> bytes \<rightharpoonup> u64"

definition links :: "dirent_map \<Rightarrow> u64 \<Rightarrow> (u64 \<times> bytes) set" where
  "links D i = {k. D k = Some i}"

definition is_dir :: "node_map \<Rightarrow> u64 \<Rightarrow> bool" where
  "is_dir N i \<longleftrightarrow> (\<exists>m l. N i = Some (m, l) \<and> IsDir m)"

definition link_ok :: "node_map \<Rightarrow> dirent_map \<Rightarrow> u64 \<Rightarrow> bool" where
  "link_ok N D i \<longleftrightarrow> (case N i of None \<Rightarrow> links D i = {} | Some (m, l) \<Rightarrow>
     if IsDir m then card (links D i) = (if i = RootInode then 0 else 1)
     else l = word_of_nat (card (links D i)) \<and> links D i \<noteq> {})"

definition tree_ok :: "node_map \<Rightarrow> dirent_map \<Rightarrow> bool" where
  "tree_ok N D \<longleftrightarrow> finite (dom D) \<and> is_dir N RootInode \<and> (\<forall>p nm i. D (p, nm) = Some i \<longrightarrow> is_dir N p) \<and>
     (\<forall>i. link_ok N D i)"

lemma finite_links: "finite (dom D) \<Longrightarrow> finite (links D i)"
  by (rule finite_subset [of _ "dom D"]) (auto simp: links_def)

lemma links_upd:
  "links (D(k \<mapsto> i)) j = (if i = j then insert k (links D j) else links D j - {k})"
  "links (D(k := None)) j = links D j - {k}"
  by (auto simp: links_def)

lemma links_free: "D k = None \<Longrightarrow> k \<notin> links D j"
  by (simp add: links_def)

lemma links_del_other: "D k = Some i \<Longrightarrow> j \<noteq> i \<Longrightarrow> links (D(k := None)) j = links D j"
  by (auto simp: links_def)

lemma link_ok_cong: "N j = N' j \<Longrightarrow> links D j = links D' j \<Longrightarrow> link_ok N D j = link_ok N' D' j"
  by (simp only: link_ok_def)

lemma tree_okD:
  assumes "tree_ok N D"
  shows "finite (dom D)" "is_dir N RootInode" "D (p, nm) = Some i \<Longrightarrow> is_dir N p" "link_ok N D i" "finite (links D i)"
  using assms finite_links [of D i] by (auto simp: tree_ok_def)

lemma tree_target: "tree_ok N D \<Longrightarrow> D k = Some i \<Longrightarrow> N i \<noteq> None"
proof
  assume a: "tree_ok N D" "D k = Some i" "N i = None"
  then have "links D i = {}" using tree_okD(4) [OF a(1), of i] by (simp add: link_ok_def)
  moreover have "k \<in> links D i" using a(2) by (simp add: links_def)
  ultimately show False by blast
qed

text \<open>Adding an entry for a node: new, or an existing one that is not a directory.\<close>

lemma tree_add_new:
  assumes ok: "tree_ok N D" and k: "D (p, nm) = None" "is_dir N p" and i: "N i = None" and l: "if IsDir m then True else l = 1"
  shows "tree_ok (N(i \<mapsto> (m, l))) (D((p, nm) \<mapsto> i))"
proof -
  note D = tree_okD [OF ok]
  have li: "links D i = {}" using D(4) [of i] i by (simp add: link_ok_def)
  have r: "i \<noteq> RootInode" "p \<noteq> i" using D(2) k(2) i by (auto simp: is_dir_def)
  have "link_ok (N(i \<mapsto> (m, l))) (D((p, nm) \<mapsto> i)) j" for j
    using D(4) [of j] links_free [of D "(p, nm)" j, OF k(1)] li l r
    by (auto simp: link_ok_def links_upd split: option.splits)
  moreover have "is_dir N q \<Longrightarrow> is_dir (N(i \<mapsto> (m, l))) q" for q using i by (auto simp: is_dir_def)
  moreover have "is_dir N q" if "(D((p, nm) \<mapsto> i)) (q, nm') = Some j" for q nm' j
    using that D(3) k(2) by (auto split: if_splits)
  ultimately show ?thesis using D(1,2) unfolding tree_ok_def by (auto simp del: fun_upd_apply)
qed

lemma tree_add_link:
  assumes ok: "tree_ok N D" and k: "D (p, nm) = None" "is_dir N p" and i: "N i = Some (m, l)" "\<not> IsDir m"
  shows "tree_ok (N(i \<mapsto> (m, l + 1))) (D((p, nm) \<mapsto> i))"
proof -
  note D = tree_okD [OF ok]
  have "link_ok (N(i \<mapsto> (m, l + 1))) (D((p, nm) \<mapsto> i)) j" for j
    using D(4) [of j] D(5) links_free [of D "(p, nm)" j, OF k(1)] i
    by (auto simp: link_ok_def links_upd add.commute split: option.splits)
  moreover have "is_dir (N(i \<mapsto> (m, l + 1))) q = is_dir N q" for q using i by (auto simp: is_dir_def)
  ultimately show ?thesis using D(1-3) k by (auto simp: tree_ok_def)
qed

text \<open>Dropping one entry of a node that is not a directory.\<close>

definition drop_node :: "node_map \<Rightarrow> u64 \<Rightarrow> node_map" where
  "drop_node N i = (case N i of None \<Rightarrow> N | Some (m, l) \<Rightarrow> if l - 1 = 0 then N(i := None) else N(i \<mapsto> (m, l - 1)))"

lemma tree_drop_link:
  assumes ok: "tree_ok N D" and k: "D k = Some i" and i: "N i = Some (m, l)" "\<not> IsDir m"
    and c: "card (links D i) < 2 ^ 32"
  shows "tree_ok (drop_node N i) (D(k := None))"
proof -
  note D = tree_okD [OF ok]
  have l: "l = word_of_nat (card (links D i))" "k \<in> links D i" using D(4) [of i] i k by (auto simp: link_ok_def links_def)
  have cd: "card (links D i - {k}) = card (links D i) - 1" "0 < card (links D i)" using l(2) D(5) by (auto simp: card_gt_0_iff)
  then have l1: "l - 1 = word_of_nat (card (links D i - {k}))" by (simp add: l(1) of_nat_diff Suc_leI)
  have "card (links D i - {k}) < 2 ^ 32" using cd c by linarith
  then have "unat (l - 1) = card (links D i - {k})" by (simp add: l1 unat_of_nat take_bit_nat_eq_self)
  then have z: "l - 1 = 0 \<longleftrightarrow> links D i - {k} = {}" using D(5) [of i] by (metis card_0_eq finite_Diff unat_eq_zero)
  have "link_ok (drop_node N i) (D(k := None)) j" for j
  proof (cases "j = i")
    case True
    then show ?thesis using z l1 i by (auto simp: link_ok_def links_upd drop_node_def)
  next
    case False
    then have "drop_node N i j = N j" by (simp add: drop_node_def i(1))
    then show ?thesis using D(4) [of j] link_ok_cong [of _ j N "D(k := None)" D] links_del_other [of D k i j] k False by simp
  qed
  moreover have "is_dir (drop_node N i) q = is_dir N q" for q using i by (auto simp: is_dir_def drop_node_def)
  ultimately show ?thesis using D(1-3) by (auto simp: tree_ok_def split: if_splits)
qed

text \<open>Removing an empty directory.\<close>

lemma tree_drop_dir:
  assumes ok: "tree_ok N D" and k: "D k = Some i" and i: "is_dir N i" and e: "\<And>nm. D (i, nm) = None"
  shows "tree_ok (N(i := None)) (D(k := None))"
proof -
  note D = tree_okD [OF ok]
  have kl: "k \<in> links D i" using k by (simp add: links_def)
  then have "card (links D i) \<noteq> 0" using D(5) by (auto simp: card_eq_0_iff)
  then have c: "card (links D i) = 1" "i \<noteq> RootInode" using D(4) [of i] i by (auto simp: link_ok_def is_dir_def split: if_splits)
  then obtain x where "links D i = {x}" by (auto simp: card_1_singleton_iff)
  then have le: "links D i - {k} = {}" using kl by simp
  have "link_ok (N(i := None)) (D(k := None)) j" for j
  proof (cases "j = i")
    case False
    then show ?thesis using D(4) [of j] link_ok_cong [of _ j N "D(k := None)" D] links_del_other [of D k i j] k False by simp
  qed (simp add: link_ok_def links_upd le)
  moreover have "is_dir (N(i := None)) RootInode" using D(2) c(2) by (simp add: is_dir_def)
  moreover have "is_dir (N(i := None)) p" if "(D(k := None)) (p, nm) = Some j" for p nm j
  proof -
    have "D (p, nm) = Some j" using that by (simp split: if_splits)
    moreover from this have "p \<noteq> i" using e by auto
    ultimately show ?thesis using D(3) by (simp add: is_dir_def)
  qed
  ultimately show ?thesis using D(1) by (auto simp: tree_ok_def)
qed

text \<open>Moving an entry to a free name.\<close>

lemma tree_move:
  assumes ok: "tree_ok N D" and k: "D k = Some i" and k': "D (p, nm) = None" "is_dir N p"
  shows "tree_ok N (D(k := None, (p, nm) \<mapsto> i))"
proof -
  note D = tree_okD [OF ok]
  have ne: "k \<noteq> (p, nm)" using k k' by auto
  have card: "card (insert (p, nm) (links D i - {k})) = card (links D i)"
  proof -
    have "card (insert (p, nm) (links D i - {k})) = Suc (card (links D i - {k}))"
      using D(5) [of i] k' by (intro card_insert_disjoint) (auto simp: links_def)
    also have "\<dots> = card (links D i)" using D(5) [of i] k by (intro card_Suc_Diff1) (auto simp: links_def)
    finally show ?thesis .
  qed
  have "link_ok N (D(k := None, (p, nm) \<mapsto> i)) j" for j
  proof (cases "j = i")
    case True
    then show ?thesis using D(4) [of i] k card ne by (auto simp: link_ok_def links_upd split: option.splits)
  next
    case False
    have "links (D(k := None, (p, nm) \<mapsto> i)) j = links D j" using False k k' by (auto simp: links_def)
    then show ?thesis using D(4) [of j] link_ok_cong [of N j N "D(k := None, (p, nm) \<mapsto> i)" D] by simp
  qed
  then show ?thesis using D(1-3) k' by (auto simp: tree_ok_def split: if_splits)
qed

text \<open>Link counts of directories play no part.\<close>

lemma tree_dir_count:
  assumes ok: "tree_ok N D" and p: "N p = Some (m, l)" "IsDir m" "IsDir m'"
  shows "tree_ok (N(p \<mapsto> (m', l'))) D"
proof -
  note D = tree_okD [OF ok]
  have "link_ok (N(p \<mapsto> (m', l'))) D j" for j using D(4) [of j] p by (auto simp: link_ok_def)
  moreover have "is_dir N q \<Longrightarrow> is_dir (N(p \<mapsto> (m', l'))) q" for q using p by (auto simp: is_dir_def)
  ultimately show ?thesis using D(1-3) unfolding tree_ok_def by blast
qed

end
