(* ===== verification/Store_Data.thy ===== *)
theory Store_Data
  imports Namespace
begin

text \<open>
  Calls of the store that work below the namespace: they append, cut, move or delete fragments
  and update the size and the times of a node. What such a call preserves is proved once, for
  every relation on database contents that fragment operations and node updates respect.
\<close>

section \<open>What a call leaves in the database\<close>

lemma on_set_DB: "on_set idx t f = (idx', r) \<Longrightarrow> ixDB idx' = ixDB idx"
  by (auto simp: on_set_def put_set_def Let_def split: prod.splits if_splits)

lemma stage_extents_DB: "stage_extents idx inode es ps ts = (idx', r) \<Longrightarrow> ixDB idx' = ixDB idx"
proof (induction es arbitrary: idx ps ts)
  case (Cons e es)
  have "append_record idx t h d = (idx1, r1) \<Longrightarrow> ixDB idx1 = ixDB idx" for t h d idx1 r1
    unfolding append_record_def by (auto elim!: andThen_cases dest!: on_set_DB)
  then show ?case using Cons.prems Cons.IH by (fastforce simp: Let_def elim!: andThen_cases split: if_splits prod.splits)
qed simp

lemma sync_touched_DB: "sync_touched idx ts = (idx', r) \<Longrightarrow> ixDB idx' = ixDB idx"
proof (induction ts arbitrary: idx)
  case (Cons t ts)
  then show ?case by (cases t) (fastforce elim!: andThen_cases dest!: on_set_DB)
qed simp

lemma frag_batch_ops: "op \<in> set (frag_batch inode ps b) \<Longrightarrow> op \<in> set b \<or> prefix StripeAllPrefix (op_key op)"
proof (induction ps arbitrary: b)
  case (Cons p ps)
  obtain s f where p: "p = (s, f)" by fastforce
  have "frag_batch inode (p # ps) b = frag_batch inode ps (Batch_Set (FragmentKey inode s (Seq f)) (encodeFragments [f]) b)"
    by (simp add: frag_batch_def p)
  then show ?case using Cons by (fastforce simp: Batch_Set_def)
qed (simp add: frag_batch_def)

lemma truncate_ops_keys:
  "truncate_ops idx sz kvs = Inr ops \<Longrightarrow> op \<in> set ops \<Longrightarrow> \<exists>v. (op_key op, v) \<in> set kvs"
proof (induction kvs arbitrary: ops)
  case (Cons kv kvs)
  have "truncate_entry idx sz kv = Inr os \<Longrightarrow> op \<in> set os \<Longrightarrow> op_key op = fst kv" for os
    by (cases kv) (auto simp: truncate_entry_def bindE_ok Let_def split: if_splits sum.splits option.splits)
  moreover obtain o1 o2 where "truncate_entry idx sz kv = Inr o1" "truncate_ops idx sz kvs = Inr o2" "ops = o1 @ o2"
    using Cons.prems(1) by (auto simp: bindE_ok)
  ultimately show ?case using Cons.IH [of o2] Cons.prems(2) by (cases kv) auto
qed simp

lemma write_chunks_DB: "write_chunks idx off d b = ((idx', b'), r) \<Longrightarrow> ixDB idx' = ixDB idx"
proof (induction idx off d b rule: write_chunks.induct)
  case (1 idx off rem b)
  show ?case
  proof (cases "rem = [] \<or> buf_take idx off rem \<le> 0 \<or> buf_take idx off rem > int (length rem)")
    case True
    then show ?thesis using 1(2) by (subst (asm) write_chunks.simps) (auto simp: Let_def split: if_splits)
  next
    case False
    have "write_chunks (idx\<lparr>ixSeqGen := ixSeqGen idx + 1\<rparr>) (i64 (off + buf_take idx off rem)) (drop (nat (buf_take idx off rem)) rem)
        (add_extent (ixSeqGen idx + 1) off (take (nat (buf_take idx off rem)) rem) b) = ((idx', b'), r)"
      using 1(2) False by (subst (asm) write_chunks.simps) (simp add: Let_def nextSeq_def)
    then show ?thesis using 1(1) False by (fastforce simp: nextSeq_def)
  qed
qed

lemma co_Write_DB:
  assumes "co_Write W (idx, co) now i off d tier = ((idx', co'), r)"
  shows "ixDB idx' = ixDB idx"
  using assms by (auto simp: co_Write_def Let_def dest: write_chunks_DB split: if_splits prod.splits sum.splits option.splits)

lemma split_chunks_DB: "split_chunks idx off d tier = (idx', r) \<Longrightarrow> ixDB idx' = ixDB idx"
proof (induction idx off d tier arbitrary: idx' r rule: split_chunks.induct)
  case (1 idx off rem tier)
  have n: "nextSeq idx = (idx\<lparr>ixSeqGen := ixSeqGen idx + 1\<rparr>, ixSeqGen idx + 1)" by (simp add: nextSeq_def)
  show ?case
  proof (cases "rem = [] \<or> chunk_len idx off rem \<le> 0 \<or> chunk_len idx off rem > int (length rem)")
    case True
    then show ?thesis using 1(2) by (subst (asm) split_chunks.simps) (auto simp: Let_def n split: if_splits)
  next
    case False
    obtain idx2 r2 where s: "split_chunks (idx\<lparr>ixSeqGen := ixSeqGen idx + 1\<rparr>) (i64 (off + chunk_len idx off rem))
        (drop (nat (chunk_len idx off rem)) rem) tier = (idx2, r2)" by fastforce
    then have "ixDB idx2 = ixDB idx" using 1(1) False n by fastforce
    moreover have "idx' = idx2" using 1(2) False s by (subst (asm) split_chunks.simps) (auto simp: Let_def n elim: andThen_cases)
    ultimately show ?thesis by simp
  qed
qed

lemma read_slices_DB: "read_slices st i off sls p = (st', r) \<Longrightarrow> ixDB (stIdx st') = ixDB (stIdx st)"
proof (induction sls arbitrary: st p)
  case (Cons s sls)
  have "ixDB (stIdx s1) = ixDB (stIdx s0)" if "read_slice s0 i s n = (s1, z)" for s0 s1 n z
    using that by (auto simp: read_slice_def on_idx_def Index_ReadAt_def Let_def split: if_splits option.splits prod.splits)
  then show ?case using Cons by (fastforce simp: Let_def elim!: andThen_cases split: if_splits)
qed simp

lemma ReadAt_DB: "ReadAt P st i p off = (st', r) \<Longrightarrow> ixDB (stIdx st') = ixDB (stIdx st)"
  by (auto simp: ReadAt_def Let_def elim!: checked_cases dest: read_slices_DB split: if_splits)

section \<open>Case rules of the operations\<close>

text \<open>An operation on the namespace stops before its commit, or every check has passed.\<close>

lemma Create_cases:
  assumes "Create P st now p nm mode uid gid = (st', r)"
  obtains (stop) e where "st' = st" "r = Inl e"
  | (go) i b rc where "requireDir P st p = Inr ()" "require_free P st p nm = Inr ()" "allocInode P st NewBatch = Inr (i, b)"
      "st_commit P st (Batch_Set (DirentKey p nm) (direntValue i)
         (Batch_Set (NodeKey i) (encodeNode (new_node i (ModeRegular OR (mode AND PermMask)) 1 uid gid 0 [] now)) b)) = (st', rc)"
      "(\<exists>e. rc = Inl e \<and> r = Inl e) \<or> rc = Inr () \<and> r = Inr (new_node i (ModeRegular OR (mode AND PermMask)) 1 uid gid 0 [] now)"
      "validName nm = Inr ()"
  using assms unfolding Create_def Let_def by (elim checked_cases) (auto elim!: andThen_cases split: prod.splits)

lemma Symlink_cases:
  assumes "Symlink P st now p nm target uid gid = (st', r)"
  obtains (stop) "st' = st"
  | (go) i b rc where "requireDir P st p = Inr ()" "require_free P st p nm = Inr ()" "allocInode P st NewBatch = Inr (i, b)"
      "st_commit P st (Batch_Set (DirentKey p nm) (direntValue i)
         (Batch_Set (NodeKey i) (encodeNode (new_node i (ModeSymlink OR 0x1FF) 1 uid gid (int (length target)) target now)) b)) = (st', rc)"
      "validName nm = Inr ()"
  using assms unfolding Symlink_def Let_def by (elim checked_cases) (auto elim!: andThen_cases split: prod.splits)

lemma Mkdir_cases:
  assumes "Mkdir P st now p nm mode uid gid = (st', r)"
  obtains (stop) "st' = st"
  | (go) pn i b rc where "Stat P st p = Inr pn" "IsDir (nMode pn)" "require_free P st p nm = Inr ()" "allocInode P st NewBatch = Inr (i, b)"
      "st_commit P st (Batch_Set (NodeKey p) (encodeNode (pn\<lparr>nNlink := nNlink pn + 1, nCtime := now\<rparr>))
         (Batch_Set (DirentKey p nm) (direntValue i)
           (Batch_Set (NodeKey i) (encodeNode (new_node i (ModeDir OR (mode AND PermMask)) 2 uid gid 0 [] now)) b))) = (st', rc)"
      "validName nm = Inr ()"
  using assms unfolding Mkdir_def Let_def
  by (elim checked_cases) (auto elim!: checked_cases andThen_cases split: prod.splits if_splits)

lemma Link_cases:
  assumes "Link P st now target p nm = (st', r)"
  obtains (stop) "st' = st"
  | (go) tn rc where "Stat P st target = Inr tn" "\<not> IsDir (nMode tn)" "requireDir P st p = Inr ()" "require_free P st p nm = Inr ()"
      "st_commit P st (Batch_Set (DirentKey p nm) (direntValue target)
         (Batch_Set (NodeKey target) (encodeNode (tn\<lparr>nNlink := nNlink tn + 1, nCtime := now\<rparr>)) NewBatch)) = (st', rc)"
      "validName nm = Inr ()"
  using assms unfolding Link_def Let_def
  by (elim checked_cases) (auto elim!: checked_cases andThen_cases split: prod.splits if_splits)

lemma Unlink_cases:
  assumes "Unlink P W st now p nm = (st', r)"
  obtains (stop) "st' = st"
  | (go) i n b fr st1 rc where "readDirent P st p nm = Inr (Some i)" "Stat P st i = Inr n" "\<not> IsDir (nMode n)"
      "drop_link i n now (Batch_Delete (DirentKey p nm) NewBatch) = (b, fr)" "st_commit P st b = (st1, rc)"
      "st' = st1 \<or> free_inode P W st1 fr = (st', r)"
  using assms unfolding Unlink_def
  by (elim checked_cases) (auto simp: text_err_def elim!: checked_cases andThen_cases split: option.splits prod.splits if_splits sum.splits)

lemma Rmdir_cases:
  assumes "Rmdir P st now p nm = (st', r)"
  obtains (stop) "st' = st"
  | (go) i n pn where "readDirent P st p nm = Inr (Some i)" "Stat P st i = Inr n" "IsDir (nMode n)" "hasDirentChildren P st i = Inr False"
      "Stat P st p = Inr pn" "st_commit P st (Batch_Set (NodeKey p) (encodeNode (pn\<lparr>nNlink := nNlink pn - 1, nCtime := now\<rparr>))
         (Batch_Delete (NodeKey i) (Batch_Delete (DirentKey p nm) NewBatch))) = (st', r)"
  using assms unfolding Rmdir_def
  by (elim checked_cases) (auto simp: text_err_def elim!: checked_cases split: option.splits if_splits sum.splits)

lemma Rename_cases:
  assumes "Rename P W st now op on np nn = (st', r)"
  obtains (stop) "st' = st" "r \<noteq> Inr () \<or> (\<exists>src. readDirent P st op on = Inr (Some src) \<and> readDirent P st np nn = Inr (Some src))"
    | (go) src srcNode d b fr b2 st1 rc where "readDirent P st op on = Inr (Some src)" "Stat P st src = Inr srcNode" "requireDir P st np = Inr ()"
        "readDirent P st np nn = Inr d" "d \<noteq> Some src"
        "(case d of None \<Rightarrow> Inr (NewBatch, 0) | Some dst \<Rightarrow> replace_target P st (now 0) srcNode np dst) = Inr (b, fr)"
        "(if IsDir (nMode srcNode) \<and> op \<noteq> np then reparent P st (now 1) (now 2) op np
            (Batch_Set (DirentKey np nn) (direntValue src) (Batch_Delete (DirentKey op on) b))
          else Inr (Batch_Set (DirentKey np nn) (direntValue src) (Batch_Delete (DirentKey op on) b))) = Inr b2"
        "st_commit P st b2 = (st1, rc)" "st' = st1 \<and> rc \<noteq> Inr () \<and> r \<noteq> Inr () \<or> rc = Inr () \<and> free_inode P W st1 fr = (st', r)"
        "no_cycle P st srcNode np src = Inr ()" "validName nn = Inr ()"
  using assms unfolding Rename_def Let_def
  by (elim checked_cases) (auto simp: text_err_def elim!: checked_cases andThen_cases split: option.splits prod.splits sum.splits if_splits)

lemma Setattr_cases:
  assumes "Setattr P W st now i sa = (st', r)"
  obtains st1 where "st1 = st \<or> (\<exists>sz r1. shrink P W st i sz = (st1, r1))"
    "st' = st1 \<or> (\<exists>n rc. Stat P st1 i = Inr n \<and> st_commit P st1 (Batch_Set (NodeKey i) (encodeNode (set_attrs sa now n)) NewBatch) = (st', rc))"
proof -
  define first where "first = (case saSize sa of None \<Rightarrow> (st, Inr ()) | Some sz \<Rightarrow> checked st (Stat P st i) (\<lambda>cur.
    if sz < nSize cur then shrink P W st i sz else (st, Inr ())))"
  obtain st1 r1 where f: "first = (st1, r1)" by fastforce
  have "st1 = st \<or> (\<exists>sz r1. shrink P W st i sz = (st1, r1))"
    using f by (auto simp: first_def checked_def split: option.splits sum.splits if_splits)
  moreover have "andThen (st1, r1) (\<lambda>st1 _. checked st1 (Stat P st1 i) (\<lambda>n. andThen (st_commit P st1
      (Batch_Set (NodeKey i) (encodeNode (set_attrs sa now n)) NewBatch)) (\<lambda>st2 _. (st2, Inr (set_attrs sa now n))))) = (st', r)"
    using assms unfolding Setattr_def first_def [symmetric] Let_def f .
  then have "st' = st1 \<or> (\<exists>n rc. Stat P st1 i = Inr n \<and> st_commit P st1 (Batch_Set (NodeKey i) (encodeNode (set_attrs sa now n)) NewBatch) = (st', rc))"
    by (cases r1) (auto elim!: andThen_cases checked_cases)
  ultimately show ?thesis using that by blast
qed

section \<open>Relations that data operations respect\<close>

locale data_relation = pebble_engine +
  fixes R :: "(bytes \<rightharpoonup> bytes) \<Rightarrow> (bytes \<rightharpoonup> bytes) \<Rightarrow> bool"
  assumes R_refl [simp]: "R V V" and R_trans: "R U V \<Longrightarrow> R V V' \<Longrightarrow> R U V'"
    and R_stripe: "\<forall>op \<in> set ops. prefix StripeAllPrefix (op_key op) \<Longrightarrow> R V (apply_ops ops V)"
    and R_node: "V (NodeKey i) = Some v \<Longrightarrow> decodeNode v = Inr n \<Longrightarrow>
      R V (V(NodeKey i \<mapsto> encodeNode (n\<lparr>nSize := s, nMtime := t, nCtime := t\<rparr>)))"
begin

lemma commit_batch_rel:
  assumes "commit_batch P idx b = (idx', r)" "R (view (ixDB idx)) (apply_ops b (view (ixDB idx)))"
  shows "R (view (ixDB idx)) (view (ixDB idx'))"
  using commit_batch_view [OF assms(1)] assms(2) by auto

lemma stripe_scan_keys:
  "DB_Iter P db (StripePrefix i) (PrefixUpperBound (StripePrefix i)) = Inr (kvs, None) \<Longrightarrow> (k, v) \<in> set kvs \<Longrightarrow> prefix StripeAllPrefix k"
  using DB_Iter_view range_scan_mem prefix_range stripe_prefix_all(1) by metis

lemma DeleteInode_rel:
  assumes "DeleteInode P idx i = (idx', r)"
  shows "R (view (ixDB idx)) (view (ixDB idx'))"
proof -
  consider "idx' = idx"
    | kvs where "DB_Iter P (ixDB idx) (StripePrefix i) (PrefixUpperBound (StripePrefix i)) = Inr (kvs, None)"
        "commit_batch P idx (map (\<lambda>(k, v). BDelete k) kvs) = (idx', r)"
    using assms by (auto simp: DeleteInode_def Let_def split: sum.splits option.splits if_splits)
  then show ?thesis
  proof cases
    case 2
    have "\<forall>op \<in> set (map (\<lambda>(k, v). BDelete k) kvs). prefix StripeAllPrefix (op_key op)"
      using stripe_scan_keys [OF 2(1)] by auto
    then show ?thesis using commit_batch_rel [OF 2(2)] R_stripe by blast
  qed simp
qed

lemma Truncate_rel:
  assumes "Index_Truncate P idx i sz = (idx', r)"
  shows "R (view (ixDB idx)) (view (ixDB idx'))"
proof -
  consider "idx' = idx"
    | kvs ops where "DB_Iter P (ixDB idx) (StripePrefix i) (PrefixUpperBound (StripePrefix i)) = Inr (kvs, None)"
        "truncate_ops idx sz kvs = Inr ops" "commit_batch P idx ops = (idx', r)"
    using assms by (auto simp: Index_Truncate_def Let_def split: sum.splits option.splits if_splits)
  then show ?thesis
  proof cases
    case 2
    have "\<forall>op \<in> set ops. prefix StripeAllPrefix (op_key op)"
      using truncate_ops_keys [OF 2(2)] stripe_scan_keys [OF 2(1)] by blast
    then show ?thesis using commit_batch_rel [OF 2(3)] R_stripe by blast
  qed simp
qed

lemma node_hook_rel:
  assumes "node_hook P i e mt msg (ixDB idx) b = Inr b'" "\<forall>op \<in> set b. prefix StripeAllPrefix (op_key op)"
  shows "R (view (ixDB idx)) (apply_ops b' (view (ixDB idx)))"
proof -
  let ?V = "view (ixDB idx)"
  obtain v n where v: "Batch_Get P (ixDB idx) b (NodeKey i) = Inr (Some v)" "decodeNode v = Inr n"
      "b' = b @ [BSet (NodeKey i) (encodeNode (n\<lparr>nSize := (if e > nSize n then e else nSize n), nMtime := mt, nCtime := mt\<rparr>))]"
    using assms(1) by (auto simp: node_hook_def bindE_ok Batch_Set_def split: option.splits)
  have s: "R ?V (apply_ops b ?V)" by (rule R_stripe [OF assms(2)])
  have "?V (NodeKey i) = Some v" using Batch_Get_view [OF v(1)] by simp
  moreover have "apply_ops b ?V (NodeKey i) = ?V (NodeKey i)"
  proof (intro apply_ops_other notI)
    assume "NodeKey i \<in> op_key ` set b"
    then have "prefix StripeAllPrefix (NodeKey i)" using assms(2) by auto
    then show False by (simp add: NodeKey_def StripeAllPrefix_def tag_defs)
  qed
  ultimately show ?thesis using R_trans [OF s R_node [OF _ v(2)]] by (simp add: v(3))
qed

lemma AppendBatch_rel:
  assumes "AppendBatch P idx i es (Some (node_hook P j e mt msg)) = (idx', r)"
  shows "R (view (ixDB idx)) (view (ixDB idx'))"
proof -
  have hook: "R (view (ixDB idx1)) (view (ixDB idx'))"
    if "run_hook P idx1 (Some (node_hook P j e mt msg)) b = (idx', r)" "\<forall>op \<in> set b. prefix StripeAllPrefix (op_key op)" for idx1 b
    using that node_hook_rel commit_batch_rel by (fastforce simp: run_hook_def split: sum.splits)
  consider (now) "run_hook P idx (Some (node_hook P j e mt msg)) NewBatch = (idx', r)"
    | (stop) "ixDB idx' = ixDB idx"
    | (go) idx2 ps where "run_hook P idx2 (Some (node_hook P j e mt msg)) (frag_batch i ps NewBatch) = (idx', r)" "ixDB idx2 = ixDB idx"
    using assms unfolding AppendBatch_def
    by (auto elim!: andThen_cases dest!: stage_extents_DB sync_touched_DB split: if_splits prod.splits)
  then show ?thesis
  proof cases
    case go
    have "\<forall>op \<in> set (frag_batch i ps NewBatch). prefix StripeAllPrefix (op_key op)"
      using frag_batch_ops [of _ i ps NewBatch] by (auto simp: NewBatch_def)
    then show ?thesis using hook [OF go(1)] go(2) by simp
  qed (use hook [of idx NewBatch] in \<open>auto simp: NewBatch_def\<close>)
qed

lemma flush_finish_rel:
  "flush_finish P W (idx, co) i = ((idx', co'), r) \<Longrightarrow> R (view (ixDB idx)) (view (ixDB idx'))"
  by (auto simp: flush_finish_def split: option.splits prod.splits dest: AppendBatch_rel)

lemma Drop_rel: "co_Drop P W (idx, co) i = ((idx', co'), r) \<Longrightarrow> R (view (ixDB idx)) (view (ixDB idx'))"
  unfolding co_Drop_def
  by (auto elim!: andThen_cases dest!: flush_finish_rel split: option.splits prod.splits sum.splits)

lemma free_inode_rel:
  assumes "free_inode P W st i = (st', r)"
  shows "R (view (ixDB (stIdx st))) (view (ixDB (stIdx st')))"
proof -
  have co: "R (view (ixDB (stIdx s0))) (view (ixDB (stIdx s1)))" if "on_co s0 (\<lambda>c. co_Drop P W c i) = (s1, z)" for s0 s1 z
    using that Drop_rel by (fastforce simp: on_co_def split: option.splits prod.splits)
  have ix: "R (view (ixDB (stIdx s0))) (view (ixDB (stIdx s1)))" if "on_idx s0 (\<lambda>idx. DeleteInode P idx i) = (s1, z)" for s0 s1 z
    using that DeleteInode_rel by (fastforce simp: on_idx_def split: prod.splits)
  show ?thesis
  proof (cases "i = 0")
    case False
    then have "andThen (on_co st (\<lambda>c. co_Drop P W c i)) (\<lambda>st1 _. on_idx st1 (\<lambda>idx. DeleteInode P idx i)) = (st', r)"
      using assms by (simp add: free_inode_def)
    then show ?thesis by (cases rule: andThen_cases) (use co ix R_trans in blast)+
  qed (use assms in \<open>simp add: free_inode_def\<close>)
qed

lemma shrink_rel:
  assumes "shrink P W st i sz = (st', r)"
  shows "R (view (ixDB (stIdx st))) (view (ixDB (stIdx st')))"
proof -
  have co: "stIdx s1 = stIdx s0" if "on_co s0 (\<lambda>(idx, co). case InvalidatePastSize W co i sz of (co1, r) \<Rightarrow> ((idx, co1), r)) = (s1, z)" for s0 s1 z
    using that by (auto simp: on_co_def split: option.splits prod.splits)
  have ix: "R (view (ixDB (stIdx s0))) (view (ixDB (stIdx s1)))" if "on_idx s0 (\<lambda>idx. Index_Truncate P idx i sz) = (s1, z)" for s0 s1 z
    using that Truncate_rel by (fastforce simp: on_idx_def split: prod.splits)
  show ?thesis using assms unfolding shrink_def
    by (cases rule: andThen_cases) (use co ix in \<open>fastforce dest: co\<close>)+
qed

lemma flushInode_rel: "flushInode P W (idx, co) req = ((idx', co'), r) \<Longrightarrow> R (view (ixDB idx)) (view (ixDB idx'))"
  by (auto simp: flushInode_def dest: flush_finish_rel split: prod.splits sum.splits if_splits)

lemma Fsync_rel:
  assumes "co_Fsync P W (idx, co) i = ((idx', co'), r)"
  shows "R (view (ixDB idx)) (view (ixDB idx'))"
proof -
  have fin: "R (view (ixDB idx)) (view (ixDB (fst s1)))" if "flush_finish P W (idx, co) i = (s1, z)" for s1 z
    using that flush_finish_rel [of W idx co i "fst s1" "snd s1" z] by simp
  have fl: "R (view (ixDB (fst s0))) (view (ixDB (fst s1)))"
    if "(if t then flushInode P W s0 req else (s0, Inr ())) = (s1, z)" for t s0 s1 req z
    using that flushInode_rel [of W "fst s0" "snd s0" req "fst s1" "snd s1" z] by (simp split: if_splits)
  show ?thesis
  proof (cases "\<exists>buf. co_buf co i = Some buf \<and> ibPoisoned buf = None")
    case False
    then show ?thesis using assms by (auto simp: co_Fsync_def split: option.splits)
  next
    case True
    then obtain k where k: "andThen (flush_finish P W (idx, co) i) (\<lambda>st1 _. andThen (if k then flushInode P W st1 \<lparr>frInode = i, frFired = None\<rparr> else (st1, Inr ()))
        (\<lambda>st2 _. case co_buf (snd st2) i of Some buf2 \<Rightarrow> (case ibPoisoned buf2 of Some e \<Rightarrow> (st2, Inl e) | None \<Rightarrow> (st2, Inr ()))
           | None \<Rightarrow> (st2, Inr ()))) = ((idx', co'), r)"
      using assms by (auto simp: co_Fsync_def Let_def)
    from k show ?thesis
    proof (cases rule: andThen_cases)
      case (ok s1 x)
      from ok(2) show ?thesis
      proof (cases rule: andThen_cases)
        case (err e)
        then show ?thesis using fin [OF ok(1)] fl [OF err(1)] R_trans by fastforce
      next
        case (ok s2 y)
        then have "fst s2 = idx'" by (auto split: option.splits)
        then show ?thesis using fin [OF \<open>flush_finish P W (idx, co) i = (s1, Inr x)\<close>] fl [OF ok(1)] R_trans by fastforce
      qed
    qed (use fin in fastforce)
  qed
qed

lemma WriteAtTier_rel:
  assumes "WriteAtTier P W st now i d off tier = (st', r)"
  shows "R (view (ixDB (stIdx st))) (view (ixDB (stIdx st')))"
proof -
  have co: "ixDB (stIdx s1) = ixDB (stIdx st)" if "on_co st (\<lambda>c. co_Write W c now i off d tier) = (s1, z)" for s1 z
    using that co_Write_DB by (fastforce simp: on_co_def split: option.splits prod.splits)
  have tx: "R (view (ixDB idx)) (view (ixDB idx'))" if "AppendToWithTx P idx i off d tier (Some (node_hook P i e now msg)) = (idx', z)" "d \<noteq> []" for idx idx' e msg z
    using that unfolding AppendToWithTx_def by (auto elim!: andThen_cases dest!: split_chunks_DB AppendBatch_rel)
  have ap: "R (view (ixDB (stIdx st))) (view (ixDB (stIdx s1)))"
    if "on_idx st (\<lambda>idx. AppendToWithTx P idx i off d tier (Some (node_hook P i e now msg))) = (s1, z)" "d \<noteq> []" for s1 e msg z
    using that tx by (fastforce simp: on_idx_def split: prod.splits)
  show ?thesis
  proof (cases "d = []")
    case False
    then show ?thesis using assms unfolding WriteAtTier_def writeAtTierSync_def
      by (auto elim!: andThen_cases dest: co ap split: if_splits)
  qed (use assms in \<open>simp add: WriteAtTier_def\<close>)
qed

end

end
