(* ===== verification/Store_Namespace.thy ===== *)
theory Store_Namespace
  imports Store_Data
begin

text \<open>
  The operations of the store refine the abstract namespace: each commits one batch whose
  effect is an operation on the two maps, or nothing. Files, buffers and fragments may change
  below without touching the namespace.
\<close>

section \<open>The namespace of the database\<close>

definition nodes :: "(bytes \<rightharpoonup> bytes) \<Rightarrow> node_map" where
  "nodes V i = (case V (NodeKey i) of None \<Rightarrow> None | Some v \<Rightarrow>
     (case decodeNode v of Inl e \<Rightarrow> None | Inr n \<Rightarrow> Some (nMode n, nNlink n)))"

definition dirents :: "(bytes \<rightharpoonup> bytes) \<Rightarrow> dirent_map" where
  "dirents V k = (case V (DirentKey (fst k) (snd k)) of None \<Rightarrow> None | Some v \<Rightarrow>
     if length v = 8 then be64_at 0 v else None)"

definition counter :: "(bytes \<rightharpoonup> bytes) \<Rightarrow> u64" where
  "counter V = (case V StoreNextInodeKey of Some v \<Rightarrow>
     (if length v = 8 then (case le64_at 0 v of Some n \<Rightarrow> n | None \<Rightarrow> RootInode + 1) else RootInode + 1)
   | None \<Rightarrow> RootInode + 1)"

text \<open>Inodes are handed out in order, so the counter is above every node.\<close>

definition ns_ok :: "(bytes \<rightharpoonup> bytes) \<Rightarrow> bool" where
  "ns_ok V \<longleftrightarrow> tree_ok (nodes V) (dirents V) \<and> (\<forall>i. nodes V i \<noteq> None \<longrightarrow> i < counter V) \<and> nodes V 0 = None"

lemma ns_okI:
  assumes "ns_ok V" "tree_ok (nodes V') (dirents V')" "\<And>i. nodes V' i \<noteq> None \<Longrightarrow> nodes V i \<noteq> None" "counter V' = counter V"
  shows "ns_ok V'"
  using assms unfolding ns_ok_def by metis

lemma decode_encode_core:
  "\<exists>m. decodeNode (encodeNode n) = Inr m \<and> nInode m = nInode n \<and> nMode m = nMode n \<and> nNlink m = nNlink n"
  using encodeNode_fields [of n]
  by (simp add: decodeNode_def nodeFixedSize_def unat_of_nat take_bit_nat_eq_self take_bit_nat_less_eq_self)

lemma nodes_upd [simp]:
  "nodes (V(NodeKey i \<mapsto> encodeNode n)) = (nodes V)(i \<mapsto> (nMode n, nNlink n))"
  "nodes (V(NodeKey i := None)) = (nodes V)(i := None)"
  "nodes (V(DirentKey p nm := v)) = nodes V" "nodes (V(StoreNextInodeKey := v)) = nodes V"
  using decode_encode_core [of n] by (auto simp: nodes_def fun_eq_iff)

lemma dirents_upd [simp]:
  "dirents (V(DirentKey p nm \<mapsto> direntValue i)) = (dirents V)((p, nm) \<mapsto> i)"
  "dirents (V(DirentKey p nm := None)) = (dirents V)((p, nm) := None)"
  "dirents (V(NodeKey j := v)) = dirents V" "dirents (V(StoreNextInodeKey := v)) = dirents V"
  by (auto simp: dirents_def fun_eq_iff)

lemma counter_upd [simp]:
  "counter (V(DirentKey p nm := v)) = counter V" "counter (V(NodeKey j := v)) = counter V"
  "counter (V(StoreNextInodeKey \<mapsto> le64 c)) = c"
  by (simp_all add: counter_def le64_at_def)

text \<open>Contents that differ in fragments only, or in node attributes other than mode and links.\<close>

definition ns_same :: "(bytes \<rightharpoonup> bytes) \<Rightarrow> (bytes \<rightharpoonup> bytes) \<Rightarrow> bool" where
  "ns_same V W \<longleftrightarrow> nodes W = nodes V \<and> dirents W = dirents V \<and> counter W = counter V"

lemma ns_same_ok: "ns_same V W \<Longrightarrow> ns_ok W = ns_ok V"
  by (simp add: ns_same_def ns_ok_def)

lemma ns_same_refl [simp]: "ns_same V V"
  by (simp add: ns_same_def)

lemma ns_same_trans: "ns_same U V \<Longrightarrow> ns_same V W \<Longrightarrow> ns_same U W"
  by (simp add: ns_same_def)

lemma ns_same_stripe_ops:
  assumes "\<forall>op \<in> set ops. prefix StripeAllPrefix (op_key op)"
  shows "ns_same V (apply_ops ops V)"
proof -
  have "apply_ops ops V k = V k" if "\<not> prefix StripeAllPrefix k" for k
    using assms that by (intro apply_ops_other) auto
  then show ?thesis
    by (simp add: ns_same_def nodes_def dirents_def counter_def fun_eq_iff key_defs tag_defs StripeAllPrefix_def)
qed

sublocale pebble_engine \<subseteq> ns: data_relation P view ns_same
proof
  fix V :: "bytes \<rightharpoonup> bytes" and i v n s t
  assume "V (NodeKey i) = Some v" "decodeNode v = Inr n"
  then have "nodes V i = Some (nMode n, nNlink n)" by (simp add: nodes_def)
  then show "ns_same V (V(NodeKey i \<mapsto> encodeNode (n\<lparr>nSize := s, nMtime := t, nCtime := t\<rparr>)))" by (auto simp: ns_same_def)
qed (fact ns_same_refl ns_same_trans ns_same_stripe_ops)+

lemma merge_live_core [simp]: "nMode (merge_live l n) = nMode n" "nNlink (merge_live l n) = nNlink n" "nInode (merge_live l n) = nInode n"
  by (auto simp: merge_live_def Let_def split: option.splits)

context pebble_engine
begin

lemma Stat_nodes: "Stat P st i = Inr n \<Longrightarrow> nodes (view (ixDB (stIdx st))) i = Some (nMode n, nNlink n)"
proof -
  assume r: "Stat P st i = Inr n"
  then obtain v m where v: "DB_Get P (ixDB (stIdx st)) (NodeKey i) = Inr (Some v)" "decodeNode v = Inr m" "n = merge_live (live_of st i) m"
    by (auto simp: Stat_def st_get_def bindE_ok split: option.splits)
  then have "Some v = view (ixDB (stIdx st)) (NodeKey i)" using DB_Get_view by blast
  then show ?thesis using v by (simp add: nodes_def flip: \<open>Some v = _\<close>)
qed

lemma requireDir_nodes: "requireDir P st i = Inr () \<Longrightarrow> is_dir (nodes (view (ixDB (stIdx st)))) i"
  using Stat_nodes by (fastforce simp: requireDir_def bindE_ok is_dir_def split: if_splits)

lemma readDirent_dirents: "readDirent P st p nm = Inr c \<Longrightarrow> c = dirents (view (ixDB (stIdx st))) (p, nm)"
proof -
  assume r: "readDirent P st p nm = Inr c"
  then obtain v where v: "DB_Get P (ixDB (stIdx st)) (DirentKey p nm) = Inr v" by (auto simp: readDirent_def st_get_def bindE_ok)
  then have "view (ixDB (stIdx st)) (DirentKey p nm) = v" using DB_Get_view [OF v] by simp
  then show ?thesis using r v
    by (cases v) (auto simp: readDirent_def st_get_def dirents_def or_panic_def split: option.splits if_splits)
qed

lemma require_free_dirents: "require_free P st p nm = Inr () \<Longrightarrow> dirents (view (ixDB (stIdx st))) (p, nm) = None"
  by (auto simp: require_free_def bindE_ok dest: readDirent_dirents split: option.splits)

lemma allocInode_counter:
  "allocInode P st b = Inr (i, b') \<Longrightarrow> i = counter (view (ixDB (stIdx st))) \<and> b' = b @ [BSet StoreNextInodeKey (le64 (i + 1))]"
  by (auto simp: allocInode_def st_get_def bindE_ok counter_def Batch_Set_def Let_def dest!: DB_Get_view)

lemma st_commit_view:
  assumes "st_commit P st b = (st', r)"
  shows "(view (ixDB (stIdx st')) = view (ixDB (stIdx st)) \<and> r \<noteq> Inr ()) \<or>
      view (ixDB (stIdx st')) = apply_ops b (view (ixDB (stIdx st)))"
    and "\<exists>db. st' = st\<lparr>stIdx := (stIdx st)\<lparr>ixDB := db\<rparr>\<rparr>"
proof -
  obtain idx' where c: "commit_batch P (stIdx st) b = (idx', r)" "st' = st\<lparr>stIdx := idx'\<rparr>"
    using assms by (auto simp: st_commit_def split: prod.splits)
  from commit_batch_view [OF c(1)]
  show "(view (ixDB (stIdx st')) = view (ixDB (stIdx st)) \<and> r \<noteq> Inr ()) \<or>
      view (ixDB (stIdx st')) = apply_ops b (view (ixDB (stIdx st)))"
    and "\<exists>db. st' = st\<lparr>stIdx := (stIdx st)\<lparr>ixDB := db\<rparr>\<rparr>"
    using c(2) by auto
qed

end

section \<open>Modes\<close>

lemma mode_bits: "(a OR (m AND PermMask)) AND ModeMask = a AND ModeMask"
proof -
  have "PermMask AND ModeMask = (0 :: Mode)" by (simp add: mode_defs)
  then show ?thesis by (metis (no_types) and.assoc and.right_idem and_zero_eq bit.conj_disj_distrib2 or.right_neutral)
qed

lemma IsDir_new [simp]:
  "\<not> IsDir (ModeRegular OR (m AND PermMask))" "IsDir (ModeDir OR (m AND PermMask))" "\<not> IsDir (ModeSymlink OR 0x1FF)"
  by (simp_all add: IsDir_def mode_bits) (simp_all add: mode_defs)

lemma IsDir_chmod [simp]: "IsDir ((k AND ModeMask) OR (m AND PermMask)) = IsDir k"
  by (simp add: IsDir_def mode_bits and.assoc)

section \<open>Creating entries\<close>

definition ns_created :: "(bytes \<rightharpoonup> bytes) \<Rightarrow> (bytes \<rightharpoonup> bytes) \<Rightarrow> u64 \<Rightarrow> bytes \<Rightarrow> Mode \<Rightarrow> u32 \<Rightarrow> node_map \<Rightarrow> bool" where
  "ns_created V V' p nm m l N \<longleftrightarrow> is_dir (nodes V) p \<and> dirents V (p, nm) = None \<and>
     nodes V' = N(counter V \<mapsto> (m, l)) \<and> dirents V' = (dirents V)((p, nm) \<mapsto> counter V) \<and> counter V' = counter V + 1"

lemma fresh_counter: "ns_ok V \<Longrightarrow> nodes V (counter V) = None \<and> RootInode < counter V"
proof -
  assume a: "ns_ok V"
  then have "nodes V RootInode \<noteq> None" by (auto simp: ns_ok_def tree_ok_def is_dir_def)
  moreover have "nodes V (counter V) = None \<or> counter V < counter V" "nodes V RootInode = None \<or> RootInode < counter V"
    using a unfolding ns_ok_def by blast+
  ultimately show ?thesis by (metis less_irrefl)
qed

lemma ns_created_ok:
  assumes ok: "ns_ok V" and c: "ns_created V V' p nm m l (nodes V)" "unat (counter V) + 1 < 2 ^ 64" "IsDir m \<or> l = 1"
  shows "ns_ok V'"
proof -
  note f = fresh_counter [OF ok]
  have "tree_ok (nodes V') (dirents V')"
    using c ok f tree_add_new [of "nodes V" "dirents V" p nm "counter V" m l] by (auto simp: ns_created_def ns_ok_def)
  moreover have lt: "counter V < counter V + 1" using u64_Suc [of "counter V"] c(2) by simp
  moreover have "i < counter V + 1" if "nodes V' i \<noteq> None" for i
    using that c(1) ok lt less_trans [of i "counter V"] by (cases "i = counter V") (auto simp: ns_ok_def ns_created_def)
  moreover have "nodes V' 0 = None" using c(1) ok f by (auto simp: ns_ok_def ns_created_def RootInode_def)
  ultimately show ?thesis using c(1) by (auto simp: ns_ok_def ns_created_def)
qed

context pebble_engine
begin

lemma Create_ns:
  assumes "Create P st now p nm mode uid gid = (st', r)"
  defines "V \<equiv> view (ixDB (stIdx st))" and "V' \<equiv> view (ixDB (stIdx st'))"
  shows "(V' = V \<and> (\<forall>n. r \<noteq> Inr n)) \<or> ns_created V V' p nm (ModeRegular OR (mode AND PermMask)) 1 (nodes V)"
    and "r = Inr n \<Longrightarrow> n = new_node (counter V) (ModeRegular OR (mode AND PermMask)) 1 uid gid 0 [] now \<and>
      V' = V(StoreNextInodeKey \<mapsto> le64 (counter V + 1), NodeKey (counter V) \<mapsto> encodeNode n, DirentKey p nm \<mapsto> direntValue (counter V))"
proof -
  let ?n = "\<lambda>i. new_node i (ModeRegular OR (mode AND PermMask)) 1 uid gid 0 [] now"
  from assms(1) have "(V' = V \<and> (\<forall>n. r \<noteq> Inr n)) \<or> ns_created V V' p nm (ModeRegular OR (mode AND PermMask)) 1 (nodes V) \<and>
    (\<forall>n. r = Inr n \<longrightarrow> n = ?n (counter V) \<and> V' = V(StoreNextInodeKey \<mapsto> le64 (counter V + 1), NodeKey (counter V) \<mapsto> encodeNode n, DirentKey p nm \<mapsto> direntValue (counter V)))"
  proof (cases rule: Create_cases)
    case (go i b rc)
    note al = allocInode_counter [OF go(3), folded V_def]
    show ?thesis
      using st_commit_view(1) [OF go(4), folded V_def V'_def] go(5) al requireDir_nodes [OF go(1), folded V_def]
        require_free_dirents [OF go(2), folded V_def]
      by (auto simp: ns_created_def batch_defs new_node_def)
  qed (simp add: V_def V'_def)
  then show "(V' = V \<and> (\<forall>n. r \<noteq> Inr n)) \<or> ns_created V V' p nm (ModeRegular OR (mode AND PermMask)) 1 (nodes V)"
    and "r = Inr n \<Longrightarrow> n = ?n (counter V) \<and>
      V' = V(StoreNextInodeKey \<mapsto> le64 (counter V + 1), NodeKey (counter V) \<mapsto> encodeNode n, DirentKey p nm \<mapsto> direntValue (counter V))"
    by blast+
qed

end

definition next_ok :: "(bytes \<rightharpoonup> bytes) \<Rightarrow> bool" where
  "next_ok V \<longleftrightarrow> unat (counter V) + 1 < 2 ^ 64"

text \<open>The counter of inodes and the link counts have room.\<close>

definition ns_room :: "(bytes \<rightharpoonup> bytes) \<Rightarrow> bool" where
  "ns_room V \<longleftrightarrow> next_ok V \<and> (\<forall>i. card (links (dirents V) i) < 2 ^ 32)"

context pebble_engine
begin

lemma Create_ok:
  assumes "Create P st now p nm mode uid gid = (st', r)" "ns_ok (view (ixDB (stIdx st)))" "ns_room (view (ixDB (stIdx st)))"
  shows "ns_ok (view (ixDB (stIdx st')))"
  using Create_ns(1) [OF assms(1)] ns_created_ok [OF assms(2)] assms(2,3) by (auto simp: ns_room_def next_ok_def)

lemma Symlink_ok:
  assumes "Symlink P st now p nm target uid gid = (st', r)" "ns_ok (view (ixDB (stIdx st)))" "ns_room (view (ixDB (stIdx st)))"
  shows "ns_ok (view (ixDB (stIdx st')))"
proof -
  define V V' where "V = view (ixDB (stIdx st))" and "V' = view (ixDB (stIdx st'))"
  let ?n = "\<lambda>i. new_node i (ModeSymlink OR 0x1FF) 1 uid gid (int (length target)) target now"
  from assms(1) show ?thesis
  proof (cases rule: Symlink_cases)
    case (go i b rc)
    have "V' = V \<or> ns_created V V' p nm (ModeSymlink OR 0x1FF) 1 (nodes V)"
      using st_commit_view(1) [OF go(4), folded V_def V'_def] allocInode_counter [OF go(3), folded V_def]
        requireDir_nodes [OF go(1), folded V_def] require_free_dirents [OF go(2), folded V_def]
      by (auto simp: ns_created_def batch_defs new_node_def)
    then show ?thesis using ns_created_ok [of V V' p nm] assms(2,3) by (auto simp: V_def V'_def ns_room_def next_ok_def)
  qed (use assms(2) in simp)
qed

lemma Mkdir_ok:
  assumes "Mkdir P st now p nm mode uid gid = (st', r)" "ns_ok (view (ixDB (stIdx st)))" "ns_room (view (ixDB (stIdx st)))"
  shows "ns_ok (view (ixDB (stIdx st')))"
proof -
  define V V' where "V = view (ixDB (stIdx st))" and "V' = view (ixDB (stIdx st'))"
  let ?m = "ModeDir OR (mode AND PermMask)"
  let ?n = "\<lambda>i. new_node i ?m 2 uid gid 0 [] now"
  from assms(1) show ?thesis
  proof (cases rule: Mkdir_cases)
    case (go pn i b rc)
    define W where "W = V(StoreNextInodeKey \<mapsto> le64 (counter V + 1), NodeKey (counter V) \<mapsto> encodeNode (?n (counter V)),
      DirentKey p nm \<mapsto> direntValue (counter V))"
    have pn: "nodes V p = Some (nMode pn, nNlink pn)" using Stat_nodes [OF go(1), folded V_def] .
    have "ns_created V W p nm ?m 2 (nodes V)"
      using pn go(2) require_free_dirents [OF go(3), folded V_def] by (auto simp: ns_created_def W_def new_node_def is_dir_def)
    then have W: "ns_ok W" "nodes W p = Some (nMode pn, nNlink pn)"
      using ns_created_ok [of V W p nm] assms(2,3) fresh_counter [of V] pn
      by (auto simp: V_def ns_room_def next_ok_def) (auto simp: ns_created_def)
    have "V' = V \<or> V' = W(NodeKey p \<mapsto> encodeNode (pn\<lparr>nNlink := nNlink pn + 1, nCtime := now\<rparr>))"
      using st_commit_view(1) [OF go(5), folded V_def V'_def] allocInode_counter [OF go(4), folded V_def]
      by (auto simp: batch_defs W_def)
    moreover have "ns_ok (W(NodeKey p \<mapsto> encodeNode (pn\<lparr>nNlink := nNlink pn + 1, nCtime := now\<rparr>)))"
      using W(1) tree_dir_count [of "nodes W" "dirents W" p "nMode pn" "nNlink pn" "nMode pn" "nNlink pn + 1"] W(2) go(2)
      by (intro ns_okI [OF W(1)]) (auto simp: ns_ok_def split: if_splits)
    ultimately show ?thesis using assms(2) by (auto simp: V_def V'_def)
  qed (use assms(2) in simp)
qed

lemma Link_ok:
  assumes "Link P st now target p nm = (st', r)" "ns_ok (view (ixDB (stIdx st)))"
  shows "ns_ok (view (ixDB (stIdx st')))"
proof -
  define V V' where "V = view (ixDB (stIdx st))" and "V' = view (ixDB (stIdx st'))"
  from assms(1) show ?thesis
  proof (cases rule: Link_cases)
    case (go tn rc)
    have tn: "nodes V target = Some (nMode tn, nNlink tn)" using Stat_nodes [OF go(1), folded V_def] .
    have V: "V' = V \<or> nodes V' = (nodes V)(target \<mapsto> (nMode tn, nNlink tn + 1)) \<and> dirents V' = (dirents V)((p, nm) \<mapsto> target) \<and> counter V' = counter V"
      using st_commit_view(1) [OF go(5), folded V_def V'_def] by (auto simp: batch_defs)
    have "tree_ok ((nodes V)(target \<mapsto> (nMode tn, nNlink tn + 1))) ((dirents V)((p, nm) \<mapsto> target))"
      using assms(2) requireDir_nodes [OF go(3), folded V_def] require_free_dirents [OF go(4), folded V_def] tn go(2)
      by (intro tree_add_link) (auto simp: V_def ns_ok_def)
    then show ?thesis using V assms(2) tn ns_okI [of V V'] unfolding V_def [symmetric] V'_def [symmetric]
      by (auto split: if_splits)
  qed (use assms(2) in simp)
qed

end

section \<open>Removing entries\<close>

context pebble_engine
begin

lemma hasDirentChildren_empty:
  assumes "iter_complete P" "hasDirentChildren P st i = Inr False"
  shows "dirents (view (ixDB (stIdx st))) (i, nm) = None"
proof -
  obtain e where "DB_Iter P (ixDB (stIdx st)) (DirentPrefix i) (PrefixUpperBound (DirentPrefix i)) = Inr ([], e)"
    using assms(2) by (auto simp: hasDirentChildren_def bindE_ok)
  moreover from this have "e = None" using assms(1) by (cases e) (auto simp: iter_complete_def DB_Iter_def)
  ultimately have "range_scan (view (ixDB (stIdx st))) (DirentPrefix i) (PrefixUpperBound (DirentPrefix i)) []"
    using DB_Iter_view by blast
  then have "view (ixDB (stIdx st)) (DirentKey i nm) \<noteq> Some v" for v
    using range_scan_mem [of _ _ _ "[]" "DirentKey i nm" v] prefix_range [of "DirentPrefix i" "DirentKey i nm"]
    by (auto simp: DirentPrefix_def DirentKey_def)
  then have "view (ixDB (stIdx st)) (DirentKey i nm) = None" by (metis not_None_eq)
  then show ?thesis by (simp add: dirents_def)
qed

text \<open>The abstract effect of dropping a link, in the batch of the operation.\<close>

lemma drop_link_ops:
  assumes "drop_link child n now b = (b', fr)" "nodes (apply_ops b V) child = Some (nMode n, nNlink n)"
  shows "nodes (apply_ops b' V) = drop_node (nodes (apply_ops b V)) child" "dirents (apply_ops b' V) = dirents (apply_ops b V)"
    "counter (apply_ops b' V) = counter (apply_ops b V)" "fr \<noteq> 0 \<longrightarrow> fr = child \<and> nNlink n = 1" "nNlink n = 1 \<longrightarrow> fr = child"
  using assms by (auto simp: drop_link_def Let_def drop_node_def batch_defs split: if_splits)

lemma drop_node_dom: "drop_node N i j \<noteq> None \<Longrightarrow> N j \<noteq> None"
  by (auto simp: drop_node_def split: option.splits if_splits)

lemma Unlink_ok:
  assumes "Unlink P W st now p nm = (st', r)" "ns_ok (view (ixDB (stIdx st)))" "ns_room (view (ixDB (stIdx st)))"
  shows "ns_ok (view (ixDB (stIdx st')))"
proof -
  define V V' where "V = view (ixDB (stIdx st))" and "V' = view (ixDB (stIdx st'))"
  from assms(1) show ?thesis
  proof (cases rule: Unlink_cases)
    case (go i n b fr st1 rc)
    define V1 where "V1 = view (ixDB (stIdx st1))"
    have d: "dirents V (p, nm) = Some i" using readDirent_dirents [OF go(1), folded V_def] by simp
    have n: "nodes V i = Some (nMode n, nNlink n)" using Stat_nodes [OF go(2), folded V_def] .
    have b: "nodes (apply_ops b V) = drop_node (nodes V) i" "dirents (apply_ops b V) = (dirents V)((p, nm) := None)" "counter (apply_ops b V) = counter V"
      using drop_link_ops(1-3) [OF go(4), of V] n by (simp_all add: batch_defs)
    have V: "V1 = V \<or> V1 = apply_ops b V" using st_commit_view(1) [OF go(5), folded V_def V1_def] by blast
    have "tree_ok (drop_node (nodes V) i) ((dirents V)((p, nm) := None))"
      using assms(2,3) d n go(3) by (intro tree_drop_link) (auto simp: V_def ns_ok_def ns_room_def)
    then have "ns_ok V1"
      using V b assms(2) ns_okI [of V V1] drop_node_dom [of "nodes V" i] by (auto simp: V_def [symmetric])
    moreover have "ns_same V1 V'" using go(6) ns.free_inode_rel by (auto simp: V1_def V'_def)
    ultimately show ?thesis using ns_same_ok by (simp add: V'_def)
  qed (use assms(2) in simp)
qed

lemma Rmdir_ok:
  assumes it: "iter_complete P" and "Rmdir P st now p nm = (st', r)" "ns_ok (view (ixDB (stIdx st)))"
  shows "ns_ok (view (ixDB (stIdx st')))"
proof -
  define V V' where "V = view (ixDB (stIdx st))" and "V' = view (ixDB (stIdx st'))"
  from assms(2) show ?thesis
  proof (cases rule: Rmdir_cases)
    case (go i n pn)
    have d: "dirents V (p, nm) = Some i" using readDirent_dirents [OF go(1), folded V_def] by simp
    have n: "is_dir (nodes V) i" using Stat_nodes [OF go(2), folded V_def] go(3) by (auto simp: is_dir_def)
    have e: "dirents V (i, nm') = None" for nm' using hasDirentChildren_empty [OF it go(4), folded V_def] .
    have ne: "p \<noteq> i" using d e by auto
    have t: "tree_ok ((nodes V)(i := None)) ((dirents V)((p, nm) := None))"
      using assms(3) d n e by (intro tree_drop_dir) (auto simp: V_def ns_ok_def)
    have pn: "nodes V p = Some (nMode pn, nNlink pn)" using Stat_nodes [OF go(5), folded V_def] .
    have "is_dir (nodes V) p" using assms(3) tree_okD(3) [of "nodes V" "dirents V" p nm i] d by (simp add: V_def ns_ok_def)
    then have pd: "IsDir (nMode pn)" using pn by (simp add: is_dir_def)
    have t2: "tree_ok ((nodes V)(i := None, p \<mapsto> (nMode pn, nNlink pn - 1))) ((dirents V)((p, nm) := None))"
      using pn pd ne by (intro tree_dir_count [OF t]) auto
    have "V' = V \<or> nodes V' = (nodes V)(i := None, p \<mapsto> (nMode pn, nNlink pn - 1)) \<and> dirents V' = (dirents V)((p, nm) := None) \<and> counter V' = counter V"
      using st_commit_view(1) [OF go(6), folded V_def V'_def] by (auto simp: batch_defs)
    then have "ns_ok V'"
    proof
      assume "nodes V' = (nodes V)(i := None, p \<mapsto> (nMode pn, nNlink pn - 1)) \<and> dirents V' = (dirents V)((p, nm) := None) \<and> counter V' = counter V"
      then show ?thesis using t2 assms(3) pn by (intro ns_okI [of V V']) (auto simp: V_def split: if_splits)
    qed (use assms(3) in \<open>simp add: V_def\<close>)
    then show ?thesis by (simp add: V'_def)
  qed (use assms(3) in simp)
qed

end

section \<open>Rename\<close>

context pebble_engine
begin

lemma replace_target_ops:
  assumes it: "iter_complete P" and ok: "ns_ok V" "ns_room V" and V: "V = view (ixDB (stIdx st))"
    and r: "replace_target P st now srcNode np dst = Inr (b, fr)" and d: "dirents V (np, nn) = Some dst"
  shows "tree_ok (nodes (apply_ops b V)) ((dirents V)((np, nn) := None))" "dirents (apply_ops b V) = dirents V"
    "counter (apply_ops b V) = counter V" "\<And>i. nodes (apply_ops b V) i \<noteq> None \<Longrightarrow> nodes V i \<noteq> None"
    "\<And>q nm j. dirents V (q, nm) = Some j \<Longrightarrow> is_dir (nodes (apply_ops b V)) q"
proof -
  have t: "tree_ok (nodes V) (dirents V)" using ok(1) by (simp add: ns_ok_def)
  obtain dn where dn: "Stat P st dst = Inr dn" "nodes V dst = Some (nMode dn, nNlink dn)"
    using r Stat_nodes by (auto simp: replace_target_def text_err_def V split: sum.splits)
  have "tree_ok (nodes (apply_ops b V)) ((dirents V)((np, nn) := None)) \<and> dirents (apply_ops b V) = dirents V \<and>
    counter (apply_ops b V) = counter V \<and> (\<forall>i. nodes (apply_ops b V) i \<noteq> None \<longrightarrow> nodes V i \<noteq> None) \<and>
    (\<forall>q nm j. dirents V (q, nm) = Some j \<longrightarrow> is_dir (nodes (apply_ops b V)) q)"
  proof (cases "IsDir (nMode dn)")
    case True
    then obtain npn where h: "hasDirentChildren P st dst = Inr False" "Stat P st np = Inr npn"
        "b = [BDelete (NodeKey dst), BSet (NodeKey np) (encodeNode (npn\<lparr>nNlink := nNlink npn - 1, nCtime := now\<rparr>))]"
      using r dn(1) by (auto simp: replace_target_def text_err_def bindE_ok batch_defs split: if_splits)
    have e: "dirents V (dst, nm) = None" for nm using hasDirentChildren_empty [OF it h(1)] V by simp
    have pn: "nodes V np = Some (nMode npn, nNlink npn)" using Stat_nodes [OF h(2)] V by simp
    have pd: "IsDir (nMode npn)" "np \<noteq> dst" using tree_okD(3) [OF t d] pn e d by (auto simp: is_dir_def)
    have "tree_ok ((nodes V)(dst := None)) ((dirents V)((np, nn) := None))"
      using dn(2) True d e by (intro tree_drop_dir [OF t]) (auto simp: is_dir_def)
    then have "tree_ok ((nodes V)(dst := None, np \<mapsto> (nMode npn, nNlink npn - 1))) ((dirents V)((np, nn) := None))"
      using pn pd by (intro tree_dir_count) auto
    moreover have "is_dir ((nodes V)(dst := None, np \<mapsto> (nMode npn, nNlink npn - 1))) q" if "dirents V (q, nm) = Some j" for q nm j
      using tree_okD(3) [OF t that] e that pd by (auto simp: is_dir_def)
    ultimately show ?thesis using pn by (auto simp: h(3) split: if_splits)
  next
    case False
    then have dl: "drop_link dst dn now NewBatch = (b, fr)"
      using r dn(1) by (auto simp: replace_target_def text_err_def split: if_splits)
    have o: "nodes (apply_ops b V) = drop_node (nodes V) dst" "dirents (apply_ops b V) = dirents V" "counter (apply_ops b V) = counter V"
      using drop_link_ops(1-3) [OF dl, of V] dn(2) by (simp_all add: NewBatch_def)
    have "tree_ok (drop_node (nodes V) dst) ((dirents V)((np, nn) := None))"
      using d dn(2) False ok(2) by (intro tree_drop_link [OF t]) (auto simp: ns_room_def)
    moreover have "is_dir (drop_node (nodes V) dst) q" if "dirents V (q, nm) = Some j" for q nm j
      using tree_okD(3) [OF t that] dn(2) False by (auto simp: is_dir_def drop_node_def)
    ultimately show ?thesis using o drop_node_dom by auto
  qed
  then show "tree_ok (nodes (apply_ops b V)) ((dirents V)((np, nn) := None))" "dirents (apply_ops b V) = dirents V"
    "counter (apply_ops b V) = counter V" "\<And>i. nodes (apply_ops b V) i \<noteq> None \<Longrightarrow> nodes V i \<noteq> None"
    "\<And>q nm j. dirents V (q, nm) = Some j \<Longrightarrow> is_dir (nodes (apply_ops b V)) q"
    by blast+
qed

text \<open>The rest of the batch: the entry moves, and the counts of the two parents are set.\<close>

lemma reparent_ops:
  assumes "reparent P st n1 n2 op np b = Inr b'" "op \<noteq> np" and V: "V = view (ixDB (stIdx st))"
  shows "\<exists>m1 l1 m2 l2. nodes V op = Some (m1, l1) \<and> nodes V np = Some (m2, l2) \<and>
    nodes (apply_ops b' V) = (nodes (apply_ops b V))(op \<mapsto> (m1, l1 - 1), np \<mapsto> (m2, l2 + 1)) \<and>
    dirents (apply_ops b' V) = dirents (apply_ops b V) \<and> counter (apply_ops b' V) = counter (apply_ops b V)"
proof -
  obtain o1 p1 where s: "Stat P st op = Inr o1" "Stat P st np = Inr p1"
      "b' = b @ [BSet (NodeKey op) (encodeNode (o1\<lparr>nNlink := nNlink o1 - 1, nCtime := n1\<rparr>)),
        BSet (NodeKey np) (encodeNode (p1\<lparr>nNlink := nNlink p1 + 1, nCtime := n2\<rparr>))]"
    using assms(1) by (auto simp: reparent_def bindE_ok batch_defs)
  then show ?thesis using Stat_nodes [OF s(1)] Stat_nodes [OF s(2)] V by simp
qed

lemma Rename_ok:
  assumes it: "iter_complete P" and r: "Rename P W st now op on np nn = (st', r)"
    and ok: "ns_ok (view (ixDB (stIdx st)))" "ns_room (view (ixDB (stIdx st)))"
  shows "ns_ok (view (ixDB (stIdx st')))"
proof -
  define V V' where "V = view (ixDB (stIdx st))" and "V' = view (ixDB (stIdx st'))"
  note ok = ok [folded V_def]
  from r show ?thesis
  proof (cases rule: Rename_cases)
    case (go src srcNode d b fr b2 st1 rc)
    define V1 b1 where "V1 = view (ixDB (stIdx st1))" and "b1 = Batch_Set (DirentKey np nn) (direntValue src) (Batch_Delete (DirentKey op on) b)"
    have t: "tree_ok (nodes V) (dirents V)" using ok(1) by (simp add: ns_ok_def)
    have s: "dirents V (op, on) = Some src" "dirents V (np, nn) = d" "is_dir (nodes V) np"
      using readDirent_dirents [OF go(1), folded V_def] readDirent_dirents [OF go(4), folded V_def] requireDir_nodes [OF go(3), folded V_def] by auto
    have B: "tree_ok (nodes (apply_ops b V)) ((dirents V)((np, nn) := None))" "dirents (apply_ops b V) = dirents V"
        "counter (apply_ops b V) = counter V" "\<And>i. nodes (apply_ops b V) i \<noteq> None \<Longrightarrow> nodes V i \<noteq> None"
        "is_dir (nodes (apply_ops b V)) op" "is_dir (nodes (apply_ops b V)) np"
    proof -
      have "tree_ok (nodes (apply_ops b V)) ((dirents V)((np, nn) := None)) \<and> dirents (apply_ops b V) = dirents V \<and>
        counter (apply_ops b V) = counter V \<and> (\<forall>i. nodes (apply_ops b V) i \<noteq> None \<longrightarrow> nodes V i \<noteq> None) \<and>
        is_dir (nodes (apply_ops b V)) op \<and> is_dir (nodes (apply_ops b V)) np"
      proof (cases d)
        case None
        then have "b = []" "(dirents V)((np, nn) := None) = dirents V" using go(6) s(2) by (auto simp: NewBatch_def)
        then show ?thesis using t s tree_okD(3) [OF t s(1)] by simp
      next
        case (Some dst)
        then have rt: "replace_target P st (now 0) srcNode np dst = Inr (b, fr)" using go(6) by simp
        have "dirents V (np, nn) = Some dst" using s(2) Some by simp
        note R = replace_target_ops [OF it ok V_def rt this]
        show ?thesis using R(1-4) R(5) [OF s(1)] R(5) [OF \<open>dirents V (np, nn) = Some dst\<close>] by blast
      qed
      then show "tree_ok (nodes (apply_ops b V)) ((dirents V)((np, nn) := None))" "dirents (apply_ops b V) = dirents V"
        "counter (apply_ops b V) = counter V" "\<And>i. nodes (apply_ops b V) i \<noteq> None \<Longrightarrow> nodes V i \<noteq> None"
        "is_dir (nodes (apply_ops b V)) op" "is_dir (nodes (apply_ops b V)) np" by blast+
    qed
    have ne: "(op, on) \<noteq> (np, nn)" using s go(5) by auto
    have eqD: "(dirents V)((np, nn) := None, (op, on) := None, (np, nn) \<mapsto> src) = (dirents V)((op, on) := None, (np, nn) \<mapsto> src)"
      by (auto simp: fun_eq_iff)
    have m: "tree_ok (nodes (apply_ops b V)) ((dirents V)((op, on) := None, (np, nn) \<mapsto> src))"
      using tree_move [OF B(1), of "(op, on)" src np nn] B(6) s(1) ne eqD by simp
    have b1: "nodes (apply_ops b1 V) = nodes (apply_ops b V)" "dirents (apply_ops b1 V) = (dirents V)((op, on) := None, (np, nn) \<mapsto> src)"
        "counter (apply_ops b1 V) = counter V"
      using B(2,3) by (simp_all add: b1_def batch_defs)
    have "ns_ok (apply_ops b2 V)"
    proof (cases "IsDir (nMode srcNode) \<and> op \<noteq> np")
      case True
      then obtain m1 l1 m2 l2 where rp: "nodes V op = Some (m1, l1)" "nodes V np = Some (m2, l2)"
          "nodes (apply_ops b2 V) = (nodes (apply_ops b1 V))(op \<mapsto> (m1, l1 - 1), np \<mapsto> (m2, l2 + 1))"
          "dirents (apply_ops b2 V) = dirents (apply_ops b1 V)" "counter (apply_ops b2 V) = counter (apply_ops b1 V)"
        using reparent_ops [of st "now 1" "now 2" op np b1 b2 V] go(7) by (auto simp: V_def b1_def)
      have dm: "IsDir m1" "IsDir m2" using tree_okD(3) [OF t s(1)] s(3) rp(1,2) by (auto simp: is_dir_def)
      obtain k1 j1 k2 j2 where k: "nodes (apply_ops b V) op = Some (k1, j1)" "IsDir k1" "nodes (apply_ops b V) np = Some (k2, j2)" "IsDir k2"
        using B(5,6) by (auto simp: is_dir_def)
      have "tree_ok ((nodes (apply_ops b V))(op \<mapsto> (m1, l1 - 1))) ((dirents V)((op, on) := None, (np, nn) \<mapsto> src))"
        by (rule tree_dir_count [OF m k(1,2) dm(1)])
      then have "tree_ok ((nodes (apply_ops b V))(op \<mapsto> (m1, l1 - 1), np \<mapsto> (m2, l2 + 1))) ((dirents V)((op, on) := None, (np, nn) \<mapsto> src))"
        using k True by (intro tree_dir_count [OF _ _ k(4) dm(2)]) auto
      then show ?thesis using rp b1 B(4) by (intro ns_okI [OF ok(1)]) (auto split: if_splits)
    next
      case False
      then have "b2 = b1" using go(7) by (auto simp: b1_def split: if_splits)
      then show ?thesis using m b1 B(4) by (intro ns_okI [OF ok(1)]) auto
    qed
    then have "ns_ok V1" using st_commit_view(1) [OF go(8), folded V_def V1_def] ok(1) by auto
    moreover have "ns_same V1 V'" using go(9) ns.free_inode_rel by (auto simp: V1_def V'_def)
    ultimately show ?thesis using ns_same_ok by (simp add: V'_def)
  qed (use ok(1) in \<open>simp add: V_def\<close>)
qed

end

section \<open>Attributes and file data\<close>

context pebble_engine
begin

lemma tree_chmod:
  assumes "tree_ok N D" "N i = Some (m, l)" "IsDir m' = IsDir m"
  shows "tree_ok (N(i \<mapsto> (m', l))) D"
proof -
  have "is_dir (N(i \<mapsto> (m', l))) q = is_dir N q" for q using assms(2,3) by (auto simp: is_dir_def)
  moreover have "link_ok (N(i \<mapsto> (m', l))) D j = link_ok N D j" for j using assms(2,3) by (auto simp: link_ok_def)
  ultimately show ?thesis using assms(1) by (simp add: tree_ok_def)
qed

lemma Setattr_ok:
  assumes "Setattr P W st now i sa = (st', r)" "ns_ok (view (ixDB (stIdx st)))"
  shows "ns_ok (view (ixDB (stIdx st')))"
proof -
  obtain st1 where st1: "st1 = st \<or> (\<exists>sz r1. shrink P W st i sz = (st1, r1))"
    "st' = st1 \<or> (\<exists>n rc. Stat P st1 i = Inr n \<and> st_commit P st1 (Batch_Set (NodeKey i) (encodeNode (set_attrs sa now n)) NewBatch) = (st', rc))"
    using Setattr_cases [OF assms(1)] by blast
  have "ns_same (view (ixDB (stIdx st))) (view (ixDB (stIdx st1)))" using st1(1) ns.shrink_rel by auto
  with st1(2) consider (stop) "ns_same (view (ixDB (stIdx st))) (view (ixDB (stIdx st')))"
    | (go) n rc where "ns_same (view (ixDB (stIdx st))) (view (ixDB (stIdx st1)))" "Stat P st1 i = Inr n"
        "st_commit P st1 (Batch_Set (NodeKey i) (encodeNode (set_attrs sa now n)) NewBatch) = (st', rc)" by blast
  then show ?thesis
  proof cases
    case go
    define V1 V' where "V1 = view (ixDB (stIdx st1))" and "V' = view (ixDB (stIdx st'))"
    have V1: "ns_ok V1" using ns_same_ok [OF go(1)] assms(2) by (simp add: V1_def)
    have n: "nodes V1 i = Some (nMode n, nNlink n)" using Stat_nodes [OF go(2)] by (simp add: V1_def)
    have "IsDir (nMode (set_attrs sa now n)) = IsDir (nMode n)" "nNlink (set_attrs sa now n) = nNlink n"
      by (simp_all add: set_attrs_def split: option.splits)
    then have "ns_ok (V1(NodeKey i \<mapsto> encodeNode (set_attrs sa now n)))"
      using V1 n tree_chmod [of "nodes V1" "dirents V1" i "nMode n" "nNlink n" "nMode (set_attrs sa now n)"]
      by (intro ns_okI [OF V1]) (auto simp: ns_ok_def split: if_splits)
    moreover have "V' = V1 \<or> V' = V1(NodeKey i \<mapsto> encodeNode (set_attrs sa now n))"
      using st_commit_view(1) [OF go(3), folded V1_def V'_def] by (auto simp: batch_defs)
    ultimately show ?thesis using V1 by (auto simp: V'_def)
  qed (use assms(2) ns_same_ok in blast)
qed

end

section \<open>Link counts of directories\<close>

text \<open>A directory's link count is meant to be two more than the number of its subdirectories.\<close>

definition subdirs :: "(bytes \<rightharpoonup> bytes) \<Rightarrow> u64 \<Rightarrow> bytes set" where
  "subdirs V p = {nm. \<exists>i. dirents V (p, nm) = Some i \<and> is_dir (nodes V) i}"

context pebble_engine
begin

lemma Rename_over_dir:
  assumes it: "iter_complete P" and V: "V = view (ixDB (stIdx st))" "V' = view (ixDB (stIdx st'))" and ok: "ns_ok V" "ns_room V"
    and r: "Rename P W st now op on np nn = (st', Inr ())" and ne: "op \<noteq> np"
    and s: "dirents V (op, on) = Some src" "dirents V (np, nn) = Some dst" "src \<noteq> dst" "is_dir (nodes V) src" "is_dir (nodes V) dst"
  shows "subdirs V' np = subdirs V np" "nodes V np = Some (m, l) \<Longrightarrow> nodes V' np = Some (m, l + 1)"
proof -
  have t: "tree_ok (nodes V) (dirents V)" using ok(1) by (simp add: ns_ok_def)
  from r have main: "subdirs V' np = subdirs V np \<and> (\<forall>m l. nodes V np = Some (m, l) \<longrightarrow> nodes V' np = Some (m, l + 1))"
  proof (cases rule: Rename_cases)
    case stop
    then obtain x where "readDirent P st op on = Inr (Some x)" "readDirent P st np nn = Inr (Some x)" by blast
    then have "dirents V (op, on) = Some x" "dirents V (np, nn) = Some x" using readDirent_dirents V(1) by metis+
    then show ?thesis using s by simp
  next
    case (go src' srcNode d b fr b2 st1 rc)
    have eq: "src' = src" "d = Some dst" using readDirent_dirents [OF go(1)] readDirent_dirents [OF go(4)] s V(1) by auto
    have sd: "IsDir (nMode srcNode)" using Stat_nodes [OF go(2)] s(4) V(1) eq by (auto simp: is_dir_def)
    have rt: "replace_target P st (now 0) srcNode np dst = Inr (b, fr)" using go(6) eq by simp
    note B = replace_target_ops [OF it ok V(1) rt s(2)]
    obtain dn where dn: "Stat P st dst = Inr dn" "IsDir (nMode dn)"
      using rt s(5) Stat_nodes V(1) by (fastforce simp: replace_target_def text_err_def is_dir_def split: sum.splits)
    obtain npn where b: "b = [BDelete (NodeKey dst), BSet (NodeKey np) (encodeNode npn)]" "fr = 0" "nodes V np = Some (nMode npn, nNlink npn + 1)"
      using rt dn Stat_nodes V(1) by (fastforce simp: replace_target_def text_err_def bindE_ok batch_defs split: if_splits)
    let ?b1 = "Batch_Set (DirentKey np nn) (direntValue src) (Batch_Delete (DirentKey op on) b)"
    obtain m1 l1 m2 l2 where rp: "nodes V op = Some (m1, l1)" "nodes V np = Some (m2, l2)"
        "nodes (apply_ops b2 V) = (nodes (apply_ops ?b1 V))(op \<mapsto> (m1, l1 - 1), np \<mapsto> (m2, l2 + 1))"
        "dirents (apply_ops b2 V) = dirents (apply_ops ?b1 V)"
      using reparent_ops [of st "now 1" "now 2" op np ?b1 b2 V] go(7) sd ne eq V(1) by auto
    have "st' = st1" using go(9) b(2) by (auto simp: free_inode_def)
    then have V': "V' = apply_ops b2 V" using st_commit_view(1) [OF go(8)] go(9) V by auto
    have N: "nodes V' = (nodes V)(dst := None, np \<mapsto> (nMode npn, nNlink npn), op \<mapsto> (m1, l1 - 1), np \<mapsto> (m2, l2 + 1))"
        and D: "dirents V' = (dirents V)((op, on) := None, (np, nn) \<mapsto> src)"
      unfolding V' rp(3,4) by (simp_all add: batch_defs b(1))
    have dirs: "IsDir m1" "IsDir m2" using tree_okD(3) [OF t s(1)] tree_okD(3) [OF t s(2)] rp(1,2) by (auto simp: is_dir_def)
    have only: "nm = nn" if "dirents V (np, nm) = Some dst" for nm
    proof -
      have "card (links (dirents V) dst) \<le> 1" using tree_okD(4) [OF t, of dst] s(5) by (auto simp: link_ok_def is_dir_def split: if_splits)
      moreover have "(np, nm) \<in> links (dirents V) dst" "(np, nn) \<in> links (dirents V) dst" using that s(2) by (simp_all add: links_def)
      ultimately show ?thesis using tree_okD(5) [OF t, of dst] by (metis card_le_Suc0_iff_eq One_nat_def prod.inject)
    qed
    have id: "is_dir (nodes V') i = is_dir (nodes V) i" if "i \<noteq> dst" for i
      using that rp(1,2) dirs by (auto simp: N is_dir_def)
    have "nm \<in> subdirs V' np \<longleftrightarrow> nm \<in> subdirs V np" for nm
    proof (cases "nm = nn")
      case True
      then show ?thesis using s(2,4,5) id [OF s(3)] by (simp add: subdirs_def D)
    next
      case False
      then have "dirents V' (np, nm) = dirents V (np, nm)" using ne by (simp add: D)
      moreover have "dirents V (np, nm) \<noteq> Some dst" using only False by blast
      ultimately show ?thesis using id by (auto simp: subdirs_def)
    qed
    then show ?thesis using rp(2) by (auto simp: N)
  qed
  then show "subdirs V' np = subdirs V np" "nodes V np = Some (m, l) \<Longrightarrow> nodes V' np = Some (m, l + 1)" by blast+
qed

end

end
