(* ===== verification/Store_Machine.thy ===== *)
theory Store_Machine
  imports Store_Namespace
begin

text \<open>
  The store as a state machine: one step per call on the namespace, on attributes, on open
  files and of a background worker. Every reachable state is a proper file system.
\<close>

section \<open>Steps\<close>

inductive store_step :: "'db pebble \<Rightarrow> 'sem weighted \<Rightarrow> ('db, 'sem) Store \<Rightarrow> ('db, 'sem) Store \<Rightarrow> bool"
  for P W where
  step_create: "Create P st now p nm mode uid gid = (st', r1) \<Longrightarrow> store_step P W st st'"
| step_mkdir: "Mkdir P st now p nm mode uid gid = (st', r2) \<Longrightarrow> store_step P W st st'"
| step_symlink: "Symlink P st now p nm target uid gid = (st', r3) \<Longrightarrow> store_step P W st st'"
| step_link: "Link P st now i p nm = (st', r4) \<Longrightarrow> store_step P W st st'"
| step_unlink: "Unlink P W st now p nm = (st', r5) \<Longrightarrow> store_step P W st st'"
| step_rmdir: "Rmdir P st now p nm = (st', r6) \<Longrightarrow> store_step P W st st'"
| step_rename: "Rename P W st nows op on np nn = (st', r7) \<Longrightarrow> store_step P W st st'"
| step_setattr: "Setattr P W st now i sa = (st', r8) \<Longrightarrow> store_step P W st st'"
| step_write: "WriteAtTier P W st now i d off tier = (st', r9) \<Longrightarrow> store_step P W st st'"
| step_read: "ReadAt P st i d off = (st', r10) \<Longrightarrow> store_step P W st st'"
| step_sync: "on_co st (\<lambda>c. co_Fsync P W c i) = (st', r11) \<Longrightarrow> store_step P W st st'"
| step_worker: "on_co st (flusher_turn P W) = (st', r12) \<Longrightarrow> store_step P W st st'"
| step_tick: "store_step P W st (st\<lparr>stCo := map_option tick (stCo st)\<rparr>)"

inductive store_runs :: "'db pebble \<Rightarrow> 'sem weighted \<Rightarrow> ('db \<Rightarrow> bytes \<rightharpoonup> bytes) \<Rightarrow> ('db, 'sem) Store \<Rightarrow> ('db, 'sem) Store \<Rightarrow> bool"
  for P W view where
  runs_refl: "store_runs P W view st st"
| runs_step: "store_runs P W view st st1 \<Longrightarrow> ns_room (view (ixDB (stIdx st1))) \<Longrightarrow> store_step P W st1 st2 \<Longrightarrow> store_runs P W view st st2"

section \<open>The invariant\<close>

context pebble_engine
begin

lemma store_step_ok:
  assumes "store_step P W st st'" "iter_complete P" "ns_ok (view (ixDB (stIdx st)))" "ns_room (view (ixDB (stIdx st)))"
  shows "ns_ok (view (ixDB (stIdx st')))"
  using assms
proof (cases rule: store_step.cases)
  case (step_sync i r)
  then have "ns_same (view (ixDB (stIdx st))) (view (ixDB (stIdx st')))"
    using ns.Fsync_rel by (fastforce simp: on_co_def split: option.splits prod.splits)
  then show ?thesis using ns_same_ok assms(3) by blast
next
  case (step_worker r)
  then have "ns_same (view (ixDB (stIdx st))) (view (ixDB (stIdx st')))"
    using ns.flushInode_rel by (fastforce simp: on_co_def flusher_turn_def split: option.splits prod.splits list.splits)
  then show ?thesis using ns_same_ok assms(3) by blast
next
  case (step_write now i d off tier r)
  then show ?thesis using ns.WriteAtTier_rel ns_same_ok assms(3) by blast
next
  case (step_read i d off r)
  then show ?thesis using ReadAt_DB assms(3) by metis
qed (use Create_ok Mkdir_ok Symlink_ok Link_ok Unlink_ok Rmdir_ok Rename_ok Setattr_ok in \<open>simp_all, blast+\<close>)

lemma store_runs_ok:
  assumes "store_runs P W view st st'" "iter_complete P" "ns_ok (view (ixDB (stIdx st)))"
  shows "ns_ok (view (ixDB (stIdx st')))"
  using assms by (induction rule: store_runs.induct) (auto intro: store_step_ok)

text \<open>A new database: opening it writes the counter and the root directory.\<close>

lemma Open_ok:
  assumes "Store_Open P W now idx = (idx', Inr st)" "view (ixDB idx) StoreNextInodeKey = None" "nodes (view (ixDB idx)) = Map.empty"
      "dirents (view (ixDB idx)) = Map.empty" "view (ixDB idx) (NodeKey RootInode) = None"
  shows "ns_ok (view (ixDB (stIdx st))) \<and> stIdx st = idx'"
proof -
  let ?V = "view (ixDB idx)"
  let ?root = "\<lparr>nInode = RootInode, nMode = ModeDir OR 0x1ED, nNlink = 2, nUID = 0, nGID = 0, nSize = 0,
                  nMtime = now, nCtime = now, nAtime = now, nSymlinkTarget = []\<rparr>"
  let ?V' = "?V(StoreNextInodeKey \<mapsto> le64 (RootInode + 1), NodeKey RootInode \<mapsto> encodeNode ?root)"
  have g: "v = None" if "DB_Get P (ixDB idx) StoreNextInodeKey = Inr v \<or> DB_Get P (ixDB idx) (NodeKey RootInode) = Inr v" for v
    using that DB_Get_view assms(2,5) by metis
  obtain x y where xy: "DB_Get P (ixDB idx) StoreNextInodeKey = Inr x" "DB_Get P (ixDB idx) (NodeKey RootInode) = Inr y"
    using assms(1) by (auto simp: Store_Open_def Let_def elim!: checked_cases)
  then have "x = None" "y = None" using g by blast+
  then have xy: "DB_Get P (ixDB idx) StoreNextInodeKey = Inr None" "DB_Get P (ixDB idx) (NodeKey RootInode) = Inr None" using xy by simp_all
  obtain idx1 where c: "commit_batch P idx [BSet StoreNextInodeKey (le64 (RootInode + 1)), BSet (NodeKey RootInode) (encodeNode ?root)] = (idx1, Inr ())"
      "st = \<lparr>stIdx = idx1, stCo = Some (newCoalescer W)\<rparr>" "idx' = idx1"
    using assms(1) xy by (auto simp: Store_Open_def Let_def batch_defs andThen_ok)
  have V': "view (ixDB idx1) = ?V'" using commit_batch_view [OF c(1)] by auto
  have dir: "IsDir (ModeDir OR 0x1ED)" by (simp add: IsDir_def mode_defs)
  have "tree_ok [RootInode \<mapsto> (ModeDir OR 0x1ED, 2)] Map.empty"
    using dir by (auto simp: tree_ok_def is_dir_def link_ok_def links_def)
  then have "ns_ok ?V'" using assms(3,4) by (auto simp: ns_ok_def RootInode_def split: if_splits)
  then show ?thesis using V' c by simp
qed

end

section \<open>Created files are found\<close>

lemma st_commit_co: "st_commit P st b = (st', r) \<Longrightarrow> stCo st' = stCo st"
  by (auto simp: st_commit_def split: prod.splits)

lemma Create_valid: "Create P st now p nm mode uid gid = (st', Inr n) \<Longrightarrow> validName nm = Inr () \<and> stCo st' = stCo st"
  by (auto simp: Create_def Let_def elim!: checked_cases andThen_cases dest: st_commit_co split: prod.splits)

context reliable_pebble
begin

lemma Create_lookup:
  assumes c: "Create P st now p nm mode uid gid = (st', Inr n)" and now: "in_i64 now" and l: "live_of st (nInode n) = None"
  shows "Lookup P st' p nm = Inr n" "(q, nm') \<noteq> (p, nm) \<Longrightarrow> readDirent P st' q nm' = readDirent P st q nm'"
    "i \<noteq> nInode n \<Longrightarrow> Stat P st' i = Stat P st i"
proof -
  let ?V = "view (ixDB (stIdx st))"
  define k where "k = counter ?V"
  note e = Create_ns(2) [OF c refl, folded k_def]
  have n: "n = new_node k (ModeRegular OR (mode AND PermMask)) 1 uid gid 0 [] now"
    and V: "view (ixDB (stIdx st')) = ?V(StoreNextInodeKey \<mapsto> le64 (k + 1), NodeKey k \<mapsto> encodeNode n, DirentKey p nm \<mapsto> direntValue k)"
    using e by blast+
  have k: "nInode n = k" by (simp add: n new_node_def)
  note valid = Create_valid [OF c]
  then have lv: "live_of st' j = live_of st j" for j by (simp add: live_of_def)
  have dec: "decodeNode (encodeNode n) = Inr n" using now by (intro decode_encodeNode) (simp_all add: n new_node_def node_i64_def in_i64_def)
  have rd: "readDirent P st' p nm = Inr (Some k)" by (simp add: readDirent_def st_get_def DB_Get_total V or_panic_def)
  have "Stat P st' k = Inr n" using dec l k by (simp add: Stat_def st_get_def DB_Get_total V lv merge_live_def)
  then show "Lookup P st' p nm = Inr n" using valid rd by (simp add: Lookup_def text_err_def)
  show "readDirent P st' q nm' = readDirent P st q nm'" if "(q, nm') \<noteq> (p, nm)"
    using that by (auto simp: readDirent_def st_get_def DB_Get_total V)
  show "Stat P st' i = Stat P st i" if "i \<noteq> nInode n"
    using that k by (simp add: Stat_def st_get_def DB_Get_total V lv split: option.split)
qed

end

section \<open>Stores for the witnesses\<close>

definition new_db_store :: "(kvpair list, int) Store" where
  "new_db_store = (case Store_Open mem_pebble counter_sem 9 fresh_index of (idx, Inr st) \<Rightarrow> st
     | (idx, Inl e) \<Rightarrow> \<lparr>stIdx = idx, stCo = None\<rparr>)"

lemma nodes_empty [simp]: "nodes Map.empty = Map.empty" "dirents Map.empty = Map.empty"
  by (simp_all add: nodes_def dirents_def fun_eq_iff)

lemma new_db_open: "\<exists>idx. Store_Open mem_pebble counter_sem 9 fresh_index = (idx, Inr new_db_store)"
  by (simp add: new_db_store_def Store_Open_def DB_Get_def commit_batch_def Batch_Commit_def Let_def)

definition root_node :: Node where
  "root_node = \<lparr>nInode = 1, nMode = ModeDir OR 0x1ED, nNlink = 2, nUID = 0, nGID = 0, nSize = 0,
     nMtime = 9, nCtime = 9, nAtime = 9, nSymlinkTarget = []\<rparr>"

lemma new_db:
  "ixDB (stIdx new_db_store) = [(StoreNextInodeKey, le64 2), (NodeKey 1, encodeNode root_node)]"
  "stCo new_db_store = Some (newCoalescer counter_sem)"
  by (simp_all add: new_db_store_def Store_Open_def DB_Get_def commit_batch_def Batch_Commit_def Let_def batch_defs RootInode_def root_node_def)

lemma new_db_ok: "ns_ok (map_of (ixDB (stIdx new_db_store)))"
proof -
  obtain idx where "Store_Open mem_pebble counter_sem 9 fresh_index = (idx, Inr new_db_store)" using new_db_open by blast
  from mem.Open_ok [OF this, THEN conjunct1] show ?thesis by simp
qed

definition dir_node :: "u64 \<Rightarrow> u32 \<Rightarrow> Node" where
  "dir_node i l = new_node i (ModeDir OR 0x1ED) l 0 0 0 [] 9"

definition tree_db :: "kvpair list" where
  "tree_db = [(StoreNextInodeKey, le64 5), (DirentKey 2 [120], direntValue 4), (NodeKey 4, encodeNode (dir_node 4 2)),
     (DirentKey 1 [98], direntValue 3), (NodeKey 3, encodeNode (dir_node 3 2)),
     (DirentKey 1 [97], direntValue 2), (NodeKey 2, encodeNode (dir_node 2 3)), (NodeKey 1, encodeNode (dir_node 1 4))]"

definition tree_store :: "(kvpair list, int) Store" where
  "tree_store = \<lparr>stIdx = fresh_index\<lparr>ixDB := tree_db\<rparr>, stCo = None\<rparr>"

lemma tree_maps:
  "nodes (map_of tree_db) = [1 \<mapsto> (ModeDir OR 0x1ED, 4), 2 \<mapsto> (ModeDir OR 0x1ED, 3), 3 \<mapsto> (ModeDir OR 0x1ED, 2), 4 \<mapsto> (ModeDir OR 0x1ED, 2)]"
  "dirents (map_of tree_db) = [(1, [97]) \<mapsto> 2, (1, [98]) \<mapsto> 3, (2, [120]) \<mapsto> 4]"
  "counter (map_of tree_db) = 5"
  by (simp_all add: tree_db_def dir_node_def new_node_def)

lemma tree_db_ok: "ns_ok (map_of tree_db)" "ns_room (map_of tree_db)"
proof -
  let ?m = "ModeDir OR 0x1ED :: Mode"
  have m: "IsDir ?m" by (simp add: IsDir_def mode_defs)
  have "tree_ok [1 \<mapsto> (?m, 4)] Map.empty" using m by (auto simp: tree_ok_def is_dir_def link_ok_def links_def RootInode_def)
  then have "tree_ok [1 \<mapsto> (?m, 4), 2 \<mapsto> (?m, 3)] [(1, [97]) \<mapsto> 2]" by (rule tree_add_new) (use m in \<open>auto simp: is_dir_def\<close>)
  then have "tree_ok [1 \<mapsto> (?m, 4), 2 \<mapsto> (?m, 3), 3 \<mapsto> (?m, 2)] [(1, [97]) \<mapsto> 2, (1, [98]) \<mapsto> 3]"
    by (rule tree_add_new) (use m in \<open>auto simp: is_dir_def\<close>)
  then have t: "tree_ok (nodes (map_of tree_db)) (dirents (map_of tree_db))"
    unfolding tree_maps by (rule tree_add_new) (use m in \<open>auto simp: is_dir_def\<close>)
  then show "ns_ok (map_of tree_db)" by (auto simp: ns_ok_def tree_maps(1,3) split: if_splits)
  have "links (dirents (map_of tree_db)) i \<subseteq> {(1, [97]), (1, [98]), (2, [120])}" for i
    by (auto simp: links_def tree_maps split: if_splits)
  then have "card (links (dirents (map_of tree_db)) i) \<le> card {(1 :: u64, [97 :: byte]), (1, [98]), (2, [120])}" for i by (rule card_mono [rotated]) simp
  then have "card (links (dirents (map_of tree_db)) i) < 2 ^ 32" for i by (rule le_less_trans) simp
  then show "ns_room (map_of tree_db)" by (simp add: ns_room_def next_ok_def tree_maps(3))
qed

lemma dirent_prefix [simp]:
  "in_range (DirentPrefix i) (PrefixUpperBound (DirentPrefix i)) (DirentKey j nm) \<longleftrightarrow> i = j"
  "\<not> in_range (DirentPrefix i) (PrefixUpperBound (DirentPrefix i)) (NodeKey j)"
  "\<not> in_range (DirentPrefix i) (PrefixUpperBound (DirentPrefix i)) StoreNextInodeKey"
  by (auto simp: prefix_range DirentPrefix_def DirentKey_def NodeKey_def StoreNextInodeKey_def tag_defs prefix_def)

lemma tree_stat:
  "i = 1 \<Longrightarrow> Stat mem_pebble tree_store i = Inr (dir_node 1 4)" "i = 2 \<Longrightarrow> Stat mem_pebble tree_store i = Inr (dir_node 2 3)"
  "i = 3 \<Longrightarrow> Stat mem_pebble tree_store i = Inr (dir_node 3 2)" "i = 4 \<Longrightarrow> Stat mem_pebble tree_store i = Inr (dir_node 4 2)"
proof -
  have "decodeNode (encodeNode (dir_node j k)) = Inr (dir_node j k)" for j k
    by (rule decode_encodeNode) (simp_all add: dir_node_def new_node_def node_i64_def in_i64_def)
  then show "i = 1 \<Longrightarrow> Stat mem_pebble tree_store i = Inr (dir_node 1 4)" "i = 2 \<Longrightarrow> Stat mem_pebble tree_store i = Inr (dir_node 2 3)"
    "i = 3 \<Longrightarrow> Stat mem_pebble tree_store i = Inr (dir_node 3 2)" "i = 4 \<Longrightarrow> Stat mem_pebble tree_store i = Inr (dir_node 4 2)"
    by (simp_all add: Stat_def st_get_def DB_Get_def tree_store_def tree_db_def live_of_def merge_live_def)
qed

lemma tree_rename:
  "\<exists>st'. Rename mem_pebble counter_sem tree_store (\<lambda>_. 9) 2 [120] 1 [98] = (st', Inr ())"
proof -
  have d: "IsDir (nMode (dir_node j k))" for j k by (simp add: dir_node_def new_node_def IsDir_def mode_defs)
  have rd: "readDirent mem_pebble tree_store 2 [120] = Inr (Some 4)" "readDirent mem_pebble tree_store 1 [98] = Inr (Some 3)"
    by (simp_all add: readDirent_def st_get_def DB_Get_def tree_store_def tree_db_def or_panic_def)
  have h: "hasDirentChildren mem_pebble tree_store 3 = Inr False"
    by (simp add: hasDirentChildren_def DB_Iter_def tree_store_def tree_db_def mem_scan_def)
  have v: "validName [120] = Inr ()" "validName [98] = Inr ()" by (simp_all add: validName_def)
  have "isDescendant mem_pebble tree_store 1 4 = Inr False"
    using climb.simps(2) [of mem_pebble tree_store 4 999 1] by (simp add: isDescendant_def RootInode_def)
  then have nc: "no_cycle mem_pebble tree_store (dir_node 4 2) 1 4 = Inr ()" by (simp add: no_cycle_def)
  have rt: "\<exists>b. replace_target mem_pebble tree_store 9 (dir_node 4 2) 1 3 = Inr (b, 0)"
    by (simp add: replace_target_def tree_stat text_err_def d h)
  then obtain b where b: "replace_target mem_pebble tree_store 9 (dir_node 4 2) 1 3 = Inr (b, 0)" by blast
  show ?thesis
    by (simp add: Rename_def v rd tree_stat text_err_def requireDir_def d nc b reparent_def st_commit_def commit_batch_def Batch_Commit_def
        free_inode_def Let_def)
qed

section \<open>Properties\<close>



text \<open>
  C20: renaming a directory over an empty directory of another parent miscounts: the target's
  parent has the same subdirectories as before, and its link count is one higher. The decrement
  for the replaced directory is overwritten by the increment, which starts from the count that
  was read before.
\<close>

theorem rename_over_dir_miscounts:
  assumes "pebble_engine P view" "iter_complete P" "V = view (ixDB (stIdx st))" "V' = view (ixDB (stIdx st'))" "ns_ok V" "ns_room V"
    and "Rename P W st now op on np nn = (st', Inr ())" "op \<noteq> np"
    and "dirents V (op, on) = Some src" "dirents V (np, nn) = Some dst" "src \<noteq> dst" "is_dir (nodes V) src" "is_dir (nodes V) dst"
    and "nodes V np = Some (m, l)"
  shows "subdirs V' np = subdirs V np \<and> nodes V' np = Some (m, l + 1)"
  using pebble_engine.Rename_over_dir [OF assms(1-13)] assms(14) by blast

theorem rename_over_dir_miscounts_witness:
  "\<exists>st'. Rename mem_pebble counter_sem tree_store (\<lambda>_. 9) 2 [120] 1 [98] = (st', Inr ()) \<and>
     subdirs (map_of (ixDB (stIdx st'))) 1 = {[97], [98]} \<and> nodes (map_of (ixDB (stIdx st'))) 1 = Some (ModeDir OR 0x1ED, 5)"
proof -
  obtain st' where r: "Rename mem_pebble counter_sem tree_store (\<lambda>_. 9) 2 [120] 1 [98] = (st', Inr ())" using tree_rename by blast
  have v: "ixDB (stIdx tree_store) = tree_db" by (simp add: tree_store_def)
  have m: "IsDir (ModeDir OR 0x1ED)" by (simp add: IsDir_def mode_defs)
  have "subdirs (map_of tree_db) 1 = {[97], [98]}" using m by (auto simp: subdirs_def tree_maps is_dir_def split: if_splits)
  then show ?thesis
    using rename_over_dir_miscounts [OF mem.pebble_engine_axioms mem_iter_complete refl refl _ _ r, unfolded v, OF tree_db_ok, of 4 3] r m
    by (simp add: tree_maps is_dir_def)
qed

text \<open>
  C19: a file that \<open>Create\<close> returns is found under its name, with exactly the attributes it
  was created with, under an inode no node had; every other entry and node is as before.
\<close>

theorem created_file_is_found:
  assumes "reliable_pebble P view" "Create P st now p nm mode uid gid = (st', Inr n)" "in_i64 now" "live_of st (nInode n) = None"
    and "ns_ok (view (ixDB (stIdx st)))"
  shows "Lookup P st' p nm = Inr n \<and> nodes (view (ixDB (stIdx st))) (nInode n) = None \<and>
    (\<forall>q nm'. (q, nm') \<noteq> (p, nm) \<longrightarrow> readDirent P st' q nm' = readDirent P st q nm') \<and>
    (\<forall>i. i \<noteq> nInode n \<longrightarrow> Stat P st' i = Stat P st i)"
proof -
  have pe: "pebble_engine P view" using assms(1) by (simp add: reliable_pebble_def)
  have "nInode n = counter (view (ixDB (stIdx st)))" using pebble_engine.Create_ns(2) [OF pe assms(2) refl] by (simp add: new_node_def)
  then show ?thesis using reliable_pebble.Create_lookup [OF assms(1-4)] fresh_counter [OF assms(5)] by simp
qed

theorem created_file_is_found_witness:
  "\<exists>st' n. Create mem_pebble new_db_store 10 1 [97] 0x1A4 0 0 = (st', Inr n) \<and> Lookup mem_pebble st' 1 [97] = Inr n"
proof -
  have "Stat mem_pebble new_db_store 1 = Inr root_node"
    using decode_encodeNode [of root_node]
    by (simp add: Stat_def st_get_def DB_Get_def new_db live_of_def LiveAttrs_def newCoalescer_def newCoalescerWithOptions_def Let_def co_buf_def
        merge_live_def root_node_def node_i64_def in_i64_def)
  then have "requireDir mem_pebble new_db_store 1 = Inr ()"
    by (simp add: requireDir_def root_node_def IsDir_def mode_defs)
  then obtain st' n where c: "Create mem_pebble new_db_store 10 1 [97] 0x1A4 0 0 = (st', Inr n)"
    by (simp add: Create_def validName_def require_free_def readDirent_def st_get_def DB_Get_def new_db allocInode_def st_commit_def
        commit_batch_def Batch_Commit_def Let_def)
  have "live_of new_db_store i = None" for i
    by (simp add: live_of_def new_db LiveAttrs_def newCoalescer_def newCoalescerWithOptions_def Let_def co_buf_def)
  then show ?thesis using created_file_is_found [OF mem.reliable_pebble_axioms c _ _ new_db_ok] c by (simp add: in_i64_def)
qed

end
