(* ===== verification/Schema.thy ===== *)
theory Schema
  imports Store_Machine
begin

text \<open>
  The database has a schema: every key is of one of the kinds of \<open>src/kv/keys.go\<close>, and its
  value is of the type that belongs to the kind. The readers of \<open>src/store/store.go\<close> rely on it:
  \<open>findParent\<close> and \<open>Readdir\<close> take every key with the tag of directory entries apart without a
  check, and \<open>Stat\<close> returns whatever inode number the value holds.
\<close>

section \<open>The schema\<close>

definition entry_ok :: "bytes \<Rightarrow> bytes \<Rightarrow> bool" where
  "entry_ok k v \<longleftrightarrow> prefix StripeAllPrefix k \<or> k = StoreNextInodeKey \<and> length v = 8 \<or>
     (\<exists>n. k = NodeKey (nInode n) \<and> decodeNode v = Inr n) \<or>
     (\<exists>p nm i. k = DirentKey p nm \<and> validName nm = Inr () \<and> v = direntValue i)"

definition schema_ok :: "(bytes \<rightharpoonup> bytes) \<Rightarrow> bool" where
  "schema_ok V \<longleftrightarrow> (\<forall>k v. V k = Some v \<longrightarrow> entry_ok k v)"

fun op_ok :: "bop \<Rightarrow> bool" where
  "op_ok (BSet k v) = entry_ok k v"
| "op_ok (BDelete k) = True"

definition keeps_schema :: "(bytes \<rightharpoonup> bytes) \<Rightarrow> (bytes \<rightharpoonup> bytes) \<Rightarrow> bool" where
  "keeps_schema V V' \<longleftrightarrow> (schema_ok V \<longrightarrow> schema_ok V')"

lemma entry_okI [intro, simp]:
  "prefix StripeAllPrefix k \<Longrightarrow> entry_ok k v" "entry_ok StoreNextInodeKey (le64 c)" "nInode n = i \<Longrightarrow> entry_ok (NodeKey i) (encodeNode n)"
  "validName nm = Inr () \<Longrightarrow> entry_ok (DirentKey p nm) (direntValue j)"
proof -
  obtain m where "decodeNode (encodeNode n) = Inr m" "nInode m = nInode n" using decode_encode_core by blast
  then show "nInode n = i \<Longrightarrow> entry_ok (NodeKey i) (encodeNode n)" unfolding entry_ok_def by metis
qed (auto simp: entry_ok_def)

lemma apply_ops_schema: "list_all op_ok ops \<Longrightarrow> schema_ok V \<Longrightarrow> schema_ok (apply_ops ops V)"
proof (induction ops arbitrary: V)
  case (Cons op ops)
  have "schema_ok (apply_ops [op] V)" using Cons.prems by (cases op) (auto simp: schema_ok_def)
  then show ?case using Cons by (cases op) auto
qed simp

lemma schema_node: "schema_ok V \<Longrightarrow> V (NodeKey i) = Some v \<Longrightarrow> \<exists>n. decodeNode v = Inr n \<and> nInode n = i"
  unfolding schema_ok_def entry_ok_def by (fastforce simp: key_defs tag_defs StripeAllPrefix_def)

lemma schema_dirent: "schema_ok V \<Longrightarrow> V k = Some v \<Longrightarrow> prefix [tagDirent] k \<Longrightarrow>
    \<exists>p nm i. k = DirentKey p nm \<and> validName nm = Inr () \<and> v = direntValue i"
proof -
  assume a: "schema_ok V" "V k = Some v" "prefix [tagDirent] k"
  have "\<not> prefix StripeAllPrefix k" "k \<noteq> StoreNextInodeKey" "k \<noteq> NodeKey i" for i
    using a(3) by (auto simp: StripeAllPrefix_def StoreNextInodeKey_def NodeKey_def tag_defs prefix_def)
  moreover have "entry_ok k v" using a unfolding schema_ok_def by blast
  ultimately show ?thesis unfolding entry_ok_def by blast
qed

section \<open>The operations keep the schema\<close>

sublocale pebble_engine \<subseteq> ty: data_relation P view keeps_schema
proof
  fix V :: "bytes \<rightharpoonup> bytes" and i v n s t
  assume v: "V (NodeKey i) = Some v" "decodeNode v = Inr n"
  have "nInode n = i" if "schema_ok V" using schema_node [OF that v(1)] v(2) by simp
  then show "keeps_schema V (V(NodeKey i \<mapsto> encodeNode (n\<lparr>nSize := s, nMtime := t, nCtime := t\<rparr>)))"
    by (auto simp: keeps_schema_def schema_ok_def)
next
  fix ops :: "bop list" and V :: "bytes \<rightharpoonup> bytes"
  assume a: "\<forall>op \<in> set ops. prefix StripeAllPrefix (op_key op)"
  have "op_ok op" if "op \<in> set ops" for op using a that by (cases op) auto
  then show "keeps_schema V (apply_ops ops V)" using apply_ops_schema by (auto simp: keeps_schema_def list_all_iff)
qed (auto simp: keeps_schema_def)

context pebble_engine
begin

abbreviation typed :: "('db, 'sem) Store \<Rightarrow> bool" where
  "typed st \<equiv> schema_ok (view (ixDB (stIdx st)))"

lemma st_commit_typed: "st_commit P st b = (st', r) \<Longrightarrow> list_all op_ok b \<Longrightarrow> typed st \<Longrightarrow> typed st'"
  using st_commit_view(1) apply_ops_schema by metis

lemma Stat_inode: "typed st \<Longrightarrow> Stat P st i = Inr n \<Longrightarrow> nInode n = i"
proof -
  assume t: "typed st" and r: "Stat P st i = Inr n"
  then obtain v m where v: "DB_Get P (ixDB (stIdx st)) (NodeKey i) = Inr (Some v)" "decodeNode v = Inr m" "n = merge_live (live_of st i) m"
    by (auto simp: Stat_def st_get_def bindE_ok split: option.splits)
  then have "view (ixDB (stIdx st)) (NodeKey i) = Some v" using DB_Get_view by metis
  then show ?thesis using schema_node [OF t] v(2,3) by fastforce
qed

lemma allocInode_ops: "allocInode P st NewBatch = Inr (i, b) \<Longrightarrow> list_all op_ok b"
  using allocInode_counter [of st NewBatch i b] by (simp add: NewBatch_def)

lemma new_entry_typed:
  assumes "allocInode P st NewBatch = Inr (i, b)" "validName nm = Inr ()" "nInode n = i"
    and "st_commit P st (Batch_Set (DirentKey p nm) (direntValue i) (Batch_Set (NodeKey i) (encodeNode n) b)) = (st', r)" "typed st"
  shows "typed st'"
  using allocInode_ops [OF assms(1)] assms(2,3) by (intro st_commit_typed [OF assms(4) _ assms(5)]) (simp add: batch_defs)

lemma Create_typed:
  assumes "Create P st now p nm mode uid gid = (st', r)" "typed st"
  shows "typed st'"
proof -
  from assms(1) show ?thesis
  proof (cases rule: Create_cases)
    case (go i b rc)
    show ?thesis by (rule new_entry_typed [OF go(3) go(6) _ go(4) assms(2)]) (simp add: new_node_def)
  qed (use assms(2) in simp)
qed

lemma Symlink_typed:
  assumes "Symlink P st now p nm target uid gid = (st', r)" "typed st"
  shows "typed st'"
proof -
  from assms(1) show ?thesis
  proof (cases rule: Symlink_cases)
    case (go i b rc)
    show ?thesis by (rule new_entry_typed [OF go(3) go(5) _ go(4) assms(2)]) (simp add: new_node_def)
  qed (use assms(2) in simp)
qed

lemma Mkdir_typed:
  assumes "Mkdir P st now p nm mode uid gid = (st', r)" "typed st"
  shows "typed st'"
proof -
  from assms(1) show ?thesis
  proof (cases rule: Mkdir_cases)
    case (go pn i b rc)
    show ?thesis
      using allocInode_ops [OF go(4)] go(6) Stat_inode [OF assms(2) go(1)]
      by (intro st_commit_typed [OF go(5) _ assms(2)]) (simp add: batch_defs new_node_def)
  qed (use assms(2) in simp)
qed

lemma Link_typed:
  assumes "Link P st now target p nm = (st', r)" "typed st"
  shows "typed st'"
proof -
  from assms(1) show ?thesis
  proof (cases rule: Link_cases)
    case (go tn rc)
    show ?thesis
      using go(6) Stat_inode [OF assms(2) go(1)] by (intro st_commit_typed [OF go(5) _ assms(2)]) (simp add: batch_defs)
  qed (use assms(2) in simp)
qed

lemma free_typed: "free_inode P W st fr = (st', r) \<Longrightarrow> typed st \<Longrightarrow> typed st'"
  using ty.free_inode_rel unfolding keeps_schema_def by blast

lemma drop_link_ok: "drop_link i n now b = (b', fr) \<Longrightarrow> nInode n = i \<Longrightarrow> list_all op_ok b \<Longrightarrow> list_all op_ok b'"
  by (auto simp: drop_link_def Let_def batch_defs split: if_splits)

lemma Unlink_typed:
  assumes "Unlink P W st now p nm = (st', r)" "typed st"
  shows "typed st'"
proof -
  from assms(1) show ?thesis
  proof (cases rule: Unlink_cases)
    case (go i n b fr st1 rc)
    have "list_all op_ok b" by (rule drop_link_ok [OF go(4) Stat_inode [OF assms(2) go(2)]]) (simp add: batch_defs)
    then show ?thesis using st_commit_typed [OF go(5) _ assms(2)] go(6) free_typed by blast
  qed (use assms(2) in simp)
qed

lemma Rmdir_typed:
  assumes "Rmdir P st now p nm = (st', r)" "typed st"
  shows "typed st'"
proof -
  from assms(1) show ?thesis
  proof (cases rule: Rmdir_cases)
    case (go i n pn)
    show ?thesis using Stat_inode [OF assms(2) go(5)] by (intro st_commit_typed [OF go(6) _ assms(2)]) (simp add: batch_defs)
  qed (use assms(2) in simp)
qed

lemma replace_target_typed:
  assumes "replace_target P st now srcNode np dst = Inr (b, fr)" "typed st"
  shows "list_all op_ok b"
proof -
  obtain dn where dn: "Stat P st dst = Inr dn" using assms(1) by (auto simp: replace_target_def text_err_def split: sum.splits)
  show ?thesis
  proof (cases "IsDir (nMode dn)")
    case True
    then obtain npn where "Stat P st np = Inr npn"
        "b = [BDelete (NodeKey dst), BSet (NodeKey np) (encodeNode (npn\<lparr>nNlink := nNlink npn - 1, nCtime := now\<rparr>))]"
      using assms(1) dn by (auto simp: replace_target_def text_err_def bindE_ok batch_defs split: if_splits)
    then show ?thesis using Stat_inode [OF assms(2)] by simp
  next
    case False
    then have "drop_link dst dn now NewBatch = (b, fr)" using assms(1) dn by (auto simp: replace_target_def text_err_def split: if_splits)
    then show ?thesis by (rule drop_link_ok [OF _ Stat_inode [OF assms(2) dn]]) (simp add: NewBatch_def)
  qed
qed

lemma reparent_typed:
  assumes "reparent P st t1 t2 op np b = Inr b'" "typed st" "list_all op_ok b"
  shows "list_all op_ok b'"
  using assms Stat_inode [OF assms(2)] by (auto simp: reparent_def bindE_ok batch_defs)

lemma Rename_typed:
  assumes "Rename P W st now op on np nn = (st', r)" "typed st"
  shows "typed st'"
  using assms(1)
proof (cases rule: Rename_cases)
  case (go src srcNode d b fr b2 st1 rc)
  let ?b1 = "Batch_Set (DirentKey np nn) (direntValue src) (Batch_Delete (DirentKey op on) b)"
  have "list_all op_ok b" using go(6) replace_target_typed [OF _ assms(2)] by (auto simp: NewBatch_def split: option.splits)
  then have "list_all op_ok ?b1" using go(11) by (simp add: batch_defs)
  then have "list_all op_ok b2" using go(7) reparent_typed [OF _ assms(2)] by (auto split: if_splits)
  then show ?thesis using st_commit_typed [OF go(8) _ assms(2)] go(9) free_typed by blast
qed (use assms(2) in simp)

lemma shrink_typed: "shrink P W st i sz = (st', r) \<Longrightarrow> typed st \<Longrightarrow> typed st'"
  using ty.shrink_rel unfolding keeps_schema_def by blast

lemma Setattr_typed:
  assumes "Setattr P W st now i sa = (st', r)" "typed st"
  shows "typed st'"
proof -
  obtain st1 where st1: "st1 = st \<or> (\<exists>sz r1. shrink P W st i sz = (st1, r1))"
    "st' = st1 \<or> (\<exists>n rc. Stat P st1 i = Inr n \<and> st_commit P st1 (Batch_Set (NodeKey i) (encodeNode (set_attrs sa now n)) NewBatch) = (st', rc))"
    using Setattr_cases [OF assms(1)] by blast
  have t: "typed st1" using st1(1) assms(2) shrink_typed by blast
  have "nInode (set_attrs sa now n) = nInode n" for n by (simp add: set_attrs_def)
  then show ?thesis using st1(2) t Stat_inode [OF t] by (auto simp: batch_defs dest: st_commit_typed)
qed

section \<open>The invariant\<close>

lemma store_step_typed:
  assumes "store_step P W st st'" "typed st"
  shows "typed st'"
  using assms(1)
proof (cases rule: store_step.cases)
  case (step_sync i r)
  then show ?thesis using ty.Fsync_rel assms(2) by (fastforce simp: on_co_def keeps_schema_def split: option.splits prod.splits)
next
  case (step_worker r)
  then show ?thesis
    using ty.flushInode_rel assms(2) by (fastforce simp: on_co_def flusher_turn_def keeps_schema_def split: option.splits prod.splits list.splits)
next
  case (step_write now i d off tier r)
  then show ?thesis using ty.WriteAtTier_rel assms(2) unfolding keeps_schema_def by blast
next
  case (step_read i d off r)
  then show ?thesis using ReadAt_DB assms(2) by metis
qed (use assms(2) Create_typed Mkdir_typed Symlink_typed Link_typed Unlink_typed Rmdir_typed Rename_typed Setattr_typed in \<open>simp_all, blast+\<close>)

lemma store_steps_typed: "(store_step P W)\<^sup>*\<^sup>* st st' \<Longrightarrow> typed st \<Longrightarrow> typed st'"
  by (induction rule: rtranclp_induct) (auto intro: store_step_typed)

end

section \<open>Properties\<close>

lemma new_db_typed: "schema_ok (map_of (ixDB (stIdx new_db_store)))"
  by (simp add: new_db schema_ok_def root_node_def)



end
