(* ===== verification/Descent.thy ===== *)
theory Descent
  imports Schema
begin

text \<open>
  The cycle check of \<open>Rename\<close> (\<open>isDescendant\<close>, \<open>findParent\<close> of \<open>src/store/store.go\<close>): a
  loop that climbs from a directory to the root by scanning all directory entries at every
  level, cut off after a thousand levels.
\<close>

section \<open>Climbing\<close>

definition parent_dir :: "dirent_map \<Rightarrow> u64 \<Rightarrow> u64 \<Rightarrow> bool" where
  "parent_dir D i p \<longleftrightarrow> i \<noteq> RootInode \<and> (\<exists>nm. D (p, nm) = Some i)"

lemma dirents_iff: "dirents V (p, nm) = Some i \<longleftrightarrow> V (DirentKey p nm) = Some (direntValue i)"
proof -
  have "v = direntValue i" if "length v = 8" "be64_at 0 v = Some i" for v
    using that be_dec_u64 [of v] by (auto simp: be64_at_def direntValue_def gslice_def split: if_splits)
  then show ?thesis by (auto simp: dirents_def split: option.splits if_splits)
qed

lemma find_sound: "find Q xs = Some x \<Longrightarrow> Q x \<and> x \<in> set xs"
  by (auto simp: find_Some_iff)

lemma dir_parent:
  assumes "tree_ok N D" "is_dir N i" "i \<noteq> RootInode"
  obtains p nm where "links D i = {(p, nm)}" "is_dir N p"
proof -
  have "card (links D i) = 1" using assms by (auto simp: tree_ok_def link_ok_def is_dir_def dest!: spec [of _ i])
  then obtain k where "links D i = {k}" by (auto simp: card_1_singleton_iff)
  then obtain p nm where k: "links D i = {(p, nm)}" by (cases k) auto
  then have "D (p, nm) = Some i" by (auto simp: links_def)
  then have "is_dir N p" using assms(1) unfolding tree_ok_def by blast
  then show ?thesis using that k by blast
qed

lemma reliable_iter_complete: "reliable_pebble P view \<Longrightarrow> iter_complete P"
  unfolding iter_complete_def by (metis reliable_pebble.iter_total option.distinct(1) prod.inject sum.inject(2))

context pebble_engine
begin

lemma findParent_dir:
  assumes "iter_complete P" "ns_ok (view (ixDB (stIdx st)))" "typed st"
    and "is_dir (nodes (view (ixDB (stIdx st)))) i" "i \<noteq> RootInode" "findParent P st i = Inr x"
  obtains p where "x = Some p" "is_dir (nodes (view (ixDB (stIdx st)))) p"
    "\<And>q. parent_dir (dirents (view (ixDB (stIdx st)))) i q \<longleftrightarrow> q = p"
proof -
  let ?V = "view (ixDB (stIdx st))"
  have t: "tree_ok (nodes ?V) (dirents ?V)" using assms(2) by (simp add: ns_ok_def)
  obtain p nm where p: "links (dirents ?V) i = {(p, nm)}" "is_dir (nodes ?V) p" by (rule dir_parent [OF t assms(4,5)])
  obtain kvs e where it: "DB_Iter P (ixDB (stIdx st)) [tagDirent] (PrefixUpperBound [tagDirent]) = Inr (kvs, e)"
    using assms(6) by (auto simp: findParent_def bindE_ok)
  have "e = None" using assms(1) it by (cases e) (auto simp: iter_complete_def DB_Iter_def)
  note it = it [unfolded this]
  note rs = range_scan_mem [OF DB_Iter_view [OF it], unfolded prefix_range]
  have only: "k = DirentKey p nm" if "(k, direntValue i) \<in> set kvs" for k
  proof -
    have k: "?V k = Some (direntValue i)" "prefix [tagDirent] k" using that rs by blast+
    then obtain q nm' where q: "k = DirentKey q nm'" using schema_dirent [OF assms(3)] by blast
    then have "(q, nm') \<in> links (dirents ?V) i" using k(1) by (simp add: links_def dirents_iff)
    then show ?thesis using p(1) q by simp
  qed
  have "(p, nm) \<in> links (dirents ?V) i" using p(1) by simp
  then have "?V (DirentKey p nm) = Some (direntValue i)" by (simp add: links_def dirents_iff)
  then have "(DirentKey p nm, direntValue i) \<in> set kvs" using rs by (simp add: DirentKey_def)
  then have "find (\<lambda>(k, v). v = direntValue i) kvs \<noteq> None" by (auto simp: find_None_iff)
  then obtain k v where f: "find (\<lambda>(k, v). v = direntValue i) kvs = Some (k, v)" by auto
  have "k = DirentKey p nm" using only find_sound [OF f] by auto
  then have "findParent P st i = Inr (Some p)" using it f by (simp add: findParent_def or_panic_def)
  moreover have "parent_dir (dirents ?V) i q \<longleftrightarrow> q = p" for q using p(1) assms(5) by (auto simp: parent_dir_def links_def)
  ultimately show ?thesis using that p(2) assms(6) by simp
qed

lemma climb_exact:
  assumes "iter_complete P" "ns_ok (view (ixDB (stIdx st)))" "typed st"
    and "is_dir (nodes (view (ixDB (stIdx st)))) cur" "climb P st root n cur = Inr d"
  shows "d \<longleftrightarrow> (\<exists>k. 0 < k \<and> k \<le> n \<and> (parent_dir (dirents (view (ixDB (stIdx st)))) ^^ k) cur root)"
  using assms(4,5)
proof (induction n arbitrary: cur)
  case (Suc n)
  let ?up = "parent_dir (dirents (view (ixDB (stIdx st))))"
  show ?case
  proof (cases "cur = RootInode")
    case True
    have "\<not> (?up ^^ k) cur root" if "0 < k" for k
      using that True by (cases k) (auto simp: relpowp_Suc_left parent_dir_def simp del: relpowp.simps(2))
    then show ?thesis using True Suc.prems(2) by auto
  next
    case False
    obtain x where x: "findParent P st cur = Inr x" using Suc.prems(2) False by (auto simp: bindE_ok)
    obtain p where p: "x = Some p" "is_dir (nodes (view (ixDB (stIdx st)))) p" "\<And>q. ?up cur q \<longleftrightarrow> q = p"
      using findParent_dir [OF assms(1-3) Suc.prems(1) False x] by blast
    have step: "(?up ^^ Suc k) cur root \<longleftrightarrow> (?up ^^ k) p root" for k
      using p(3) by (auto simp: relpowp_Suc_left simp del: relpowp.simps(2))
    have "(\<exists>k. 0 < k \<and> k \<le> Suc n \<and> (?up ^^ k) cur root) \<longleftrightarrow> p = root \<or> (\<exists>k. 0 < k \<and> k \<le> n \<and> (?up ^^ k) p root)"
    proof
      assume "\<exists>k. 0 < k \<and> k \<le> Suc n \<and> (?up ^^ k) cur root"
      then obtain k where k: "Suc k \<le> Suc n" "(?up ^^ Suc k) cur root" by (metis Suc_pred)
      then have "k \<le> n" "(?up ^^ k) p root" using step by blast+
      then show "p = root \<or> (\<exists>k. 0 < k \<and> k \<le> n \<and> (?up ^^ k) p root)" by (cases "k = 0") auto
    next
      assume "p = root \<or> (\<exists>k. 0 < k \<and> k \<le> n \<and> (?up ^^ k) p root)"
      then obtain k where "k \<le> n" "(?up ^^ k) p root" by (metis relpowp_0_I le0)
      then show "\<exists>k. 0 < k \<and> k \<le> Suc n \<and> (?up ^^ k) cur root" using step by (metis Suc_le_mono zero_less_Suc)
    qed
    then show ?thesis using p Suc.IH [OF p(2)] Suc.prems(2) False x by (auto split: if_splits)
  qed
qed simp

end

context reliable_pebble
begin

lemma findParent_total: "typed st \<Longrightarrow> \<exists>x. findParent P st i = Inr x"
proof -
  assume t: "typed st"
  obtain kvs where it: "DB_Iter P (ixDB (stIdx st)) [tagDirent] (PrefixUpperBound [tagDirent]) = Inr (kvs, None)"
    using iter_total by (fastforce simp: DB_Iter_def)
  note rs = range_scan_mem [OF DB_Iter_view [OF it], unfolded prefix_range]
  show ?thesis
  proof (cases "find (\<lambda>(k, v). v = direntValue i) kvs")
    case (Some kv)
    obtain k v where kv: "kv = (k, v)" by fastforce
    have "view (ixDB (stIdx st)) k = Some v \<and> prefix [tagDirent] k" using find_sound [OF Some] rs kv by blast
    then obtain q nm where "k = DirentKey q nm" using schema_dirent [OF t] by blast
    then show ?thesis using it Some kv by (simp add: findParent_def or_panic_def)
  qed (use it in \<open>simp add: findParent_def\<close>)
qed

lemma climb_total: "typed st \<Longrightarrow> \<exists>d. climb P st root n cur = Inr d"
proof (induction n arbitrary: cur)
  case (Suc n)
  obtain x where "findParent P st cur = Inr x" using findParent_total [OF Suc.prems] by blast
  then show ?case using Suc by (auto split: option.split)
qed auto

end

section \<open>Properties\<close>


lemma tree_typed: "schema_ok (map_of tree_db)"
  by (auto simp: schema_ok_def tree_db_def dir_node_def new_node_def validName_def split: if_splits)

lemma tree_up:
  "parent_dir (dirents (map_of tree_db)) 4 q \<longleftrightarrow> q = 2" "parent_dir (dirents (map_of tree_db)) 2 q \<longleftrightarrow> q = 1"
  "\<not> parent_dir (dirents (map_of tree_db)) 1 q" "parent_dir (dirents (map_of tree_db)) 3 q \<longleftrightarrow> q = 1"
proof -
  have D: "dirents (map_of tree_db) (q, nm) = Some i \<longleftrightarrow> (q, nm, i) \<in> {(1, [97], 2), (1, [98], 3), (2, [120], 4)}" for q nm i
    by (auto simp: tree_maps split: if_splits)
  show "parent_dir (dirents (map_of tree_db)) 4 q \<longleftrightarrow> q = 2" "parent_dir (dirents (map_of tree_db)) 2 q \<longleftrightarrow> q = 1"
    "\<not> parent_dir (dirents (map_of tree_db)) 1 q" "parent_dir (dirents (map_of tree_db)) 3 q \<longleftrightarrow> q = 1"
    by (simp_all add: parent_dir_def D RootInode_def)
qed


end
