(* ===== verification/Rooted.thy ===== *)
theory Rooted
  imports Descent
begin

text \<open>
  The namespace stays one tree: going up from any directory leads to the root. The invariant of
  link counts (theory \<open>Store_Machine\<close>) does not say so, since two directories that contain each
  other have one entry each; it takes the cycle check of \<open>Rename\<close>.
\<close>

section \<open>Paths to the root\<close>

definition rooted :: "node_map \<Rightarrow> dirent_map \<Rightarrow> bool" where
  "rooted N D \<longleftrightarrow> (\<forall>i. is_dir N i \<longrightarrow> (parent_dir D)\<^sup>*\<^sup>* i RootInode)"

text \<open>No directory is more than a thousand levels below the root.\<close>

definition depth_ok :: "node_map \<Rightarrow> dirent_map \<Rightarrow> bool" where
  "depth_ok N D \<longleftrightarrow> (\<forall>i k. is_dir N i \<longrightarrow> (parent_dir D ^^ k) i RootInode \<longrightarrow> k \<le> 1000)"

lemma parent_is_dir: "tree_ok N D \<Longrightarrow> parent_dir D i q \<Longrightarrow> is_dir N q"
  using tree_okD(3) by (auto simp: parent_dir_def)

lemma up_dir: "(parent_dir D)\<^sup>*\<^sup>* i j \<Longrightarrow> tree_ok N D \<Longrightarrow> is_dir N i \<Longrightarrow> is_dir N j"
  by (induction rule: rtranclp_induct) (auto dest: parent_is_dir)

lemma parent_mono: "parent_dir D j q \<Longrightarrow> (\<And>nm. D (q, nm) = Some j \<Longrightarrow> D' (q, nm) = Some j) \<Longrightarrow> parent_dir D' j q"
  by (auto simp: parent_dir_def)

text \<open>A path survives a change that keeps the entries of the directories on it.\<close>

lemma path_kept:
  assumes "(parent_dir D)\<^sup>*\<^sup>* i r" "i \<in> S" "\<And>j q. j \<in> S \<Longrightarrow> parent_dir D j q \<Longrightarrow> q \<in> S \<and> parent_dir D' j q"
  shows "(parent_dir D')\<^sup>*\<^sup>* i r"
  using assms(1,2)
proof (induction rule: converse_rtranclp_induct)
  case (step i q)
  then show ?case using assms(3) converse_rtranclp_into_rtranclp [of "parent_dir D'"] by blast
qed simp

lemma rooted_kept:
  assumes "rooted N D" "\<And>i. is_dir N' i \<Longrightarrow> is_dir N i"
    and "\<And>i q. is_dir N' i \<Longrightarrow> parent_dir D i q \<Longrightarrow> is_dir N' q \<and> parent_dir D' i q"
  shows "rooted N' D'"
  unfolding rooted_def
proof (intro allI impI)
  fix i assume i: "is_dir N' i"
  show "(parent_dir D')\<^sup>*\<^sup>* i RootInode"
  proof (rule path_kept [of D i RootInode "Collect (is_dir N')"])
    show "(parent_dir D)\<^sup>*\<^sup>* i RootInode" using assms(1) assms(2) [OF i] by (simp add: rooted_def)
    fix j q assume "j \<in> Collect (is_dir N')" "parent_dir D j q"
    then show "q \<in> Collect (is_dir N') \<and> parent_dir D' j q" using assms(3) [of j q] by simp
  qed (use i in simp)
qed

text \<open>Where no path to the root is long, what lies above is reached in a bounded number of steps.\<close>

lemma bounded_ancestor:
  assumes t: "tree_ok N D" "rooted N D" "depth_ok N D" and i: "is_dir N i" and a: "(parent_dir D)\<^sup>+\<^sup>+ i a"
  shows "\<exists>k. 0 < k \<and> k \<le> 1000 \<and> (parent_dir D ^^ k) i a"
proof -
  obtain k where k: "0 < k" "(parent_dir D ^^ k) i a" using a by (auto simp: tranclp_power)
  have "is_dir N a" using up_dir [OF tranclp_into_rtranclp [OF a] t(1) i] .
  then obtain m where "(parent_dir D ^^ m) a RootInode" using t(2) unfolding rooted_def by (metis rtranclp_power)
  with k(2) have "(parent_dir D ^^ (k + m)) i RootInode" by (auto simp: relpowp_add)
  then have "k + m \<le> 1000" using t(3) i unfolding depth_ok_def by blast
  then show ?thesis using k by (intro exI [of _ k]) simp
qed

section \<open>Changes of the tree\<close>

lemma rooted_move:
  assumes t: "tree_ok N D" "rooted N D" and src: "D (op, on) = Some src" "is_dir N src" "src \<noteq> RootInode" and np: "is_dir N np"
    and cyc: "\<not> (parent_dir D)\<^sup>*\<^sup>* np src"
    and dst: "\<And>dst. D (np, nn) = Some dst \<Longrightarrow> dst \<noteq> src \<and> (\<forall>nm. D (dst, nm) = None) \<and> \<not> is_dir N' dst"
    and N': "\<And>i. is_dir N' i \<Longrightarrow> is_dir N i" and D': "D' = D((op, on) := None, (np, nn) \<mapsto> src)"
  shows "rooted N' D'"
proof -
  have kept: "parent_dir D' j q" if "parent_dir D j q" "j \<noteq> src" "D (np, nn) \<noteq> Some j" for j q
    using that src(1) by (auto simp: parent_dir_def D')
  have leaf: "D (np, nn) \<noteq> Some q" if "parent_dir D j q" for j q
    using that dst by (fastforce simp: parent_dir_def)
  have up: "(parent_dir D')\<^sup>*\<^sup>* j RootInode" if "\<not> (parent_dir D)\<^sup>*\<^sup>* j src" "is_dir N j" "D (np, nn) \<noteq> Some j" for j
  proof (rule path_kept [of D j RootInode "{j. \<not> (parent_dir D)\<^sup>*\<^sup>* j src \<and> D (np, nn) \<noteq> Some j}"])
    show "(parent_dir D)\<^sup>*\<^sup>* j RootInode" using t(2) that(2) by (simp add: rooted_def)
    fix k q assume "k \<in> {j. \<not> (parent_dir D)\<^sup>*\<^sup>* j src \<and> D (np, nn) \<noteq> Some j}" "parent_dir D k q"
    then show "q \<in> {j. \<not> (parent_dir D)\<^sup>*\<^sup>* j src \<and> D (np, nn) \<noteq> Some j} \<and> parent_dir D' k q"
      using kept leaf converse_rtranclp_into_rtranclp [of "parent_dir D"] by blast
  qed (use that in simp)
  have "D (np, nn) \<noteq> Some np" using dst by fastforce
  then have "(parent_dir D')\<^sup>*\<^sup>* np RootInode" using up [OF cyc np] by simp
  moreover have "parent_dir D' src np" using src(3) by (auto simp: parent_dir_def D')
  ultimately have top: "(parent_dir D')\<^sup>*\<^sup>* src RootInode" by (rule converse_rtranclp_into_rtranclp [rotated])
  have below: "(parent_dir D')\<^sup>*\<^sup>* j src" if "(parent_dir D)\<^sup>*\<^sup>* j src" "D (np, nn) \<noteq> Some j" for j
    using that
  proof (induction rule: converse_rtranclp_induct)
    case (step j q)
    then show ?case using kept [of j q] leaf [of j q] converse_rtranclp_into_rtranclp [of "parent_dir D'"] by (cases "j = src") auto
  qed simp
  have "(parent_dir D')\<^sup>*\<^sup>* j RootInode" if "is_dir N' j" for j
  proof (cases "(parent_dir D)\<^sup>*\<^sup>* j src")
    case True
    then show ?thesis using below [OF True] dst that top by (metis rtranclp_trans)
  next
    case False
    then show ?thesis using up [OF False N' [OF that]] dst that by metis
  qed
  then show ?thesis by (simp add: rooted_def)
qed

lemma rooted_link:
  assumes t: "rooted N D" and p: "is_dir N p" "D (p, nm) = None" "c \<noteq> RootInode"
    and N': "\<And>i. is_dir N' i \<Longrightarrow> is_dir N i \<or> i = c"
  shows "rooted N' (D((p, nm) \<mapsto> c))"
proof -
  have kept: "parent_dir (D((p, nm) \<mapsto> c)) j q" if "parent_dir D j q" for j q
    using that p(2) by (auto elim!: parent_mono)
  have old: "(parent_dir (D((p, nm) \<mapsto> c)))\<^sup>*\<^sup>* i RootInode" if "is_dir N i" for i
    using path_kept [of D i RootInode UNIV "D((p, nm) \<mapsto> c)"] t that kept by (simp add: rooted_def)
  have "parent_dir (D((p, nm) \<mapsto> c)) c p" using p(3) by (auto simp: parent_dir_def)
  then have "(parent_dir (D((p, nm) \<mapsto> c)))\<^sup>*\<^sup>* c RootInode" using old [OF p(1)] by (rule converse_rtranclp_into_rtranclp)
  then show ?thesis using old N' unfolding rooted_def by blast
qed

lemma rooted_unlink:
  assumes t: "tree_ok N D" "rooted N D" and i: "D (p, nm) = Some i" "\<And>nm. D (i, nm) = None" "\<not> is_dir N' i"
    and N': "\<And>j. j \<noteq> i \<Longrightarrow> is_dir N' j = is_dir N j"
  shows "rooted N' (D((p, nm) := None))"
proof (rule rooted_kept [OF t(2)])
  show "is_dir N j" if "is_dir N' j" for j using that i(3) N' by metis
  fix j q assume j: "is_dir N' j" "parent_dir D j q"
  then have "j \<noteq> i" "q \<noteq> i" using i(2,3) by (auto simp: parent_dir_def)
  then show "is_dir N' q \<and> parent_dir (D((p, nm) := None)) j q"
    using parent_is_dir [OF t(1) j(2)] N' i(1) by (auto intro!: parent_mono [OF j(2)])
qed

lemma rooted_move_file:
  assumes t: "tree_ok N D" "rooted N D" and src: "D (op, on) = Some src" "\<not> is_dir N src"
    and dst: "\<And>dst. D (np, nn) = Some dst \<Longrightarrow> \<not> is_dir N dst" and N': "\<And>i. is_dir N' i = is_dir N i"
  shows "rooted N' (D((op, on) := None, (np, nn) \<mapsto> src))"
proof (rule rooted_kept [OF t(2)])
  fix j q assume j: "is_dir N' j" "parent_dir D j q"
  then have "j \<noteq> src" "D (np, nn) \<noteq> Some j" using src(2) dst N' by auto
  then show "is_dir N' q \<and> parent_dir (D((op, on) := None, (np, nn) \<mapsto> src)) j q"
    using parent_is_dir [OF t(1) j(2)] N' src(1) by (auto intro!: parent_mono [OF j(2)])
qed (simp add: N')

section \<open>The operations keep the tree\<close>

definition tree_at :: "(bytes \<rightharpoonup> bytes) \<Rightarrow> bool" where
  "tree_at V \<longleftrightarrow> rooted (nodes V) (dirents V)"

lemma ns_same_tree: "ns_same V V' \<Longrightarrow> tree_at V \<Longrightarrow> tree_at V'"
  by (simp add: ns_same_def tree_at_def)

lemma ns_created_tree:
  assumes "ns_ok V" "ns_created V V' p nm m l N" "\<And>i. is_dir N i \<Longrightarrow> is_dir (nodes V) i" "tree_at V"
  shows "tree_at V'"
proof -
  have "counter V \<noteq> RootInode" using fresh_counter [OF assms(1)] by auto
  moreover have "is_dir (nodes V) i \<or> i = counter V" if "is_dir (N(counter V \<mapsto> (m, l))) i" for i
    using that assms(3) [of i] by (auto simp: is_dir_def split: if_splits)
  ultimately show ?thesis using assms(2,4) rooted_link [of "nodes V" "dirents V" p nm] by (simp add: ns_created_def tree_at_def)
qed

context pebble_engine
begin

abbreviation one_tree :: "('db, 'sem) Store \<Rightarrow> bool" where
  "one_tree st \<equiv> tree_at (view (ixDB (stIdx st)))"

lemma Create_tree:
  assumes "Create P st now p nm mode uid gid = (st', r)" "ns_ok (view (ixDB (stIdx st)))" "one_tree st"
  shows "one_tree st'"
  using Create_ns(1) [OF assms(1)] ns_created_tree [OF assms(2) _ _ assms(3)] assms(3) by auto

lemma Symlink_tree:
  assumes "Symlink P st now p nm target uid gid = (st', r)" "ns_ok (view (ixDB (stIdx st)))" "one_tree st"
  shows "one_tree st'"
proof -
  define V V' where "V = view (ixDB (stIdx st))" and "V' = view (ixDB (stIdx st'))"
  from assms(1) show ?thesis
  proof (cases rule: Symlink_cases)
    case (go i b rc)
    have "V' = V \<or> ns_created V V' p nm (ModeSymlink OR 0x1FF) 1 (nodes V)"
      using st_commit_view(1) [OF go(4), folded V_def V'_def] allocInode_counter [OF go(3), folded V_def]
        requireDir_nodes [OF go(1), folded V_def] require_free_dirents [OF go(2), folded V_def]
      by (auto simp: ns_created_def batch_defs new_node_def)
    then show ?thesis using ns_created_tree [of V V' p nm] assms(2,3) by (auto simp: V_def V'_def)
  qed (use assms(3) in simp)
qed

lemma Mkdir_tree:
  assumes "Mkdir P st now p nm mode uid gid = (st', r)" "ns_ok (view (ixDB (stIdx st)))" "one_tree st"
  shows "one_tree st'"
proof -
  define V V' where "V = view (ixDB (stIdx st))" and "V' = view (ixDB (stIdx st'))"
  from assms(1) show ?thesis
  proof (cases rule: Mkdir_cases)
    case (go pn i b rc)
    have pn: "nodes V p = Some (nMode pn, nNlink pn)" using Stat_nodes [OF go(1), folded V_def] .
    let ?N = "(nodes V)(counter V \<mapsto> (ModeDir OR (mode AND PermMask), 2), p \<mapsto> (nMode pn, nNlink pn + 1))"
    have "V' = V \<or> nodes V' = ?N \<and> dirents V' = (dirents V)((p, nm) \<mapsto> counter V)"
      using st_commit_view(1) [OF go(5), folded V_def V'_def] allocInode_counter [OF go(4), folded V_def] by (auto simp: batch_defs new_node_def)
    moreover have "rooted ?N ((dirents V)((p, nm) \<mapsto> counter V))"
    proof (rule rooted_link [of "nodes V"])
      show "counter V \<noteq> RootInode" using fresh_counter [of V] assms(2) by (auto simp: V_def)
      show "is_dir (nodes V) i \<or> i = counter V" if "is_dir ?N i" for i using that pn go(2) by (auto simp: is_dir_def split: if_splits)
    qed (use assms(3) pn go(2) require_free_dirents [OF go(3), folded V_def] in \<open>auto simp: V_def tree_at_def is_dir_def\<close>)
    ultimately show ?thesis using assms(3) by (auto simp: V_def V'_def tree_at_def)
  qed (use assms(3) in simp)
qed

lemma Link_tree:
  assumes "Link P st now target p nm = (st', r)" "ns_ok (view (ixDB (stIdx st)))" "one_tree st"
  shows "one_tree st'"
proof -
  define V V' where "V = view (ixDB (stIdx st))" and "V' = view (ixDB (stIdx st'))"
  from assms(1) show ?thesis
  proof (cases rule: Link_cases)
    case (go tn rc)
    have tn: "nodes V target = Some (nMode tn, nNlink tn)" using Stat_nodes [OF go(1), folded V_def] .
    have "is_dir (nodes V) RootInode" using assms(2) by (simp add: V_def ns_ok_def tree_ok_def)
    then have "target \<noteq> RootInode" using tn go(2) by (auto simp: is_dir_def)
    moreover have "is_dir (nodes V) i \<or> i = target" if "is_dir ((nodes V)(target \<mapsto> (nMode tn, nNlink tn + 1))) i" for i
      using that by (auto simp: is_dir_def split: if_splits)
    ultimately have "rooted ((nodes V)(target \<mapsto> (nMode tn, nNlink tn + 1))) ((dirents V)((p, nm) \<mapsto> target))"
      using assms(3) requireDir_nodes [OF go(3), folded V_def] require_free_dirents [OF go(4), folded V_def]
      by (intro rooted_link [of "nodes V"]) (auto simp: V_def tree_at_def)
    then show ?thesis using st_commit_view(1) [OF go(5), folded V_def V'_def] assms(3) by (auto simp: batch_defs tree_at_def V_def V'_def)
  qed (use assms(3) in simp)
qed

lemma file_leaf: "tree_ok N D \<Longrightarrow> \<not> is_dir N i \<Longrightarrow> D (i, nm) = None"
  using tree_okD(3) by (metis not_None_eq)

lemma drop_node_dirs: "N i = Some (m, l) \<Longrightarrow> \<not> IsDir m \<Longrightarrow> is_dir (drop_node N i) j = is_dir N j"
  by (auto simp: is_dir_def drop_node_def)

lemma free_tree: "free_inode P W st fr = (st', r) \<Longrightarrow> one_tree st \<Longrightarrow> one_tree st'"
  using ns.free_inode_rel ns_same_tree by blast

lemma Unlink_tree:
  assumes "Unlink P W st now p nm = (st', r)" "ns_ok (view (ixDB (stIdx st)))" "one_tree st"
  shows "one_tree st'"
proof -
  define V where "V = view (ixDB (stIdx st))"
  have t: "tree_ok (nodes V) (dirents V)" "tree_at V" using assms(2,3) by (simp_all add: V_def ns_ok_def)
  from assms(1) show ?thesis
  proof (cases rule: Unlink_cases)
    case (go i n b fr st1 rc)
    define V1 where "V1 = view (ixDB (stIdx st1))"
    have d: "dirents V (p, nm) = Some i" using readDirent_dirents [OF go(1), folded V_def] by simp
    have n: "nodes V i = Some (nMode n, nNlink n)" using Stat_nodes [OF go(2), folded V_def] .
    have b: "nodes (apply_ops b V) = drop_node (nodes V) i" "dirents (apply_ops b V) = (dirents V)((p, nm) := None)"
      using drop_link_ops(1,2) [OF go(4), of V] n by (simp_all add: batch_defs)
    have nd: "\<not> is_dir (nodes V) i" using n go(3) by (simp add: is_dir_def)
    have "rooted (drop_node (nodes V) i) ((dirents V)((p, nm) := None))"
      using t d nd file_leaf [OF t(1) nd] drop_node_dirs [of "nodes V" i, OF n go(3)] by (intro rooted_unlink) (simp_all add: tree_at_def)
    then have "tree_at V1" using st_commit_view(1) [OF go(5), folded V_def V1_def] t(2) b by (auto simp: tree_at_def)
    then show ?thesis using go(6) free_tree by (auto simp: V1_def)
  qed (use assms(3) in simp)
qed

lemma Rmdir_tree:
  assumes it: "iter_complete P" and "Rmdir P st now p nm = (st', r)" "ns_ok (view (ixDB (stIdx st)))" "one_tree st"
  shows "one_tree st'"
proof -
  define V V' where "V = view (ixDB (stIdx st))" and "V' = view (ixDB (stIdx st'))"
  have t: "tree_ok (nodes V) (dirents V)" "tree_at V" using assms(3,4) by (simp_all add: V_def ns_ok_def)
  from assms(2) show ?thesis
  proof (cases rule: Rmdir_cases)
    case (go i n pn)
    have d: "dirents V (p, nm) = Some i" using readDirent_dirents [OF go(1), folded V_def] by simp
    have e: "dirents V (i, nm') = None" for nm' using hasDirentChildren_empty [OF it go(4), folded V_def] .
    have pn: "nodes V p = Some (nMode pn, nNlink pn)" using Stat_nodes [OF go(5), folded V_def] .
    have ne: "p \<noteq> i" using d e by auto
    let ?N = "(nodes V)(i := None, p \<mapsto> (nMode pn, nNlink pn - 1))"
    have "rooted ?N ((dirents V)((p, nm) := None))"
      using t(2) pn ne by (intro rooted_unlink [OF t(1) _ d e]) (auto simp: tree_at_def is_dir_def)
    moreover have "V' = V \<or> nodes V' = ?N \<and> dirents V' = (dirents V)((p, nm) := None)"
      using st_commit_view(1) [OF go(6), folded V_def V'_def] by (auto simp: batch_defs)
    ultimately show ?thesis using t(2) by (auto simp: V'_def tree_at_def)
  qed (use assms(4) in simp)
qed

lemma Setattr_tree:
  assumes "Setattr P W st now i sa = (st', r)" "one_tree st"
  shows "one_tree st'"
proof -
  obtain st1 where st1: "st1 = st \<or> (\<exists>sz r1. shrink P W st i sz = (st1, r1))"
    "st' = st1 \<or> (\<exists>n rc. Stat P st1 i = Inr n \<and> st_commit P st1 (Batch_Set (NodeKey i) (encodeNode (set_attrs sa now n)) NewBatch) = (st', rc))"
    using Setattr_cases [OF assms(1)] by blast
  have t: "one_tree st1" using st1(1) assms(2) ns_same_tree ns.shrink_rel by blast
  from st1(2) show ?thesis
  proof
    assume "\<exists>n rc. Stat P st1 i = Inr n \<and> st_commit P st1 (Batch_Set (NodeKey i) (encodeNode (set_attrs sa now n)) NewBatch) = (st', rc)"
    then obtain n rc where n: "Stat P st1 i = Inr n"
      "st_commit P st1 (Batch_Set (NodeKey i) (encodeNode (set_attrs sa now n)) NewBatch) = (st', rc)" by blast
    define V where "V = view (ixDB (stIdx st1))"
    have "nodes V i = Some (nMode n, nNlink n)" using Stat_nodes [OF n(1), folded V_def] .
    moreover have "IsDir (nMode (set_attrs sa now n)) = IsDir (nMode n)" by (simp add: set_attrs_def split: option.splits)
    ultimately have "is_dir ((nodes V)(i \<mapsto> (nMode (set_attrs sa now n), l))) j = is_dir (nodes V) j" for j l by (auto simp: is_dir_def)
    then have "tree_at (V(NodeKey i \<mapsto> encodeNode (set_attrs sa now n)))" using t by (simp add: V_def tree_at_def rooted_def)
    then show ?thesis using st_commit_view(1) [OF n(2), folded V_def] t by (auto simp: batch_defs V_def)
  qed (use t in simp)
qed

section \<open>Rename\<close>

lemma replace_target_dirents: "replace_target P st now srcNode np dst = Inr (b, fr) \<Longrightarrow> dirents (apply_ops b V) = dirents V"
  by (auto simp: replace_target_def text_err_def bindE_ok batch_defs drop_link_def Let_def split: sum.splits if_splits)

text \<open>What the batch of a rename does to the directories: only a replaced one disappears.\<close>

lemma replace_target_dirs:
  assumes it: "iter_complete P" and V: "V = view (ixDB (stIdx st))" and t: "tree_ok (nodes V) (dirents V)"
    and r: "replace_target P st now srcNode np dst = Inr (b, fr)" and d: "dirents V (np, nn) = Some dst"
  shows "is_dir (nodes V) dst = IsDir (nMode srcNode)" "j \<noteq> dst \<Longrightarrow> is_dir (nodes (apply_ops b V)) j = is_dir (nodes V) j"
    "\<not> is_dir (nodes (apply_ops b V)) dst" "dirents V (dst, nm) = None"
proof -
  obtain dn where dn: "Stat P st dst = Inr dn" "nodes V dst = Some (nMode dn, nNlink dn)" "IsDir (nMode srcNode) = IsDir (nMode dn)"
    using r Stat_nodes by (auto simp: replace_target_def text_err_def V split: sum.splits if_splits)
  then show kind: "is_dir (nodes V) dst = IsDir (nMode srcNode)" by (simp add: is_dir_def)
  have "(\<forall>j. j \<noteq> dst \<longrightarrow> is_dir (nodes (apply_ops b V)) j = is_dir (nodes V) j) \<and> \<not> is_dir (nodes (apply_ops b V)) dst \<and> (\<forall>nm. dirents V (dst, nm) = None)"
  proof (cases "IsDir (nMode dn)")
    case True
    then obtain npn where h: "hasDirentChildren P st dst = Inr False" "Stat P st np = Inr npn"
        "b = [BDelete (NodeKey dst), BSet (NodeKey np) (encodeNode (npn\<lparr>nNlink := nNlink npn - 1, nCtime := now\<rparr>))]"
      using r dn(1) by (auto simp: replace_target_def text_err_def bindE_ok batch_defs split: if_splits)
    have e: "dirents V (dst, nm) = None" for nm using hasDirentChildren_empty [OF it h(1)] V by simp
    have "nodes V np = Some (nMode npn, nNlink npn)" "np \<noteq> dst" using Stat_nodes [OF h(2)] V e d by auto
    then show ?thesis using e by (auto simp: h(3) is_dir_def)
  next
    case False
    then have dl: "drop_link dst dn now NewBatch = (b, fr)"
      using r dn(1) by (auto simp: replace_target_def text_err_def split: if_splits)
    have o: "nodes (apply_ops b V) = drop_node (nodes V) dst" using drop_link_ops(1) [OF dl, of V] dn(2) by (simp add: NewBatch_def)
    have nd: "\<not> is_dir (nodes V) dst" using dn(2) False by (simp add: is_dir_def)
    then show ?thesis using drop_node_dirs [of "nodes V" dst, OF dn(2) False] file_leaf [OF t nd] o by simp
  qed
  then show "j \<noteq> dst \<Longrightarrow> is_dir (nodes (apply_ops b V)) j = is_dir (nodes V) j" "\<not> is_dir (nodes (apply_ops b V)) dst" "dirents V (dst, nm) = None"
    by blast+
qed

lemma no_cycle_sound:
  assumes "iter_complete P" "ns_ok (view (ixDB (stIdx st)))" "typed st" "one_tree st"
    and "depth_ok (nodes (view (ixDB (stIdx st)))) (dirents (view (ixDB (stIdx st))))"
    and "is_dir (nodes (view (ixDB (stIdx st)))) np" "IsDir (nMode n)" "no_cycle P st n np src = Inr ()"
  shows "\<not> (parent_dir (dirents (view (ixDB (stIdx st)))))\<^sup>*\<^sup>* np src"
proof
  let ?up = "parent_dir (dirents (view (ixDB (stIdx st))))"
  assume a: "?up\<^sup>*\<^sup>* np src"
  have n: "np \<noteq> src" "isDescendant P st np src = Inr False" using assms(7,8) by (auto simp: no_cycle_def bindE_ok split: if_splits)
  then have "?up\<^sup>+\<^sup>+ np src" using a by (metis rtranclpD)
  then have "\<exists>k. 0 < k \<and> k \<le> 1000 \<and> (?up ^^ k) np src"
    using assms(2,4,5,6) by (intro bounded_ancestor) (simp_all add: ns_ok_def tree_at_def)
  moreover have "False \<longleftrightarrow> (\<exists>k. 0 < k \<and> k \<le> 1000 \<and> (?up ^^ k) np src)"
    using n(2) unfolding isDescendant_def by (rule climb_exact [OF assms(1-3,6)])
  ultimately show False by blast
qed

lemma rename_batch:
  assumes it: "iter_complete P" and V: "V = view (ixDB (stIdx st))" and t: "tree_ok (nodes V) (dirents V)"
    and s: "dirents V (op, on) = Some src" "dirents V (np, nn) = d" "is_dir (nodes V) np"
    and b: "(case d of None \<Rightarrow> Inr (NewBatch, 0) | Some dst \<Rightarrow> replace_target P st t0 srcNode np dst) = Inr (b, fr)"
    and b2: "(if IsDir (nMode srcNode) \<and> op \<noteq> np then reparent P st t1 t2 op np
            (Batch_Set (DirentKey np nn) (direntValue src) (Batch_Delete (DirentKey op on) b))
          else Inr (Batch_Set (DirentKey np nn) (direntValue src) (Batch_Delete (DirentKey op on) b))) = Inr b2"
  shows "dirents (apply_ops b2 V) = (dirents V)((op, on) := None, (np, nn) \<mapsto> src)"
    "d \<noteq> Some j \<Longrightarrow> is_dir (nodes (apply_ops b2 V)) j = is_dir (nodes V) j"
    "d = Some dst \<Longrightarrow> is_dir (nodes V) dst = IsDir (nMode srcNode) \<and> \<not> is_dir (nodes (apply_ops b2 V)) dst \<and> (\<forall>nm. dirents V (dst, nm) = None)"
proof -
  define b1 where "b1 = Batch_Set (DirentKey np nn) (direntValue src) (Batch_Delete (DirentKey op on) b)"
  let ?D = "(dirents V)((op, on) := None, (np, nn) \<mapsto> src)"
  have bD: "dirents (apply_ops b V) = dirents V \<and> (\<forall>j. d \<noteq> Some j \<longrightarrow> is_dir (nodes (apply_ops b V)) j = is_dir (nodes V) j) \<and>
    (\<forall>dst. d = Some dst \<longrightarrow> is_dir (nodes V) dst = IsDir (nMode srcNode) \<and> \<not> is_dir (nodes (apply_ops b V)) dst \<and> (\<forall>nm. dirents V (dst, nm) = None))"
  proof (cases d)
    case None
    then show ?thesis using b by (simp add: NewBatch_def)
  next
    case (Some dst)
    have rt: "replace_target P st t0 srcNode np dst = Inr (b, fr)" and dd: "dirents V (np, nn) = Some dst" using b s(2) Some by simp_all
    have "dirents (apply_ops b V) = dirents V" using rt by (rule replace_target_dirents)
    then show ?thesis using replace_target_dirs [OF it V t rt dd] Some by auto
  qed
  have b1: "nodes (apply_ops b1 V) = nodes (apply_ops b V)" "dirents (apply_ops b1 V) = ?D" using bD by (simp_all add: b1_def batch_defs)
  have opd: "is_dir (nodes V) op" "d \<noteq> Some op" "d \<noteq> Some np" using tree_okD(3) [OF t s(1)] bD s(1,2) by auto
  have "dirents (apply_ops b2 V) = ?D \<and> (\<forall>j. is_dir (nodes (apply_ops b2 V)) j = is_dir (nodes (apply_ops b V)) j)"
  proof (cases "IsDir (nMode srcNode) \<and> op \<noteq> np")
    case True
    then obtain m1 l1 m2 l2 where rp: "nodes V op = Some (m1, l1)" "nodes V np = Some (m2, l2)"
        "nodes (apply_ops b2 V) = (nodes (apply_ops b1 V))(op \<mapsto> (m1, l1 - 1), np \<mapsto> (m2, l2 + 1))"
        "dirents (apply_ops b2 V) = dirents (apply_ops b1 V)"
      using reparent_ops [of st t1 t2 op np b1 b2 V] b2 V by (auto simp: b1_def)
    have "is_dir (nodes (apply_ops b V)) op" "is_dir (nodes (apply_ops b V)) np" using bD opd s(3) by auto
    moreover have "IsDir m1" "IsDir m2" using opd(1) s(3) rp(1,2) by (auto simp: is_dir_def)
    ultimately have "is_dir (nodes (apply_ops b2 V)) j = is_dir (nodes (apply_ops b V)) j" for j
      unfolding rp(3) b1 by (cases "j = op"; cases "j = np") (auto simp: is_dir_def)
    then show ?thesis using rp(4) b1(2) by simp
  next
    case False
    then have "b2 = b1" using b2 by (auto simp: b1_def split: if_splits)
    then show ?thesis using b1 by simp
  qed
  then show "dirents (apply_ops b2 V) = ?D" "d \<noteq> Some j \<Longrightarrow> is_dir (nodes (apply_ops b2 V)) j = is_dir (nodes V) j"
    "d = Some dst \<Longrightarrow> is_dir (nodes V) dst = IsDir (nMode srcNode) \<and> \<not> is_dir (nodes (apply_ops b2 V)) dst \<and> (\<forall>nm. dirents V (dst, nm) = None)"
    using bD by blast+
qed

lemma Rename_tree:
  assumes it: "iter_complete P" and r: "Rename P W st now op on np nn = (st', r)"
    and ok: "ns_ok (view (ixDB (stIdx st)))" "typed st" "one_tree st"
    and dep: "depth_ok (nodes (view (ixDB (stIdx st)))) (dirents (view (ixDB (stIdx st))))"
  shows "one_tree st'"
proof -
  define V where "V = view (ixDB (stIdx st))"
  have t: "tree_ok (nodes V) (dirents V)" "rooted (nodes V) (dirents V)" using ok by (simp_all add: V_def ns_ok_def tree_at_def)
  from r show ?thesis
  proof (cases rule: Rename_cases)
    case (go src srcNode d b fr b2 st1 rc)
    have s: "dirents V (op, on) = Some src" "dirents V (np, nn) = d" "is_dir (nodes V) np" "nodes V src = Some (nMode srcNode, nNlink srcNode)"
      using readDirent_dirents [OF go(1), folded V_def] readDirent_dirents [OF go(4), folded V_def] requireDir_nodes [OF go(3), folded V_def]
        Stat_nodes [OF go(2), folded V_def] by auto
    note B = rename_batch [OF it V_def t(1) s(1-3) go(6,7)]
    have "rooted (nodes (apply_ops b2 V)) (dirents (apply_ops b2 V))"
    proof (cases "IsDir (nMode srcNode)")
      case True
      have sd: "is_dir (nodes V) src" "src \<noteq> RootInode"
        using s(4) True tree_okD(4) [OF t(1), of RootInode] tree_okD(2,5) [OF t(1)] s(1) by (auto simp: is_dir_def link_ok_def links_def)
      have cyc: "\<not> (parent_dir (dirents V))\<^sup>*\<^sup>* np src" using no_cycle_sound [OF it ok dep _ True go(10)] s(3) by (simp add: V_def)
      have "is_dir (nodes V) j" if "is_dir (nodes (apply_ops b2 V)) j" for j using that B(2,3) by (cases "d = Some j") auto
      then show ?thesis using s(2) B(3) go(5) by (intro rooted_move [OF t s(1) sd s(3) cyc _ _ B(1)]) auto
    next
      case False
      then have "is_dir (nodes (apply_ops b2 V)) j = is_dir (nodes V) j" for j using B(2,3) by (cases "d = Some j") auto
      then show ?thesis unfolding B(1) using False s B(3) by (intro rooted_move_file [OF t s(1)]) (auto simp: is_dir_def)
    qed
    then have "one_tree st1" using st_commit_view(1) [OF go(8), folded V_def] t(2) by (auto simp: tree_at_def)
    then show ?thesis using go(9) free_tree by auto
  qed (use ok in simp)
qed

end

section \<open>Runs\<close>

text \<open>Runs in which no directory gets more than a thousand levels deep.\<close>

inductive tree_runs :: "'db pebble \<Rightarrow> 'sem weighted \<Rightarrow> ('db \<Rightarrow> bytes \<rightharpoonup> bytes) \<Rightarrow> ('db, 'sem) Store \<Rightarrow> ('db, 'sem) Store \<Rightarrow> bool"
  for P W view where
  tree_refl: "tree_runs P W view st st"
| tree_step: "tree_runs P W view st st1 \<Longrightarrow> ns_room (view (ixDB (stIdx st1))) \<Longrightarrow>
    depth_ok (nodes (view (ixDB (stIdx st1)))) (dirents (view (ixDB (stIdx st1)))) \<Longrightarrow> store_step P W st1 st2 \<Longrightarrow> tree_runs P W view st st2"

context pebble_engine
begin

lemma store_step_tree:
  assumes "store_step P W st st'" "iter_complete P" "ns_ok (view (ixDB (stIdx st)))" "typed st" "one_tree st"
    and "depth_ok (nodes (view (ixDB (stIdx st)))) (dirents (view (ixDB (stIdx st))))"
  shows "one_tree st'"
  using assms(1)
proof (cases rule: store_step.cases)
  case (step_sync i r)
  then have "ns_same (view (ixDB (stIdx st))) (view (ixDB (stIdx st')))"
    using ns.Fsync_rel by (fastforce simp: on_co_def split: option.splits prod.splits)
  then show ?thesis using ns_same_tree assms(5) by blast
next
  case (step_worker r)
  then have "ns_same (view (ixDB (stIdx st))) (view (ixDB (stIdx st')))"
    using ns.flushInode_rel by (fastforce simp: on_co_def flusher_turn_def split: option.splits prod.splits list.splits)
  then show ?thesis using ns_same_tree assms(5) by blast
next
  case (step_write now i d off tier r)
  then show ?thesis using ns.WriteAtTier_rel ns_same_tree assms(5) by blast
next
  case (step_read i d off r)
  then show ?thesis using ReadAt_DB assms(5) by metis
next
  case (step_rename nows op on np nn r)
  then show ?thesis using Rename_tree assms(2-6) by blast
qed (use assms(2,3,5) Create_tree Mkdir_tree Symlink_tree Link_tree Unlink_tree Rmdir_tree Setattr_tree in \<open>simp_all, blast+\<close>)

lemma tree_runs_ok:
  assumes "tree_runs P W view st st'" "iter_complete P" "ns_ok (view (ixDB (stIdx st)))" "typed st" "one_tree st"
  shows "ns_ok (view (ixDB (stIdx st'))) \<and> typed st' \<and> one_tree st'"
  using assms by (induction rule: tree_runs.induct) (auto intro: store_step_ok store_step_typed store_step_tree)

end

section \<open>Properties\<close>

lemma tree_db_dirs: "is_dir (nodes (map_of tree_db)) i \<longleftrightarrow> i \<in> {1, 2, 3, 4}"
proof -
  have "IsDir (ModeDir OR 0x1ED)" by (simp add: IsDir_def mode_defs)
  then show ?thesis by (auto simp: tree_maps is_dir_def)
qed

lemma tree_db_rooted: "tree_at (map_of tree_db)"
proof -
  let ?up = "parent_dir (dirents (map_of tree_db))"
  have "?up\<^sup>*\<^sup>* 2 1" "?up\<^sup>*\<^sup>* 3 1" using tree_up(2,4) by blast+
  moreover have "?up 4 2" using tree_up(1) by simp
  ultimately show ?thesis
    unfolding tree_at_def rooted_def tree_db_dirs by (auto simp: RootInode_def intro: converse_rtranclp_into_rtranclp)
qed

lemma tree_db_depth: "depth_ok (nodes (map_of tree_db)) (dirents (map_of tree_db))"
proof -
  let ?up = "parent_dir (dirents (map_of tree_db))"
  have step: "(?up ^^ Suc k) x y \<longleftrightarrow> (\<exists>z. ?up x z \<and> (?up ^^ k) z y)" for k x y
    by (simp only: relpowp_Suc_left relcompp_apply)
  have a: "k \<le> 0" if "(?up ^^ k) 1 y" for k y
    using that tree_up(3) step [of _ 1] by (cases k) (simp_all del: relpowp.simps(2))
  have b: "k \<le> 1" if "(?up ^^ k) x y" "x = 2 \<or> x = 3" for k x y
    using that a step [of _ x] tree_up(2,4) by (cases k) (auto simp del: relpowp.simps(2))
  have c: "k \<le> 2" if "(?up ^^ k) 4 y" for k y
    using that b [of _ 2] step [of _ 4] tree_up(1) by (cases k) (auto simp del: relpowp.simps(2))
  show ?thesis unfolding depth_ok_def tree_db_dirs using a b c by fastforce
qed



end
