(* ===== verification/Segment_Reopen.thy ===== *)
theory Segment_Reopen
  imports Segment_Recovery
begin

text \<open>
  A segment set across a restart (\<open>OpenSet\<close> and \<open>RepairTail\<close> of \<open>src/segment/segment.go\<close>). \<open>crash_dir\<close>
  says what a crash may leave of a directory; \<open>reopen_recovers\<close> shows that the set that is opened
  on it has every durable byte where it was, and is in order again when only the newest segment
  was torn.
\<close>

section \<open>What a crash leaves\<close>

text \<open>
  Of a file a prefix is left that has at least the synced bytes; what is left is on disk, or no
  more than before is. A file whose directory entry was not synced may be gone; one whose
  removal was not synced may be back.
\<close>

fun survives :: "osfile option \<Rightarrow> osfile option \<Rightarrow> bool" where
  "survives None None = True"
| "survives None (Some g) = file_ok g"
| "survives (Some f) None = (\<not> fLinked f)"
| "survives (Some f) (Some g) = (prefix (fData g) (fData f) \<and> fSynced g \<le> length (fData g) \<and>
     (fSynced g = length (fData g) \<or> fSynced g = fSynced f) \<and>
     (fLinked f \<longrightarrow> fLinked g \<and> fSynced f \<le> fSynced g))"

definition plain_names :: "dir \<Rightarrow> bool" where
  "plain_names d \<longleftrightarrow> (\<forall>nm \<in> fst ` set d. \<forall>i. parseSegName nm = Some i \<longrightarrow> nm = segFileName i)"

definition crash_dir :: "dir \<Rightarrow> dir \<Rightarrow> bool" where
  "crash_dir d d' \<longleftrightarrow> plain_names d' \<and> (\<forall>i. survives (map_of d (segFileName i)) (map_of d' (segFileName i)))"

definition newest_torn :: "dir \<Rightarrow> bool" where
  "newest_torn d \<longleftrightarrow> (\<forall>i g. map_of d (segFileName i) = Some g \<longrightarrow> fLinked g \<and>
     ((\<exists>j. i < j \<and> map_of d (segFileName j) \<noteq> None) \<longrightarrow> file_ok g))"

lemma crash_dirD: "crash_dir d d' \<Longrightarrow> survives (map_of d (segFileName i)) (map_of d' (segFileName i))"
  by (simp add: crash_dir_def)

lemma survives_torn:
  assumes "\<And>f. x = Some f \<Longrightarrow> file_ok f" "survives x (Some g)"
  obtains js rs c where "list_all wf_record (js @ rs)" "c \<le> length (frames (js @ rs))" "fData g = take c (frames (js @ rs))"
    "length (fData g) \<le> max_file_size" "fSynced g \<le> length (fData g)"
    "fSynced g = length (fData g) \<or> fSynced g = length (frames js)"
    "\<And>f. x = Some f \<Longrightarrow> fSynced f = length (frames js)"
proof (cases x)
  case None
  then have "file_ok g" using assms(2) by simp
  then show ?thesis
  proof (rule file_okE)
    fix js rs
    assume a: "length (fData g) \<le> max_file_size" "list_all wf_record (js @ rs)" "fData g = frames (js @ rs)" "fSynced g = length (frames js)"
    then show ?thesis using that [of js rs "length (frames (js @ rs))"] None by simp
  qed
next
  case (Some f)
  have g: "prefix (fData g) (fData f)" "fSynced g \<le> length (fData g)" "fSynced g = length (fData g) \<or> fSynced g = fSynced f"
    using assms(2) Some by auto
  have "file_ok f" using assms(1) Some by simp
  then show ?thesis
  proof (rule file_okE)
    fix js rs
    assume a: "length (fData f) \<le> max_file_size" "list_all wf_record (js @ rs)" "fData f = frames (js @ rs)" "fSynced f = length (frames js)"
    have "fData g = take (length (fData g)) (frames (js @ rs))" "length (fData g) \<le> length (frames (js @ rs))"
      using g(1) prefix_length_le [OF g(1)] unfolding a(3) by (metis append_eq_conv_conj prefix_def, simp)
    then show ?thesis using that [of js rs "length (fData g)"] a g Some by simp
  qed
qed

section \<open>Opening a set\<close>

definition file_seg :: "dir \<Rightarrow> u32 \<Rightarrow> Segment" where
  "file_seg d i = \<lparr>segID = i, segPos = length (fData (the_file d i)), segSize = int (length (fData (the_file d i))), segOpen = True\<rparr>"

lemma openSegment_existing:
  assumes "map_of d (segFileName i) \<noteq> None" "openSegment d osq i = ((d', osq'), r)"
  shows "d' = d" "r = Inr s \<Longrightarrow> s = file_seg d i" "no_partial osq \<Longrightarrow> no_partial osq'"
proof -
  obtain q1 r1 q2 r2 q3 r3 where q: "sys osq = (q1, r1)" "sys q1 = (q2, r2)" "sys q2 = (q3, r3)" by fastforce
  have "d' = d \<and> (r = Inr s \<longrightarrow> s = file_seg d i) \<and> (osq' = q1 \<or> osq' = q2 \<or> osq' = q3)"
    using assms q by (cases r1; cases r2; cases r3) (auto simp: openSegment_def Let_def file_seg_def)
  moreover have "no_partial q1 \<and> no_partial q2 \<and> no_partial q3" if "no_partial osq" using that q sys_no_partial by metis
  ultimately show "d' = d" "r = Inr s \<Longrightarrow> s = file_seg d i" "no_partial osq \<Longrightarrow> no_partial osq'" by auto
qed

lemma OpenSet_ids_files:
  assumes "\<forall>i \<in> set is. map_of (ssDir ss) (segFileName i) \<noteq> None" "OpenSet_ids ss osq is = ((ss', osq'), Inr ())"
  shows "ssDir ss' = ssDir ss \<and> ssTier ss' = ssTier ss \<and> (no_partial osq \<longrightarrow> no_partial osq') \<and>
    (\<forall>i. seg_of ss' i = (if i \<in> set is then Some (file_seg (ssDir ss) i) else seg_of ss i))"
  using assms
proof (induction "is" arbitrary: ss osq)
  case (Cons i js)
  obtain d q r where o1: "openSegment (ssDir ss) osq i = ((d, q), r)" by (metis prod.collapse)
  obtain s where r: "r = Inr s" using Cons.prems(2) o1 by (cases r) auto
  have f: "map_of (ssDir ss) (segFileName i) \<noteq> None" using Cons.prems(1) by simp
  note o = openSegment_existing [OF f o1]
  let ?ss = "ss\<lparr>ssDir := d, ssSegments := AList.update i s (ssSegments ss),
         ssNextID := (if i + 1 > ssNextID ss then i + 1 else ssNextID ss)\<rparr>"
  have run: "OpenSet_ids ?ss q js = ((ss', osq'), Inr ())" using Cons.prems(2) o1 r by simp
  have s: "s = file_seg (ssDir ss) i" by (rule o(2) [OF r])
  have fs: "\<forall>i \<in> set js. map_of (ssDir ?ss) (segFileName i) \<noteq> None" using Cons.prems(1) o(1) by simp
  have seg: "seg_of ?ss j = (if j = i then Some (file_seg (ssDir ss) i) else seg_of ss j)" for j
    by (simp add: seg_of_def update_conv' s)
  show ?case using Cons.IH [OF fs run] o(1,3) unfolding seg by auto
qed simp

lemma segment_ids:
  assumes "plain_names d"
  shows "i \<in> set (List.map_filter parseSegName (map fst d)) \<longleftrightarrow> map_of d (segFileName i) \<noteq> None"
proof -
  have "i \<in> set (List.map_filter parseSegName (map fst d)) \<longleftrightarrow> (\<exists>nm \<in> fst ` set d. parseSegName nm = Some i)"
    by (induction d) (auto split: option.split)
  also have "\<dots> \<longleftrightarrow> segFileName i \<in> fst ` set d" using assms unfolding plain_names_def by (metis parse_segFileName)
  finally show ?thesis by (simp add: map_of_eq_None_iff)
qed

lemma OpenSet_opens:
  assumes "plain_names d" "OpenSet d osq t mx = ((ss, osq'), Inr ())"
  shows "ssDir ss = d" "ssTier ss = t" "no_partial osq \<Longrightarrow> no_partial osq'"
    "seg_of ss i = (if map_of d (segFileName i) = None then None else Some (file_seg d i))"
    "ssActive ss = None \<Longrightarrow> map_of d (segFileName i) = None"
    "ssActive ss = Some a \<Longrightarrow> map_of d (segFileName a) \<noteq> None \<and> (map_of d (segFileName i) \<noteq> None \<longrightarrow> i \<le> a)"
proof -
  define ids where "ids = sort (List.map_filter parseSegName (map fst d))"
  define ss0 where "ss0 = \<lparr>ssDir = d, ssTier = t, ssMaxSize = mx, ssSegments = [], ssActive = None, ssNextID = 0\<rparr>"
  obtain q1 r1 q2 r2 where q: "sys osq = (q1, r1)" "sys q1 = (q2, r2)" by fastforce
  obtain ss3 q3 where o: "OpenSet_ids ss0 q2 ids = ((ss3, q3), Inr ())"
      "ss = ss3\<lparr>ssActive := (if ids = [] then None else Some (last ids))\<rparr>" "osq' = q3"
    using assms(2) q by (auto simp: OpenSet_def Let_def ids_def ss0_def andThen_ok split: prod.splits sum.splits if_splits)
  have mem: "j \<in> set ids \<longleftrightarrow> map_of d (segFileName j) \<noteq> None" for j
    using segment_ids [OF assms(1), of j] by (simp add: ids_def)
  have ops: "ssDir ss3 = d \<and> ssTier ss3 = t \<and> (no_partial q2 \<longrightarrow> no_partial q3) \<and>
      (\<forall>i. seg_of ss3 i = (if i \<in> set ids then Some (file_seg d i) else None))"
    using OpenSet_ids_files [OF _ o(1)] mem by (simp add: ss0_def seg_of_def)
  show "ssDir ss = d" "ssTier ss = t" using ops by (simp_all add: o(2))
  show "no_partial osq'" if "no_partial osq" using ops that q sys_no_partial by (metis o(3))
  show "seg_of ss i = (if map_of d (segFileName i) = None then None else Some (file_seg d i))"
    using ops mem [of i] by (simp add: o(2))
  show "map_of d (segFileName i) = None" if "ssActive ss = None" using that mem [of i] by (simp add: o(2) split: if_splits)
  show "map_of d (segFileName a) \<noteq> None \<and> (map_of d (segFileName i) \<noteq> None \<longrightarrow> i \<le> a)" if "ssActive ss = Some a"
  proof -
    have "ids \<noteq> []" "a = last ids" using that by (auto simp: o(2) split: if_splits)
    moreover have "sorted ids" by (simp add: ids_def)
    ultimately have "a \<in> set ids" "\<forall>j \<in> set ids. j \<le> a"
      by (simp, auto simp: sorted_iff_nth_mono last_conv_nth in_set_conv_nth)
    then show ?thesis using mem by blast
  qed
qed

section \<open>Repair\<close>

lemma Segment_truncate_state:
  assumes "seg_of ss a = Some s" "segOpen s" "segSize s = int c" "map_of (ssDir ss) (segFileName a) = Some f"
    "length (fData f) = c" "m < c" and r: "Segment_truncate ss osq a (int m) = ((ss', osq'), Inr ())"
  shows "map_of (ssDir ss') (segFileName i) = (if i = a then Some (f\<lparr>fData := take m (fData f), fSynced := m\<rparr>)
      else map_of (ssDir ss) (segFileName i))"
    "seg_of ss' i = (if i = a then Some (s\<lparr>segPos := m, segSize := int m\<rparr>) else seg_of ss i)"
    "ssActive ss' = ssActive ss" "ssTier ss' = ssTier ss"
  using assms the_file_Some [OF assms(4)]
  by (auto simp: Segment_truncate_def Segment_Sync_def Let_def file_truncate_def file_sync_def
      split: prod.splits sum.splits if_splits option.splits)

lemma Segment_truncate_quiet:
  assumes "no_partial osq" "Segment_truncate ss osq a n = ((ss', osq'), r)"
  shows "no_partial osq'"
proof -
  obtain q1 r1 q2 r2 q3 r3 where q: "sys osq = (q1, r1)" "sys q1 = (q2, r2)" "sys q2 = (q3, r3)" by fastforce
  have "osq' \<in> {osq, q1, q2, q3}"
    using assms(2) q by (auto simp: Segment_truncate_def Segment_Sync_def Let_def split: option.splits if_splits sum.splits)
  moreover have "no_partial q1 \<and> no_partial q2 \<and> no_partial q3" using q sys_no_partial assms(1) by metis
  ultimately show ?thesis using assms(1) by auto
qed

lemma Segment_Scan_quiet: "no_partial osq \<Longrightarrow> Segment_Scan visit ss osq a v = ((osq', v'), r) \<Longrightarrow> no_partial osq'"
  by (cases "sys osq") (auto simp: Segment_Scan_def Segment_ReadAt_def andThen_def dest: sys_no_partial
      split: option.splits if_splits prod.splits sum.splits)

lemma RepairTail_quiet:
  assumes "no_partial osq" "Set_RepairTail ss osq = ((ss', osq'), r)"
  shows "no_partial osq'"
proof (cases "ssActive ss")
  case (Some a)
  obtain q u rr where sc: "Segment_Scan (\<lambda>v h off. (v, None)) ss osq a () = ((q, u), rr)" by (metis prod.collapse)
  have "no_partial q" by (rule Segment_Scan_quiet [OF assms(1) sc])
  then show ?thesis
    using assms(2) Some sc Segment_truncate_quiet by (auto simp: Set_RepairTail_def split: sum.splits if_splits)
qed (use assms in \<open>simp add: Set_RepairTail_def\<close>)

text \<open>The repair of a torn segment: it is cut back to its whole records, or it had no torn one.\<close>

lemma RepairTail_state:
  assumes t: "torn_active ss a rs c" and f: "map_of (ssDir ss) (segFileName a) = Some f"
    and r: "Set_RepairTail ss osq = ((ss', osq'), Inr ())"
  obtains (clean) ks where "cut_point c rs ks" "length (frames ks) = c" "ss' = ss"
  | (cut) ks osq1 where "cut_point c rs ks" "length (frames ks) < c"
      "Segment_truncate ss osq1 a (int (length (frames ks))) = ((ss', osq'), Inr ())"
proof -
  obtain s where s: "seg_of ss a = Some s" "segSize s = int c" "list_all wf_record rs" "ssActive ss = Some a"
    using t by (auto simp: torn_active_def)
  obtain ks where ks: "cut_point c rs ks" using cut_point_exists s by blast
  obtain osq1 u n where sc: "Segment_Scan (\<lambda>v h off. (v, None)) ss osq a () = ((osq1, u), Inr n)"
    using r s(4) by (auto simp: Set_RepairTail_def split: prod.splits sum.splits)
  have n: "n = int (length (frames ks))" by (rule Segment_Scan_torn [OF t ks sc])
  have "length (frames ks) \<le> c" using ks by (simp add: cut_point_def)
  then show ?thesis
    using that ks r s sc n by (cases "length (frames ks) < c") (auto simp: Set_RepairTail_def Segment_Size_def)
qed

section \<open>A restart\<close>

definition log_recovers :: "('s \<Rightarrow> u32 \<Rightarrow> bytes option) \<Rightarrow> ('s \<Rightarrow> u32 \<Rightarrow> nat) \<Rightarrow> 's \<Rightarrow> 's \<Rightarrow> bool" where
  "log_recovers data durable s t \<longleftrightarrow> (\<forall>i d. data s i = Some d \<longrightarrow> (\<exists>d'. data t i = Some d' \<and> prefix d' d \<and>
     durable s i \<le> length d' \<and> durable s i \<le> durable t i))"

abbreviation "set_recovers \<equiv> log_recovers set_data set_durable"

lemma cut_synced:
  assumes "cut_point c (js @ rs) ks" "length (frames js) \<le> c"
  obtains rs' where "ks = js @ rs'" "prefix rs' rs"
proof -
  have "prefix js ks"
    using assms prefix_by_frames [of js "js @ rs" ks] by (auto simp: cut_point_def)
  then show ?thesis using that assms(1) by (auto simp: cut_point_def prefix_def)
qed

lemma cut_wf: "cut_point c rs ks \<Longrightarrow> list_all wf_record rs \<Longrightarrow> list_all wf_record ks"
  by (auto simp: cut_point_def prefix_def)

lemma cut_take: "cut_point c rs ks \<Longrightarrow> take (length (frames ks)) (take c (frames rs)) = frames ks"
  by (auto simp: cut_point_def prefix_def)

text \<open>What the repair makes of the file \<open>g\<close> of the newest segment.\<close>

lemma repair_newest:
  assumes ok: "\<And>f. x = Some f \<Longrightarrow> file_ok f" and sv: "survives x (Some g)"
    and s: "seg_of ss a = Some (file_seg (ssDir ss) a)" "ssActive ss = Some a" "map_of (ssDir ss) (segFileName a) = Some g"
    and r: "Set_RepairTail ss osq = ((ss', osq'), Inr ())"
  obtains h where "\<And>i. map_of (ssDir ss') (segFileName i) = (if i = a then Some h else map_of (ssDir ss) (segFileName i))"
    "\<And>i. seg_of ss' i = (if i = a then Some (file_seg (ssDir ss') a) else seg_of ss i)"
    "ssActive ss' = Some a" "ssTier ss' = ssTier ss" "file_ok h" "fLinked h = fLinked g" "prefix (fData h) (fData g)"
    "\<And>f. x = Some f \<Longrightarrow> fLinked f \<Longrightarrow> fSynced f \<le> length (fData h) \<and> fSynced f \<le> fSynced h"
proof -
  obtain js rs c where g: "list_all wf_record (js @ rs)" "c \<le> length (frames (js @ rs))" "fData g = take c (frames (js @ rs))"
      "length (fData g) \<le> max_file_size" "fSynced g \<le> length (fData g)" "fSynced g = length (fData g) \<or> fSynced g = length (frames js)"
      "\<And>f. x = Some f \<Longrightarrow> fSynced f = length (frames js)"
    using survives_torn [OF ok sv] by metis
  have len: "length (fData g) = c" using g(2,3) by simp
  have tf: "the_file (ssDir ss) a = g" using s(3) by (rule the_file_Some)
  have torn: "torn_active ss a (js @ rs) c" using s g(1,2) g(3) len tf by (auto simp: torn_active_def file_seg_def)
  have js: "length (frames js) \<le> c" if "x = Some f" "fLinked f" for f using g(5,7) that sv len by auto
  from torn s(3) r show ?thesis
  proof (cases rule: RepairTail_state)
    case (clean ks)
    have fd: "fData g = frames ks" using cut_take [OF clean(1), folded g(3)] clean(2) len by simp
    have wf: "list_all wf_record ks" by (rule cut_wf [OF clean(1) g(1)])
    have "file_ok g"
    proof (cases "fSynced g = length (fData g)")
      case True
      then show ?thesis using g(4) wf fd by (intro file_okI [of _ ks "[]"]) simp_all
    next
      case False
      then have n: "fSynced g = length (frames js)" "length (frames js) \<le> c" using g(5,6) len by auto
      obtain rs' where "ks = js @ rs'" using cut_synced [OF clean(1) n(2)] .
      then show ?thesis using g(4) wf fd n by (intro file_okI [of _ js rs']) simp_all
    qed
    moreover have "fSynced f \<le> length (fData g) \<and> fSynced f \<le> fSynced g" if "x = Some f" "fLinked f" for f
      using sv that by auto
    ultimately show ?thesis using that [of g] s clean(3) by simp
  next
    case (cut ks osq1)
    let ?m = "length (frames ks)" and ?h = "g\<lparr>fData := frames ks, fSynced := length (frames ks)\<rparr>"
    have tk: "take ?m (fData g) = frames ks" using cut_take [OF cut(1)] g(3) by simp
    have so: "segOpen (file_seg (ssDir ss) a)" "segSize (file_seg (ssDir ss) a) = int c" using tf len by (simp_all add: file_seg_def)
    note st = Segment_truncate_state [OF s(1) so s(3) len cut(2,3), unfolded tk]
    have wf: "list_all wf_record ks" by (rule cut_wf [OF cut(1) g(1)])
    have "file_ok ?h" using wf cut(2) g(4) len by (intro file_okI [of _ ks "[]"]) simp_all
    moreover have "length (frames js) \<le> ?m" if "length (frames js) \<le> c"
      using cut_synced [OF cut(1) that] by (metis frames_simps(3) le_add1 length_append)
    moreover have "file_seg (ssDir ss') a = (file_seg (ssDir ss) a)\<lparr>segPos := ?m, segSize := int ?m\<rparr>"
      using the_file_Some [of "ssDir ss'" a ?h] st(1) [of a] by (simp add: file_seg_def)
    moreover have "prefix (frames ks) (fData g)" using tk by (metis take_is_prefix)
    ultimately show ?thesis using that [of ?h] st s(2) js g(7) by simp
  qed
qed

text \<open>
  A set in order, a crash, and the set opened and repaired on what is left: every byte that was
  durable is where it was, and durable still. If nothing but the newest segment was torn, and
  all entries are linked, the set is in order.
\<close>

lemma reopen_recovers:
  assumes ok: "set_ok ss" and cr: "crash_dir (ssDir ss) d" and op: "OpenSet d osq t mx = ((ss1, q1), Inr ())"
    and rp: "Set_RepairTail ss1 q2 = ((ss2, q3), Inr ())"
  shows "set_recovers ss ss2" "ssTier ss2 = t" "newest_torn d \<Longrightarrow> set_ok ss2"
proof -
  have pn: "plain_names d" using cr by (simp add: crash_dir_def)
  note o = OpenSet_opens [OF pn op]
  have fo: "file_ok f" if "map_of (ssDir ss) (segFileName i) = Some f" for i f using ok that by (simp add: set_ok_def dir_ok_def)
  obtain H where H: "\<And>i. map_of (ssDir ss2) (segFileName i) = map_option (H i) (map_of d (segFileName i))"
      "\<And>i. seg_of ss2 i = (if map_of d (segFileName i) = None then None else Some (file_seg (ssDir ss2) i))"
      "ssActive ss2 = ssActive ss1" "ssTier ss2 = t"
      "\<And>i g. map_of d (segFileName i) = Some g \<Longrightarrow> fLinked (H i g) = fLinked g \<and> prefix (fData (H i g)) (fData g) \<and>
         (ssActive ss1 = Some i \<longrightarrow> file_ok (H i g)) \<and> (ssActive ss1 \<noteq> Some i \<longrightarrow> H i g = g)"
      "\<And>i f g. map_of (ssDir ss) (segFileName i) = Some f \<Longrightarrow> fLinked f \<Longrightarrow> map_of d (segFileName i) = Some g \<Longrightarrow>
         fSynced f \<le> length (fData (H i g)) \<and> fSynced f \<le> fSynced (H i g)"
  proof (cases "ssActive ss1")
    case None
    then have "map_of d (segFileName i) = None" for i by (rule o(5))
    moreover have "ss2 = ss1" using rp None by (simp add: Set_RepairTail_def)
    ultimately show ?thesis using that [of "\<lambda>i g. g"] o(1,2,4) None by simp
  next
    case (Some a)
    then obtain g where g: "map_of d (segFileName a) = Some g" using o(6) by blast
    have sv: "survives (map_of (ssDir ss) (segFileName i)) (map_of d (segFileName i))" for i by (rule crash_dirD [OF cr])
    obtain h where h: "\<And>i. map_of (ssDir ss2) (segFileName i) = (if i = a then Some h else map_of d (segFileName i))"
        "\<And>i. seg_of ss2 i = (if i = a then Some (file_seg (ssDir ss2) a) else seg_of ss1 i)"
        "ssActive ss2 = Some a" "ssTier ss2 = t" "file_ok h" "fLinked h = fLinked g" "prefix (fData h) (fData g)"
        "\<And>f. map_of (ssDir ss) (segFileName a) = Some f \<Longrightarrow> fLinked f \<Longrightarrow> fSynced f \<le> length (fData h) \<and> fSynced f \<le> fSynced h"
      using repair_newest [OF fo [of a] sv [of a, unfolded g] _ Some _ rp] o(1,2,4) g by auto
    have fs: "file_seg (ssDir ss2) i = file_seg d i" if "i \<noteq> a" for i
      using h(1) [of i] that by (simp add: file_seg_def the_file_def)
    let ?H = "\<lambda>i g. if i = a then h else g"
    have 1: "map_of (ssDir ss2) (segFileName i) = map_option (?H i) (map_of d (segFileName i))" for i
      using h(1) [of i] g by (cases "i = a") (simp_all add: option.map_ident)
    have 2: "seg_of ss2 i = (if map_of d (segFileName i) = None then None else Some (file_seg (ssDir ss2) i))" for i
      using h(2) [of i] o(4) [of i] g fs [of i] by simp
    have 3: "fSynced f \<le> length (fData (?H i g')) \<and> fSynced f \<le> fSynced (?H i g')"
      if "map_of (ssDir ss) (segFileName i) = Some f" "fLinked f" "map_of d (segFileName i) = Some g'" for i f g'
      using h(8) that sv [of i] by (cases "i = a") auto
    have 4: "fLinked (?H i g') = fLinked g' \<and> prefix (fData (?H i g')) (fData g') \<and>
        (ssActive ss1 = Some i \<longrightarrow> file_ok (?H i g')) \<and> (ssActive ss1 \<noteq> Some i \<longrightarrow> ?H i g' = g')"
      if "map_of d (segFileName i) = Some g'" for i g'
      using h(5-7) g that Some by (cases "i = a") simp_all
    show ?thesis by (rule that [of ?H, OF 1 2 _ h(4) 4 3]) (simp_all add: h(3) Some)
  qed
  show "ssTier ss2 = t" by (rule H(4))
  show "set_recovers ss ss2"
    unfolding log_recovers_def
  proof (intro allI impI)
    fix i dt
    assume dt: "set_data ss i = Some dt"
    then obtain s where s: "seg_of ss i = Some s" by (auto simp: set_data_def split: option.splits)
    obtain f where f: "map_of (ssDir ss) (segFileName i) = Some f" "fLinked f" "the_file (ssDir ss) i = f" using ok s by (rule set_okD)
    have sv: "survives (Some f) (map_of d (segFileName i))" using crash_dirD [OF cr, of i] f(1) by simp
    then obtain g where g: "map_of d (segFileName i) = Some g" "prefix (fData g) (fData f)" "fLinked g"
      using f(2) by (cases "map_of d (segFileName i)") auto
    have h: "map_of (ssDir ss2) (segFileName i) = Some (H i g)" using H(1) [of i] g(1) by simp
    have "set_data ss2 i = Some (fData (H i g))"
      using H(2) [of i] g(1) the_file_Some [OF h] by (simp add: set_data_def file_seg_def)
    moreover have "set_durable ss i = fSynced f" "set_durable ss2 i = fSynced (H i g)"
      using f h H(5) [OF g(1)] g(3) by (simp_all add: set_durable_def)
    moreover have "dt = fData f" using dt set_data_ok [OF ok s] f(3) by simp
    ultimately show "\<exists>d'. set_data ss2 i = Some d' \<and> prefix d' dt \<and> set_durable ss i \<le> length d' \<and> set_durable ss i \<le> set_durable ss2 i"
      using H(5) [OF g(1)] H(6) [OF f(1,2) g(1)] g(2) by (metis prefix_order.trans)
  qed
  show "set_ok ss2" if nt: "newest_torn d"
  proof -
    have fo2: "file_ok (H i g) \<and> fLinked (H i g)" if g: "map_of d (segFileName i) = Some g" for i g
    proof (cases "ssActive ss1 = Some i")
      case True
      then show ?thesis using H(5) [OF g] nt g by (auto simp: newest_torn_def)
    next
      case False
      obtain a where a: "ssActive ss1 = Some a" using o(5) [of i] g by (cases "ssActive ss1") auto
      then have "i < a" "map_of d (segFileName a) \<noteq> None" using o(6) [OF a, of i] g False by auto
      then show ?thesis using H(5) [OF g] False nt g unfolding newest_torn_def by metis
    qed
    have "dir_ok (ssDir ss2)" using fo2 H(1) by (auto simp: dir_ok_def)
    moreover have "seg_ok (ssDir ss2) i s" if "seg_of ss2 i = Some s" for i s
      using that H(1) [of i] H(2) [of i] fo2 the_file_Some [of "ssDir ss2" i]
      by (auto simp: seg_ok_def file_seg_def split: if_splits)
    moreover have "\<exists>s. seg_of ss2 a = Some s" if "ssActive ss2 = Some a" for a
      using that H(2,3) o(6) by simp
    ultimately show ?thesis by (simp add: set_ok_def)
  qed
qed

section \<open>A restart succeeds\<close>

lemma sys_empty [simp]: "sys [] = ([], Inr ())"
  by (simp add: sys_def)

lemma OpenSet_ids_succeeds:
  "\<forall>i \<in> set is. map_of (ssDir ss) (segFileName i) \<noteq> None \<Longrightarrow> \<exists>ss'. OpenSet_ids ss [] is = ((ss', []), Inr ())"
proof (induction "is" arbitrary: ss)
  case (Cons i js)
  then obtain f where "map_of (ssDir ss) (segFileName i) = Some f" by auto
  then have "openSegment (ssDir ss) [] i = ((ssDir ss, []), Inr (file_seg (ssDir ss) i))"
    by (simp add: openSegment_def Let_def file_seg_def)
  then show ?case using Cons by simp
qed simp

lemma OpenSet_succeeds:
  assumes "plain_names d"
  shows "\<exists>ss. OpenSet d [] t mx = ((ss, []), Inr ())"
proof -
  have "\<exists>ss'. OpenSet_ids \<lparr>ssDir = d, ssTier = t, ssMaxSize = mx, ssSegments = [], ssActive = None, ssNextID = 0\<rparr> []
      (sort (List.map_filter parseSegName (map fst d))) = ((ss', []), Inr ())"
    by (rule OpenSet_ids_succeeds) (use segment_ids [OF assms] in simp)
  then show ?thesis by (auto simp: OpenSet_def Let_def)
qed

lemma reopen_succeeds:
  assumes ok: "set_ok ss" and cr: "crash_dir (ssDir ss) d" and op: "OpenSet d osq t mx = ((ss1, q1), Inr ())"
  shows "\<exists>ss2. Set_RepairTail ss1 [] = ((ss2, []), Inr ())"
proof (cases "ssActive ss1")
  case (Some a)
  note o = OpenSet_opens [OF conjunct1 [OF cr [unfolded crash_dir_def]] op]
  obtain g where g: "map_of d (segFileName a) = Some g" using o(6) [OF Some] by blast
  have sv: "survives (map_of (ssDir ss) (segFileName a)) (Some g)" using crash_dirD [OF cr, of a] g by simp
  have fo: "file_ok f" if "map_of (ssDir ss) (segFileName a) = Some f" for f using ok that by (simp add: set_ok_def dir_ok_def)
  obtain js rs c where "list_all wf_record (js @ rs)" "c \<le> length (frames (js @ rs))" "fData g = take c (frames (js @ rs))"
    using survives_torn [OF fo sv] by metis
  then have "torn_active ss1 a (js @ rs) c"
    using Some o(1,4) g the_file_Some [OF g] by (auto simp: torn_active_def file_seg_def)
  then show ?thesis by (rule RepairTail_no_faults)
qed (simp add: Set_RepairTail_def)

end
