(* ===== verification/Recovery.thy ===== *)
theory Recovery
  imports Index_Machine Segment_Reopen
begin

text \<open>
  The index across a restart (\<open>Open\<close> of \<open>src/index/index.go\<close>). After a crash that loses what was not
  synced, an index opened on what is left has every file as it was: each fragment that the
  database holds points at bytes that were durable.
\<close>

section \<open>Fragments across a restart\<close>

definition ix_recovers :: "'db Index \<Rightarrow> 'db Index \<Rightarrow> bool" where
  "ix_recovers idx idx' \<longleftrightarrow> ixStripeSize idx' = ixStripeSize idx \<and>
     set_recovers (ixHot idx) (ixHot idx') \<and> set_recovers (ixCold idx) (ixCold idx')"

lemma frag_recovers:
  assumes "ix_recovers idx idx'" "frag_ok idx s f"
  shows "frag_ok idx' s f" "covers f x \<Longrightarrow> loc_byte idx' f x = loc_byte idx f x"
proof -
  let ?ss = "setFor idx (FTier f)" and ?ss' = "setFor idx' (FTier f)"
  obtain d where d: "set_data ?ss (SegmentID f) = Some d" using assms(2) by (auto simp: frag_ok_def located_def)
  have du: "0 \<le> SegmentOffset f" "SegmentOffset f + Length f \<le> int (set_durable ?ss (SegmentID f))"
    using assms(2) by (auto simp: frag_ok_def durable_def log_durable_def)
  have "set_recovers ?ss ?ss'" using assms(1) by (simp add: ix_recovers_def setFor_def)
  then obtain d' where d': "set_data ?ss' (SegmentID f) = Some d'" "prefix d' d" "set_durable ?ss (SegmentID f) \<le> length d'"
      "set_durable ?ss (SegmentID f) \<le> set_durable ?ss' (SegmentID f)"
    using d unfolding log_recovers_def by blast
  have st: "in_stripe idx' s f = in_stripe idx s f" using assms(1) by (simp add: ix_recovers_def in_stripe_def)
  show "frag_ok idx' s f"
    using assms(2) d' du by (auto simp: frag_ok_def st located_def durable_def log_durable_def)
  show "loc_byte idx' f x = loc_byte idx f x" if c: "covers f x"
  proof -
    have "wf_frag f" using assms(2) by (simp add: frag_ok_def)
    then have "nat (SegmentOffset f + (x - LogicalOff f)) < length d'" using c d'(3) du by (auto simp: covers_def wf_frag_def)
    then show ?thesis using d d'(1,2) by (auto simp: loc_byte_def byte_at_def prefix_def nth_append)
  qed
qed

lemma content_recovers:
  assumes "ix_recovers idx idx'" "db_ok idx V" "0 < ixStripeSize idx"
    and "\<And>i s q v. V (FragmentKey i s q) = Some v \<Longrightarrow> q \<le> ixSeqGen idx'"
  shows "db_ok idx' V" "file_byte idx' V = file_byte idx V"
proof -
  show ok': "db_ok idx' V"
    using assms(2,4) frag_recovers(1) [OF assms(1)] unfolding db_ok_def by meson
  have st: "0 < ixStripeSize idx'" using assms(1,3) by (simp add: ix_recovers_def)
  show "file_byte idx' V = file_byte idx V"
  proof (intro ext)
    fix i x
    from assms(2,3) show "file_byte idx' V i x = file_byte idx V i x"
    proof (cases rule: file_byte_cases [of idx V i x])
      case (data f)
      obtain s where "frag_ok idx s f" using data(1) frag_atD [OF assms(2)] by (auto simp: newest_def live_def)
      then show ?thesis
        using file_byte_newest [OF ok' st data(1)] data frag_recovers(2) [OF assms(1)] by (simp add: newest_def)
    next
      case hole
      then show ?thesis using file_byte_none [of V i x idx'] by simp
    qed
  qed
qed

section \<open>The scan for old entries\<close>

definition no_legacy :: "(bytes \<rightharpoonup> bytes) \<Rightarrow> bool" where
  "no_legacy V \<longleftrightarrow> (\<forall>k. V k \<noteq> None \<longrightarrow> prefix StripeAllPrefix k \<longrightarrow> \<not> IsLegacyStripeKey k)"

lemma migrate_scan_fragments:
  assumes "\<forall>(k, v) \<in> set kvs. prefix StripeAllPrefix k \<and> \<not> IsLegacyStripeKey k" "migrate_scan kvs m = Inr m'"
  shows "mgKeys m' = mgKeys m \<and> mgMaxSeq m \<le> mgMaxSeq m' \<and>
    (\<forall>i s q v. (FragmentKey i s q, v) \<in> set kvs \<longrightarrow> q \<le> mgMaxSeq m') \<and>
    (mgMaxSeq m' = mgMaxSeq m \<or> (\<exists>i s v. (FragmentKey i s (mgMaxSeq m'), v) \<in> set kvs))"
  using assms
proof (induction kvs arbitrary: m)
  case (Cons kv kvs)
  obtain k v where kv: "kv = (k, v)" by fastforce
  show ?case
  proof (cases "IsFragmentKey k")
    case True
    have "prefix StripeAllPrefix k" using Cons.prems(1) kv by simp
    then obtain i s q where k: "k = FragmentKey i s q" using True by (rule fragment_key_cases)
    let ?m = "m\<lparr>mgMaxSeq := (if q > mgMaxSeq m then q else mgMaxSeq m)\<rparr>"
    have "migrate_scan kvs ?m = Inr m'" using Cons.prems(2) by (simp add: kv k or_panic_def)
    from Cons.IH [OF _ this] show ?thesis using Cons.prems(1) by (fastforce simp: kv k split: if_splits)
  next
    case False
    then have "migrate_scan kvs m = Inr m'" using Cons.prems by (simp add: kv)
    from Cons.IH [OF _ this] show ?thesis using Cons.prems(1) False by (fastforce simp: kv)
  qed
qed simp

context pebble_engine
begin

text \<open>On a database without old entries only the sequence counter is set, past every fragment.\<close>

lemma migrate_fresh:
  assumes nl: "no_legacy (view (ixDB idx))" and mx: "\<And>i s q v. view (ixDB idx) (FragmentKey i s q) = Some v \<Longrightarrow> q < - 1"
    and r: "migrateBlobsToFragments P idx = (idx', Inr ())"
  shows "\<exists>g. idx' = idx\<lparr>ixSeqGen := g\<rparr> \<and> (\<forall>i s q v. view (ixDB idx) (FragmentKey i s q) = Some v \<longrightarrow> q \<le> g)"
proof -
  let ?V = "view (ixDB idx)" and ?hi = "PrefixUpperBound StripeAllPrefix" and ?m0 = "\<lparr>mgKeys = [], mgSets = [], mgMaxSeq = 0\<rparr>"
  obtain kvs m where it: "DB_Iter P (ixDB idx) StripeAllPrefix ?hi = Inr (kvs, None)" "migrate_scan kvs ?m0 = Inr m"
    using r by (auto simp: migrateBlobsToFragments_def split: sum.splits prod.splits option.splits)
  have mem: "(k, v) \<in> set kvs \<longleftrightarrow> prefix StripeAllPrefix k \<and> ?V k = Some v" for k v
    using range_scan_mem [OF DB_Iter_view [OF it(1)], of k v] by (simp add: prefix_range)
  have "\<forall>(k, v) \<in> set kvs. prefix StripeAllPrefix k \<and> \<not> IsLegacyStripeKey k" using mem nl by (auto simp: no_legacy_def)
  note sc = migrate_scan_fragments [OF this it(2)]
  have bound: "q \<le> mgMaxSeq m" if "?V (FragmentKey i s q) = Some v" for i s q v using sc mem that by (metis prefix_FragmentKey(1))
  have z: "(0 :: u64) < - 1" by code_simp
  have top: "mgMaxSeq m < - 1" using sc mem mx z by auto
  then have "1 + mgMaxSeq m \<noteq> 0" by (metis eq_neg_iff_add_eq_0 add.commute less_irrefl)
  from unatSuc [OF this] have "mgMaxSeq m < mgMaxSeq m + 1" by (simp add: word_less_nat_alt add.commute)
  moreover have "idx' = (if mgMaxSeq m = 0 \<or> mgMaxSeq m < ixSeqGen idx then idx else idx\<lparr>ixSeqGen := mgMaxSeq m + 1\<rparr>)"
    using r it sc by (auto simp: migrateBlobsToFragments_def Let_def split: if_splits)
  ultimately have "idx' = idx\<lparr>ixSeqGen := ixSeqGen idx'\<rparr>" "mgMaxSeq m \<le> ixSeqGen idx'"
    by (auto simp: less_imp_le)
  then show ?thesis using bound order_trans by blast
qed

end

section \<open>Opening\<close>

lemma Index_Open_ok:
  assumes "Index_Open P mig (db, r) cfg hot cold now osq = (idx', Inr ())"
  obtains c h1 c1 h2 c2 q0 q1 q2 q3 q4 where "open_config cfg = Inr c"
    "OpenSet hot q0 TierHot (cfgSegmentMaxSize c) = ((h1, q1), Inr ())" "OpenSet cold q1 TierCold (cfgSegmentMaxSize c) = ((c1, q2), Inr ())"
    "Set_RepairTail h1 q2 = ((h2, q3), Inr ())" "Set_RepairTail c1 q3 = ((c2, q4), Inr ())"
    "migrateBlobsToFragments P \<lparr>ixStripeSize = cfgStripeSize c, ixDB = db, ixHot = h2, ixCold = c2, ixSeqGen = now, ixOS = q4\<rparr> = (idx', Inr ())"
    "no_partial osq \<Longrightarrow> no_partial q0"
proof -
  obtain c where c: "open_config cfg = Inr c" using assms by (cases "open_config cfg") (auto simp: Index_Open_def Let_def)
  obtain qa ra qb rb where q: "sys osq = (qa, ra)" "sys qa = (qb, rb)" by fastforce
  have np: "no_partial qb" if "no_partial osq" using that q sys_no_partial by metis
  have ct: "TierHot \<noteq> TierCold" by (simp add: tier_defs)
  from assms c q np ct show ?thesis
    by (auto simp: Index_Open_def Let_def andThen_ok sys_idx_def on_set_def setFor_def put_set_def closed_set_def
        split: prod.splits intro: that)
qed

lemma open_config_positive: "open_config cfg = Inr c \<Longrightarrow> 0 < cfgStripeSize c"
  by (auto simp: open_config_def Let_def split: if_splits)

context pebble_engine
begin

lemma reopen_effect:
  assumes ok: "index_ok view idx" and cr: "crash_dir (ssDir (ixHot idx)) hot" "crash_dir (ssDir (ixCold idx)) cold"
    and db: "view db = view (ixDB idx)" "no_legacy (view db)" and sq: "ixSeqGen idx < - 1"
    and cfg: "open_config cfg = Inr c" "cfgStripeSize c = ixStripeSize idx"
    and r: "Index_Open P mig (db, ro) cfg hot cold now osq = (idx', Inr ())"
  shows "content idx' = content idx" "db_ok idx' (view (ixDB idx'))" "view (ixDB idx') = view db"
    "no_partial osq \<Longrightarrow> newest_torn hot \<Longrightarrow> newest_torn cold \<Longrightarrow> index_ok view idx'" "ixStripeSize idx' = ixStripeSize idx"
    "ixDB idx' = db"
proof -
  have so: "set_ok (ixHot idx)" "set_ok (ixCold idx)" "0 < ixStripeSize idx" "db_ok idx (view db)"
    using ok db(1) by (simp_all add: index_ok_def ix_ok_def)
  from r obtain h1 c1 h2 c2 q0 q1 q2 q3 q4 where o:
      "OpenSet hot q0 TierHot (cfgSegmentMaxSize c) = ((h1, q1), Inr ())" "OpenSet cold q1 TierCold (cfgSegmentMaxSize c) = ((c1, q2), Inr ())"
      "Set_RepairTail h1 q2 = ((h2, q3), Inr ())" "Set_RepairTail c1 q3 = ((c2, q4), Inr ())"
      "migrateBlobsToFragments P \<lparr>ixStripeSize = cfgStripeSize c, ixDB = db, ixHot = h2, ixCold = c2, ixSeqGen = now, ixOS = q4\<rparr> = (idx', Inr ())"
      "no_partial osq \<Longrightarrow> no_partial q0"
    using cfg(1) by (cases rule: Index_Open_ok) auto
  note h = reopen_recovers [OF so(1) cr(1) o(1,3)] and c = reopen_recovers [OF so(2) cr(2) o(2,4)]
  have key: "q \<le> ixSeqGen idx" if "view db (FragmentKey i s q) = Some v" for i s q v using so(4) that by (auto simp: db_ok_def)
  let ?i = "\<lparr>ixStripeSize = cfgStripeSize c, ixDB = db, ixHot = h2, ixCold = c2, ixSeqGen = now, ixOS = q4\<rparr>"
  have nl: "no_legacy (view (ixDB ?i))" using db(2) by simp
  have mx: "q < - 1" if "view (ixDB ?i) (FragmentKey i s q) = Some v" for i s q v
    using le_less_trans [OF key sq] that by simp
  have "\<exists>g. idx' = ?i\<lparr>ixSeqGen := g\<rparr> \<and> (\<forall>i s q v. view (ixDB ?i) (FragmentKey i s q) = Some v \<longrightarrow> q \<le> g)"
    by (rule migrate_fresh [OF nl _ o(5)]) (rule mx)
  then obtain g where g0: "idx' = ?i\<lparr>ixSeqGen := g\<rparr>" "\<And>i s q v. view (ixDB ?i) (FragmentKey i s q) = Some v \<Longrightarrow> q \<le> g" by blast
  then have g: "idx' = \<lparr>ixStripeSize = cfgStripeSize c, ixDB = db, ixHot = h2, ixCold = c2, ixSeqGen = g, ixOS = q4\<rparr>"
      "\<And>i s q v. view db (FragmentKey i s q) = Some v \<Longrightarrow> q \<le> g" by simp_all
  have rec: "ix_recovers idx idx'" using h(1) c(1) cfg(2) by (simp add: ix_recovers_def g(1))
  note e = content_recovers [OF rec so(4,3)]
  show d: "ixDB idx' = db" "view (ixDB idx') = view db" "ixStripeSize idx' = ixStripeSize idx" using cfg(2) by (simp_all add: g(1))
  show "content idx' = content idx" using e(2) g(2) db(1) by (simp add: g(1))
  show dok: "db_ok idx' (view (ixDB idx'))" using e(1) g(2) by (simp add: g(1))
  have "no_partial q4" if np: "no_partial osq"
  proof -
    have pn: "plain_names hot" "plain_names cold" using cr by (simp_all add: crash_dir_def)
    have "no_partial q1" by (rule OpenSet_opens(3) [OF pn(1) o(1) o(6) [OF np]])
    then have "no_partial q2" by (rule OpenSet_opens(3) [OF pn(2) o(2)])
    then have "no_partial q3" by (rule RepairTail_quiet [OF _ o(3)])
    then show ?thesis by (rule RepairTail_quiet [OF _ o(4)])
  qed
  then show "index_ok view idx'" if "no_partial osq" "newest_torn hot" "newest_torn cold"
    using that h(2,3) c(2,3) dok so(3) cfg(2) by (simp add: index_ok_def ix_ok_def g(1))
qed

end

lemma migrate_scan_succeeds:
  "\<forall>(k, v) \<in> set kvs. prefix StripeAllPrefix k \<and> \<not> IsLegacyStripeKey k \<Longrightarrow> \<exists>m'. migrate_scan kvs m = Inr m'"
proof (induction kvs arbitrary: m)
  case (Cons kv kvs)
  obtain k v where kv: "kv = (k, v)" by fastforce
  show ?case
  proof (cases "IsFragmentKey k")
    case True
    have "prefix StripeAllPrefix k" using Cons.prems kv by simp
    then obtain i s q where "k = FragmentKey i s q" using True by (rule fragment_key_cases)
    then show ?thesis using Cons by (simp add: kv or_panic_def)
  qed (use Cons in \<open>simp add: kv\<close>)
qed simp

context reliable_pebble
begin

lemma migrate_succeeds:
  assumes "no_legacy (view (ixDB idx))"
  shows "\<exists>idx'. migrateBlobsToFragments P idx = (idx', Inr ())"
proof -
  obtain kvs where it: "DB_Iter P (ixDB idx) StripeAllPrefix (PrefixUpperBound StripeAllPrefix) = Inr (kvs, None)"
    using iter_total [of "ixDB idx" StripeAllPrefix "PrefixUpperBound StripeAllPrefix"] by (auto simp: DB_Iter_def)
  have "\<forall>(k, v) \<in> set kvs. prefix StripeAllPrefix k \<and> \<not> IsLegacyStripeKey k"
    using range_scan_mem [OF DB_Iter_view [OF it]] assms by (auto simp: prefix_range no_legacy_def)
  note al = this
  obtain m where m: "migrate_scan kvs \<lparr>mgKeys = [], mgSets = [], mgMaxSeq = 0\<rparr> = Inr m" using migrate_scan_succeeds [OF al] by blast
  then have "mgKeys m = []" using migrate_scan_fragments [OF al m] by simp
  then show ?thesis using it m by (simp add: migrateBlobsToFragments_def Let_def)
qed

lemma reopen_total:
  assumes ok: "index_ok view idx" and cr: "crash_dir (ssDir (ixHot idx)) hot" "crash_dir (ssDir (ixCold idx)) cold"
    and db: "no_legacy (view db)" and cfg: "open_config cfg = Inr c"
  shows "\<exists>idx'. Index_Open P (Inr ()) (db, Inr ()) cfg hot cold now [] = (idx', Inr ())"
proof -
  have so: "set_ok (ixHot idx)" "set_ok (ixCold idx)" using ok by (simp_all add: index_ok_def ix_ok_def)
  let ?mx = "cfgSegmentMaxSize c"
  obtain h1 where h1: "OpenSet hot [] TierHot ?mx = ((h1, []), Inr ())" using OpenSet_succeeds [of hot TierHot ?mx] cr(1) by (auto simp: crash_dir_def)
  obtain c1 where c1: "OpenSet cold [] TierCold ?mx = ((c1, []), Inr ())" using OpenSet_succeeds [of cold TierCold ?mx] cr(2) by (auto simp: crash_dir_def)
  obtain h2 where h2: "Set_RepairTail h1 [] = ((h2, []), Inr ())" using reopen_succeeds [OF so(1) cr(1) h1] by blast
  obtain c2 where c2: "Set_RepairTail c1 [] = ((c2, []), Inr ())" using reopen_succeeds [OF so(2) cr(2) c1] by blast
  obtain idx' where "migrateBlobsToFragments P \<lparr>ixStripeSize = cfgStripeSize c, ixDB = db, ixHot = h2, ixCold = c2, ixSeqGen = now, ixOS = []\<rparr> = (idx', Inr ())"
    using migrate_succeeds [of "\<lparr>ixStripeSize = cfgStripeSize c, ixDB = db, ixHot = h2, ixCold = c2, ixSeqGen = now, ixOS = []\<rparr>"] db by auto
  then show ?thesis
    using cfg h1 c1 h2 c2 by (simp add: Index_Open_def Let_def sys_idx_def on_set_def setFor_def put_set_def closed_set_def tier_defs)
qed

end

section \<open>Runs with crashes\<close>

text \<open>
  A crash and the next start: the newest segment of each tier may be torn, the database is as
  committed. A crash in the middle of an operation is one after the operation has failed: from
  the first system call that fails on, an operation changes nothing on disk.
\<close>

inductive restart :: "'db pebble \<Rightarrow> ('db \<Rightarrow> bytes \<rightharpoonup> bytes) \<Rightarrow> 'db Index \<Rightarrow> 'db Index \<Rightarrow> bool" for P view where
  restart: "crash_dir (ssDir (ixHot idx)) hot \<Longrightarrow> crash_dir (ssDir (ixCold idx)) cold \<Longrightarrow> newest_torn hot \<Longrightarrow> newest_torn cold \<Longrightarrow>
    view db = view (ixDB idx) \<Longrightarrow> no_legacy (view db) \<Longrightarrow> ixSeqGen idx < - 1 \<Longrightarrow> open_config cfg = Inr c \<Longrightarrow>
    cfgStripeSize c = ixStripeSize idx \<Longrightarrow> no_partial osq \<Longrightarrow> Index_Open P mig (db, ro) cfg hot cold now osq = (idx', Inr ()) \<Longrightarrow>
    restart P view idx idx'"

inductive lives :: "'db pebble \<Rightarrow> ('db \<Rightarrow> bytes \<rightharpoonup> bytes) \<Rightarrow> 'db Index \<Rightarrow> (ix_op \<times> (goerr + unit)) list \<Rightarrow> 'db Index \<Rightarrow> bool"
  for P view where
  lives_last: "ix_runs P idx tr idx' \<Longrightarrow> lives P view idx tr idx'"
| lives_crash: "ix_runs P idx tr idx1 \<Longrightarrow> restart P view idx1 idx2 \<Longrightarrow> lives P view idx2 tr' idx' \<Longrightarrow> lives P view idx (tr @ tr') idx'"

context pebble_engine
begin

lemma restart_effect: "restart P view idx idx' \<Longrightarrow> index_ok view idx \<Longrightarrow> index_ok view idx' \<and> content idx' = content idx"
  by (induction rule: restart.induct) (blast dest: reopen_effect(1,4))

lemma lives_effect:
  assumes "lives P view idx tr idx'" "index_ok view idx"
  shows "index_ok view idx' \<and> spec_runs (content idx) tr (content idx')"
  using assms
proof (induction rule: lives.induct)
  case (lives_last idx tr idx')
  then show ?case by (rule runs_effect)
next
  case (lives_crash idx tr idx1 idx2 tr' idx')
  note r = runs_effect [OF lives_crash(1,5)]
  have "index_ok view idx2 \<and> content idx2 = content idx1" using restart_effect lives_crash(2) r by blast
  then show ?case using lives_crash.IH r spec_runs_append by metis
qed

end

section \<open>Properties\<close>

text \<open>
  C4: recovery after a crash. Take any state of the index in order, and any crash: of each
  segment file a prefix that has at least the synced bytes is left, files whose directory entry
  was not synced may be gone, removed ones may be back. An index that is opened on what is left,
  with the database as committed, has every file as it was, byte for byte; opening succeeds
  when no call fails; and if only the newest segment of each tier was torn, the index is in order.
\<close>

theorem recovery_keeps_files:
  assumes "pebble_engine P view" "index_ok view idx"
    and "crash_dir (ssDir (ixHot idx)) hot" "crash_dir (ssDir (ixCold idx)) cold"
    and "view db = view (ixDB idx)" "no_legacy (view db)" "ixSeqGen idx < - 1"
    and "open_config cfg = Inr c" "cfgStripeSize c = ixStripeSize idx"
    and "Index_Open P mig (db, ro) cfg hot cold now osq = (idx', r)"
  shows "(r = Inr () \<longrightarrow> file_byte idx' (view (ixDB idx')) = file_byte idx (view (ixDB idx)) \<and>
      (no_partial osq \<longrightarrow> newest_torn hot \<longrightarrow> newest_torn cold \<longrightarrow> index_ok view idx')) \<and>
    (reliable_pebble P view \<and> mig = Inr () \<and> ro = Inr () \<and> osq = [] \<longrightarrow> r = Inr ())"
proof (intro conjI impI)
  assume "r = Inr ()"
  then have o: "Index_Open P mig (db, ro) cfg hot cold now osq = (idx', Inr ())" using assms(10) by simp
  note e = pebble_engine.reopen_effect [OF assms(1-9) o]
  show "file_byte idx' (view (ixDB idx')) = file_byte idx (view (ixDB idx))" by (rule e(1))
  show "index_ok view idx'" if "no_partial osq" "newest_torn hot" "newest_torn cold" using e(4) that by blast
next
  assume "reliable_pebble P view \<and> mig = Inr () \<and> ro = Inr () \<and> osq = []"
  then show "r = Inr ()" using reliable_pebble.reopen_total [OF _ assms(2-4,6,8), of P now] assms(10) by auto
qed

text \<open>
  A segment with two records of which the first is synced and indexed, and the same segment
  after a crash in the middle of the second.
\<close>

definition crash_file :: "nat \<Rightarrow> osfile" where
  "crash_file n = \<lparr>fData = take n (frame \<lparr>hInode = 1, hStripeID = 0, hSeq = 5, hLogicalOff = 0, hLength = 2\<rparr> [7, 8] @
      frame \<lparr>hInode = 1, hStripeID = 0, hSeq = 6, hLogicalOff = 0, hLength = 1\<rparr> [9]), fSynced = 46, fLinked = True\<rparr>"

definition crash_frag :: Fragment where
  "crash_frag = \<lparr>Seq = 5, LogicalOff = 0, Length = 2, FTier = TierHot, SegmentID = 0, SegmentOffset = 40\<rparr>"

definition crash_index :: "kvpair list Index" where
  "crash_index = fresh_index\<lparr>ixDB := [(FragmentKey 1 0 5, encodeFragments [crash_frag])], ixSeqGen := 6,
     ixHot := (fresh_set TierHot)\<lparr>ssDir := [(segFileName 0, crash_file 91)],
       ssSegments := [(0, \<lparr>segID = 0, segPos = 91, segSize = 91, segOpen = True\<rparr>)], ssActive := Some 0, ssNextID := 1\<rparr>\<rparr>"

lemma crash_file_ok: "file_ok (crash_file 91)"
  by (rule file_okI [of _ "[(\<lparr>hInode = 1, hStripeID = 0, hSeq = 5, hLogicalOff = 0, hLength = 2\<rparr>, [7, 8])]"
        "[(\<lparr>hInode = 1, hStripeID = 0, hSeq = 6, hLogicalOff = 0, hLength = 1\<rparr>, [9])]"])
    (simp_all add: crash_file_def wf_record_def in_i64_def max_file_size_def)

lemma crash_index_ok: "index_ok map_of crash_index"
proof -
  let ?ss = "ixHot crash_index"
  have fl: "map_of (ssDir ?ss) (segFileName i) = (if i = 0 then Some (crash_file 91) else None)" for i by (simp add: crash_index_def)
  have sg: "seg_of ?ss i = (if i = 0 then Some \<lparr>segID = 0, segPos = 91, segSize = 91, segOpen = True\<rparr> else None)" for i
    by (simp add: crash_index_def seg_of_def)
  have ln: "length (fData (crash_file 91)) = 91" "fLinked (crash_file 91)" "fSynced (crash_file 91) = 46" by (simp_all add: crash_file_def)
  have hot: "set_ok ?ss"
    using crash_file_ok ln by (auto simp: set_ok_def dir_ok_def fl sg seg_ok_def split: if_splits) (simp add: crash_index_def)
  have cold: "set_ok (ixCold crash_index)" by (simp add: crash_index_def fresh_index_def fresh_set_def set_ok_def dir_ok_def seg_of_def)
  have sd: "set_data ?ss 0 = Some (fData (crash_file 91))" "set_durable ?ss 0 = 46"
    using sg [of 0] fl [of 0] ln(2,3) by (simp_all add: set_data_def set_durable_def the_file_def)
  have wf: "wf_frag crash_frag" by (simp add: crash_frag_def wf_frag_def)
  have hs: "setFor crash_index TierHot = ?ss" by (simp add: setFor_def tier_defs)
  have "frag_ok crash_index 0 crash_frag"
    using wf sd ln(1) hs by (simp add: frag_ok_def in_stripe_def located_def durable_def log_durable_def)
      (simp add: crash_frag_def crash_index_def)
  then have "db_ok crash_index (map_of (ixDB crash_index))"
    using decode_one [OF wf] by (intro db_okI) (auto simp: crash_index_def crash_frag_def split: if_splits)
  then show ?thesis using hot cold by (simp add: index_ok_def ix_ok_def) (simp add: crash_index_def fresh_set_def no_partial_def fresh_index_def)
qed

lemma crash_byte: "file_byte crash_index (map_of (ixDB crash_index)) 1 1 = Some 8"
proof -
  let ?V = "map_of (ixDB crash_index)"
  have ok: "db_ok crash_index ?V" "0 < ixStripeSize crash_index" using crash_index_ok by (simp_all add: index_ok_def ix_ok_def)
  have d: "decodeFragments (encodeFragments [crash_frag]) = [crash_frag]" by (rule decode_one) (simp add: crash_frag_def wf_frag_def)
  have lv: "live ?V 1 = {crash_frag}" using d by (auto simp: live_def frag_at_def crash_index_def crash_frag_def split: if_splits)
  have "newest ?V 1 1 crash_frag" by (simp add: newest_def lv) (simp add: crash_frag_def covers_def)
  then have "file_byte crash_index ?V 1 1 = loc_byte crash_index crash_frag 1" by (rule file_byte_newest [OF ok])
  also have "\<dots> = Some 8"
    by (simp add: loc_byte_def crash_frag_def setFor_def tier_defs crash_index_def set_data_def seg_of_def the_file_def crash_file_def
        byte_at_def frame_def nth_append)
  finally show ?thesis .
qed

definition crash_config :: Config where
  "crash_config = \<lparr>cfgHotDir = ''/hot'', cfgColdDir = ''/cold'', cfgDBPath = [], cfgStripeSize = 4096, cfgSegmentMaxSize = 2 ^ 30, cfgRoot = []\<rparr>"

lemma crash_left: "crash_dir (ssDir (ixHot crash_index)) [(segFileName 0, crash_file 60)]" "crash_dir (ssDir (ixCold crash_index)) []"
proof -
  have "prefix (fData (crash_file 60)) (fData (crash_file 91))" by (simp add: crash_file_def take_is_prefix)
  then show "crash_dir (ssDir (ixHot crash_index)) [(segFileName 0, crash_file 60)]"
    by (auto simp: crash_dir_def plain_names_def crash_index_def) (simp_all add: crash_file_def)
  show "crash_dir (ssDir (ixCold crash_index)) []" by (simp add: crash_dir_def plain_names_def crash_index_def fresh_index_def fresh_set_def)
qed

lemma crash_db: "no_legacy (map_of (ixDB crash_index))"
  by (auto simp: no_legacy_def crash_index_def split: if_splits)

theorem recovery_keeps_files_witness:
  "\<exists>idx'. Index_Open mem_pebble (Inr ()) (ixDB crash_index, Inr ()) crash_config [(segFileName 0, crash_file 60)] [] 9 [] = (idx', Inr ()) \<and>
     file_byte idx' (map_of (ixDB idx')) 1 1 = Some 8 \<and> index_ok map_of idx'"
proof -
  let ?hot = "[(segFileName 0, crash_file 60)]"
  obtain idx' r where o: "Index_Open mem_pebble (Inr ()) (ixDB crash_index, Inr ()) crash_config ?hot [] 9 [] = (idx', r)" by fastforce
  have c: "open_config crash_config = Inr crash_config" by code_simp
  have "newest_torn ?hot" by (auto simp: newest_torn_def crash_file_def split: if_splits)
  moreover have "newest_torn []" "no_partial []" by (simp_all add: newest_torn_def no_partial_def)
  moreover have "cfgStripeSize crash_config = ixStripeSize crash_index" by (simp add: crash_config_def crash_index_def)
  moreover have "(6 :: u64) < - 1" by code_simp
  then have "ixSeqGen crash_index < - 1" by (simp add: crash_index_def)
  ultimately show ?thesis
    using recovery_keeps_files [OF mem.pebble_engine_axioms crash_index_ok crash_left refl crash_db _ c _ o]
      mem.reliable_pebble_axioms o crash_byte by auto
qed


lemma crash_restart: "\<exists>idx'. restart mem_pebble map_of crash_index idx' \<and> ixStripeSize idx' = 4096"
proof -
  let ?hot = "[(segFileName 0, crash_file 60)]"
  have c: "open_config crash_config = Inr crash_config" by code_simp
  obtain idx' where o: "Index_Open mem_pebble (Inr ()) (ixDB crash_index, Inr ()) crash_config ?hot [] 9 [] = (idx', Inr ())"
    using mem.reopen_total [OF crash_index_ok crash_left crash_db c] by blast
  have n: "newest_torn ?hot" "newest_torn []" "no_partial []" by (auto simp: newest_torn_def crash_file_def no_partial_def split: if_splits)
  have st: "cfgStripeSize crash_config = ixStripeSize crash_index" "ixStripeSize crash_index = 4096" by (simp_all add: crash_config_def crash_index_def)
  have "(6 :: u64) < - 1" by code_simp
  then have sq: "ixSeqGen crash_index < - 1" by (simp add: crash_index_def)
  have "restart mem_pebble map_of crash_index idx'" by (rule restart.restart [where view = map_of and db = "ixDB crash_index", OF crash_left n(1,2) refl crash_db sq c st(1) n(3) o])
  then show ?thesis using mem.reopen_effect(5) [OF crash_index_ok crash_left refl crash_db sq c st(1) o] st(2) by auto
qed


end
