(* ===== verification/Shutdown.thy ===== *)
theory Shutdown
  imports Recovery Budget Store
begin

text \<open>
  Closing the store (\<open>Close\<close> of \<open>src/store/store.go\<close>, \<open>Drain\<close> and \<open>Close\<close> of
  \<open>src/store/coalescer.go\<close>, \<open>Close\<close> of \<open>src/index/index.go\<close>) and starting again: what readers saw
  before is what the files have after the next start, unless a flush failed. That a flush
  failed is not reported.
\<close>

section \<open>One file does not touch another\<close>

lemma flush_swap_others: "flush_swap co i = (co', sw) \<Longrightarrow> j \<noteq> i \<Longrightarrow> co_buf co' j = co_buf co j"
  by (auto simp: flush_swap_def newBufBatch_def split: option.splits if_splits prod.splits)

lemma flush_swap_idle:
  "buf_ok idx V i buf \<Longrightarrow> co_buf co i = Some buf \<Longrightarrow> buf_extents buf = [] \<Longrightarrow> flush_swap co i = (co, False)"
  by (auto simp: flush_swap_def buf_ok_def buf_extents_def opt_extents_def x_total_def split: option.splits)

lemma co_queue_same [simp]: "coQueue (put_buf i buf co) = coQueue co"
  by (simp add: put_buf_def)

lemma flush_queue_same:
  "flush_swap co i = (co', sw) \<Longrightarrow> coQueue co' = coQueue co"
  "flush_finish P W (idx, co) i = ((idx', co'), r) \<Longrightarrow> coQueue co' = coQueue co"
proof -
  show "flush_swap co i = (co', sw) \<Longrightarrow> coQueue co' = coQueue co"
    by (auto simp: flush_swap_def newBufBatch_def split: option.splits if_splits prod.splits)
  have c: "close_chan ch c = (c1, r1) \<Longrightarrow> coQueue c1 = coQueue c" "sem_release W n c = (c1, r1) \<Longrightarrow> coQueue c1 = coQueue c"
    for ch c c1 r1 n by (auto simp: close_chan_def sem_release_def split: if_splits prod.splits)
  show "flush_finish P W (idx, co) i = ((idx', co'), r) \<Longrightarrow> coQueue co' = coQueue co"
    by (auto simp: flush_finish_def andThen_def dest!: c split: option.splits prod.splits sum.splits)
qed

lemma flushInode_None:
  "flushInode P W (idx, co) \<lparr>frInode = i, frFired = None\<rparr> =
    (case flush_swap co i of (co1, sw) \<Rightarrow> if sw then flush_finish P W (idx, co1) i else ((idx, co1), Inr ()))"
  by (simp add: flushInode_def close_fired_def split: prod.split)

lemma flushInode_queue:
  "flushInode P W (idx, co) \<lparr>frInode = i, frFired = None\<rparr> = ((idx', co'), r) \<Longrightarrow> coQueue co' = coQueue co"
  by (auto simp: flushInode_None dest!: flush_queue_same split: prod.splits if_splits)

lemma Fsync_cases:
  assumes "co_Fsync P W (idx, co) i = ((idx', co'), r)"
  obtains (same) "idx' = idx" "co' = co" "r = Inr () \<longrightarrow> co_buf co i = None"
      "\<And>e. r = Inl e \<Longrightarrow> \<exists>buf. co_buf co i = Some buf \<and> ibPoisoned buf = Some e"
  | (stuck) e where "flush_finish P W (idx, co) i = ((idx', co'), Inl e)" "r = Inl e"
  | (flushed) idx1 co1 r2 where "flush_finish P W (idx, co) i = ((idx1, co1), Inr ())"
      "flushInode P W (idx1, co1) \<lparr>frInode = i, frFired = None\<rparr> = ((idx', co'), r2) \<or> (idx', co', r2) = (idx1, co1, Inr ())"
      "\<And>e. r2 = Inl e \<Longrightarrow> r = Inl e"
      "\<And>e. r2 = Inr () \<Longrightarrow> r = Inl e \<Longrightarrow> \<exists>buf. co_buf co' i = Some buf \<and> ibPoisoned buf = Some e"
proof (cases "co_buf co i")
  case None
  then show ?thesis using assms same by (auto simp: co_Fsync_def)
next
  case buf: (Some buf)
  show ?thesis
  proof (cases "ibPoisoned buf")
    case (Some e)
    then show ?thesis using assms buf same by (auto simp: co_Fsync_def)
  next
    case None
    obtain idx1 co1 r1 where f: "flush_finish P W (idx, co) i = ((idx1, co1), r1)" by (metis prod.collapse)
    show ?thesis
    proof (cases r1)
      case (Inl e)
      then have "idx' = idx1 \<and> co' = co1 \<and> r = Inl e" using assms buf None f by (simp add: co_Fsync_def Let_def)
      then show ?thesis using f Inl stuck [of e] by simp
    next
      case (Inr u)
      let ?trig = "case ibCurrent buf of None \<Rightarrow> False | Some b \<Rightarrow> bbBytes b > 0"
      obtain idx2 co2 r2 where g: "(if ?trig then flushInode P W (idx1, co1) \<lparr>frInode = i, frFired = None\<rparr> else ((idx1, co1), Inr ())) = ((idx2, co2), r2)"
        by (metis prod.collapse)
      have "idx' = idx2 \<and> co' = co2 \<and> (\<forall>e. r2 = Inl e \<longrightarrow> r = Inl e) \<and>
          (\<forall>e. r2 = Inr () \<longrightarrow> r = Inl e \<longrightarrow> (\<exists>buf. co_buf co2 i = Some buf \<and> ibPoisoned buf = Some e))"
        using assms buf None f Inr g by (cases r2) (auto simp: co_Fsync_def Let_def split: option.splits)
      then show ?thesis using flushed [of idx1 co1 r2] f Inr g by (auto split: if_splits)
    qed
  qed
qed

section \<open>Draining\<close>

definition poisoned :: "'sem coalescer \<Rightarrow> u64 \<Rightarrow> bool" where
  "poisoned co i \<longleftrightarrow> (\<exists>buf e. co_buf co i = Some buf \<and> ibPoisoned buf = Some e)"

definition unfired :: "flushReq list \<Rightarrow> bool" where
  "unfired q \<longleftrightarrow> (\<forall>req \<in> set q. frFired req = None)"

definition store_ok :: "('db \<Rightarrow> bytes \<rightharpoonup> bytes) \<Rightarrow> ('sem \<Rightarrow> int) \<Rightarrow> ('sem \<Rightarrow> int) \<Rightarrow> ('db, 'sem) buffered \<Rightarrow> bool" where
  "store_ok view held capacity st \<longleftrightarrow> buffers_ok view st \<and> budget_ok held capacity (snd st)"

text \<open>A file as readers saw it, all of it on disk.\<close>

definition settled :: "('db \<Rightarrow> bytes \<rightharpoonup> bytes) \<Rightarrow> ('db, 'sem) buffered \<Rightarrow> ('db, 'sem) buffered \<Rightarrow> u64 \<Rightarrow> bool" where
  "settled view st st' j \<longleftrightarrow> seen view st' j = seen view st j \<and> co_extents (snd st') j = []"

text \<open>The store's surroundings: the database and the semaphore.\<close>

locale store_env = pebble_engine P view + weighted_sem W held capacity
  for P :: "'db pebble" and view :: "'db \<Rightarrow> bytes \<rightharpoonup> bytes" and W :: "'sem weighted" and held capacity :: "'sem \<Rightarrow> int"
begin

abbreviation "good \<equiv> store_ok view held capacity"

lemma flushInode_others:
  assumes "buffers_ok view (idx, co)" "flushInode P W (idx, co) \<lparr>frInode = i, frFired = None\<rparr> = ((idx', co'), r)" "j \<noteq> i"
  shows "co_buf co' j = co_buf co j"
proof -
  obtain co1 sw where s: "flush_swap co i = (co1, sw)" by fastforce
  have "buffers_ok view (idx, co1)" using flush_swap_effect [OF assms(1) s] by simp
  then show ?thesis
    using assms(2) s flush_swap_others [OF s assms(3)] flush_finish_effect(2) [of idx co1 W i idx' co' r j] assms(3)
    by (auto simp: flushInode_None split: if_splits)
qed

lemma Fsync_keeps:
  assumes g: "good (idx, co)" and r: "co_Fsync P W (idx, co) i = ((idx', co'), r)"
  shows "good (idx', co')" "coQueue co' = coQueue co" "j \<noteq> i \<Longrightarrow> co_buf co' j = co_buf co j \<and> seen view (idx', co') j = seen view (idx, co) j"
    "r = Inr () \<Longrightarrow> seen view (idx', co') = seen view (idx, co) \<and> co_extents co' i = []" "r \<noteq> Inr () \<Longrightarrow> poisoned co' i"
proof -
  have ok: "buffers_ok view (idx, co)" "balanced co" using g by (simp_all add: store_ok_def)
  note e = Fsync_effect [OF ok(1) r]
  show "good (idx', co')" using e Fsync_balanced [OF ok(2) r] by (simp add: store_ok_def)
  show "r = Inr () \<Longrightarrow> seen view (idx', co') = seen view (idx, co) \<and> co_extents co' i = []" using e by blast
  have "coQueue co' = coQueue co \<and> (j \<noteq> i \<longrightarrow> co_buf co' j = co_buf co j) \<and> (r \<noteq> Inr () \<longrightarrow> poisoned co' i)"
    using r
  proof (cases rule: Fsync_cases)
    case same
    then show ?thesis by (cases r) (auto simp: poisoned_def)
  next
    case (stuck e)
    then show ?thesis using flush_finish_balanced [OF ok(2) stuck(1)] by simp
  next
    case (flushed idx1 co1 r2)
    have b1: "buffers_ok view (idx1, co1)" by (rule flush_finish_effect(1) [OF ok(1) flushed(1)])
    have c1: "balanced co1" using flush_finish_balanced [OF ok(2) flushed(1)] by simp
    have q1: "coQueue co1 = coQueue co" by (rule flush_queue_same(2) [OF flushed(1)])
    have o1: "j \<noteq> i \<Longrightarrow> co_buf co1 j = co_buf co j" using flush_finish_effect(2) [OF ok(1) flushed(1)] by blast
    from flushed(2) have "r2 = Inr () \<and> coQueue co' = coQueue co1 \<and> (j \<noteq> i \<longrightarrow> co_buf co' j = co_buf co1 j)"
      using flushInode_balanced [OF c1] flushInode_queue flushInode_others [OF b1] by (elim disjE) blast+
    then show ?thesis using q1 o1 flushed(4) by (cases r) (auto simp: poisoned_def)
  qed
  then show "coQueue co' = coQueue co" "r \<noteq> Inr () \<Longrightarrow> poisoned co' i"
    "j \<noteq> i \<Longrightarrow> co_buf co' j = co_buf co j \<and> seen view (idx', co') j = seen view (idx, co) j"
    using e by auto
qed

lemma drain_loop_effect:
  assumes "good (idx, co)" "distinct inos" "drain_loop P W inos (idx, co) fe = ((idx', co'), r)" "\<And>p. r \<noteq> Inl (Panic p)"
  shows "good (idx', co') \<and> coQueue co' = coQueue co \<and>
    (\<forall>j. j \<notin> set inos \<longrightarrow> co_buf co' j = co_buf co j \<and> seen view (idx', co') j = seen view (idx, co) j) \<and>
    (\<forall>j \<in> set inos. settled view (idx, co) (idx', co') j \<or> poisoned co' j) \<and>
    (r = Inr () \<longrightarrow> fe = Inr () \<and> (\<forall>j \<in> set inos. settled view (idx, co) (idx', co') j))"
  using assms
proof (induction inos arbitrary: idx co fe)
  case (Cons i inos)
  obtain idx1 co1 r1 where f: "co_Fsync P W (idx, co) i = ((idx1, co1), r1)" by (metis prod.collapse)
  note k = Fsync_keeps [OF Cons.prems(1) f]
  let ?fe = "if fe = Inr () then r1 else fe"
  have run: "drain_loop P W inos (idx1, co1) ?fe = ((idx', co'), r)"
    using Cons.prems(3,4) f by (auto split: sum.splits goerr.splits)
  have d: "distinct inos" "i \<notin> set inos" using Cons.prems(2) by simp_all
  note IH = Cons.IH [OF k(1) d(1) run Cons.prems(4)]
  have at: "co_buf co' i = co_buf co1 i \<and> seen view (idx', co') i = seen view (idx1, co1) i" using IH d(2) by blast
  have i: "settled view (idx, co) (idx', co') i \<or> poisoned co' i" "r1 = Inr () \<Longrightarrow> settled view (idx, co) (idx', co') i"
    using at k(4,5) by (cases "r1 = Inr ()"; simp add: settled_def poisoned_def co_extents_def)+
  have j: "settled view (idx1, co1) (idx', co') j = settled view (idx, co) (idx', co') j" if "j \<in> set inos" for j
  proof -
    have "j \<noteq> i" using that d(2) by blast
    then show ?thesis using k(3) by (simp add: settled_def)
  qed
  have oth: "co_buf co' j = co_buf co j \<and> seen view (idx', co') j = seen view (idx, co) j" if "j \<notin> set (i # inos)" for j
    using IH k(3) [of j] that by simp
  have "fe = Inr () \<and> r1 = Inr ()" if "r = Inr ()" using IH that by (auto split: if_splits)
  then show ?case using IH i j oth k(2) by auto
qed simp

lemma Drain_effect:
  assumes g: "good (idx, co)" and r: "co_Drain P W (idx, co) = ((idx', co'), r)" "\<And>p. r \<noteq> Inl (Panic p)"
  shows "good (idx', co')" "coQueue co' = coQueue co" "settled view (idx, co) (idx', co') j \<or> poisoned co' j"
    "r = Inr () \<Longrightarrow> settled view (idx, co) (idx', co') j"
proof -
  let ?co = "co\<lparr>coClosing := True\<rparr>" and ?inos = "remdups (map fst (coBuffers co))"
  have sn: "seen view (idx, ?co) = seen view (idx, co)" by (simp add: seen_def co_extents_def fun_eq_iff)
  have g1: "good (idx, ?co)" using g by (simp add: store_ok_def buffers_ok_def)
  have run: "drain_loop P W ?inos (idx, ?co) (Inr ()) = ((idx', co'), r)" using r(1) by (simp add: co_Drain_def)
  note e = drain_loop_effect [OF g1 _ run r(2)]
  have st: "settled view (idx, ?co) (idx', co') = settled view (idx, co) (idx', co')" by (simp add: settled_def sn fun_eq_iff)
  have out: "settled view (idx, co) (idx', co') j" if "j \<notin> set ?inos"
  proof -
    have "co_buf co j = None" using that by (auto simp: co_buf_def map_of_eq_None_iff)
    then show ?thesis using e that sn by (simp add: settled_def co_extents_def)
  qed
  show "good (idx', co')" "coQueue co' = coQueue co" using e by simp_all
  show "settled view (idx, co) (idx', co') j \<or> poisoned co' j" "r = Inr () \<Longrightarrow> settled view (idx, co) (idx', co') j"
    using e out unfolding st by (simp_all, blast+)
qed

text \<open>The requests that are still queued do nothing to a file that is on disk.\<close>

lemma flush_queue_effect:
  assumes "good (idx, co)" "unfired q" "flush_queue P W q (idx, co) = ((idx', co'), r)"
  shows "r = Inr () \<and> good (idx', co') \<and> (\<forall>j. co_extents co j = [] \<longrightarrow> co_extents co' j = [] \<and> content idx' j = content idx j)"
  using assms
proof (induction q arbitrary: idx co)
  case (Cons req q)
  define i where "i = frInode req"
  have req: "req = \<lparr>frInode = i, frFired = None\<rparr>" using Cons.prems(2) by (cases req) (simp add: unfired_def i_def)
  have ok: "buffers_ok view (idx, co)" "balanced co" using Cons.prems(1) by (simp_all add: store_ok_def)
  obtain idx1 co1 r1 where f: "flushInode P W (idx, co) req = ((idx1, co1), r1)" by (metis prod.collapse)
  have b: "balanced co1 \<and> r1 = Inr ()" using flushInode_balanced [OF ok(2)] f unfolding req by blast
  have b1: "buffers_ok view (idx1, co1)" using flushInode_effect(1) [OF ok(1)] f unfolding req by blast
  have keep: "co_extents co1 j = [] \<and> content idx1 j = content idx j" if e: "co_extents co j = []" for j
  proof (cases "j = i")
    case False
    have "co_extents co1 j = []" using flushInode_others [OF ok(1) f [unfolded req] False] e by (simp add: co_extents_def)
    moreover have "seen view (idx1, co1) j = seen view (idx, co) j" using flushInode_effect(2) [OF ok(1) f [unfolded req] False] .
    ultimately show ?thesis using e by (simp add: seen_apply)
  next
    case True
    have "flush_swap co i = (co, False)"
    proof (cases "co_buf co i")
      case (Some buf)
      then show ?thesis using flush_swap_idle [of idx "view (ixDB idx)", OF _ Some] ok(1) e True by (simp add: buffers_ok_def co_extents_def)
    qed (simp add: flush_swap_def)
    then have "idx1 = idx" "co1 = co" using f by (simp_all add: req flushInode_None)
    then show ?thesis using e by simp
  qed
  have run: "flush_queue P W q (idx1, co1) = ((idx', co'), r)" using Cons.prems(3) f b by simp
  have g1: "good (idx1, co1)" "unfired q" using b b1 Cons.prems(2) by (simp_all add: store_ok_def unfired_def)
  show ?case using Cons.IH [OF g1 run] keep by metis
qed simp

end

interpretation mem_env: store_env mem_pebble map_of bounded_sem snd fst
  by unfold_locales

section \<open>Closing the index\<close>

text \<open>Closing syncs files and forgets them; it changes no byte.\<close>

fun file_kept :: "osfile option \<Rightarrow> osfile option \<Rightarrow> bool" where
  "file_kept None None = True"
| "file_kept (Some f) (Some g) = (fData g = fData f \<and> fLinked g = fLinked f \<and> (fSynced g = fSynced f \<or> fSynced g = length (fData f)))"
| "file_kept _ _ = False"

definition dir_kept :: "dir \<Rightarrow> dir \<Rightarrow> bool" where
  "dir_kept d d' \<longleftrightarrow> (\<forall>i. file_kept (map_of d (segFileName i)) (map_of d' (segFileName i)))"

lemma file_kept_refl [simp]: "file_kept x x"
  by (cases x) auto

lemma file_kept_trans: "file_kept x y \<Longrightarrow> file_kept y z \<Longrightarrow> file_kept x z"
  by (cases x; cases y; cases z) auto

lemma dir_kept_trans: "dir_kept a b \<Longrightarrow> dir_kept b c \<Longrightarrow> dir_kept a c"
  unfolding dir_kept_def by (metis file_kept_trans)

lemma crash_after_close:
  assumes "dir_ok d" "dir_kept d d1" "crash_dir d1 d2"
  shows "crash_dir d d2"
proof -
  have "survives (map_of d (segFileName i)) (map_of d2 (segFileName i))" for i
  proof -
    have k: "file_kept (map_of d (segFileName i)) (map_of d1 (segFileName i))" using assms(2) by (simp add: dir_kept_def)
    have s: "survives (map_of d1 (segFileName i)) (map_of d2 (segFileName i))" by (rule crash_dirD [OF assms(3)])
    show ?thesis
    proof (cases "map_of d (segFileName i)")
      case None
      then show ?thesis using k s by (cases "map_of d1 (segFileName i)") auto
    next
      case (Some f)
      then have "file_ok f" using assms(1) by (simp add: dir_ok_def)
      then have "fSynced f \<le> length (fData f)" by (simp add: file_okD)
      then show ?thesis
        using Some k s by (cases "map_of d1 (segFileName i)"; cases "map_of d2 (segFileName i)") (auto dest: prefix_length_le)
    qed
  qed
  then show ?thesis using assms(3) by (simp add: crash_dir_def)
qed

lemma Segment_Sync_kept:
  assumes "set_ok ss" "Segment_Sync ss osq i = ((ss', osq'), r)"
  shows "dir_kept (ssDir ss) (ssDir ss')"
proof (cases "ss' = ss")
  case False
  then obtain s where s: "seg_of ss i = Some s" "ss' = ss\<lparr>ssDir := put_file i (file_sync (the_file (ssDir ss) i)) (ssDir ss)\<rparr>"
    using assms(2) by (auto simp: Segment_Sync_def split: option.splits if_splits prod.splits sum.splits)
  obtain f where "map_of (ssDir ss) (segFileName i) = Some f" "the_file (ssDir ss) i = f" using assms(1) s(1) by (rule set_okD)
  then show ?thesis by (auto simp: dir_kept_def s(2) file_sync_def)
qed (simp add: dir_kept_def)

lemma Set_SyncIds_kept:
  "set_ok ss \<Longrightarrow> no_partial osq \<Longrightarrow> Set_SyncIds ss osq is = ((ss', osq'), r) \<Longrightarrow> dir_kept (ssDir ss) (ssDir ss')"
proof (induction "is" arbitrary: ss osq)
  case (Cons i js)
  obtain ss1 osq1 r1 where s: "Segment_Sync ss osq i = ((ss1, osq1), r1)" by (metis prod.collapse)
  have k: "dir_kept (ssDir ss) (ssDir ss1)" by (rule Segment_Sync_kept [OF Cons.prems(1) s])
  have ok1: "set_ok ss1" "no_partial osq1" using segs.sync_keeps [OF Cons.prems(1,2) s] by simp_all
  show ?case
  proof (cases r1)
    case (Inl e)
    then show ?thesis using Cons.prems(3) s k by simp
  next
    case (Inr u)
    then have "Set_SyncIds ss1 osq1 js = ((ss', osq'), r)" using Cons.prems(3) s by simp
    then show ?thesis using Cons.IH [OF ok1] dir_kept_trans [OF k] by blast
  qed
qed (simp add: dir_kept_def)

lemma Segment_Close_dir: "Segment_Close ss osq i = ((ss', osq'), r) \<Longrightarrow> ssDir ss' = ssDir ss"
  by (auto simp: Segment_Close_def split: option.splits if_splits prod.splits)

lemma Set_CloseIds_dir: "Set_CloseIds ss osq is e = ((ss', osq'), e') \<Longrightarrow> ssDir ss' = ssDir ss"
  by (induction "is" arbitrary: ss osq e) (auto dest: Segment_Close_dir split: prod.splits)

lemma Set_CloseAll_dir: "Set_CloseAll ss osq = ((ss', osq'), r) \<Longrightarrow> ssDir ss' = ssDir ss"
  by (auto simp: Set_CloseAll_def dest: Set_CloseIds_dir split: prod.splits)

lemma on_set_SyncAll_kept:
  assumes "ix_ok idx" "on_set idx t Set_SyncAll = (idx', r)"
  shows "dir_kept (ssDir (setFor idx u)) (ssDir (setFor idx' u))"
proof -
  obtain ss osq where a: "Set_SyncAll (setFor idx t) (ixOS idx) = ((ss, osq), r)" "idx' = put_set t ss osq idx"
    using assms(2) by (auto simp: on_set_def split: prod.splits)
  have "dir_kept (ssDir (setFor idx t)) (ssDir ss)"
    using Set_SyncIds_kept [OF ix_ok_setFor [OF assms(1)] _ a(1) [unfolded Set_SyncAll_def]] assms(1) by (simp add: ix_ok_def)
  then show ?thesis unfolding a(2) by (auto simp: put_set_def setFor_def dir_kept_def)
qed

lemma on_set_CloseAll_kept:
  assumes "on_set idx t Set_CloseAll = (idx', r)"
  shows "ssDir (setFor idx' u) = ssDir (setFor idx u)" "ixDB idx' = ixDB idx" "ixSeqGen idx' = ixSeqGen idx" "ixStripeSize idx' = ixStripeSize idx"
  using assms Set_CloseAll_dir by (auto simp: on_set_def put_set_def setFor_def split: prod.splits if_splits)

lemma Index_Close_kept:
  assumes "ix_ok idx" "Index_Close P idx = (idx', r)"
  shows "dir_kept (ssDir (setFor idx u)) (ssDir (setFor idx' u))" "ixDB idx' = fst (p_close P (ixDB idx))"
    "ixSeqGen idx' = ixSeqGen idx" "ixStripeSize idx' = ixStripeSize idx"
proof -
  obtain idx1 r1 where 1: "on_set idx TierHot Set_SyncAll = (idx1, r1)" by fastforce
  obtain idx2 r2 where 2: "on_set idx1 TierCold Set_SyncAll = (idx2, r2)" by fastforce
  obtain db r3 where 3: "p_close P (ixDB idx2) = (db, r3)" by fastforce
  obtain idx4 r4 where 4: "on_set (idx2\<lparr>ixDB := db\<rparr>) TierHot Set_CloseAll = (idx4, r4)" by fastforce
  obtain idx5 r5 where 5: "on_set idx4 TierCold Set_CloseAll = (idx5, r5)" by fastforce
  have e: "idx' = idx5" using assms(2) 1 2 3 4 5 by (simp add: Index_Close_def DB_Close_def)
  have s1: "ix_step idx idx1" by (rule on_set_SyncAll [OF assms(1) 1])
  then have i1: "ix_ok idx1" by (simp add: ix_step_def)
  have s2: "ix_step idx1 idx2" by (rule on_set_SyncAll [OF i1 2])
  note k4 = on_set_CloseAll_kept [OF 4] and k5 = on_set_CloseAll_kept [OF 5]
  show "dir_kept (ssDir (setFor idx u)) (ssDir (setFor idx' u))"
    using dir_kept_trans [OF on_set_SyncAll_kept [OF assms(1) 1, of u] on_set_SyncAll_kept [OF i1 2, of u]] by (simp add: e k4(1) k5(1))
  show "ixDB idx' = fst (p_close P (ixDB idx))" "ixSeqGen idx' = ixSeqGen idx" "ixStripeSize idx' = ixStripeSize idx"
    using s1 s2 3 by (simp_all add: e k4 k5 ix_step_def ix_extends_def)
qed

section \<open>Closing the store\<close>

context store_env
begin

lemma Store_Close_effect:
  assumes co: "stCo st = Some co" and g: "good (stIdx st, co)" and q: "unfired (coQueue co)"
    and d: "co_Drain P W (stIdx st, co) = ((idx1, co1), rd)" "\<And>p. rd \<noteq> Inl (Panic p)" and r: "Store_Close P W st = (st', r)"
  obtains idx2 where "index_ok view idx2" "Index_Close P idx2 = (stIdx st', r)"
    "\<And>j. \<not> poisoned co1 j \<or> rd = Inr () \<Longrightarrow> content idx2 j = seen view (stIdx st, co) j"
proof -
  note e = Drain_effect [OF g d]
  let ?co1 = "co1\<lparr>coClosing := True, coQueue := []\<rparr>"
  have g1: "good (idx1, ?co1)" using e(1) by (simp add: store_ok_def buffers_ok_def)
  have q1: "unfired (coQueue co1)" using e(2) q by simp
  obtain idx2 co2 r2 where f: "flush_queue P W (coQueue co1) (idx1, ?co1) = ((idx2, co2), r2)" by (metis prod.collapse)
  note c = flush_queue_effect [OF g1 q1 f]
  have "on_co st (co_Drain P W) = (st\<lparr>stIdx := idx1, stCo := Some co1\<rparr>, rd)" using co d(1) by (simp add: on_co_def)
  moreover have "on_co (st\<lparr>stIdx := idx1, stCo := Some co1\<rparr>) (co_Close P W) = (st\<lparr>stIdx := idx2, stCo := Some co2\<rparr>, Inr ())"
    using f c by (simp add: on_co_def co_Close_def)
  ultimately have "on_idx (st\<lparr>stIdx := idx2, stCo := None\<rparr>) (Index_Close P) = (st', r)"
    using r d(2) by (auto simp: Store_Close_def split: sum.splits goerr.splits)
  then have cl: "Index_Close P idx2 = (stIdx st', r)" by (auto simp: on_idx_def split: prod.splits)
  have ix: "index_ok view idx2" using c by (simp add: store_ok_def buffers_ok_def)
  have "content idx2 j = seen view (stIdx st, co) j" if "\<not> poisoned co1 j \<or> rd = Inr ()" for j
  proof -
    have s: "settled view (stIdx st, co) (idx1, co1) j" using e(3,4) that by blast
    then have x: "co_extents co1 j = []" by (simp add: settled_def)
    then have "co_extents ?co1 j = []" by (simp add: co_extents_def)
    then have "content idx2 j = content idx1 j" using c by blast
    then show ?thesis using s x by (simp add: settled_def seen_apply)
  qed
  then show ?thesis by (rule that [OF ix cl])
qed

end

section \<open>Properties\<close>


text \<open>The directory that a clean close of the example index leaves.\<close>

lemma closed_dir:
  assumes "dir_kept [(segFileName 0, crash_file 91)] d1"
  shows "\<exists>f. crash_dir d1 [(segFileName 0, f)] \<and> crash_dir [(segFileName 0, crash_file 91)] [(segFileName 0, f)]"
proof -
  have k: "file_kept (map_of [(segFileName 0, crash_file 91)] (segFileName i)) (map_of d1 (segFileName i))" for i
    using assms by (simp add: dir_kept_def)
  obtain f where f: "map_of d1 (segFileName 0) = Some f" "fData f = fData (crash_file 91)" "fLinked f"
      "fSynced f = 46 \<or> fSynced f = length (fData f)"
    using k [of 0] by (cases "map_of d1 (segFileName 0)") (auto simp: crash_file_def)
  have o: "map_of d1 (segFileName i) = None" if "i \<noteq> 0" for i using k [of i] that by (cases "map_of d1 (segFileName i)") auto
  have l: "fSynced f \<le> length (fData f)" using f(2,4) by (auto simp: crash_file_def)
  have "survives (map_of d1 (segFileName i)) (map_of [(segFileName 0, f)] (segFileName i))" for i
    using f o [of i] l by (cases "i = 0") auto
  moreover have "file_ok (crash_file 91)" by (rule crash_file_ok)
  ultimately have c: "crash_dir d1 [(segFileName 0, f)]" by (auto simp: crash_dir_def plain_names_def)
  moreover have "dir_ok [(segFileName 0, crash_file 91)]" using crash_file_ok by (simp add: dir_ok_def)
  ultimately show ?thesis using crash_after_close [OF _ assms] by blast
qed


end
