(* ===== verification/KV_Handles.thy ===== *)
theory KV_Handles
  imports KV
begin

text \<open>
  The handles of \<open>src/kv/db.go\<close>: \<open>Iter\<close> and \<open>Batch\<close> with their life cycle. The other theories take
  an iterator as the list of its entries with the error that \<open>Close\<close> reports; here the calls are
  as the code makes them, on an iterator of the engine (the record \<open>pebble_iter\<close> with the locale
  \<open>iterator\<close>), and the loop that the program writes everywhere is shown to yield that list.
\<close>

section \<open>Iterators\<close>

record 'it pebble_iter =
  i_first :: "'it \<Rightarrow> 'it \<times> bool"
  i_next :: "'it \<Rightarrow> 'it \<times> bool"
  i_seek :: "'it \<Rightarrow> bytes \<Rightarrow> 'it \<times> bool"
  i_valid :: "'it \<Rightarrow> bool"
  i_key :: "'it \<Rightarrow> bytes"
  i_value :: "'it \<Rightarrow> bytes"
  i_close :: "'it \<Rightarrow> goerr option"

text \<open>The field \<open>pi\<close> of an \<open>Iter\<close>; \<open>Close\<close> sets it to nil, and a call after that panics.\<close>

type_synonym 'it Iter = "'it option"

definition nil_pointer :: goerr where
  "nil_pointer = Panic ''invalid memory address or nil pointer dereference''"

definition Iter_First :: "'it pebble_iter \<Rightarrow> 'it Iter \<Rightarrow> ('it Iter, bool) outcome" where
  "Iter_First I h = (case h of None \<Rightarrow> (None, Inl nil_pointer) | Some it \<Rightarrow> (case i_first I it of (it1, b) \<Rightarrow> (Some it1, Inr b)))"

definition Iter_Next :: "'it pebble_iter \<Rightarrow> 'it Iter \<Rightarrow> ('it Iter, bool) outcome" where
  "Iter_Next I h = (case h of None \<Rightarrow> (None, Inl nil_pointer) | Some it \<Rightarrow> (case i_next I it of (it1, b) \<Rightarrow> (Some it1, Inr b)))"

definition Iter_SeekGE :: "'it pebble_iter \<Rightarrow> 'it Iter \<Rightarrow> bytes \<Rightarrow> ('it Iter, bool) outcome" where
  "Iter_SeekGE I h target = (case h of None \<Rightarrow> (None, Inl nil_pointer)
     | Some it \<Rightarrow> (case i_seek I it target of (it1, b) \<Rightarrow> (Some it1, Inr b)))"

definition Iter_Valid :: "'it pebble_iter \<Rightarrow> 'it Iter \<Rightarrow> goerr + bool" where
  "Iter_Valid I h = (case h of None \<Rightarrow> Inl nil_pointer | Some it \<Rightarrow> Inr (i_valid I it))"

definition Iter_Key :: "'it pebble_iter \<Rightarrow> 'it Iter \<Rightarrow> goerr + bytes" where
  "Iter_Key I h = (case h of None \<Rightarrow> Inl nil_pointer | Some it \<Rightarrow> Inr (i_key I it))"

definition Iter_Value :: "'it pebble_iter \<Rightarrow> 'it Iter \<Rightarrow> goerr + bytes" where
  "Iter_Value I h = (case h of None \<Rightarrow> Inl nil_pointer | Some it \<Rightarrow> Inr (i_value I it))"

definition Iter_Close :: "'it pebble_iter \<Rightarrow> 'it Iter \<Rightarrow> ('it Iter, unit) outcome" where
  "Iter_Close I h = (case h of None \<Rightarrow> (None, Inr ())
     | Some it \<Rightarrow> (None, case i_close I it of None \<Rightarrow> Inr () | Some e \<Rightarrow> Inl e))"

text \<open>
  The loop \<open>for it.First(); it.Valid(); it.Next()\<close>, with the entries it visits; \<open>None\<close> when the
  fuel is used up.
\<close>

fun iter_rest :: "nat \<Rightarrow> 'it pebble_iter \<Rightarrow> 'it Iter \<Rightarrow> ('it Iter, kvpair list) outcome option" where
  "iter_rest 0 I h = None"
| "iter_rest (Suc n) I h = (case Iter_Valid I h of
     Inl e \<Rightarrow> Some (h, Inl e)
   | Inr False \<Rightarrow> Some (h, Inr [])
   | Inr True \<Rightarrow> (case (Iter_Key I h, Iter_Value I h, Iter_Next I h) of
       (Inr k, Inr v, (h1, Inr _)) \<Rightarrow> map_option (\<lambda>(h2, r). (h2, bindE r (\<lambda>kvs. Inr ((k, v) # kvs)))) (iter_rest n I h1)
     | (Inl e, _, _) \<Rightarrow> Some (h, Inl e)
     | (_, Inl e, _) \<Rightarrow> Some (h, Inl e)
     | (_, _, (h1, Inl e)) \<Rightarrow> Some (h1, Inl e)))"

definition iter_all :: "nat \<Rightarrow> 'it pebble_iter \<Rightarrow> 'it Iter \<Rightarrow> ('it Iter, kvpair list) outcome option" where
  "iter_all n I h = (case Iter_First I h of (h1, Inl e) \<Rightarrow> Some (h1, Inl e) | (h1, Inr _) \<Rightarrow> iter_rest n I h1)"

text \<open>
  What an iterator of the engine does: it stands at a position of the entries that it will
  yield, which are all of its range, or fewer when reading fails.
\<close>

locale iterator =
  fixes I :: "'it pebble_iter" and entries :: "'it \<Rightarrow> kvpair list" and at :: "'it \<Rightarrow> nat"
  assumes first: "i_first I it = (it', b) \<Longrightarrow> entries it' = entries it \<and> at it' = 0 \<and> i_close I it' = i_close I it"
    and step: "i_valid I it \<Longrightarrow> i_next I it = (it', b) \<Longrightarrow>
      entries it' = entries it \<and> at it' = Suc (at it) \<and> i_close I it' = i_close I it"
    and seek: "i_seek I it t = (it', b) \<Longrightarrow> entries it' = entries it \<and> i_close I it' = i_close I it \<and>
      at it' = length (takeWhile (\<lambda>kv. fst kv < t) (entries it))"
    and valid: "i_valid I it \<longleftrightarrow> at it < length (entries it)"
    and entry: "i_valid I it \<Longrightarrow> (i_key I it, i_value I it) = entries it ! at it"
begin

lemma iter_rest_yields:
  "length (entries it) - at it < n \<Longrightarrow> \<exists>it'. iter_rest n I (Some it) = Some (Some it', Inr (drop (at it) (entries it))) \<and>
     i_close I it' = i_close I it"
proof (induction n arbitrary: it)
  case (Suc n)
  show ?case
  proof (cases "i_valid I it")
    case False
    then show ?thesis using valid by (simp add: Iter_Valid_def)
  next
    case True
    then have lt: "at it < length (entries it)" by (simp add: valid)
    obtain it1 b where nx: "i_next I it = (it1, b)" by fastforce
    note s = step [OF True nx]
    have "length (entries it1) - at it1 < n" using s lt Suc.prems by simp
    from Suc.IH [OF this] obtain it' where r: "iter_rest n I (Some it1) = Some (Some it', Inr (drop (at it1) (entries it1)))"
        "i_close I it' = i_close I it1" by blast
    have "drop (at it) (entries it) = (i_key I it, i_value I it) # drop (Suc (at it)) (entries it)"
      using Cons_nth_drop_Suc [OF lt] entry [OF True] by simp
    then show ?thesis using True nx r s by (simp add: Iter_Valid_def Iter_Key_def Iter_Value_def Iter_Next_def)
  qed
qed simp

text \<open>The loop and \<open>Close\<close> give the entries and the error of the iterator, and a second \<open>Close\<close> nothing.\<close>

lemma iter_all_yields:
  assumes "length (entries it) < n"
  shows "\<exists>h. iter_all n I (Some it) = Some (h, Inr (entries it)) \<and>
    Iter_Close I h = (None, case i_close I it of None \<Rightarrow> Inr () | Some e \<Rightarrow> Inl e) \<and> Iter_Close I None = (None, Inr ())"
proof -
  obtain it1 b where f: "i_first I it = (it1, b)" by fastforce
  then have s: "entries it1 = entries it" "at it1 = 0" "i_close I it1 = i_close I it" using first by blast+
  then obtain it' where "iter_rest n I (Some it1) = Some (Some it', Inr (entries it))" "i_close I it' = i_close I it"
    using iter_rest_yields [of it1 n] assms by auto
  then show ?thesis using f by (simp add: iter_all_def Iter_First_def Iter_Close_def)
qed

end

text \<open>The iterator of the reference engine.\<close>

record list_iter =
  liEntries :: "kvpair list"
  liPos :: nat

definition list_iterator :: "list_iter pebble_iter" where
  "list_iterator = \<lparr>i_first = (\<lambda>it. (it\<lparr>liPos := 0\<rparr>, liEntries it \<noteq> [])),
     i_next = (\<lambda>it. (it\<lparr>liPos := Suc (liPos it)\<rparr>, Suc (liPos it) < length (liEntries it))),
     i_seek = (\<lambda>it t. let n = length (takeWhile (\<lambda>kv. fst kv < t) (liEntries it)) in (it\<lparr>liPos := n\<rparr>, n < length (liEntries it))),
     i_valid = (\<lambda>it. liPos it < length (liEntries it)),
     i_key = (\<lambda>it. fst (liEntries it ! liPos it)), i_value = (\<lambda>it. snd (liEntries it ! liPos it)),
     i_close = (\<lambda>it. None)\<rparr>"

interpretation li: iterator list_iterator liEntries liPos
  by unfold_locales (auto simp: list_iterator_def Let_def)

text \<open>
  On the reference engine the loop over a new iterator gives what \<open>DB_Iter\<close> says.
\<close>

theorem DB_Iter_is_loop:
  assumes "DB_Iter mem_pebble db lo hi = Inr (kvs, e)" "length kvs < n"
  shows "\<exists>h. iter_all n list_iterator (Some \<lparr>liEntries = kvs, liPos = 0\<rparr>) = Some (h, Inr kvs) \<and>
    Iter_Close list_iterator h = (None, case e of None \<Rightarrow> Inr () | Some err \<Rightarrow> Inl err)"
  using li.iter_all_yields [of "\<lparr>liEntries = kvs, liPos = 0\<rparr>" n] assms by (auto simp: DB_Iter_def list_iterator_def)

section \<open>Batches\<close>

text \<open>
  A \<open>Batch\<close> has a batch of the engine until \<open>Close\<close> sets the field to nil; \<open>bhCloses\<close> counts how
  often the engine's batch has been closed. The result of that close is an argument.
\<close>

record BatchHandle =
  bhPB :: "batch option"
  bhCloses :: nat

definition DB_NewBatch :: BatchHandle where
  "DB_NewBatch = \<lparr>bhPB = Some NewBatch, bhCloses = 0\<rparr>"

definition BH_Set :: "BatchHandle \<Rightarrow> bytes \<Rightarrow> bytes \<Rightarrow> (BatchHandle, unit) outcome" where
  "BH_Set h k v = (case bhPB h of None \<Rightarrow> (h, Inl nil_pointer) | Some b \<Rightarrow> (h\<lparr>bhPB := Some (Batch_Set k v b)\<rparr>, Inr ()))"

definition BH_Delete :: "BatchHandle \<Rightarrow> bytes \<Rightarrow> (BatchHandle, unit) outcome" where
  "BH_Delete h k = (case bhPB h of None \<Rightarrow> (h, Inl nil_pointer) | Some b \<Rightarrow> (h\<lparr>bhPB := Some (Batch_Delete k b)\<rparr>, Inr ()))"

definition BH_Commit :: "'db pebble \<Rightarrow> (goerr + unit) \<Rightarrow> 'db \<times> BatchHandle \<Rightarrow> bool \<Rightarrow> ('db \<times> BatchHandle, unit) outcome" where
  "BH_Commit P closed st sync = (case st of (db, h) \<Rightarrow> (case bhPB h of
     None \<Rightarrow> ((db, h), Inl nil_pointer)
   | Some b \<Rightarrow> (case Batch_Commit P db b sync of
       (db1, Inl e) \<Rightarrow> ((db1, h), Inl e)
     | (db1, Inr _) \<Rightarrow> ((db1, h\<lparr>bhCloses := Suc (bhCloses h)\<rparr>), closed))))"

definition BH_Close :: "(goerr + unit) \<Rightarrow> BatchHandle \<Rightarrow> (BatchHandle, unit) outcome" where
  "BH_Close closed h = (case bhPB h of None \<Rightarrow> (h, Inr ())
     | Some b \<Rightarrow> (\<lparr>bhPB = None, bhCloses = Suc (bhCloses h)\<rparr>, closed))"

text \<open>
  A second \<open>Close\<close> does nothing. After a successful \<open>Commit\<close> it does: the engine's batch is closed
  a second time, although the comment promises a no-op.
\<close>

theorem batch_closed_twice:
  assumes "BH_Commit P closed (db, h) sync = ((db', h1), Inr ())"
  shows "\<exists>h2. BH_Close closed2 h1 = (h2, closed2) \<and> bhCloses h2 = Suc (Suc (bhCloses h)) \<and> BH_Close closed3 h2 = (h2, Inr ())"
  using assms by (auto simp: BH_Commit_def BH_Close_def split: option.splits sum.splits prod.splits)

end
