(* ===== verification/Fuse.thy ===== *)
theory Fuse
  imports Handle
begin

text \<open>
  The kernel-protocol adapter (\<open>src/fuselayer\<close>): the per-operation counters, the wrapper
  \<open>trackOp\<close>, the attribute translation, and every entry point as a call on the store. The
  request fields that go-fuse decodes are arguments: \<open>creds\<close> is what \<open>fuse.FromContext\<close>
  returns, a parent or target is \<open>None\<close> when it is not a node of this file system, \<open>d\<close> is the
  measured duration. Spans and logging are left out. A panic below crosses \<open>trackOp\<close>.
\<close>

unbundle bit_operations_syntax

section \<open>Counters\<close>

record opRow =
  calls :: int
  errors :: int
  duration :: int

type_synonym Metrics = "(string \<times> opRow) list"

definition NewMetrics :: Metrics where "NewMetrics = []"

definition metrics_row :: "Metrics \<Rightarrow> string \<Rightarrow> opRow" where
  "metrics_row m op = (case map_of m op of Some r \<Rightarrow> r | None \<Rightarrow> \<lparr>calls = 0, errors = 0, duration = 0\<rparr>)"

definition Observe :: "string \<Rightarrow> int \<Rightarrow> bool \<Rightarrow> Metrics \<Rightarrow> Metrics" where
  "Observe op d isErr m = (let r = metrics_row m op
     in AList.update op \<lparr>calls = i64 (calls r + 1), errors = (if isErr then i64 (errors r + 1) else errors r),
          duration = i64 (duration r + d)\<rparr> m)"

record OpStat =
  osOp :: string
  osCalls :: int
  osErrors :: int
  osDurationNanos :: int

definition Snapshot :: "Metrics \<Rightarrow> OpStat list" where
  "Snapshot m = sort_key osOp (map (\<lambda>(name, r). \<lparr>osOp = name, osCalls = calls r, osErrors = errors r,
     osDurationNanos = duration r\<rparr>) (AList.clearjunk m))"

section \<open>Errors and attributes\<close>

datatype 'a reply = Reply nat "'a option" | Crash string

fun errno :: "goerr \<Rightarrow> nat" where
  "errno (Errno n) = n"
| "errno (ErrText s) = 5"
| "errno (Panic s) = 5"

record Attr =
  faMode :: u32
  faSize :: u64
  faUid :: u32
  faGid :: u32
  faMtime :: u64
  faMtimensec :: u32
  faCtime :: u64
  faCtimensec :: u32
  faAtime :: u64
  faAtimensec :: u32
  faNlink :: u32
  faBlksize :: u32
  faBlocks :: u64

definition secs :: "int \<Rightarrow> u64" where "secs t = u64_of_int64 (go_div t 1000000000)"
definition nsecs :: "int \<Rightarrow> u32" where "nsecs t = u32_of_int64 (go_mod t 1000000000)"

definition fillAttr :: "Node \<Rightarrow> Attr" where
  "fillAttr n = \<lparr>faMode = nMode n, faSize = u64_of_int64 (nSize n), faUid = nUID n, faGid = nGID n,
     faMtime = secs (nMtime n), faMtimensec = nsecs (nMtime n), faCtime = secs (nCtime n),
     faCtimensec = nsecs (nCtime n), faAtime = secs (nAtime n), faAtimensec = nsecs (nAtime n),
     faNlink = (if IsDir (nMode n) then 2 else if nNlink n > 0 then nNlink n else 1),
     faBlksize = 4096, faBlocks = (u64_of_int64 (nSize n) + 511) div 512\<rparr>"

record StableAttr =
  stbMode :: u32
  stbIno :: u64
  stbGen :: u64

definition stableAttr :: "Node \<Rightarrow> StableAttr" where
  "stableAttr n = \<lparr>stbMode = nMode n AND ModeMask, stbIno = nInode n, stbGen = 1\<rparr>"

section \<open>The mount\<close>

record ('db, 'sem) Mount =
  mtStore :: "('db, 'sem) Store"
  mtMetrics :: "Metrics option"

definition trackOp :: "string \<Rightarrow> int \<Rightarrow> ('db, 'sem) Mount \<Rightarrow> (('db, 'sem) Store \<Rightarrow> (('db, 'sem) Store, 'a) outcome)
    \<Rightarrow> ('db, 'sem) Mount \<times> 'a reply" where
  "trackOp name d mt fn = (case fn (mtStore mt) of (st, r) \<Rightarrow>
     let observe = (\<lambda>e. mt\<lparr>mtStore := st, mtMetrics := map_option (Observe name d (e \<noteq> 0)) (mtMetrics mt)\<rparr>)
     in case r of
          Inr x \<Rightarrow> (observe (0 :: nat), Reply 0 (Some x))
        | Inl (Panic p) \<Rightarrow> (mt\<lparr>mtStore := st\<rparr>, Crash p)
        | Inl e \<Rightarrow> (observe (errno e), Reply (errno e) None))"

text \<open>The attributes and the identity that a reply carries for a node.\<close>

definition entry :: "Node \<Rightarrow> Attr \<times> u64 \<times> StableAttr" where
  "entry n = (fillAttr n, nInode n, stableAttr n)"

definition with_entry :: "(('db, 'sem) Store, Node) outcome \<Rightarrow> (('db, 'sem) Store, Attr \<times> u64 \<times> StableAttr) outcome" where
  "with_entry r = andThen r (\<lambda>st n. (st, Inr (entry n)))"

definition callerCreds :: "(u32 \<times> u32) option \<Rightarrow> u32 \<times> u32" where
  "callerCreds c = (case c of Some ug \<Rightarrow> ug | None \<Rightarrow> (0, 0))"

section \<open>Entry points\<close>

definition fuse_Lookup :: "'db pebble \<Rightarrow> int \<Rightarrow> ('db, 'sem) Mount \<Rightarrow> u64 \<Rightarrow> bytes
    \<Rightarrow> ('db, 'sem) Mount \<times> (Attr \<times> u64 \<times> StableAttr) reply" where
  "fuse_Lookup P d mt inode name = trackOp ''lookup'' d mt (\<lambda>st. with_entry (st, Lookup P st inode name))"

definition fuse_Getattr :: "'db pebble \<Rightarrow> int \<Rightarrow> ('db, 'sem) Mount \<Rightarrow> u64 \<Rightarrow> ('db, 'sem) Mount \<times> Attr reply" where
  "fuse_Getattr P d mt inode = trackOp ''getattr'' d mt (\<lambda>st.
     andThen (st, Stat P st inode) (\<lambda>st n. (st, Inr (fillAttr n))))"

record SetAttrIn =
  inMode :: "u32 option"
  inUID :: "u32 option"
  inGID :: "u32 option"
  inSize :: "u64 option"
  inMTime :: "int option"
  inATime :: "int option"

definition fuse_Setattr :: "'db pebble \<Rightarrow> 'sem weighted \<Rightarrow> int \<Rightarrow> ('db, 'sem) Mount \<Rightarrow> int \<Rightarrow> u64 \<Rightarrow> SetAttrIn
    \<Rightarrow> ('db, 'sem) Mount \<times> Attr reply" where
  "fuse_Setattr P W d mt now inode i = trackOp ''setattr'' d mt (\<lambda>st.
     andThen (Setattr P W st now inode \<lparr>saMode = inMode i, saUID = inUID i, saGID = inGID i,
         saSize = map_option int64_of_u64 (inSize i), saMtime = inMTime i, saAtime = inATime i\<rparr>)
       (\<lambda>st n. (st, Inr (fillAttr n))))"

definition fuse_Create :: "'db pebble \<Rightarrow> int \<Rightarrow> ('db, 'sem) Mount \<Rightarrow> int \<Rightarrow> (u32 \<times> u32) option \<Rightarrow> u64 \<Rightarrow> bytes \<Rightarrow> u32
    \<Rightarrow> ('db, 'sem) Mount \<times> (Attr \<times> u64 \<times> StableAttr) reply" where
  "fuse_Create P d mt now creds inode name mode = trackOp ''create'' d mt (\<lambda>st.
     case callerCreds creds of (uid, gid) \<Rightarrow> with_entry (Create P st now inode name mode uid gid))"

definition fuse_Open :: "'db pebble \<Rightarrow> int \<Rightarrow> ('db, 'sem) Mount \<Rightarrow> u64 \<Rightarrow> ('db, 'sem) Mount \<times> u64 reply" where
  "fuse_Open P d mt inode = trackOp ''open'' d mt (\<lambda>st. (st, OpenInode P st inode))"

definition fuse_Read :: "'db pebble \<Rightarrow> int \<Rightarrow> ('db, 'sem) Mount \<Rightarrow> u64 \<Rightarrow> bytes \<Rightarrow> int \<Rightarrow> ('db, 'sem) Mount \<times> bytes reply" where
  "fuse_Read P d mt inode dest off = trackOp ''read'' d mt (\<lambda>st. ReadAt P st inode dest off)"

definition fuse_Write :: "'db pebble \<Rightarrow> 'sem weighted \<Rightarrow> int \<Rightarrow> ('db, 'sem) Mount \<Rightarrow> int \<Rightarrow> u64 \<Rightarrow> bytes \<Rightarrow> int
    \<Rightarrow> ('db, 'sem) Mount \<times> u32 reply" where
  "fuse_Write P W d mt now inode data off = trackOp ''write'' d mt (\<lambda>st.
     andThen (WriteAt P W st now inode data off) (\<lambda>st n. (st, Inr (u32_of_int64 n))))"

definition fuse_Flush :: "('db, 'sem) Mount \<Rightarrow> ('db, 'sem) Mount \<times> unit reply" where
  "fuse_Flush mt = (mt, Reply 0 (Some ()))"

definition fuse_Fsync :: "'db pebble \<Rightarrow> 'sem weighted \<Rightarrow> int \<Rightarrow> ('db, 'sem) Mount \<Rightarrow> u64 \<Rightarrow> ('db, 'sem) Mount \<times> unit reply" where
  "fuse_Fsync P W d mt inode = trackOp ''fsync'' d mt (\<lambda>st. Handle_Sync P W st inode)"

definition fuse_Release :: "int \<Rightarrow> ('db, 'sem) Mount \<Rightarrow> ('db, 'sem) Mount \<times> unit reply" where
  "fuse_Release d mt = trackOp ''release'' d mt (\<lambda>st. (st, Inr ()))"

definition fuse_Mkdir :: "'db pebble \<Rightarrow> int \<Rightarrow> ('db, 'sem) Mount \<Rightarrow> int \<Rightarrow> (u32 \<times> u32) option \<Rightarrow> u64 \<Rightarrow> bytes \<Rightarrow> u32
    \<Rightarrow> ('db, 'sem) Mount \<times> (Attr \<times> u64 \<times> StableAttr) reply" where
  "fuse_Mkdir P d mt now creds inode name mode = trackOp ''mkdir'' d mt (\<lambda>st.
     case callerCreds creds of (uid, gid) \<Rightarrow> with_entry (Mkdir P st now inode name mode uid gid))"

definition fuse_Unlink :: "'db pebble \<Rightarrow> 'sem weighted \<Rightarrow> int \<Rightarrow> ('db, 'sem) Mount \<Rightarrow> int \<Rightarrow> u64 \<Rightarrow> bytes
    \<Rightarrow> ('db, 'sem) Mount \<times> unit reply" where
  "fuse_Unlink P W d mt now inode name = trackOp ''unlink'' d mt (\<lambda>st. Unlink P W st now inode name)"

definition fuse_Rmdir :: "'db pebble \<Rightarrow> int \<Rightarrow> ('db, 'sem) Mount \<Rightarrow> int \<Rightarrow> u64 \<Rightarrow> bytes \<Rightarrow> ('db, 'sem) Mount \<times> unit reply" where
  "fuse_Rmdir P d mt now inode name = trackOp ''rmdir'' d mt (\<lambda>st. Rmdir P st now inode name)"

definition fuse_Rename :: "'db pebble \<Rightarrow> 'sem weighted \<Rightarrow> int \<Rightarrow> ('db, 'sem) Mount \<Rightarrow> (nat \<Rightarrow> int) \<Rightarrow> u64 \<Rightarrow> bytes
    \<Rightarrow> u64 option \<Rightarrow> bytes \<Rightarrow> ('db, 'sem) Mount \<times> unit reply" where
  "fuse_Rename P W d mt now inode name newParent newName = trackOp ''rename'' d mt (\<lambda>st. case newParent of
     None \<Rightarrow> (st, Inl EINVAL) | Some np \<Rightarrow> Rename P W st now inode name np newName)"

definition fuse_Symlink :: "'db pebble \<Rightarrow> int \<Rightarrow> ('db, 'sem) Mount \<Rightarrow> int \<Rightarrow> (u32 \<times> u32) option \<Rightarrow> u64 \<Rightarrow> bytes \<Rightarrow> bytes
    \<Rightarrow> ('db, 'sem) Mount \<times> (Attr \<times> u64 \<times> StableAttr) reply" where
  "fuse_Symlink P d mt now creds inode target name = trackOp ''symlink'' d mt (\<lambda>st.
     case callerCreds creds of (uid, gid) \<Rightarrow> with_entry (Symlink P st now inode name target uid gid))"

definition fuse_Readlink :: "'db pebble \<Rightarrow> int \<Rightarrow> ('db, 'sem) Mount \<Rightarrow> u64 \<Rightarrow> ('db, 'sem) Mount \<times> bytes reply" where
  "fuse_Readlink P d mt inode = trackOp ''readlink'' d mt (\<lambda>st. (st, Readlink P st inode))"

definition fuse_Link :: "'db pebble \<Rightarrow> int \<Rightarrow> ('db, 'sem) Mount \<Rightarrow> int \<Rightarrow> u64 option \<Rightarrow> u64 \<Rightarrow> bytes
    \<Rightarrow> ('db, 'sem) Mount \<times> (Attr \<times> u64 \<times> StableAttr) reply" where
  "fuse_Link P d mt now target inode name = trackOp ''link'' d mt (\<lambda>st. case target of
     None \<Rightarrow> (st, Inl EINVAL) | Some t \<Rightarrow> with_entry (Link P st now t inode name))"

definition fuse_Readdir :: "'db pebble \<Rightarrow> int \<Rightarrow> ('db, 'sem) Mount \<Rightarrow> u64 \<Rightarrow> ('db, 'sem) Mount \<times> DirEntry list reply" where
  "fuse_Readdir P d mt inode = trackOp ''readdir'' d mt (\<lambda>st.
     andThen (st, Readdir P st inode) (\<lambda>st es. (st, Inr (map (\<lambda>e. e\<lparr>deMode := deMode e AND ModeMask\<rparr>) es))))"

definition fuse_Statfs :: "int \<Rightarrow> ('db, 'sem) Mount \<Rightarrow> goerr + int \<times> u64 \<times> u64 \<times> u64
    \<Rightarrow> ('db, 'sem) Mount \<times> (u32 \<times> u64 \<times> u64 \<times> u64 \<times> u32) reply" where
  "fuse_Statfs d mt res = trackOp ''statfs'' d mt (\<lambda>st.
     andThen (st, Store_Statfs res) (\<lambda>st s.
       (st, Inr (sfBlockSize s, sfBlocks s, sfBlocksFree s, sfBlocksAvail s, 255))))"

end
