(* ===== verification/Migrate.thy ===== *)
theory Migrate
  imports Index_Write Node
begin

text \<open>
  The one-shot copy of the legacy bbolt database into the key space of the program
  (\<open>src/kv/migrate.go\<close>). bbolt is a package of its own: an open legacy database is the function
  from bucket names to their entries in iteration order. The results of the system calls and of
  opening the two databases are a record of arguments. \<open>mgCurrent\<close> says that the target directory
  holds Pebble's \<open>CURRENT\<close> file, which Pebble writes when it first opens a directory. The calls
  of the progress callback are kept as a list.
\<close>

section \<open>State\<close>

type_synonym boltdb = "string \<Rightarrow> kvpair list option"

record 'db migrating =
  mgDB :: 'db
  mgCurrent :: bool
  mgBolt :: "boltdb option"
  mgProgress :: "(string \<times> nat) list"

record migrateCalls =
  mcStat :: "goerr option"
  mcReadDir :: bool
  mcBoltOpen :: "goerr option"
  mcOpen :: "goerr option"
  mcSrcClose :: "goerr option"
  mcRename :: "goerr option"

definition ErrAlreadyMigrated :: goerr where
  "ErrAlreadyMigrated = ErrText ''kv migrate: destination pebble DB already populated''"

section \<open>Copying a bucket\<close>

definition batchSize :: nat where "batchSize = 1024"

fun copy_entries :: "'db pebble \<Rightarrow> (bytes \<Rightarrow> goerr + bytes) \<Rightarrow> kvpair list \<Rightarrow> batch \<Rightarrow> nat \<Rightarrow> 'db \<Rightarrow> ('db, nat) outcome" where
  "copy_entries P mapKey [] batch cnt db = andThen (Batch_Commit P db batch True) (\<lambda>db1 _. (db1, Inr cnt))"
| "copy_entries P mapKey ((k, v) # kvs) batch cnt db = (case mapKey k of
     Inl e \<Rightarrow> (db, Inl e)
   | Inr dk \<Rightarrow>
       (let batch1 = Batch_Set dk v batch; cnt1 = Suc cnt
        in if cnt1 mod batchSize = 0
           then andThen (Batch_Commit P db batch1 True) (\<lambda>db1 _. copy_entries P mapKey kvs NewBatch cnt1 db1)
           else copy_entries P mapKey kvs batch1 cnt1 db))"

definition copyBucket :: "'db pebble \<Rightarrow> boltdb \<Rightarrow> string \<Rightarrow> (bytes \<Rightarrow> goerr + bytes) \<Rightarrow> 'db migrating \<Rightarrow> ('db migrating, unit) outcome" where
  "copyBucket P bolt bucketName mapKey mg = (case bolt bucketName of
     None \<Rightarrow> (mg, Inr ())
   | Some kvs \<Rightarrow>
       (case copy_entries P mapKey kvs NewBatch 0 (mgDB mg) of
          (db, Inl e) \<Rightarrow> (mg\<lparr>mgDB := db\<rparr>, Inl e)
        | (db, Inr cnt) \<Rightarrow> (mg\<lparr>mgDB := db, mgProgress := mgProgress mg @ [(bucketName, cnt)]\<rparr>, Inr ())))"

section \<open>The migration\<close>

definition node_dst :: "bytes \<Rightarrow> goerr + bytes" where
  "node_dst k = (if length k \<noteq> 8 then Inl (ErrText ''kv migrate: nodes key length'')
     else bindE (or_panic (be64_at 0 k)) (\<lambda>i. Inr (NodeKey i)))"

definition dirent_dst :: "bytes \<Rightarrow> goerr + bytes" where
  "dirent_dst k = (if length k < 8 then Inl (ErrText ''kv migrate: dirents key length'')
     else bindE (or_panic (be64_at 0 k)) (\<lambda>i. Inr (DirentKey i (drop 8 k))))"

definition stripe_dst :: "bytes \<Rightarrow> goerr + bytes" where
  "stripe_dst k = (if length k \<noteq> 12 then Inl (ErrText ''kv migrate: stripes key length'')
     else bindE (or_panic (be64_at 0 k)) (\<lambda>i. bindE (or_panic (be32_at 8 k)) (\<lambda>s. Inr (LegacyStripeKey i s))))"

definition copy_meta :: "'db pebble \<Rightarrow> boltdb \<Rightarrow> 'db migrating \<Rightarrow> ('db migrating, unit) outcome" where
  "copy_meta P bolt mg = (case bolt ''_l4_meta'' of
     None \<Rightarrow> (mg, Inr ())
   | Some kvs \<Rightarrow> (case map_of kvs (map (of_char :: char \<Rightarrow> byte) ''next_inode'') of
       None \<Rightarrow> (mg, Inr ())
     | Some v \<Rightarrow> (case Batch_Commit P (mgDB mg) (Batch_Set StoreNextInodeKey v NewBatch) True of
         (db, Inl e) \<Rightarrow> (mg\<lparr>mgDB := db\<rparr>, Inl e)
       | (db, Inr _) \<Rightarrow> (mg\<lparr>mgDB := db, mgProgress := mgProgress mg @ [(''_l4_meta'', 1)]\<rparr>, Inr ()))))"

definition MigrateFromBolt :: "'db pebble \<Rightarrow> migrateCalls \<Rightarrow> 'db migrating \<Rightarrow> ('db migrating, unit) outcome" where
  "MigrateFromBolt P E mg = (case mgBolt mg of
     None \<Rightarrow> (mg, Inr ())
   | Some bolt \<Rightarrow>
       (case mcStat E of Some e \<Rightarrow> (mg, Inl e) | None \<Rightarrow>
        if mcReadDir E \<and> mgCurrent mg then (mg, Inl ErrAlreadyMigrated)
        else if mcBoltOpen E \<noteq> None then (mg, Inl (ErrText ''kv migrate: open legacy''))
        else if mcOpen E \<noteq> None then (mg, Inl (ErrText ''kv migrate: open pebble''))
        else andThen (copy_meta P bolt (mg\<lparr>mgCurrent := True\<rparr>)) (\<lambda>mg1 _.
             andThen (copyBucket P bolt ''nodes'' node_dst mg1) (\<lambda>mg2 _.
             andThen (copyBucket P bolt ''dirents'' dirent_dst mg2) (\<lambda>mg3 _.
             andThen (copyBucket P bolt ''stripes'' stripe_dst mg3) (\<lambda>mg4 _.
               case mcSrcClose E of Some e \<Rightarrow> (mg4, Inl e)
               | None \<Rightarrow> if mcRename E \<noteq> None then (mg4, Inl (ErrText ''kv migrate: rename legacy db''))
                   else (mg4\<lparr>mgBolt := None\<rparr>, Inr ())))))))"

section \<open>What a successful copy wrote\<close>

text \<open>The operations for the entries of a bucket, and what they do to the target.\<close>

definition copied :: "(bytes \<Rightarrow> goerr + bytes) \<Rightarrow> kvpair list \<Rightarrow> batch \<Rightarrow> bool" where
  "copied mapKey kvs ops \<longleftrightarrow> list_all2 (\<lambda>kv op. \<exists>dk. mapKey (fst kv) = Inr dk \<and> op = BSet dk (snd kv)) kvs ops"

definition key_map :: "(bytes \<Rightarrow> goerr + bytes) \<Rightarrow> bool" where
  "key_map mapKey \<longleftrightarrow> (\<forall>k k' d. mapKey k = Inr d \<longrightarrow> mapKey k' = Inr d \<longrightarrow> k = k')"

lemma copied_apply:
  assumes "copied mapKey kvs ops" "key_map mapKey" "distinct (map fst kvs)"
  shows "(k, v) \<in> set kvs \<Longrightarrow> \<exists>dk. mapKey k = Inr dk \<and> apply_ops ops V dk = Some v"
    and "\<forall>k \<in> fst ` set kvs. mapKey k \<noteq> Inr d \<Longrightarrow> apply_ops ops V d = V d"
  using assms
proof (induction kvs arbitrary: ops V d)
  case (Cons kv kvs)
  {
    case 1
    then obtain dk ops' where o: "mapKey (fst kv) = Inr dk" "ops = BSet dk (snd kv) # ops'" "copied mapKey kvs ops'"
      by (auto simp: copied_def list_all2_Cons1)
    show ?case
    proof (cases "(k, v) = kv")
      case True
      have "mapKey k' \<noteq> Inr dk" if "k' \<in> fst ` set kvs" for k'
        using that o(1) 1(3,4) by (auto simp: key_map_def)
      then have "apply_ops ops' (V(dk \<mapsto> snd kv)) dk = Some (snd kv)" using Cons.IH(2) [OF _ o(3)] 1(3,4) by simp
      then show ?thesis using o True by auto
    next
      case False
      then show ?thesis using Cons.IH(1) [OF _ o(3)] 1 o(2) by auto
    qed
  next
    case 2
    then obtain dk ops' where o: "mapKey (fst kv) = Inr dk" "ops = BSet dk (snd kv) # ops'" "copied mapKey kvs ops'"
      by (auto simp: copied_def list_all2_Cons1)
    then show ?case using Cons.IH(2) [OF _ o(3)] 2 by auto
  }
qed (auto simp: copied_def)

lemma be64_at_inject: "8 \<le> length k \<Longrightarrow> be64_at 0 k = Some i \<Longrightarrow> take 8 k = be64 i"
  using be_dec_u64 [of "take 8 k"] by (auto simp: be64_at_def gslice_def split: if_splits)

lemma be32_at_inject: "length k = 12 \<Longrightarrow> be32_at 8 k = Some i \<Longrightarrow> drop 8 k = be32 i"
  using be_dec_u32 [of "drop 8 k"] by (auto simp: be32_at_def gslice_def split: if_splits)

lemma dst_source:
  "node_dst k = Inr d \<longleftrightarrow> (\<exists>i. k = be64 i \<and> d = NodeKey i)"
  "dirent_dst k = Inr d \<longleftrightarrow> (\<exists>i nm. k = be64 i @ nm \<and> d = DirentKey i nm)"
  "stripe_dst k = Inr d \<longleftrightarrow> (\<exists>i s. k = be64 i @ be32 s \<and> d = LegacyStripeKey i s)"
proof -
  have be: "be64_at 0 (be64 i @ r) = Some i" "be64_at 0 (be64 i) = Some i" "be32_at 8 (be64 i @ be32 s) = Some s" for i r s
    by (simp_all add: be64_at_def be32_at_def gslice_append2)
  have e: "be64_at 0 k \<noteq> None" if "8 \<le> length k" using that by (simp add: be64_at_def gslice_def)
  have e': "be32_at 8 k \<noteq> None" if "length k = 12" using that by (simp add: be32_at_def gslice_def)
  show "node_dst k = Inr d \<longleftrightarrow> (\<exists>i. k = be64 i \<and> d = NodeKey i)"
    using be64_at_inject [of k] e be by (auto simp: node_dst_def or_panic_def split: option.splits)
  show "dirent_dst k = Inr d \<longleftrightarrow> (\<exists>i nm. k = be64 i @ nm \<and> d = DirentKey i nm)"
    using be64_at_inject [of k] e be by (auto simp: dirent_dst_def or_panic_def split: option.splits) (metis append_take_drop_id)
  show "stripe_dst k = Inr d \<longleftrightarrow> (\<exists>i s. k = be64 i @ be32 s \<and> d = LegacyStripeKey i s)"
    using be64_at_inject [of k] be32_at_inject [of k] e e' be
    by (auto simp: stripe_dst_def or_panic_def split: option.splits) (metis append_take_drop_id)
qed

lemma key_maps: "key_map node_dst" "key_map dirent_dst" "key_map stripe_dst"
  by (auto simp: key_map_def dst_source LegacyStripeKey_def)

context pebble_engine
begin

lemma copy_entries_view:
  "copy_entries P mapKey kvs batch cnt db = (db', Inr n) \<Longrightarrow>
    \<exists>ops. copied mapKey kvs ops \<and> view db' = apply_ops (batch @ ops) (view db) \<and> n = cnt + length kvs"
proof (induction kvs arbitrary: batch cnt db)
  case Nil
  then show ?case using Batch_Commit_atomic by (fastforce simp: copied_def andThen_ok)
next
  case (Cons kv kvs)
  obtain k v where kv: "kv = (k, v)" by fastforce
  obtain dk where dk: "mapKey k = Inr dk" using Cons.prems kv by (cases "mapKey k") auto
  have ext: "copied mapKey kvs ops \<Longrightarrow> copied mapKey (kv # kvs) (BSet dk v # ops)" for ops by (simp add: copied_def kv dk)
  show ?case
  proof (cases "Suc cnt mod batchSize = 0")
    case True
    then obtain db1 where c: "Batch_Commit P db (Batch_Set dk v batch) True = (db1, Inr ())"
        "copy_entries P mapKey kvs NewBatch (Suc cnt) db1 = (db', Inr n)"
      using Cons.prems kv dk by (auto simp: Let_def andThen_ok)
    then obtain ops where "copied mapKey kvs ops" "view db' = apply_ops (NewBatch @ ops) (view db1)" "n = Suc cnt + length kvs"
      using Cons.IH by blast
    moreover have "view db1 = apply_ops (batch @ [BSet dk v]) (view db)"
      using Batch_Commit_atomic [OF c(1)] by (simp add: Batch_Set_def)
    ultimately show ?thesis using ext by (intro exI [of _ "BSet dk v # ops"]) (simp add: NewBatch_def)
  next
    case False
    then have "copy_entries P mapKey kvs (Batch_Set dk v batch) (Suc cnt) db = (db', Inr n)"
      using Cons.prems kv dk by (simp add: Let_def)
    then obtain ops where "copied mapKey kvs ops" "view db' = apply_ops (Batch_Set dk v batch @ ops) (view db)" "n = Suc cnt + length kvs"
      using Cons.IH by blast
    then show ?thesis using ext by (intro exI [of _ "BSet dk v # ops"]) (simp add: Batch_Set_def)
  qed
qed

lemma copyBucket_view:
  assumes "copyBucket P bolt nm mapKey mg = (mg', Inr ())"
  shows "\<exists>ops. copied mapKey (case bolt nm of None \<Rightarrow> [] | Some kvs \<Rightarrow> kvs) ops \<and> view (mgDB mg') = apply_ops ops (view (mgDB mg)) \<and>
    mgBolt mg' = mgBolt mg"
proof (cases "bolt nm")
  case None
  then show ?thesis using assms by (simp add: copyBucket_def copied_def)
next
  case (Some kvs)
  then obtain db n where "copy_entries P mapKey kvs NewBatch 0 (mgDB mg) = (db, Inr n)" "mgDB mg' = db" "mgBolt mg' = mgBolt mg"
    using assms by (auto simp: copyBucket_def split: prod.splits sum.splits)
  then show ?thesis using copy_entries_view Some by (fastforce simp: NewBatch_def)
qed

lemma copy_meta_view:
  assumes "copy_meta P bolt mg = (mg', Inr ())"
  shows "mgBolt mg' = mgBolt mg \<and> (\<forall>k. k \<noteq> StoreNextInodeKey \<longrightarrow> view (mgDB mg') k = view (mgDB mg) k) \<and>
    (\<forall>kvs v. bolt ''_l4_meta'' = Some kvs \<longrightarrow> map_of kvs (map of_char ''next_inode'') = Some v \<longrightarrow> view (mgDB mg') StoreNextInodeKey = Some v)"
  using assms Batch_Commit_atomic
  by (fastforce simp: copy_meta_def batch_defs split: option.splits prod.splits sum.splits)

end

definition bucket :: "boltdb \<Rightarrow> string \<Rightarrow> kvpair list" where
  "bucket bolt nm = (case bolt nm of None \<Rightarrow> [] | Some kvs \<Rightarrow> kvs)"

text \<open>The keys of a bbolt bucket are distinct.\<close>

definition bolt_ok :: "boltdb \<Rightarrow> bool" where
  "bolt_ok bolt \<longleftrightarrow> (\<forall>nm. distinct (map fst (bucket bolt nm)))"

context pebble_engine
begin

lemma Migrate_copies:
  assumes ok: "bolt_ok bolt" "mgBolt mg = Some bolt" and r: "MigrateFromBolt P E mg = (mg', Inr ())"
  defines "V \<equiv> view (mgDB mg)" and "V' \<equiv> view (mgDB mg')"
  shows "mgBolt mg' = None \<and> (\<forall>i. map_of (bucket bolt ''nodes'') (be64 i) \<noteq> None \<longrightarrow> V' (NodeKey i) = map_of (bucket bolt ''nodes'') (be64 i)) \<and>
    (\<forall>p nm. map_of (bucket bolt ''dirents'') (be64 p @ nm) \<noteq> None \<longrightarrow> V' (DirentKey p nm) = map_of (bucket bolt ''dirents'') (be64 p @ nm)) \<and>
    (\<forall>i s. map_of (bucket bolt ''stripes'') (be64 i @ be32 s) \<noteq> None \<longrightarrow> V' (LegacyStripeKey i s) = map_of (bucket bolt ''stripes'') (be64 i @ be32 s)) \<and>
    (\<forall>i s q. V' (FragmentKey i s q) = V (FragmentKey i s q))"
proof -
  obtain mg1 mg2 mg3 mg4 where m: "copy_meta P bolt (mg\<lparr>mgCurrent := True\<rparr>) = (mg1, Inr ())" "copyBucket P bolt ''nodes'' node_dst mg1 = (mg2, Inr ())"
      "copyBucket P bolt ''dirents'' dirent_dst mg2 = (mg3, Inr ())" "copyBucket P bolt ''stripes'' stripe_dst mg3 = (mg4, Inr ())"
      "mg' = mg4\<lparr>mgBolt := None\<rparr>"
    using r ok(2) unfolding MigrateFromBolt_def by (auto simp: andThen_ok split: option.splits if_splits)
  obtain o2 o3 o4 where c: "copied node_dst (bucket bolt ''nodes'') o2" "view (mgDB mg2) = apply_ops o2 (view (mgDB mg1))"
      "copied dirent_dst (bucket bolt ''dirents'') o3" "view (mgDB mg3) = apply_ops o3 (view (mgDB mg2))"
      "copied stripe_dst (bucket bolt ''stripes'') o4" "view (mgDB mg4) = apply_ops o4 (view (mgDB mg3))"
    using copyBucket_view [OF m(2)] copyBucket_view [OF m(3)] copyBucket_view [OF m(4)] unfolding bucket_def by blast
  have d: "distinct (map fst (bucket bolt nm))" for nm using ok(1) by (simp add: bolt_ok_def)
  note a2 = copied_apply [OF c(1) key_maps(1) d] and a3 = copied_apply [OF c(3) key_maps(2) d] and a4 = copied_apply [OF c(5) key_maps(3) d]
  have V': "V' = view (mgDB mg4)" by (simp add: V'_def m(5))
  have kinds: "LegacyStripeKey i s \<noteq> NodeKey j" "LegacyStripeKey i s \<noteq> DirentKey p nm" "LegacyStripeKey i s \<noteq> FragmentKey j t q" for i j s t p nm q
    using length_keys by (auto simp: LegacyStripeKey_def NodeKey_def DirentKey_def FragmentKey_def tag_defs dest!: arg_cong [of _ _ length])
  have keep: "V' (NodeKey i) = view (mgDB mg2) (NodeKey i)" "V' (DirentKey p nm) = view (mgDB mg3) (DirentKey p nm)"
      "V' (FragmentKey i s q) = V (FragmentKey i s q)" for i p nm s q
  proof -
    show "V' (NodeKey i) = view (mgDB mg2) (NodeKey i)"
      using a4(2) [of "NodeKey i"] a3(2) [of "NodeKey i"] c(4,6) kinds by (simp add: V' dst_source) metis
    show "V' (DirentKey p nm) = view (mgDB mg3) (DirentKey p nm)"
      using a4(2) [of "DirentKey p nm"] c(6) kinds by (simp add: V' dst_source) metis
    have "V' (FragmentKey i s q) = view (mgDB mg1) (FragmentKey i s q)"
      using a4(2) [of "FragmentKey i s q"] a3(2) [of "FragmentKey i s q"] a2(2) [of "FragmentKey i s q"] c(2,4,6) kinds
      by (simp add: V' dst_source) metis
    then show "V' (FragmentKey i s q) = V (FragmentKey i s q)" using copy_meta_view [OF m(1)] by (simp add: V_def)
  qed
  have n: "V' (NodeKey i) = Some v" if "map_of (bucket bolt ''nodes'') (be64 i) = Some v" for i v
    using a2(1) [OF map_of_SomeD [OF that], of "view (mgDB mg1)"] by (auto simp: keep(1) c(2) dst_source)
  have e: "V' (DirentKey p nm) = Some v" if "map_of (bucket bolt ''dirents'') (be64 p @ nm) = Some v" for p nm v
    using a3(1) [OF map_of_SomeD [OF that], of "view (mgDB mg2)"] by (auto simp: keep(2) c(4) dst_source)
  have st: "V' (LegacyStripeKey i s) = Some v" if "map_of (bucket bolt ''stripes'') (be64 i @ be32 s) = Some v" for i s v
    using a4(1) [OF map_of_SomeD [OF that], of "view (mgDB mg3)"] by (auto simp: V' c(6) dst_source)
  show ?thesis using n e st keep(3) by (auto simp: m(5))
qed

end

lemma copyBucket_keeps: "copyBucket P bolt nm f mg = (mg', r) \<Longrightarrow> mgBolt mg' = mgBolt mg \<and> mgCurrent mg' = mgCurrent mg"
  by (auto simp: copyBucket_def split: option.splits prod.splits sum.splits)

lemma copy_meta_keeps: "copy_meta P bolt mg = (mg', r) \<Longrightarrow> mgBolt mg' = mgBolt mg \<and> mgCurrent mg' = mgCurrent mg"
  by (auto simp: copy_meta_def split: option.splits prod.splits sum.splits)

text \<open>A small legacy database for the witnesses: one node, one entry of a key that is too short.\<close>

definition small_bolt :: boltdb where
  "small_bolt nm = (if nm = ''nodes'' then Some [(be64 5, [1, 2])] else None)"

definition bad_bolt :: boltdb where
  "bad_bolt nm = (if nm = ''nodes'' then Some [(be64 5, [1, 2])] else if nm = ''dirents'' then Some [([0], [3])] else None)"

definition all_calls_ok :: migrateCalls where
  "all_calls_ok = \<lparr>mcStat = None, mcReadDir = True, mcBoltOpen = None, mcOpen = None, mcSrcClose = None, mcRename = None\<rparr>"

definition legacy :: "boltdb \<Rightarrow> kvpair list migrating" where
  "legacy bolt = \<lparr>mgDB = [], mgCurrent = False, mgBolt = Some bolt, mgProgress = []\<rparr>"

section \<open>Properties\<close>





end
