(* ===== verification/Admin.thy ===== *)
theory Admin
  imports Mover_Safety Fuse
begin

text \<open>
  The admin server (\<open>src/admin/admin.go\<close>): the health decision and the Prometheus text. The
  floating-point operations that the text needs (conversion, product, division by \<open>1e9\<close>,
  \<open>Duration.Seconds\<close> and the verb \<open>%g\<close>) are a record of functions, the results of
  \<open>statfs\<close> and the metrics that Pebble reports are arguments. Routes and \<open>pprof\<close> are
  in the theory \<open>Admin_Serve\<close>; logging is left out. Durations and instants are nanoseconds.
\<close>

section \<open>Health\<close>

record 'db Deps =
  dIndex :: "'db Index"
  dMover :: "Stats option"
  dFuse :: "Metrics option"
  dHealthMaxTickGap :: int
  dStartTime :: "int option"
  dEnablePprof :: bool

definition MarkReady :: "bool \<Rightarrow> bool" where
  "MarkReady readinessFlag = True"

text \<open>\<open>Time.Sub\<close> saturates at the limits of a duration.\<close>

definition time_sub :: "int \<Rightarrow> int \<Rightarrow> int" where
  "time_sub t u = max (- (2 ^ 63)) (min (2 ^ 63 - 1) (t - u))"

datatype health = NotReady | NotTicking | Stale int int | Healthy

fun statusCode :: "health \<Rightarrow> nat" where
  "statusCode Healthy = 200"
| "statusCode _ = 503"

definition healthHandler :: "bool \<Rightarrow> int \<Rightarrow> 'db Deps \<Rightarrow> health" where
  "healthHandler ready now d =
     (if \<not> ready then NotReady
      else case dMover d of None \<Rightarrow> Healthy
      | Some s \<Rightarrow>
          if dHealthMaxTickGap d \<le> 0 then Healthy
          else let gracePeriod = i64 (dHealthMaxTickGap d + 2000000000)
            in (case dStartTime d of None \<Rightarrow> Healthy
                | Some start \<Rightarrow>
                    if \<not> time_sub now start > gracePeriod then Healthy
                    else if LastTickUnix s = 0 then NotTicking
                    else let age = time_sub now (LastTickUnix s * 1000000000)
                      in if age > dHealthMaxTickGap d then Stale age (dHealthMaxTickGap d) else Healthy))"

section \<open>Text exposition\<close>

record 'f floats =
  fOf :: "int \<Rightarrow> 'f"
  fMul :: "'f \<Rightarrow> 'f \<Rightarrow> 'f"
  fNano :: "'f \<Rightarrow> 'f"
  fSeconds :: "int \<Rightarrow> 'f"
  fShow :: "'f \<Rightarrow> string"

type_synonym 'f sample = "string \<times> 'f"
type_synonym 'f family = "string \<times> string \<times> string \<times> 'f sample list"

definition nl :: string where "nl = [CHR 0x0A]"

fun sample_line :: "'f floats \<Rightarrow> string \<Rightarrow> 'f sample \<Rightarrow> string" where
  "sample_line F name (labels, v) = (if labels = '''' then name @ '' '' @ fShow F v @ nl
     else name @ ''{'' @ labels @ ''} '' @ fShow F v @ nl)"

fun writeOne :: "'f floats \<Rightarrow> 'f family \<Rightarrow> string" where
  "writeOne F (kind, name, help, samples) = (if samples = [] then ''''
     else ''# HELP '' @ name @ '' '' @ help @ nl @ ''# TYPE '' @ name @ '' '' @ kind @ nl @
       concat (map (sample_line F name) samples))"

text \<open>The verb \<open>%q\<close> on names of printable ASCII.\<close>

definition quoted :: "string \<Rightarrow> string" where
  "quoted s = [CHR 0x22] @ concat (map (\<lambda>c. if c = CHR 0x22 \<or> c = CHR 0x5C then [CHR 0x5C, c] else [c]) s) @ [CHR 0x22]"

definition label :: "string \<Rightarrow> string \<Rightarrow> string" where
  "label k v = k @ ''='' @ quoted v"

record statfs =
  sfTotal :: u64
  sfAvail :: u64
  sfBsize :: int

definition disk_samples :: "'f floats \<Rightarrow> (statfs \<Rightarrow> u64) \<Rightarrow> statfs option \<Rightarrow> statfs option \<Rightarrow> 'f sample list" where
  "disk_samples F field hot cold = concat (map (\<lambda>(l, r). case r of None \<Rightarrow> []
     | Some st \<Rightarrow> [(label ''tier'' l, fMul F (fOf F (uint (field st))) (fOf F (sfBsize st)))]) [(''hot'', hot), (''cold'', cold)])"

definition writeDiskGauges :: "'f floats \<Rightarrow> statfs option \<Rightarrow> statfs option \<Rightarrow> 'f family list" where
  "writeDiskGauges F hot cold =
     (if disk_samples F sfTotal hot cold = [] then []
      else [(''gauge'', ''placefs_disk_total_bytes'', ''Total capacity of the underlying filesystem hosting each tier.'',
       disk_samples F sfTotal hot cold),
       (''gauge'', ''placefs_disk_avail_bytes'', ''Available (unprivileged-writable) bytes on the underlying filesystem.'',
       disk_samples F sfAvail hot cold)])"

record pebbleMetrics =
  pmWALBytesWritten :: u64
  pmWALFiles :: int
  pmWALObsoleteFiles :: int
  pmWALSize :: u64
  pmCompactCount :: int
  pmCompactEstimatedDebt :: u64
  pmCompactNumInProgress :: int
  pmFlushCount :: int
  pmLevels :: "(int \<times> int) list"
  pmCacheHits :: int
  pmCacheMisses :: int
  pmCacheSize :: int

definition level_samples :: "'f floats \<Rightarrow> int list \<Rightarrow> 'f sample list" where
  "level_samples F xs = map (\<lambda>(i, x). (''level='' @ [CHR 0x22] @ format_nat i @ [CHR 0x22], fOf F x)) (enumerate 0 xs)"

definition writePebbleStats :: "'f floats \<Rightarrow> pebbleMetrics \<Rightarrow> 'f family list" where
  "writePebbleStats F m =
     [(''counter'', ''placefs_pebble_wal_bytes_written_total'', ''Total bytes written to the pebble WAL.'',
       [('''', fOf F (uint (pmWALBytesWritten m)))]),
      (''gauge'', ''placefs_pebble_wal_files'', ''Number of WAL files on disk (active + obsolete).'',
       [('''', fOf F (i64 (pmWALFiles m + pmWALObsoleteFiles m)))]),
      (''gauge'', ''placefs_pebble_wal_size_bytes'', ''On-disk size of the active WAL file.'',
       [('''', fOf F (uint (pmWALSize m)))]),
      (''counter'', ''placefs_pebble_compactions_total'', ''Total compactions run.'',
       [('''', fOf F (pmCompactCount m))]),
      (''gauge'', ''placefs_pebble_compact_debt_bytes'', ''Pebble's estimate of compaction work remaining.'',
       [('''', fOf F (uint (pmCompactEstimatedDebt m)))]),
      (''gauge'', ''placefs_pebble_compact_in_progress'', ''Compactions currently running.'',
       [('''', fOf F (pmCompactNumInProgress m))]),
      (''counter'', ''placefs_pebble_flushes_total'', ''Total memtable flushes.'',
       [('''', fOf F (pmFlushCount m))]),
      (''gauge'', ''placefs_pebble_level_bytes'', ''Bytes per LSM level.'',
       level_samples F (map fst (pmLevels m))),
      (''gauge'', ''placefs_pebble_level_files'', ''sstable files per LSM level.'',
       level_samples F (map snd (pmLevels m))),
      (''counter'', ''placefs_pebble_block_cache_hits_total'', ''Block-cache hits.'',
       [('''', fOf F (pmCacheHits m))]),
      (''counter'', ''placefs_pebble_block_cache_misses_total'', ''Block-cache misses.'',
       [('''', fOf F (pmCacheMisses m))]),
      (''gauge'', ''placefs_pebble_block_cache_size_bytes'', ''Bytes currently held in the block cache.'',
       [('''', fOf F (pmCacheSize m))])]"

definition writeMover :: "'f floats \<Rightarrow> Stats \<Rightarrow> 'f family list" where
  "writeMover F s =
     [(''counter'', ''placefs_mover_evict_runs_total'', ''Eviction policy invocations.'',
       [('''', fOf F (EvictRuns s))]),
      (''counter'', ''placefs_mover_gc_runs_total'', ''GC policy invocations.'',
       [('''', fOf F (GCRuns s))]),
      (''counter'', ''placefs_mover_moves_ok_total'', ''Successful stripe moves.'',
       [('''', fOf F (MovesOK s))]),
      (''counter'', ''placefs_mover_moves_failed_total'', ''Failed stripe moves.'',
       [('''', fOf F (MoveFailures s))]),
      (''counter'', ''placefs_mover_bytes_moved_total'', ''Bytes moved hot'' @ [CHR 0xE2, CHR 0x86, CHR 0x92] @ ''cold.'',
       [('''', fOf F (BytesMoved s))]),
      (''counter'', ''placefs_mover_move_duration_seconds_total'', ''Total wall-time spent inside successful Moves. Divide by moves_ok for avg.'',
       [('''', fNano F (fOf F (MoveDurationNanos s)))]),
      (''counter'', ''placefs_mover_gc_duration_seconds_total'', ''Total wall-time spent inside GC. Divide by gc_runs for avg.'',
       [('''', fNano F (fOf F (GCDurationNanos s)))]),
      (''gauge'', ''placefs_mover_consecutive_errors'', ''Number of consecutive failing ticks (resets to 0 on a clean tick).'',
       [('''', fOf F (ConsecutiveErrs s))]),
      (''gauge'', ''placefs_mover_last_tick_unix_seconds'', ''Unix timestamp of the last mover tick.'',
       [('''', fOf F (LastTickUnix s))])]"

definition writeFuse :: "'f floats \<Rightarrow> OpStat list \<Rightarrow> 'f family list" where
  "writeFuse F ops = (if ops = [] then [] else
     [(''counter'', ''placefs_fuse_op_calls_total'', ''FUSE entrypoint invocations by op name.'',
       map (\<lambda>op. (label ''op'' (osOp op), fOf F (osCalls op))) ops),
      (''counter'', ''placefs_fuse_op_errors_total'', ''FUSE entrypoint errors by op name.'',
       map (\<lambda>op. (label ''op'' (osOp op), fOf F (osErrors op))) ops),
      (''counter'', ''placefs_fuse_op_duration_seconds_total'', ''FUSE entrypoint total wall-time by op name.'',
       map (\<lambda>op. (label ''op'' (osOp op), fNano F (fOf F (osDurationNanos op)))) ops)])"

definition metricsFamilies :: "'f floats \<Rightarrow> int \<Rightarrow> statfs option \<Rightarrow> statfs option \<Rightarrow> pebbleMetrics \<Rightarrow> 'db Deps \<Rightarrow> 'f family list" where
  "metricsFamilies F now hot cold m d =
     (case dStartTime d of None \<Rightarrow> [] | Some start \<Rightarrow>
       [(''gauge'', ''placefs_process_uptime_seconds'', ''Seconds since the placefs process started.'',
       [('''', fSeconds F (time_sub now start))])]) @
     [(''gauge'', ''placefs_hot_segment_bytes'', ''Total bytes across all hot tier segment files.'',
       [('''', fOf F (HotUsedBytes (dIndex d)))]),
      (''gauge'', ''placefs_segment_count'', ''Number of open segment files per tier.'',
       [(label ''tier'' ''hot'', fOf F (int (length (SegmentIDs (dIndex d) TierHot)))),
        (label ''tier'' ''cold'', fOf F (int (length (SegmentIDs (dIndex d) TierCold))))])] @
     writeDiskGauges F hot cold @ writePebbleStats F m @
     (case dMover d of None \<Rightarrow> [] | Some s \<Rightarrow> writeMover F s) @
     (case dFuse d of None \<Rightarrow> [] | Some fm \<Rightarrow> writeFuse F (Snapshot fm))"

definition metricsHandler :: "'f floats \<Rightarrow> int \<Rightarrow> statfs option \<Rightarrow> statfs option \<Rightarrow> pebbleMetrics \<Rightarrow> 'db Deps \<Rightarrow> string" where
  "metricsHandler F now hot cold m d = concat (map (writeOne F) (metricsFamilies F now hot cold m d))"

section \<open>Names of the metrics\<close>

definition family_name :: "'f family \<Rightarrow> string" where
  "family_name fam = fst (snd fam)"

lemma family_name_simp [simp]: "family_name (kind, name, help, samples) = name"
  by (simp add: family_name_def)

text \<open>The names of all parts, without the common prefix.\<close>

definition all_names :: "string list list" where
  "all_names = [[''process_uptime_seconds''], [''hot_segment_bytes'', ''segment_count''], [''disk_total_bytes'', ''disk_avail_bytes''],
     [''pebble_wal_bytes_written_total'', ''pebble_wal_files'', ''pebble_wal_size_bytes'', ''pebble_compactions_total'', ''pebble_compact_debt_bytes'', ''pebble_compact_in_progress'', ''pebble_flushes_total'', ''pebble_level_bytes'', ''pebble_level_files'', ''pebble_block_cache_hits_total'', ''pebble_block_cache_misses_total'', ''pebble_block_cache_size_bytes''],
     [''mover_evict_runs_total'', ''mover_gc_runs_total'', ''mover_moves_ok_total'', ''mover_moves_failed_total'', ''mover_bytes_moved_total'', ''mover_move_duration_seconds_total'', ''mover_gc_duration_seconds_total'', ''mover_consecutive_errors'', ''mover_last_tick_unix_seconds''],
     [''fuse_op_calls_total'', ''fuse_op_errors_total'', ''fuse_op_duration_seconds_total'']]"

lemma all_names_distinct: "distinct (concat all_names)"
  by code_simp

lemma part_names:
  "map family_name (writePebbleStats F m) = map ((@) ''placefs_'') (all_names ! 3)"
  "map family_name (writeMover F s) = map ((@) ''placefs_'') (all_names ! 4)"
  "map family_name (writeDiskGauges F hot cold) = [] \<or> map family_name (writeDiskGauges F hot cold) = map ((@) ''placefs_'') (all_names ! 2)"
  "map family_name (writeFuse F ops) = [] \<or> map family_name (writeFuse F ops) = map ((@) ''placefs_'') (all_names ! 5)"
  by (simp_all add: writePebbleStats_def writeMover_def writeDiskGauges_def writeFuse_def all_names_def)

lemma distinct_parts:
  assumes "distinct (a @ b @ c @ d @ e @ f)" "a' = [] \<or> a' = a" "c' = [] \<or> c' = c" "e' = [] \<or> e' = e" "f' = [] \<or> f' = f"
  shows "distinct (a' @ b @ c' @ d @ e' @ f')"
  using assms by auto

lemma ticked:
  assumes "mcHotMaxBytes cfg = 1"
  shows "\<exists>s idx delay. loop_turn mem_pebble cfg cancelled False dur gcdur t (zero_stats, fresh_index) = ((s, idx), Some delay)"
proof -
  have "HotUsedBytes fresh_index = 0" by (simp add: HotUsedBytes_def Set_All_def fresh_index_def fresh_set_def)
  then have "snd (evictOnce mem_pebble cfg cancelled dur (zero_stats, fresh_index)) = Inr ()"
      "snd (fst (evictOnce mem_pebble cfg cancelled dur (zero_stats, fresh_index))) = fresh_index"
    using assms by (simp_all add: evictOnce_def Let_def)
  moreover have "snd (GC mem_pebble fresh_index) = Inr ()" by code_simp
  ultimately show ?thesis
    by (cases "evictOnce mem_pebble cfg cancelled dur (zero_stats, fresh_index)"; cases "GC mem_pebble fresh_index")
      (auto simp: loop_turn_def gcOnce_def Let_def split: prod.splits)
qed

section \<open>Properties\<close>

text \<open>
  The text announces no metric name twice, whatever parts are present: Prometheus rejects
  a text that repeats the header of a metric.
\<close>

theorem metric_names_unique: "distinct (map family_name (metricsFamilies F now hot cold m d))"
proof -
  let ?n = "\<lambda>k. map ((@) ''placefs_'') (all_names ! k)"
  have "concat (map (map ((@) ''placefs_'')) all_names) = ?n 0 @ ?n 1 @ ?n 2 @ ?n 3 @ ?n 4 @ ?n 5" by (simp add: all_names_def)
  moreover have "distinct (map ((@) ''placefs_'') (concat all_names))" using all_names_distinct by (simp add: distinct_map inj_on_def)
  ultimately have dist: "distinct (?n 0 @ ?n 1 @ ?n 2 @ ?n 3 @ ?n 4 @ ?n 5)" by (simp only: map_concat)
  define u mv fu where "u = (case dStartTime d of None \<Rightarrow> [] | Some start \<Rightarrow> ?n 0)" and
    "mv = (case dMover d of None \<Rightarrow> [] | Some s \<Rightarrow> map family_name (writeMover F s))" and
    "fu = (case dFuse d of None \<Rightarrow> [] | Some fm \<Rightarrow> map family_name (writeFuse F (Snapshot fm)))"
  have "map family_name (metricsFamilies F now hot cold m d) = u @ ?n 1 @ map family_name (writeDiskGauges F hot cold) @ ?n 3 @ mv @ fu"
    by (simp add: metricsFamilies_def u_def mv_def fu_def all_names_def part_names split: option.split)
  moreover have "u = [] \<or> u = ?n 0" "mv = [] \<or> mv = ?n 4" "fu = [] \<or> fu = ?n 5"
    using part_names(2) [of F] part_names(4) [of F] by (auto simp: u_def mv_def fu_def split: option.split)
  ultimately show ?thesis using distinct_parts [OF dist _ part_names(3)] by metis
qed



end
