(* ===== verification/Admin_Serve.thy ===== *)
theory Admin_Serve
  imports Admin "HOL-Library.Sublist"
begin

text \<open>
  The routes of the admin server (\<open>Serve\<close> of \<open>src/admin/admin.go\<close>) and what \<open>http.ServeMux\<close> does with
  a request path: a path that is not clean, or that lacks the final slash of a registered
  directory, is redirected; otherwise an exact pattern wins over the longest directory that
  contains the path. Paths have no escapes, and the method is not \<open>CONNECT\<close>. The profiles
  themselves belong to \<open>net/http/pprof\<close>; the result of \<open>net.Listen\<close> is an argument.
\<close>

section \<open>Routes\<close>

datatype route = Healthz | MetricsText | Pprof string | Root

definition admin_routes :: "bool \<Rightarrow> (string \<times> route) list" where
  "admin_routes enablePprof =
     [(''/healthz'', Healthz), (''/metrics'', MetricsText)] @
     (if enablePprof then
        [(''/debug/pprof/'', Pprof ''index''), (''/debug/pprof/cmdline'', Pprof ''cmdline''),
         (''/debug/pprof/profile'', Pprof ''profile''), (''/debug/pprof/symbol'', Pprof ''symbol''),
         (''/debug/pprof/trace'', Pprof ''trace'')] else []) @
     [(''/'', Root)]"

definition Serve :: "string \<Rightarrow> goerr + unit \<Rightarrow> 'db Deps \<Rightarrow> goerr + (string \<times> route) list" where
  "Serve addr listen d =
     (if addr = [] then Inl (ErrText ''admin: empty listen addr'')
      else case listen of Inl e \<Rightarrow> Inl e | Inr _ \<Rightarrow> Inr (admin_routes (dEnablePprof d)))"

section \<open>Matching a path\<close>

definition slash :: char where "slash = CHR ''/''"

fun components :: "string \<Rightarrow> string \<Rightarrow> string list" where
  "components cur [] = [cur]"
| "components cur (c # cs) = (if c = slash then cur # components [] cs else components (cur @ [c]) cs)"

definition path_step :: "string list \<Rightarrow> string \<Rightarrow> string list" where
  "path_step st c = (if c = [] \<or> c = ''.'' then st else if c = ''..'' then butlast st else st @ [c])"

definition join_path :: "string list \<Rightarrow> string" where
  "join_path cs = concat (map (\<lambda>c. slash # c) cs)"

definition clean_parts :: "string \<Rightarrow> string list" where
  "clean_parts p = foldl path_step [] (components [] p)"

definition cleanPath :: "string \<Rightarrow> string" where
  "cleanPath p = (if clean_parts p = [] then [slash]
     else join_path (clean_parts p) @ (if p \<noteq> [] \<and> last p = slash then [slash] else []))"

definition is_dir_pattern :: "string \<Rightarrow> bool" where
  "is_dir_pattern pat \<longleftrightarrow> pat \<noteq> [] \<and> last pat = slash"

definition longest_dir :: "(string \<times> route) list \<Rightarrow> string \<Rightarrow> (string \<times> route) option" where
  "longest_dir mux p = foldr (\<lambda>(pat, r) best. if is_dir_pattern pat \<and> prefix pat p \<and>
       (case best of None \<Rightarrow> True | Some (pat1, _) \<Rightarrow> length pat1 < length pat) then Some (pat, r) else best) mux None"

datatype dispatch = Handle route | Redirect string | NoRoute

definition mux_dispatch :: "(string \<times> route) list \<Rightarrow> string \<Rightarrow> dispatch" where
  "mux_dispatch mux path = (let p = cleanPath path in
     if map_of mux p = None \<and> last p \<noteq> slash \<and> map_of mux (p @ [slash]) \<noteq> None then Redirect (p @ [slash])
     else if p \<noteq> path then Redirect p
     else case map_of mux p of Some r \<Rightarrow> Handle r
       | None \<Rightarrow> (case longest_dir mux p of Some (_, r) \<Rightarrow> Handle r | None \<Rightarrow> NoRoute))"

section \<open>Answers\<close>

datatype response = HealthAnswer health | Exposition string | Profile string | Page string | NotFound | MovedTo string

definition root_page :: "bool \<Rightarrow> string" where
  "root_page enablePprof = ''placefs admin: /healthz /metrics'' @ (if enablePprof then '' /debug/pprof/'' else []) @ nl"

definition admin_handler :: "health \<Rightarrow> string \<Rightarrow> bool \<Rightarrow> string \<Rightarrow> route \<Rightarrow> response" where
  "admin_handler h metrics enablePprof path r = (case r of
     Healthz \<Rightarrow> HealthAnswer h
   | MetricsText \<Rightarrow> Exposition metrics
   | Pprof name \<Rightarrow> Profile name
   | Root \<Rightarrow> if path = ''/'' then Page (root_page enablePprof) else NotFound)"

definition admin_request :: "bool \<Rightarrow> 'f floats \<Rightarrow> int \<Rightarrow> statfs option \<Rightarrow> statfs option \<Rightarrow> pebbleMetrics \<Rightarrow> 'db Deps
    \<Rightarrow> (string \<times> route) list \<Rightarrow> string \<Rightarrow> response" where
  "admin_request ready F now hot cold m d mux path = (case mux_dispatch mux path of
     Handle r \<Rightarrow> admin_handler (healthHandler ready now d) (metricsHandler F now hot cold m d) (dEnablePprof d) path r
   | Redirect p \<Rightarrow> MovedTo p
   | NoRoute \<Rightarrow> NotFound)"

section \<open>Lemmas\<close>

definition clean_part :: "string \<Rightarrow> bool" where
  "clean_part c \<longleftrightarrow> c \<noteq> [] \<and> c \<noteq> ''.'' \<and> c \<noteq> ''..'' \<and> slash \<notin> set c"

lemma components_no_slash: "slash \<notin> set cur \<Longrightarrow> c \<in> set (components cur p) \<Longrightarrow> slash \<notin> set c"
  by (induction cur p rule: components.induct) (auto split: if_splits)

lemma components_append: "slash \<notin> set w \<Longrightarrow> components cur (w @ p) = components (cur @ w) p"
  by (induction w arbitrary: cur) auto

lemma components_join: "list_all clean_part cs \<Longrightarrow> components [] (join_path cs @ tail) =
   (case cs of [] \<Rightarrow> components [] tail | _ \<Rightarrow> [] # butlast cs @ components (last cs) tail)"
proof (induction cs)
  case (Cons c cs)
  then have "slash \<notin> set c" by (simp add: clean_part_def)
  then have "components [] (join_path (c # cs) @ tail) = [] # components c (join_path cs @ tail)"
    using components_append [of c "[]"] by (simp add: join_path_def)
  moreover have "components c (join_path cs @ tail) = (if cs = [] then components c tail else c # butlast cs @ components (last cs) tail)"
    using Cons by (cases cs) (auto simp: join_path_def slash_def)
  ultimately show ?case by auto
qed (simp add: join_path_def)

lemma foldl_path_step_clean:
  "list_all clean_part st \<Longrightarrow> \<forall>c \<in> set cs. slash \<notin> set c \<Longrightarrow> list_all clean_part (foldl path_step st cs)"
proof (induction cs arbitrary: st)
  case (Cons c cs)
  have "list_all clean_part (path_step st c)"
    using Cons.prems by (auto simp: path_step_def clean_part_def list_all_iff dest: in_set_butlastD)
  then show ?case using Cons by simp
qed simp

lemma clean_parts_clean: "list_all clean_part (clean_parts p)"
  unfolding clean_parts_def using components_no_slash [of "[]"] by (intro foldl_path_step_clean) auto

lemma foldl_path_step_id: "list_all clean_part cs \<Longrightarrow> foldl path_step st cs = st @ cs"
  by (induction cs arbitrary: st) (auto simp: path_step_def clean_part_def)

lemma clean_parts_join:
  assumes "list_all clean_part cs" "tail = [] \<or> tail = [slash]"
  shows "clean_parts (join_path cs @ tail) = cs"
proof (cases cs)
  case Nil
  then show ?thesis using assms by (auto simp: clean_parts_def join_path_def path_step_def)
next
  case (Cons c ds)
  then have "butlast cs @ [last cs] = cs" by simp
  then have "foldl path_step [] (butlast cs @ [last cs]) = cs" using foldl_path_step_id [OF assms(1), of "[]"] by simp
  moreover have "components (last cs) tail = (if tail = [] then [last cs] else [last cs, []])" using assms(2) by auto
  ultimately show ?thesis using components_join [OF assms(1), of tail] Cons
    by (auto simp: clean_parts_def path_step_def foldl_append)
qed

lemma cleanPath_form: "\<exists>cs tail. list_all clean_part cs \<and> (tail = [] \<and> cs \<noteq> [] \<or> tail = [slash]) \<and> cleanPath p = join_path cs @ tail"
  using clean_parts_clean [of p] by (auto simp: cleanPath_def join_path_def)

lemma cleanPath_join:
  assumes "list_all clean_part cs" "tail = [] \<and> cs \<noteq> [] \<or> tail = [slash]"
  shows "cleanPath (join_path cs @ tail) = join_path cs @ tail"
proof -
  have "clean_parts (join_path cs @ tail) = cs" using clean_parts_join assms by blast
  moreover have "last (join_path cs) \<noteq> slash" if ne: "cs \<noteq> []"
  proof -
    obtain ds d where cs: "cs = ds @ [d]" using ne by (cases cs rule: rev_cases) auto
    then have "d \<noteq> []" "slash \<notin> set d" using assms(1) by (simp_all add: clean_part_def)
    moreover from this have "last d \<noteq> slash" using last_in_set by metis
    ultimately show ?thesis using cs by (simp add: join_path_def)
  qed
  ultimately show ?thesis using assms(2) by (auto simp: cleanPath_def join_path_def)
qed

lemma cleanPath_idem [simp]: "cleanPath (cleanPath p) = cleanPath p"
  using cleanPath_form [of p] cleanPath_join by metis

lemma cleanPath_dir:
  assumes "last (cleanPath p) \<noteq> slash"
  shows "cleanPath (cleanPath p @ [slash]) = cleanPath p @ [slash]"
proof -
  obtain cs tail where c: "list_all clean_part cs" "tail = [] \<and> cs \<noteq> [] \<or> tail = [slash]" "cleanPath p = join_path cs @ tail"
    using cleanPath_form by blast
  then have "tail = []" using assms by auto
  then show ?thesis using c cleanPath_join [of cs "[slash]"] by simp
qed

lemma longest_dir_route: "longest_dir mux p = Some (pat, r) \<Longrightarrow> (pat, r) \<in> set mux"
  unfolding longest_dir_def by (induction mux) (auto split: if_splits)

lemma dispatch_route: "mux_dispatch mux p = Handle r \<Longrightarrow> \<exists>pat. (pat, r) \<in> set mux"
  by (auto simp: mux_dispatch_def Let_def split: if_splits option.splits dest: map_of_SomeD longest_dir_route)

section \<open>Properties\<close>

text \<open>A redirected client is not redirected again.\<close>

theorem redirect_once:
  assumes "mux_dispatch mux p = Redirect q"
  shows "mux_dispatch mux q \<noteq> Redirect q'"
proof -
  consider "q = cleanPath p @ [slash]" "last (cleanPath p) \<noteq> slash" "map_of mux q \<noteq> None"
    | "q = cleanPath p" "\<not> (map_of mux q = None \<and> last q \<noteq> slash \<and> map_of mux (q @ [slash]) \<noteq> None)"
    using assms by (auto simp: mux_dispatch_def Let_def split: if_splits option.splits)
  then show ?thesis
    by cases (auto simp: mux_dispatch_def Let_def cleanPath_dir split: if_splits option.splits)
qed

text \<open>
  Profiles are served only when they were enabled: otherwise no path at all leads to one, and
  every path but the three known ones is answered with \<open>404\<close> or a redirect.
\<close>

theorem profiles_hidden:
  assumes "Serve addr listen d = Inr mux" "\<not> dEnablePprof d"
  shows "admin_request ready F now hot cold m d mux path \<noteq> Profile name"
    "mux_dispatch mux path = Handle r \<Longrightarrow> r = Healthz \<and> path = ''/healthz'' \<or> r = MetricsText \<and> path = ''/metrics'' \<or> r = Root"
proof -
  have mux: "mux = [(''/healthz'', Healthz), (''/metrics'', MetricsText), (''/'', Root)]"
    using assms by (auto simp: Serve_def admin_routes_def split: if_splits sum.splits)
  then show "admin_request ready F now hot cold m d mux path \<noteq> Profile name"
    using dispatch_route [of mux path]
    by (auto simp: admin_request_def admin_handler_def split: dispatch.split route.split)
  show "mux_dispatch mux path = Handle r \<Longrightarrow> r = Healthz \<and> path = ''/healthz'' \<or> r = MetricsText \<and> path = ''/metrics'' \<or> r = Root"
    using mux by (auto simp: mux_dispatch_def Let_def longest_dir_def is_dir_pattern_def slash_def split: if_splits option.splits)
qed

lemma admin_paths:
  assumes "Serve addr listen d = Inr mux"
  shows "mux_dispatch mux ''/healthz'' = Handle Healthz" "mux_dispatch mux ''/metrics'' = Handle MetricsText"
    "mux_dispatch mux ''//x/../healthz'' = Redirect ''/healthz''" "mux_dispatch mux ''/'' = Handle Root"
    "dEnablePprof d \<Longrightarrow> mux_dispatch mux ''/debug/pprof'' = Redirect ''/debug/pprof/''"
    "dEnablePprof d \<Longrightarrow> mux_dispatch mux ''/debug/pprof/heap'' = Handle (Pprof ''index'')"
proof -
  have mux: "mux = admin_routes (dEnablePprof d)" using assms by (auto simp: Serve_def split: if_splits sum.splits)
  have "mux_dispatch (admin_routes True) ''/healthz'' = Handle Healthz \<and> mux_dispatch (admin_routes True) ''/metrics'' = Handle MetricsText \<and>
      mux_dispatch (admin_routes True) ''//x/../healthz'' = Redirect ''/healthz'' \<and> mux_dispatch (admin_routes True) ''/'' = Handle Root" by code_simp
  moreover have "mux_dispatch (admin_routes False) ''/healthz'' = Handle Healthz \<and> mux_dispatch (admin_routes False) ''/metrics'' = Handle MetricsText \<and>
      mux_dispatch (admin_routes False) ''//x/../healthz'' = Redirect ''/healthz'' \<and> mux_dispatch (admin_routes False) ''/'' = Handle Root" by code_simp
  moreover have "mux_dispatch (admin_routes True) ''/debug/pprof'' = Redirect ''/debug/pprof/''"
      "mux_dispatch (admin_routes True) ''/debug/pprof/heap'' = Handle (Pprof ''index'')"
    by code_simp+
  ultimately show "mux_dispatch mux ''/healthz'' = Handle Healthz" "mux_dispatch mux ''/metrics'' = Handle MetricsText"
    "mux_dispatch mux ''//x/../healthz'' = Redirect ''/healthz''" "mux_dispatch mux ''/'' = Handle Root"
    "dEnablePprof d \<Longrightarrow> mux_dispatch mux ''/debug/pprof'' = Redirect ''/debug/pprof/''"
    "dEnablePprof d \<Longrightarrow> mux_dispatch mux ''/debug/pprof/heap'' = Handle (Pprof ''index'')"
    using mux by (cases "dEnablePprof d"; simp)+
qed

end
