(* ===== verification/Tracing.thy ===== *)
theory Tracing
  imports Prelude "HOL-Library.Sublist"
begin

text \<open>
  Setting up tracing (\<open>src/obs/tracing.go\<close>): the reading of the collector's address, the checks and
  defaults of \<open>Init\<close> and the shutdown it returns. The parser of \<open>net/url\<close> (scheme and host, or an
  error), the two floating-point comparisons of the sampling ratio, and what the OpenTelemetry SDK
  answers are arguments. The text of an error leaves out the value it quotes.
\<close>

section \<open>Configuration\<close>

record 'f TraceConfig =
  tcEndpoint :: string
  tcServiceName :: string
  tcServiceVersion :: string
  tcSampleRatio :: 'f
  tcInsecure :: bool
  tcBatchTimeout :: int

text \<open>The comparisons \<open>x < 0\<close> and \<open>x > 1\<close> on \<open>float64\<close>, both false of a NaN.\<close>

record 'f ratios =
  rBelow0 :: "'f \<Rightarrow> bool"
  rAbove1 :: "'f \<Rightarrow> bool"

section \<open>The collector's address\<close>

definition contains_str :: "string \<Rightarrow> string \<Rightarrow> bool" where
  "contains_str s sub \<longleftrightarrow> list_ex (prefix sub) (suffixes s)"

definition parseEndpoint :: "(string \<Rightarrow> goerr + string \<times> string) \<Rightarrow> string \<Rightarrow> bool \<Rightarrow> goerr + string \<times> bool" where
  "parseEndpoint url_Parse raw insecureOverride =
     (if \<not> contains_str raw ''://'' then Inr (raw, True)
      else case url_Parse raw of
        Inl e \<Rightarrow> Inl (ErrText ''obs: parse endpoint'')
      | Inr (scheme, host) \<Rightarrow>
          if scheme = ''http'' then Inr (host, True)
          else if scheme = ''https'' then Inr (host, insecureOverride)
          else Inl (ErrText ''obs: unsupported scheme (use http or https)''))"

section \<open>Initialisation\<close>

text \<open>
  What the SDK builds: \<open>sNewExporter\<close> is \<open>otlptrace.New\<close> on a client for a host, plain or with
  TLS, \<open>sResource\<close> is \<open>resource.New\<close> and \<open>sSchemaless\<close> is \<open>resource.NewSchemaless\<close>.
\<close>

type_synonym attrs = "(string \<times> string) list"

record ('e, 'r) sdk =
  sNewExporter :: "string \<Rightarrow> bool \<Rightarrow> goerr + 'e"
  sResource :: "attrs \<Rightarrow> goerr + 'r"
  sSchemaless :: "attrs \<Rightarrow> 'r"

record ('f, 'e, 'r) TracerProvider =
  tpExporter :: 'e
  tpBatchTimeout :: int
  tpSampleRatio :: 'f
  tpResource :: 'r

text \<open>The process-wide state of the package \<open>otel\<close>.\<close>

record ('f, 'e, 'r) otel =
  otProvider :: "('f, 'e, 'r) TracerProvider option"
  otPropagators :: "string list"

definition otel_start :: "('f, 'e, 'r) otel" where
  "otel_start = \<lparr>otProvider = None, otPropagators = []\<rparr>"

text \<open>The function that \<open>Init\<close> returns: nothing to do, or the provider to shut down.\<close>

type_synonym ('f, 'e, 'r) shutdown = "('f, 'e, 'r) TracerProvider option"

definition service_attrs :: "'f TraceConfig \<Rightarrow> attrs" where
  "service_attrs cfg = (''service.name'', tcServiceName cfg) #
     (if tcServiceVersion cfg \<noteq> [] then [(''service.version'', tcServiceVersion cfg)] else [])"

definition trace_defaults :: "'f TraceConfig \<Rightarrow> 'f TraceConfig" where
  "trace_defaults cfg =
     (let c1 = (if tcServiceName cfg = [] then cfg\<lparr>tcServiceName := ''placefs''\<rparr> else cfg)
      in if tcBatchTimeout c1 = 0 then c1\<lparr>tcBatchTimeout := 5 * 10 ^ 9\<rparr> else c1)"

definition trace_Init :: "'f ratios \<Rightarrow> ('e, 'r) sdk \<Rightarrow> (string \<Rightarrow> goerr + string \<times> string) \<Rightarrow> 'f TraceConfig
    \<Rightarrow> ('f, 'e, 'r) otel \<Rightarrow> (('f, 'e, 'r) otel, ('f, 'e, 'r) shutdown) outcome" where
  "trace_Init R S url_Parse cfg0 ot =
     (if tcEndpoint cfg0 = [] then (ot, Inr None)
      else if rBelow0 R (tcSampleRatio cfg0) \<or> rAbove1 R (tcSampleRatio cfg0)
      then (ot, Inl (ErrText ''obs: SampleRatio out of [0,1]''))
      else let cfg = trace_defaults cfg0 in
        case parseEndpoint url_Parse (tcEndpoint cfg) (tcInsecure cfg) of
          Inl e \<Rightarrow> (ot, Inl e)
        | Inr (hostPort, insecure) \<Rightarrow>
            (case sNewExporter S hostPort insecure of
               Inl e \<Rightarrow> (ot, Inl (ErrText ''obs: build OTLP exporter''))
             | Inr ex \<Rightarrow>
                 let res = (case sResource S (service_attrs cfg) of Inl _ \<Rightarrow> sSchemaless S (service_attrs cfg) | Inr r \<Rightarrow> r);
                     tp = \<lparr>tpExporter = ex, tpBatchTimeout = tcBatchTimeout cfg, tpSampleRatio = tcSampleRatio cfg, tpResource = res\<rparr>
                 in (\<lparr>otProvider = Some tp, otPropagators = [''tracecontext'', ''baggage'']\<rparr>, Inr (Some tp))))"

definition tracerName :: string where
  "tracerName = ''github.com/eliothedeman/place''"

text \<open>\<open>Tracer\<close> resolves through the global provider; without one its spans are no-ops.\<close>

definition Tracer :: "('f, 'e, 'r) otel \<Rightarrow> string \<times> ('f, 'e, 'r) TracerProvider option" where
  "Tracer ot = (tracerName, otProvider ot)"

text \<open>
  The returned function joins the errors of the two shutdowns, given as functions of the provider
  and of its exporter; \<open>errors.Join\<close> drops the ones that are nil.
\<close>

definition errors_Join :: "goerr option list \<Rightarrow> goerr list" where
  "errors_Join es = concat (map (\<lambda>e. case e of None \<Rightarrow> [] | Some x \<Rightarrow> [x]) es)"

definition trace_shutdown :: "(('f, 'e, 'r) TracerProvider \<Rightarrow> goerr option) \<Rightarrow> ('e \<Rightarrow> goerr option)
    \<Rightarrow> ('f, 'e, 'r) shutdown \<Rightarrow> goerr list" where
  "trace_shutdown stopProvider stopExporter sd =
     (case sd of None \<Rightarrow> [] | Some tp \<Rightarrow> errors_Join [stopProvider tp, stopExporter (tpExporter tp)])"

section \<open>Lemmas\<close>

lemma contains_str_iff: "contains_str s sub \<longleftrightarrow> sublist sub s"
proof
  assume "contains_str s sub"
  then obtain t where "suffix t s" "prefix sub t" by (auto simp: contains_str_def list_ex_iff)
  then show "sublist sub s" by (auto simp: suffix_def prefix_def sublist_def)
next
  assume "sublist sub s"
  then obtain a b where s: "s = a @ sub @ b" by (auto simp: sublist_def)
  then have "suffix (sub @ b) s" by (auto simp: suffix_def)
  then show "contains_str s sub" unfolding contains_str_def list_ex_iff by (intro bexI [of _ "sub @ b"]) simp_all
qed

text \<open>TLS is used exactly for an \<open>https\<close> address without the override.\<close>

lemma parseEndpoint_tls:
  "parseEndpoint U raw override = Inr (host, False) \<longleftrightarrow>
     sublist ''://'' raw \<and> U raw = Inr (''https'', host) \<and> \<not> override"
  by (auto simp: parseEndpoint_def contains_str_iff split: sum.splits if_splits)

lemma parseEndpoint_bare: "\<not> sublist ''://'' raw \<Longrightarrow> parseEndpoint U raw override = Inr (raw, True)"
  by (simp add: parseEndpoint_def contains_str_iff)

lemma trace_defaults_simps [simp]:
  "tcEndpoint (trace_defaults cfg) = tcEndpoint cfg" "tcSampleRatio (trace_defaults cfg) = tcSampleRatio cfg"
  "tcInsecure (trace_defaults cfg) = tcInsecure cfg" "tcServiceVersion (trace_defaults cfg) = tcServiceVersion cfg"
  "tcServiceName (trace_defaults cfg) \<noteq> []" "tcBatchTimeout (trace_defaults cfg) \<noteq> 0"
  by (auto simp: trace_defaults_def Let_def)

lemma errors_Join_empty: "errors_Join es = [] \<longleftrightarrow> list_all (\<lambda>e. e = None) es"
  by (induction es) (auto simp: errors_Join_def split: option.splits)

section \<open>Properties\<close>

text \<open>
  \<open>Init\<close> either changes nothing of the process and returns an error or a shutdown that does
  nothing, or it installs the provider that the returned shutdown stops. A malformed
  resource environment is never the reason of an error.
\<close>

theorem trace_Init_cases:
  "(\<exists>e. trace_Init R S U cfg ot = (ot, Inl e)) \<or>
   tcEndpoint cfg = [] \<and> trace_Init R S U cfg ot = (ot, Inr None) \<or>
   tcEndpoint cfg \<noteq> [] \<and> (\<exists>tp. trace_Init R S U cfg ot = (\<lparr>otProvider = Some tp, otPropagators = [''tracecontext'', ''baggage'']\<rparr>, Inr (Some tp)) \<and>
     tpSampleRatio tp = tcSampleRatio cfg \<and> tpBatchTimeout tp \<noteq> 0)"
  by (auto simp: trace_Init_def Let_def split: sum.splits)

theorem trace_Init_fails_iff:
  "(\<exists>e. snd (trace_Init R S U cfg ot) = Inl e) \<longleftrightarrow> tcEndpoint cfg \<noteq> [] \<and>
     (rBelow0 R (tcSampleRatio cfg) \<or> rAbove1 R (tcSampleRatio cfg) \<or>
      (case parseEndpoint U (tcEndpoint cfg) (tcInsecure cfg) of Inl _ \<Rightarrow> True
       | Inr (host, plain) \<Rightarrow> (\<exists>e. sNewExporter S host plain = Inl e)))"
  by (auto simp: trace_Init_def Let_def split: sum.splits)

text \<open>A ratio that compares false with both bounds, as a NaN does, passes the check of the range.\<close>

theorem nan_ratio_accepted:
  assumes "\<not> rBelow0 R x" "\<not> rAbove1 R x" "tcSampleRatio cfg = x" "tcEndpoint cfg \<noteq> []"
    "parseEndpoint U (tcEndpoint cfg) (tcInsecure cfg) = Inr (host, plain)" "sNewExporter S host plain = Inr ex"
  shows "\<exists>tp. snd (trace_Init R S U cfg ot) = Inr (Some tp) \<and> tpSampleRatio tp = x"
  using assms by (auto simp: trace_Init_def Let_def)

end
