(* ===== verification/Byte_Sizes.thy ===== *)
theory Byte_Sizes
  imports Decimal
begin

text \<open>
  The byte-size flag of the command line (\<open>src/cmd/placefs/bytes.go\<close>): parsing \<open>10G\<close>,
  \<open>500GB\<close>, \<open>1.5TiB\<close> or a plain number, and printing a size. Strings are ASCII. The
  fall-back to floating point goes through the record \<open>float64\<close>: parsing, the sign test, and
  the product with a unit cut to an \<open>int64\<close>.
\<close>

section \<open>Strings\<close>

definition is_space :: "char \<Rightarrow> bool" where
  "is_space c \<longleftrightarrow> (of_char c :: nat) \<in> {9, 10, 11, 12, 13, 32}"

definition is_letter :: "char \<Rightarrow> bool" where
  "is_letter c \<longleftrightarrow> 97 \<le> (of_char c :: nat) \<and> (of_char c :: nat) \<le> 122 \<or>
     65 \<le> (of_char c :: nat) \<and> (of_char c :: nat) \<le> 90"

definition to_lower :: "char \<Rightarrow> char" where
  "to_lower c = (if 65 \<le> (of_char c :: nat) \<and> (of_char c :: nat) \<le> 90 then char_of ((of_char c :: nat) + 32) else c)"

definition TrimSpace :: "string \<Rightarrow> string" where
  "TrimSpace s = rev (dropWhile is_space (rev (dropWhile is_space s)))"

text \<open>\<open>strconv.ParseInt(s, 10, 64)\<close>; \<open>None\<close> is a syntax or range error.\<close>

definition parse_int64 :: "string \<Rightarrow> int option" where
  "parse_int64 s = (case s of
     [] \<Rightarrow> None
   | c # cs \<Rightarrow>
       let neg = (c = CHR ''-''); ds = (if c = CHR ''-'' \<or> c = CHR ''+'' then cs else s)
       in if ds = [] \<or> \<not> list_all is_digit ds then None
          else let n = int (dec_value ds); x = (if neg then - n else n)
            in if in_i64 x then Some x else None)"

definition format_int :: "int \<Rightarrow> string" where
  "format_int n = (if n < 0 then CHR ''-'' # format_nat (nat (- n)) else format_nat (nat n))"

section \<open>The flag\<close>

record 'f float64 =
  f_parse :: "string \<Rightarrow> 'f option"
  f_negative :: "'f \<Rightarrow> bool"
  f_scale :: "'f \<Rightarrow> int \<Rightarrow> int"

definition unit_of :: "string \<Rightarrow> int option" where
  "unit_of suf =
     (if suf \<in> {'''', ''b''} then Some 1
      else if suf \<in> {''k'', ''kb'', ''kib''} then Some (2 ^ 10)
      else if suf \<in> {''m'', ''mb'', ''mib''} then Some (2 ^ 20)
      else if suf \<in> {''g'', ''gb'', ''gib''} then Some (2 ^ 30)
      else if suf \<in> {''t'', ''tb'', ''tib''} then Some (2 ^ 40)
      else if suf \<in> {''p'', ''pb'', ''pib''} then Some (2 ^ 50)
      else None)"

definition parseBytes :: "'f float64 \<Rightarrow> string \<Rightarrow> goerr + int" where
  "parseBytes F s0 = (let s = TrimSpace s0 in
     if s = [] then Inl (ErrText ''empty value'')
     else let numPart = TrimSpace (rev (dropWhile is_letter (rev s)));
              suf = map to_lower (TrimSpace (rev (takeWhile is_letter (rev s))))
       in if numPart = [] then Inl (ErrText ''no numeric prefix'')
          else case unit_of suf of
            None \<Rightarrow> Inl (ErrText ''unknown size suffix'')
          | Some unit \<Rightarrow>
              (case parse_int64 numPart of
                 Some n \<Rightarrow> if n < 0 then Inl (ErrText ''negative size'') else Inr (i64 (n * unit))
               | None \<Rightarrow>
                   (case f_parse F numPart of
                      None \<Rightarrow> Inl (ErrText ''invalid number'')
                    | Some f \<Rightarrow> if f_negative F f then Inl (ErrText ''negative size'') else Inr (f_scale F f unit))))"

definition size_units :: "(int \<times> string) list" where
  "size_units = [(2 ^ 50, ''PiB''), (2 ^ 40, ''TiB''), (2 ^ 30, ''GiB''), (2 ^ 20, ''MiB''), (2 ^ 10, ''KiB'')]"

definition formatBytes :: "int \<Rightarrow> string" where
  "formatBytes n = (if n = 0 then ''0'' else case find (\<lambda>(u, name). go_mod n u = 0) size_units of
     Some (u, name) \<Rightarrow> format_int (go_div n u) @ name
   | None \<Rightarrow> format_int n)"

definition bytesValue_String :: "int option \<Rightarrow> string" where
  "bytesValue_String b = (case b of None \<Rightarrow> ''0'' | Some n \<Rightarrow> formatBytes n)"

definition bytesValue_Set :: "'f float64 \<Rightarrow> int \<Rightarrow> string \<Rightarrow> (int, unit) outcome" where
  "bytesValue_Set F b s = (case parseBytes F s of Inl e \<Rightarrow> (b, Inl e) | Inr v \<Rightarrow> (v, Inr ()))"

section \<open>Lemmas\<close>

lemma digit_not_letter: "is_digit c \<Longrightarrow> \<not> is_letter c" "is_digit c \<Longrightarrow> \<not> is_space c"
  by (auto simp: is_digit_def is_letter_def is_space_def)

lemma letter_not_space: "is_letter c \<Longrightarrow> \<not> is_space c"
  by (auto simp: is_letter_def is_space_def)

lemma TrimSpace_id: "\<not> is_space (hd s) \<Longrightarrow> \<not> is_space (last s) \<Longrightarrow> TrimSpace s = s"
  unfolding TrimSpace_def by (metis dropWhile_eq_self_iff hd_rev rev_rev_ident)

lemma takeWhile_rev_suffix:
  assumes "list_all P suf" "ds \<noteq> []" "\<not> P (last ds)"
  shows "rev (takeWhile P (rev (ds @ suf))) = suf" "rev (dropWhile P (rev (ds @ suf))) = ds"
proof -
  obtain ys y where y: "ds = ys @ [y]" using assms(2) by (cases ds rule: rev_cases) auto
  have "takeWhile P (rev (ds @ suf)) = rev suf @ takeWhile P (rev ds)"
    using takeWhile_append2 [of "rev suf" P "rev ds"] assms(1) by (simp add: list_all_iff)
  then show "rev (takeWhile P (rev (ds @ suf))) = suf" using y assms(3) by simp
  have "dropWhile P (rev (ds @ suf)) = dropWhile P (rev ds)"
    using dropWhile_append2 [of "rev suf" P "rev ds"] assms(1) by (simp add: list_all_iff)
  then show "rev (dropWhile P (rev (ds @ suf))) = ds" using y assms(3) by simp
qed

lemma parse_int64_digits:
  assumes "list_all is_digit ds" "ds \<noteq> []" "dec_value ds < 2 ^ 63"
  shows "parse_int64 ds = Some (int (dec_value ds))"
proof -
  obtain c cs where c: "ds = c # cs" using assms(2) by (cases ds) auto
  then have "is_digit c" using assms(1) by simp
  then have "c \<noteq> CHR ''-''" "c \<noteq> CHR ''+''" by (auto simp: is_digit_def)
  then show ?thesis using assms c by (simp add: parse_int64_def in_i64_def)
qed

lemma parseBytes_digits:
  assumes "list_all is_digit ds" "ds \<noteq> []" "dec_value ds < 2 ^ 63" "list_all is_letter suf"
    "unit_of (map to_lower suf) = Some u"
  shows "parseBytes F (ds @ suf) = Inr (i64 (int (dec_value ds) * u))"
proof -
  have hl: "is_digit (hd ds)" "is_digit (last ds)" using assms(1,2) by (auto simp: list_all_iff)
  have "is_letter (last suf)" if "suf \<noteq> []" using that assms(4) by (auto simp: list_all_iff)
  then have "\<not> is_space (last (ds @ suf))" "\<not> is_space (hd (ds @ suf))"
    using hl assms(2) digit_not_letter letter_not_space by (auto simp: last_append)
  then have t: "TrimSpace (ds @ suf) = ds @ suf" by (intro TrimSpace_id)
  have td: "TrimSpace ds = ds" using hl digit_not_letter by (intro TrimSpace_id) auto
  have ts: "TrimSpace suf = suf"
  proof (cases "suf = []")
    case False
    then have "is_letter (hd suf)" "is_letter (last suf)" using assms(4) by (auto simp: list_all_iff)
    then show ?thesis using letter_not_space by (intro TrimSpace_id) auto
  qed (simp add: TrimSpace_def)
  have sp: "rev (takeWhile is_letter (rev (ds @ suf))) = suf" "rev (dropWhile is_letter (rev (ds @ suf))) = ds"
    using takeWhile_rev_suffix [OF assms(4,2)] hl(2) digit_not_letter by auto
  show ?thesis
    unfolding parseBytes_def t sp td ts Let_def
    using assms(2,5) parse_int64_digits [OF assms(1-3)] by simp
qed

lemma size_units_ok:
  "list_all (\<lambda>(d, name). list_all is_letter name \<and> unit_of (map to_lower name) = Some d \<and> 0 < d) size_units"
  by code_simp

lemma size_unit_suffix:
  "(d, name) \<in> set size_units \<Longrightarrow> list_all is_letter name \<and> unit_of (map to_lower name) = Some d \<and> 0 < d"
  using size_units_ok by (auto simp: list_all_iff)

section \<open>Properties\<close>

text \<open>C27: a size that is printed parses back to itself, for every non-negative 64-bit size.\<close>

theorem size_roundtrip:
  assumes "0 \<le> n" "n < 2 ^ 63"
  shows "parseBytes F (formatBytes n) = Inr n"
proof (cases "n = 0")
  case True
  then show ?thesis
    using parseBytes_digits [of "''0''" "[]" 1 F]
    by (simp add: formatBytes_def is_digit_def dec_value_def digit_val_def unit_of_def i64_small)
next
  case False
  show ?thesis
  proof (cases "find (\<lambda>(u, name). go_mod n u = 0) size_units")
    case None
    then show ?thesis
      using False assms parseBytes_digits [of "format_nat (nat n)" "[]" 1 F]
      by (simp add: formatBytes_def format_int_def format_nat_digits unit_of_def i64_small nat_less_iff)
  next
    case (Some p)
    obtain d name where p: "p = (d, name)" by fastforce
    then have m: "(d, name) \<in> set size_units" "go_mod n d = 0" using Some by (auto simp: find_Some_iff in_set_conv_nth)
    note u = size_unit_suffix [OF m(1)]
    have dv: "n = n div d * d" using m(2) u assms(1) by (simp add: go_mod_nonneg mod_0_imp_dvd)
    have q: "0 \<le> n div d" using assms(1) u by (simp add: pos_imp_zdiv_nonneg_iff)
    have le: "n div d \<le> n" using mult_left_mono [of 1 d "n div d"] q u dv by simp
    then have "parseBytes F (format_nat (nat (n div d)) @ name) = Inr (i64 (int (nat (n div d)) * d))"
      using parseBytes_digits [of "format_nat (nat (n div d))" name d F] u assms
      by (simp add: format_nat_digits nat_less_iff)
    moreover have "go_div n d = n div d" using assms(1) u by (simp add: go_div_nonneg)
    ultimately show ?thesis
      using False Some p dv q assms by (simp add: formatBytes_def format_int_def i64_small)
  qed
qed

text \<open>A float parser that rejects everything, for the concrete inputs.\<close>

definition no_float :: "unit float64" where
  "no_float = \<lparr>f_parse = (\<lambda>_. None), f_negative = (\<lambda>_. False), f_scale = (\<lambda>_ u. u)\<rparr>"

theorem size_roundtrip_witness: "parseBytes no_float (formatBytes (3 * 2 ^ 30)) = Inr (3 * 2 ^ 30)"
  by (rule size_roundtrip) simp_all

text \<open>
  A number of units whose product leaves the 64-bit range is accepted, and the flag's
  value is the product after wrap-around: eight million terabytes become a negative size.
\<close>

theorem parseBytes_wraps:
  assumes "list_all is_digit ds" "ds \<noteq> []" "dec_value ds < 2 ^ 63" "list_all is_letter suf"
    "unit_of (map to_lower suf) = Some u" "2 ^ 63 \<le> int (dec_value ds) * u"
  shows "\<exists>v. parseBytes F (ds @ suf) = Inr v \<and> v \<noteq> int (dec_value ds) * u \<and> in_i64 v"
proof -
  let ?v = "i64 (int (dec_value ds) * u)"
  have "in_i64 ?v" by (rule i64_range)
  then show ?thesis using parseBytes_digits [OF assms(1-5), of F] assms(6) by (auto simp: in_i64_def)
qed

theorem parseBytes_wraps_witness:
  "\<exists>v. parseBytes no_float ''8388608TB'' = Inr v \<and> v \<noteq> 8388608 * 2 ^ 40 \<and> in_i64 v"
proof -
  have "list_all is_digit ''8388608'' \<and> list_all is_letter ''TB'' \<and> unit_of (map to_lower ''TB'') = Some (2 ^ 40)"
    by code_simp
  moreover have "dec_value ''8388608'' = 8388608" by (simp add: dec_value_def digit_val_def)
  ultimately show ?thesis using parseBytes_wraps [of "''8388608''" "''TB''" "2 ^ 40" no_float] by simp
qed

end
