(* ===== verification/Flags.thy ===== *)
theory Flags
  imports Byte_Sizes Maintenance
begin

text \<open>
  The command line of \<open>src/cmd/placefs/main.go\<close>: the flags with their defaults, the parsing that
  \<open>flag.Parse\<close> does with them, and \<open>makeLogger\<close>. Arguments are ASCII. The two parsers of the standard
  library that go through floating point, \<open>time.ParseDuration\<close> and \<open>strconv.ParseFloat\<close>, are
  arguments, as is the default \<open>0.01\<close> of the sampling ratio. Durations are nanoseconds.
\<close>

section \<open>Flags\<close>

record 'f Flags =
  flHot :: string
  flCold :: string
  flMount :: string
  flDB :: string
  flHotMax :: int
  flHotTarget :: int
  flStripe :: int
  flSegMax :: int
  flTick :: int
  flAdminAddr :: string
  flHealthMaxGap :: int
  flShutdownGrace :: int
  flLogLevel :: string
  flLogFormat :: string
  flDebugPprof :: bool
  flSlowOp :: int
  flAllowOther :: bool
  flDefaultPermissions :: bool
  flMaxWrite :: int
  flWritebackCache :: bool
  flOtelEndpoint :: string
  flOtelServiceName :: string
  flOtelServiceVersion :: string
  flOtelSampleRatio :: 'f
  flOtelInsecure :: bool

definition seconds :: "int \<Rightarrow> int" where "seconds n = n * 10 ^ 9"

definition default_flags :: "'f \<Rightarrow> 'f Flags" where
  "default_flags ratio =
     \<lparr>flHot = [], flCold = [], flMount = [], flDB = [], flHotMax = 0, flHotTarget = 0,
      flStripe = DefaultStripeSize, flSegMax = DefaultSegmentMaxSize,
      flTick = seconds 30, flAdminAddr = '':9090'', flHealthMaxGap = seconds 300, flShutdownGrace = seconds 30,
      flLogLevel = ''info'', flLogFormat = ''text'', flDebugPprof = False, flSlowOp = seconds 1,
      flAllowOther = True, flDefaultPermissions = True, flMaxWrite = 2 ^ 20, flWritebackCache = True,
      flOtelEndpoint = [], flOtelServiceName = ''placefs'', flOtelServiceVersion = [],
      flOtelSampleRatio = ratio, flOtelInsecure = False\<rparr>"

section \<open>Values\<close>

text \<open>What \<open>Set\<close> of a flag does with a value; \<open>None\<close> when it refuses the value.\<close>

type_synonym 'f setter = "string \<Rightarrow> 'f Flags \<Rightarrow> 'f Flags option"

definition parse_bool :: "string \<Rightarrow> bool option" where
  "parse_bool s = (if s \<in> {''1'', ''t'', ''T'', ''true'', ''TRUE'', ''True''} then Some True
     else if s \<in> {''0'', ''f'', ''F'', ''false'', ''FALSE'', ''False''} then Some False else None)"

definition stringVar :: "(string \<Rightarrow> 'f Flags \<Rightarrow> 'f Flags) \<Rightarrow> 'f setter" where
  "stringVar put v fl = Some (put v fl)"

definition boolVar :: "(bool \<Rightarrow> 'f Flags \<Rightarrow> 'f Flags) \<Rightarrow> 'f setter" where
  "boolVar put v fl = map_option (\<lambda>b. put b fl) (parse_bool v)"

definition bytesVar :: "'f float64 \<Rightarrow> ('f Flags \<Rightarrow> int) \<Rightarrow> (int \<Rightarrow> 'f Flags \<Rightarrow> 'f Flags) \<Rightarrow> 'f setter" where
  "bytesVar F now put v fl = (case bytesValue_Set F (now fl) v of (_, Inl _) \<Rightarrow> None | (n, Inr _) \<Rightarrow> Some (put n fl))"

definition optVar :: "(string \<Rightarrow> 'a option) \<Rightarrow> ('a \<Rightarrow> 'f Flags \<Rightarrow> 'f Flags) \<Rightarrow> 'f setter" where
  "optVar parse put v fl = map_option (\<lambda>x. put x fl) (parse v)"

definition bool_flags :: "(string \<times> 'f setter) list" where
  "bool_flags =
     [(''debug-pprof'', boolVar (\<lambda>b fl. fl\<lparr>flDebugPprof := b\<rparr>)),
      (''allow-other'', boolVar (\<lambda>b fl. fl\<lparr>flAllowOther := b\<rparr>)),
      (''default-permissions'', boolVar (\<lambda>b fl. fl\<lparr>flDefaultPermissions := b\<rparr>)),
      (''writeback-cache'', boolVar (\<lambda>b fl. fl\<lparr>flWritebackCache := b\<rparr>)),
      (''otel-insecure'', boolVar (\<lambda>b fl. fl\<lparr>flOtelInsecure := b\<rparr>))]"

definition value_flags :: "'f float64 \<Rightarrow> (string \<Rightarrow> int option) \<Rightarrow> (string \<times> 'f setter) list" where
  "value_flags F D =
     [(''hot'', stringVar (\<lambda>v fl. fl\<lparr>flHot := v\<rparr>)),
      (''cold'', stringVar (\<lambda>v fl. fl\<lparr>flCold := v\<rparr>)),
      (''mount'', stringVar (\<lambda>v fl. fl\<lparr>flMount := v\<rparr>)),
      (''db'', stringVar (\<lambda>v fl. fl\<lparr>flDB := v\<rparr>)),
      (''hot-max'', bytesVar F flHotMax (\<lambda>n fl. fl\<lparr>flHotMax := n\<rparr>)),
      (''hot-target'', bytesVar F flHotTarget (\<lambda>n fl. fl\<lparr>flHotTarget := n\<rparr>)),
      (''stripe'', bytesVar F flStripe (\<lambda>n fl. fl\<lparr>flStripe := n\<rparr>)),
      (''segment-max'', bytesVar F flSegMax (\<lambda>n fl. fl\<lparr>flSegMax := n\<rparr>)),
      (''tick'', optVar D (\<lambda>d fl. fl\<lparr>flTick := d\<rparr>)),
      (''admin-addr'', stringVar (\<lambda>v fl. fl\<lparr>flAdminAddr := v\<rparr>)),
      (''health-max-tick-gap'', optVar D (\<lambda>d fl. fl\<lparr>flHealthMaxGap := d\<rparr>)),
      (''shutdown-grace'', optVar D (\<lambda>d fl. fl\<lparr>flShutdownGrace := d\<rparr>)),
      (''log-level'', stringVar (\<lambda>v fl. fl\<lparr>flLogLevel := v\<rparr>)),
      (''log-format'', stringVar (\<lambda>v fl. fl\<lparr>flLogFormat := v\<rparr>)),
      (''slow-op-threshold'', optVar D (\<lambda>d fl. fl\<lparr>flSlowOp := d\<rparr>)),
      (''fuse-max-write'', bytesVar F flMaxWrite (\<lambda>n fl. fl\<lparr>flMaxWrite := n\<rparr>)),
      (''otel-endpoint'', stringVar (\<lambda>v fl. fl\<lparr>flOtelEndpoint := v\<rparr>)),
      (''otel-service-name'', stringVar (\<lambda>v fl. fl\<lparr>flOtelServiceName := v\<rparr>)),
      (''otel-service-version'', stringVar (\<lambda>v fl. fl\<lparr>flOtelServiceVersion := v\<rparr>)),
      (''otel-sample-ratio'', optVar (f_parse F) (\<lambda>x fl. fl\<lparr>flOtelSampleRatio := x\<rparr>))]"

section \<open>Parsing\<close>

datatype 'f parsed = Parsed "'f Flags" "string list" | Help | Usage

text \<open>\<open>name=value\<close> at the first equals sign after the first character.\<close>

definition flag_name :: "string \<Rightarrow> string" where
  "flag_name s = hd s # takeWhile (\<lambda>c. c \<noteq> CHR ''='') (tl s)"

definition flag_value :: "string \<Rightarrow> string option" where
  "flag_value s = (case dropWhile (\<lambda>c. c \<noteq> CHR ''='') (tl s) of [] \<Rightarrow> None | _ # v \<Rightarrow> Some v)"

fun parse_args :: "(string \<times> 'f setter) list \<Rightarrow> (string \<times> 'f setter) list \<Rightarrow> string list \<Rightarrow> 'f Flags \<Rightarrow> 'f parsed" where
  "parse_args bools vals [] fl = Parsed fl []"
| "parse_args bools vals (s # rest) fl =
     (if length s < 2 \<or> hd s \<noteq> CHR ''-'' then Parsed fl (s # rest)
      else if s = ''--'' then Parsed fl rest
      else let body = (if s ! 1 = CHR ''-'' then drop 2 s else drop 1 s)
        in if hd body = CHR ''-'' \<or> hd body = CHR ''='' then Usage
           else case map_of bools (flag_name body) of
             Some put \<Rightarrow> (case put (case flag_value body of None \<Rightarrow> ''true'' | Some v \<Rightarrow> v) fl of
               None \<Rightarrow> Usage | Some fl1 \<Rightarrow> parse_args bools vals rest fl1)
           | None \<Rightarrow> (case map_of vals (flag_name body) of
               None \<Rightarrow> if flag_name body \<in> {''help'', ''h''} then Help else Usage
             | Some put \<Rightarrow> (case flag_value body of
                 Some v \<Rightarrow> (case put v fl of None \<Rightarrow> Usage | Some fl1 \<Rightarrow> parse_args bools vals rest fl1)
               | None \<Rightarrow> (case rest of
                   [] \<Rightarrow> Usage
                 | v # rest1 \<Rightarrow> (case put v fl of None \<Rightarrow> Usage | Some fl1 \<Rightarrow> parse_args bools vals rest1 fl1)))))"

definition parse_flags :: "'f float64 \<Rightarrow> (string \<Rightarrow> int option) \<Rightarrow> 'f \<Rightarrow> string list \<Rightarrow> 'f parsed" where
  "parse_flags F D ratio args = parse_args bool_flags (value_flags F D) args (default_flags ratio)"

section \<open>Logger\<close>

datatype Level = LevelDebug | LevelInfo | LevelWarn | LevelError

datatype Handler = TextHandler Level | JSONHandler Level

definition makeLogger :: "string \<Rightarrow> string \<Rightarrow> goerr + Handler" where
  "makeLogger level format =
     bindE (let l = map to_lower level in
        if l = ''debug'' then Inr LevelDebug
        else if l = ''info'' then Inr LevelInfo
        else if l = ''warn'' \<or> l = ''warning'' then Inr LevelWarn
        else if l = ''error'' then Inr LevelError
        else Inl (ErrText ''invalid -log-level (want debug|info|warn|error)''))
      (\<lambda>lv. let f = map to_lower format in
        if f = ''text'' \<or> f = [] then Inr (TextHandler lv)
        else if f = ''json'' then Inr (JSONHandler lv)
        else Inl (ErrText ''invalid -log-format (want text|json)''))"

section \<open>Lemmas\<close>

definition plain_name :: "string \<Rightarrow> bool" where
  "plain_name n \<longleftrightarrow> n \<noteq> [] \<and> hd n \<noteq> CHR ''-'' \<and> CHR ''='' \<notin> set n"

lemma flag_split:
  assumes "plain_name n"
  shows "flag_name (n @ CHR ''='' # v) = n" "flag_value (n @ CHR ''='' # v) = Some v"
proof -
  obtain c cs where n: "n = c # cs" "CHR ''='' \<notin> set cs" using assms by (cases n) (auto simp: plain_name_def)
  then have a: "\<forall>x \<in> set cs. x \<noteq> CHR ''=''" by auto
  have "takeWhile (\<lambda>c. c \<noteq> CHR ''='') (cs @ CHR ''='' # v) = cs" using a by simp
  moreover have "dropWhile (\<lambda>c. c \<noteq> CHR ''='') (cs @ CHR ''='' # v) = CHR ''='' # v" using a by simp
  ultimately show "flag_name (n @ CHR ''='' # v) = n" "flag_value (n @ CHR ''='' # v) = Some v"
    using n by (simp_all add: flag_name_def flag_value_def)
qed

lemma flag_names_plain: "n \<in> fst ` set (bool_flags @ value_flags F D) \<Longrightarrow> plain_name n"
  by (auto simp: bool_flags_def value_flags_def plain_name_def)

lemma flag_names_distinct: "distinct (map fst (bool_flags @ value_flags F D))"
  by (simp add: bool_flags_def value_flags_def)

section \<open>Properties\<close>

text \<open>Setting the flags of a list one after the other.\<close>

fun assign_flags :: "(string \<times> 'f setter) list \<Rightarrow> (string \<times> string) list \<Rightarrow> 'f Flags \<Rightarrow> 'f Flags option" where
  "assign_flags tab [] fl = Some fl"
| "assign_flags tab ((n, v) # as) fl = Option.bind (map_of tab n) (\<lambda>put. Option.bind (put v fl) (assign_flags tab as))"

text \<open>
  A command line of arguments \<open>-name=value\<close> sets each flag in turn, so that the last of two
  values for a flag counts; an undefined name or a refused value is a usage error.
\<close>

theorem parse_assignments:
  assumes "\<forall>(n, v) \<in> set as. n \<in> fst ` set (bool_flags @ value_flags F D)"
  shows "parse_args bool_flags (value_flags F D) (map (\<lambda>(n, v). CHR ''-'' # n @ CHR ''='' # v) as) fl =
    (case assign_flags (bool_flags @ value_flags F D) as fl of None \<Rightarrow> Usage | Some fl1 \<Rightarrow> Parsed fl1 [])"
  using assms
proof (induction as arbitrary: fl)
  case (Cons a as)
  obtain n v where a: "a = (n, v)" by fastforce
  have m: "n \<in> fst ` set (bool_flags @ value_flags F D)" using Cons.prems a by simp
  then have pl: "plain_name n" by (rule flag_names_plain)
  have ih: "\<And>fl. parse_args bool_flags (value_flags F D) (map (\<lambda>(n, v). CHR ''-'' # n @ CHR ''='' # v) as) fl =
    (case assign_flags (bool_flags @ value_flags F D) as fl of None \<Rightarrow> Usage | Some fl1 \<Rightarrow> Parsed fl1 [])"
    using Cons by simp
  obtain c cs where n: "n = c # cs" "c \<noteq> CHR ''-''" "c \<noteq> CHR ''=''" using pl by (cases n) (auto simp: plain_name_def)
  obtain put where p: "map_of (bool_flags @ value_flags F D) n = Some put"
    using m by (metis domD dom_map_of_conv_image_fst)
  then have "case map_of bool_flags n of Some q \<Rightarrow> q = put | None \<Rightarrow> map_of (value_flags F D) n = Some put"
    by (simp add: map_add_def split: option.splits)
  then show ?case using a n p ih flag_split [OF pl, of v] by (cases "put v fl") (auto split: option.splits)
qed simp

text \<open>The parsing of the command line of a typical start.\<close>

lemma parse_flags_example:
  "\<exists>fl. parse_flags no_float (\<lambda>_. None) () [''-hot=/h'', ''--cold'', ''/c'', ''-mount=/m'', ''-hot-max=4K'', ''-allow-other=f'', ''-debug-pprof''] = Parsed fl [] \<and>
     flHot fl = ''/h'' \<and> flCold fl = ''/c'' \<and> flHotMax fl = 4096 \<and> \<not> flAllowOther fl \<and> flDebugPprof fl \<and> flStripe fl = 67108864"
proof -
  let ?p = "parse_flags no_float (\<lambda>_. None) () [''-hot=/h'', ''--cold'', ''/c'', ''-mount=/m'', ''-hot-max=4K'', ''-allow-other=f'', ''-debug-pprof'']"
  have "(case ?p of Parsed fl rest \<Rightarrow> rest = [] \<and> flHot fl = ''/h'' \<and> flCold fl = ''/c'' \<and> flHotMax fl = 4096 \<and> \<not> flAllowOther fl \<and>
      flDebugPprof fl \<and> flStripe fl = 67108864 | _ \<Rightarrow> False)"
    by code_simp
  then show ?thesis by (auto split: parsed.splits)
qed

text \<open>The level and the format are read without regard to case, and nothing else is accepted.\<close>

lemma makeLogger_accepts:
  "(\<exists>h. makeLogger level format = Inr h) \<longleftrightarrow>
     map to_lower level \<in> {''debug'', ''info'', ''warn'', ''warning'', ''error''} \<and> map to_lower format \<in> {[], ''text'', ''json''}"
  by (auto simp: makeLogger_def Let_def)

end
