(* ===== verification/Startup.thy ===== *)
theory Startup
  imports Flags Tracing Admin_Serve Shutdown
begin

text \<open>
  The life of the process (\<open>main\<close> of \<open>src/cmd/placefs/main.go\<close>): which calls it makes in which order,
  with which configuration, what it undoes when one of them fails, and how it ends. The calls
  into the other components are their models; what the operating system, the FUSE library and
  the collector answer is the record \<open>outside\<close>. Its field \<open>oServing\<close> is all that the requests and the mover
  do while the file system is mounted, and how that ends; \<open>oLastTurns\<close> are the turns of the
  mover until \<open>Stop\<close> has waited for it. Log messages are left out.
\<close>

section \<open>Configuration of the components\<close>

definition required_flags :: "'f Flags \<Rightarrow> bool" where
  "required_flags fl \<longleftrightarrow> flHot fl \<noteq> [] \<and> flCold fl \<noteq> [] \<and> flMount fl \<noteq> []"

definition trace_config :: "'f Flags \<Rightarrow> 'f TraceConfig" where
  "trace_config fl = \<lparr>tcEndpoint = flOtelEndpoint fl, tcServiceName = flOtelServiceName fl,
     tcServiceVersion = flOtelServiceVersion fl, tcSampleRatio = flOtelSampleRatio fl,
     tcInsecure = flOtelInsecure fl, tcBatchTimeout = 0\<rparr>"

definition index_config :: "'f Flags \<Rightarrow> Config" where
  "index_config fl = \<lparr>cfgHotDir = flHot fl, cfgColdDir = flCold fl, cfgDBPath = flDB fl,
     cfgStripeSize = flStripe fl, cfgSegmentMaxSize = flSegMax fl, cfgRoot = []\<rparr>"

definition mover_config :: "'f Flags \<Rightarrow> MoverConfig" where
  "mover_config fl = \<lparr>mcHotMaxBytes = flHotMax fl, mcHotTargetBytes = flHotTarget fl, mcTick = flTick fl, mcMaxBackoff = 0\<rparr>"

definition admin_deps :: "'f Flags \<Rightarrow> 'db Index \<Rightarrow> int \<Rightarrow> 'db Deps" where
  "admin_deps fl idx startTime = \<lparr>dIndex = idx, dMover = Some zero_stats, dFuse = Some NewMetrics,
     dHealthMaxTickGap = flHealthMaxGap fl, dStartTime = Some startTime, dEnablePprof = flDebugPprof fl\<rparr>"

record MountOptions =
  moName :: string
  moFsName :: string
  moAllowOther :: bool
  moMaxWrite :: int
  moOptions :: "string list"
  moWritebackCache :: bool

definition mount_options :: "'f Flags \<Rightarrow> MountOptions" where
  "mount_options fl = \<lparr>moName = ''placefs'', moFsName = ''placefs'', moAllowOther = flAllowOther fl, moMaxWrite = flMaxWrite fl,
     moOptions = (if flDefaultPermissions fl then [''default_permissions''] else []), moWritebackCache = flWritebackCache fl\<rparr>"

section \<open>The outside\<close>

text \<open>
  Serving ends when \<open>Wait\<close> returns, or with the process when the signal handler does not see
  the unmount within the grace period.
\<close>

datatype 's ending = Unmounted 's | GraceExceeded

record ('db, 'sem) outside =
  oMkdir :: "string \<Rightarrow> bool"
  oMigrate :: "goerr + unit"
  oOpened :: "'db \<times> (goerr + unit)"
  oHotDir :: dir
  oColdDir :: dir
  oSeqNow :: u64
  oOS :: os
  oNow :: int
  oFourFifths :: "int \<Rightarrow> int"
  oListen :: "goerr + unit"
  oMount :: "string \<Rightarrow> MountOptions \<Rightarrow> bool"
  oServing :: "Stats \<times> ('db, 'sem) Store \<Rightarrow> (Stats \<times> ('db, 'sem) Store) ending"
  oLastTurns :: "turn option list"
  oTraceStop :: bool

text \<open>The calls of a run with whether they succeeded, and what is left of the index.\<close>

datatype call = CTraceInit | CMkdir string | CIndexOpen | CStoreOpen | CIndexClose | CMoverStart | CAdminServe
  | CPprofListen | CMount | CMarkReady | CCancelAdmin | CMoverStop | CStoreClose | CTraceShutdown

type_synonym calls = "(call \<times> bool) list"

record 'db run =
  rnCalls :: calls
  rnExit :: nat
  rnIndex :: "'db Index option"

definition prepend :: "calls \<Rightarrow> 'db run \<Rightarrow> 'db run" where
  "prepend cs r = r\<lparr>rnCalls := cs @ rnCalls r\<rparr>"

section \<open>Ending\<close>

text \<open>
  \<open>os.Exit\<close> ends the process at once, with none of the deferred calls; a panic runs them and
  ends with status 2.
\<close>

fun fail_with :: "calls \<Rightarrow> goerr \<Rightarrow> 'db Index \<Rightarrow> 'db run" where
  "fail_with deferred (Panic p) idx = \<lparr>rnCalls = deferred, rnExit = 2, rnIndex = Some idx\<rparr>"
| "fail_with deferred e idx = \<lparr>rnCalls = [], rnExit = 1, rnIndex = Some idx\<rparr>"

definition deferred_calls :: "('db, 'sem) outside \<Rightarrow> calls" where
  "deferred_calls X = [(CCancelAdmin, True), (CTraceShutdown, oTraceStop X)]"

text \<open>\<open>Stop\<close> of the mover, then \<open>Close\<close> of the store; \<open>exit\<close> is what follows a close that does not panic.\<close>

definition stop_and_close :: "'db pebble \<Rightarrow> 'sem weighted \<Rightarrow> ('db, 'sem) outside \<Rightarrow> MoverConfig \<Rightarrow> calls \<times> nat
    \<Rightarrow> Stats \<times> ('db, 'sem) Store \<Rightarrow> 'db run" where
  "stop_and_close P W X mc exit mst =
     (case mover_run P mc (oLastTurns X) (fst mst, stIdx (snd mst)) of ((m1, idx1), _) \<Rightarrow>
      case Store_Close P W ((snd mst)\<lparr>stIdx := idx1\<rparr>) of (st2, r) \<Rightarrow>
        prepend [(CMoverStop, True), (CStoreClose, r = Inr ())]
          (if panicked r then \<lparr>rnCalls = deferred_calls X, rnExit = 2, rnIndex = Some (stIdx st2)\<rparr>
           else \<lparr>rnCalls = fst exit, rnExit = snd exit, rnIndex = Some (stIdx st2)\<rparr>))"

section \<open>The stages of main\<close>

definition run_mounted :: "'db pebble \<Rightarrow> 'sem weighted \<Rightarrow> ('db, 'sem) outside \<Rightarrow> MoverConfig \<Rightarrow> Stats \<times> ('db, 'sem) Store \<Rightarrow> 'db run" where
  "run_mounted P W X mc mst = prepend [(CMarkReady, True)] (case oServing X mst of
     GraceExceeded \<Rightarrow> \<lparr>rnCalls = [], rnExit = 1, rnIndex = None\<rparr>
   | Unmounted mst1 \<Rightarrow> prepend [(CCancelAdmin, True)] (stop_and_close P W X mc (deferred_calls X, 0) mst1))"

definition run_mount :: "'db pebble \<Rightarrow> 'sem weighted \<Rightarrow> ('db, 'sem) outside \<Rightarrow> 'f Flags \<Rightarrow> MoverConfig \<Rightarrow> Stats \<times> ('db, 'sem) Store \<Rightarrow> 'db run" where
  "run_mount P W X fl mc mst =
     (if oMount X (flMount fl) (mount_options fl) then prepend [(CMount, True)] (run_mounted P W X mc mst)
      else prepend [(CMount, False), (CCancelAdmin, True)] (stop_and_close P W X mc ([], 1) mst))"

definition run_store :: "'db pebble \<Rightarrow> 'sem weighted \<Rightarrow> ('db, 'sem) outside \<Rightarrow> 'f Flags \<Rightarrow> ('db, 'sem) Store \<Rightarrow> 'db run" where
  "run_store P W X fl st =
     (let mc = start_config (oFourFifths X) (mover_config fl); mst = (zero_stats, st) in
      prepend [(CMoverStart, True)]
       (if flAdminAddr fl \<noteq> [] then
          (case Serve (flAdminAddr fl) (oListen X) (admin_deps fl (stIdx st) (oNow X)) of
             Inl e \<Rightarrow> prepend [(CAdminServe, False)] (stop_and_close P W X mc ([], 1) mst)
           | Inr _ \<Rightarrow> prepend [(CAdminServe, True)] (run_mount P W X fl mc mst))
        else prepend (if flDebugPprof fl then [(CPprofListen, True)] else []) (run_mount P W X fl mc mst)))"

definition run_index :: "'db pebble \<Rightarrow> 'sem weighted \<Rightarrow> ('db, 'sem) outside \<Rightarrow> 'f Flags \<Rightarrow> 'db Index \<Rightarrow> 'db run" where
  "run_index P W X fl idx =
     (case Store_Open P W (oNow X) idx of
        (idx1, Inr st) \<Rightarrow> prepend [(CStoreOpen, True)] (run_store P W X fl st)
      | (idx1, Inl (Panic p)) \<Rightarrow> prepend [(CStoreOpen, False)] (fail_with [(CTraceShutdown, oTraceStop X)] (Panic p) idx1)
      | (idx1, Inl e) \<Rightarrow> (case Index_Close P idx1 of (idx2, r) \<Rightarrow>
          prepend [(CStoreOpen, False), (CIndexClose, r = Inr ())]
            (fail_with [(CTraceShutdown, oTraceStop X)] (case r of Inl (Panic q) \<Rightarrow> Panic q | _ \<Rightarrow> e) idx2)))"

fun make_dirs :: "(string \<Rightarrow> bool) \<Rightarrow> string list \<Rightarrow> calls \<times> bool" where
  "make_dirs mk [] = ([], True)"
| "make_dirs mk (p # ps) = (if mk p then (case make_dirs mk ps of (cs, ok) \<Rightarrow> ((CMkdir p, True) # cs, ok))
     else ([(CMkdir p, False)], False))"

definition run_flags :: "'db pebble \<Rightarrow> 'sem weighted \<Rightarrow> 'f ratios \<Rightarrow> ('e, 'r) sdk \<Rightarrow> (string \<Rightarrow> goerr + string \<times> string)
    \<Rightarrow> ('db, 'sem) outside \<Rightarrow> 'f Flags \<Rightarrow> 'db run" where
  "run_flags P W R S url_Parse X fl =
     (case makeLogger (flLogLevel fl) (flLogFormat fl) of Inl e \<Rightarrow> \<lparr>rnCalls = [], rnExit = 2, rnIndex = None\<rparr>
      | Inr _ \<Rightarrow>
        if \<not> required_flags fl then \<lparr>rnCalls = [], rnExit = 2, rnIndex = None\<rparr>
        else case snd (trace_Init R S url_Parse (trace_config fl) otel_start) of
          Inl e \<Rightarrow> \<lparr>rnCalls = [(CTraceInit, False)], rnExit = 1, rnIndex = None\<rparr>
        | Inr sd \<Rightarrow> (case make_dirs (oMkdir X) [flHot fl, flCold fl, flMount fl] of
            (cs, False) \<Rightarrow> \<lparr>rnCalls = (CTraceInit, True) # cs, rnExit = 1, rnIndex = None\<rparr>
          | (cs, True) \<Rightarrow> prepend ((CTraceInit, True) # cs)
              (case Index_Open P (oMigrate X) (oOpened X) (index_config fl) (oHotDir X) (oColdDir X) (oSeqNow X) (oOS X) of
                 (idx, Inl e) \<Rightarrow> prepend [(CIndexOpen, False)] (fail_with [(CTraceShutdown, oTraceStop X)] e idx)
               | (idx, Inr _) \<Rightarrow> prepend [(CIndexOpen, True)] (run_index P W X fl idx))))"

definition main :: "'db pebble \<Rightarrow> 'sem weighted \<Rightarrow> 'f ratios \<Rightarrow> ('e, 'r) sdk \<Rightarrow> (string \<Rightarrow> goerr + string \<times> string)
    \<Rightarrow> 'f float64 \<Rightarrow> (string \<Rightarrow> int option) \<Rightarrow> 'f \<Rightarrow> ('db, 'sem) outside \<Rightarrow> string list \<Rightarrow> 'db run" where
  "main P W R S url_Parse F D ratio X args = (case parse_flags F D ratio args of
     Help \<Rightarrow> \<lparr>rnCalls = [], rnExit = 0, rnIndex = None\<rparr>
   | Usage \<Rightarrow> \<lparr>rnCalls = [], rnExit = 2, rnIndex = None\<rparr>
   | Parsed fl _ \<Rightarrow> run_flags P W R S url_Parse X fl)"

section \<open>Orders of calls\<close>

text \<open>Whether a call of one kind comes before every one of another, and whether it follows each.\<close>

fun before :: "('c \<Rightarrow> bool) \<Rightarrow> ('c \<Rightarrow> bool) \<Rightarrow> 'c list \<Rightarrow> bool" where
  "before p q [] = True"
| "before p q (c # cs) = (p c \<or> \<not> q c \<and> before p q cs)"

fun followed :: "('c \<Rightarrow> bool) \<Rightarrow> ('c \<Rightarrow> bool) \<Rightarrow> 'c list \<Rightarrow> bool" where
  "followed p q [] = True"
| "followed p q (c # cs) = ((p c \<longrightarrow> list_ex q cs) \<and> followed p q cs)"

lemma before_append: "list_all (\<lambda>c. \<not> p c \<and> \<not> q c) cs \<Longrightarrow> before p q (cs @ ds) = before p q ds"
  by (induction cs) auto

lemma followed_append: "list_all (\<lambda>c. \<not> p c) cs \<Longrightarrow> followed p q (cs @ ds) = followed p q ds"
  by (induction cs) auto

lemma prepend_simps [simp]: "rnCalls (prepend cs r) = cs @ rnCalls r" "rnExit (prepend cs r) = rnExit r" "rnIndex (prepend cs r) = rnIndex r"
  by (simp_all add: prepend_def)

lemma make_dirs_calls: "list_all (\<lambda>c. \<exists>p. fst c = CMkdir p) (fst (make_dirs mk ps))"
  by (induction ps) (auto split: prod.split)

lemma fail_with_simps: "rnExit (fail_with ds e idx) \<noteq> 0" "rnCalls (fail_with ds e idx) = [] \<or> rnCalls (fail_with ds e idx) = ds \<and> rnExit (fail_with ds e idx) = 2"
  by (cases e; simp)+

lemma fail_with_exit [simp]: "rnExit (fail_with ds e idx) = 0 \<longleftrightarrow> False"
  by (cases e) simp_all

lemmas order_simps = before_append followed_append list_ex_append list_all_append

section \<open>What each stage guarantees\<close>

definition is_call :: "call \<Rightarrow> call \<times> bool \<Rightarrow> bool" where
  "is_call k c \<longleftrightarrow> fst c = k"

definition calls_to :: "call \<Rightarrow> 'db run \<Rightarrow> bool" where
  "calls_to k r \<longleftrightarrow> list_ex (is_call k) (rnCalls r)"

lemma is_call_simp [simp]: "is_call k (k', b) \<longleftrightarrow> k' = k"
  by (simp add: is_call_def)

lemma calls_to_prepend [simp]: "calls_to k (prepend cs r) \<longleftrightarrow> list_ex (is_call k) cs \<or> calls_to k r"
  by (simp add: calls_to_def)

lemma stop_and_close_calls:
  "\<exists>b. rnCalls (stop_and_close P W X mc exit mst) = [(CMoverStop, True), (CStoreClose, b)] @ deferred_calls X \<and> rnExit (stop_and_close P W X mc exit mst) = 2 \<or>
     rnCalls (stop_and_close P W X mc exit mst) = [(CMoverStop, True), (CStoreClose, b)] @ fst exit \<and> rnExit (stop_and_close P W X mc exit mst) = snd exit"
  by (auto simp: stop_and_close_def split: prod.split)

text \<open>
  What holds of a run from the start of the mover on: readiness is announced only after the
  mount, the mover is stopped before the store is closed, and unless the grace period ran
  out both happen; the tracer is shut down on a return and after a panic, and never by \<open>os.Exit\<close>.
\<close>

definition orderly :: "('db, 'sem) outside \<Rightarrow> 'db run \<Rightarrow> bool" where
  "orderly X r \<longleftrightarrow> before (\<lambda>c. c = (CMount, True)) (is_call CMarkReady) (rnCalls r) \<and>
     before (is_call CMoverStop) (is_call CStoreClose) (rnCalls r) \<and>
     (calls_to CTraceShutdown r \<longleftrightarrow> rnExit r \<noteq> 1) \<and>
     ((\<exists>mst. oServing X mst = GraceExceeded) \<or> calls_to CMoverStop r \<and> calls_to CStoreClose r) \<and>
     \<not> calls_to CIndexOpen r \<and> \<not> calls_to CStoreOpen r"

lemma stop_and_close_orderly:
  assumes "exit = ([], 1) \<or> exit = (deferred_calls X, 0)"
  shows "orderly X (stop_and_close P W X mc exit mst)"
  using stop_and_close_calls [of P W X mc exit mst] assms
  by (auto simp: orderly_def calls_to_def deferred_calls_def)

lemma run_mount_orderly: "orderly X (run_mount P W X fl mc mst)"
proof (cases "oMount X (flMount fl) (mount_options fl)")
  case True
  show ?thesis
  proof (cases "oServing X mst")
    case (Unmounted mst1)
    then show ?thesis using True stop_and_close_orderly [of "(deferred_calls X, 0)" X P W mc mst1]
      by (auto simp: run_mount_def run_mounted_def orderly_def)
  next
    case GraceExceeded
    then show ?thesis using True by (cases mst) (auto simp: run_mount_def run_mounted_def orderly_def calls_to_def)
  qed
next
  case False
  then show ?thesis using stop_and_close_orderly [of "([], 1)" X P W mc mst]
    by (auto simp: run_mount_def orderly_def)
qed

lemma prepend_Nil [simp]: "prepend [] r = r"
  by (simp add: prepend_def)

lemma orderly_prepend:
  "fst c \<in> {CMoverStart, CAdminServe, CPprofListen} \<Longrightarrow> orderly X r \<Longrightarrow> orderly X (prepend [c] r)"
  by (cases c) (auto simp: orderly_def)

lemma run_store_orderly: "orderly X (run_store P W X fl st)"
  unfolding run_store_def Let_def
  by (auto intro!: orderly_prepend run_mount_orderly stop_and_close_orderly split: sum.split)

lemma run_index_cases:
  obtains (up) r where "run_index P W X fl idx = prepend [(CStoreOpen, True)] r" "orderly X r"
  | (failed) b where "rnExit (run_index P W X fl idx) = 1" "rnCalls (run_index P W X fl idx) = [(CStoreOpen, False), (CIndexClose, b)]"
  | (panic) "rnExit (run_index P W X fl idx) = 2" "\<not> calls_to CMarkReady (run_index P W X fl idx)" "\<not> calls_to CStoreClose (run_index P W X fl idx)"
proof (cases "Store_Open P W (oNow X) idx")
  case (Pair idx1 r)
  note so = this
  show ?thesis
  proof (cases r)
    case (Inr st)
    then show ?thesis using up [OF _ run_store_orderly [of X P W fl st]] so by (simp add: run_index_def)
  next
    case (Inl e)
    obtain idx2 rc where c: "Index_Close P idx1 = (idx2, rc)" by fastforce
    show ?thesis
    proof (cases "\<exists>p. e = Panic p \<or> rc = Inl (Panic p)")
      case True
      then show ?thesis using so Inl c panic by (cases e) (auto simp: run_index_def calls_to_def split: sum.splits goerr.splits)
    next
      case False
      then show ?thesis using so Inl c failed by (cases e) (auto simp: run_index_def split: sum.splits goerr.splits)
    qed
  qed
qed

text \<open>What holds of every run.\<close>

definition tidy :: "('db, 'sem) outside \<Rightarrow> 'db run \<Rightarrow> bool" where
  "tidy X r \<longleftrightarrow> before (\<lambda>c. c = (CMount, True)) (is_call CMarkReady) (rnCalls r) \<and>
     before (is_call CMoverStop) (is_call CStoreClose) (rnCalls r) \<and>
     (rnExit r = 1 \<longrightarrow> \<not> calls_to CTraceShutdown r) \<and>
     ((\<exists>mst. oServing X mst = GraceExceeded) \<or> rnExit r = 2 \<or>
      followed (\<lambda>c. c = (CIndexOpen, True)) (\<lambda>c. is_call CStoreClose c \<or> is_call CIndexClose c) (rnCalls r) \<and>
      followed (\<lambda>c. c = (CStoreOpen, True)) (is_call CStoreClose) (rnCalls r))"

lemma before_absent: "\<not> list_ex q cs \<Longrightarrow> before p q cs"
  by (induction cs) auto

lemma followed_absent: "\<not> list_ex p cs \<Longrightarrow> followed p q cs"
  by (induction cs) auto

lemma tidy_prepend:
  "(\<exists>p. fst c = CMkdir p) \<or> fst c = CTraceInit \<Longrightarrow> tidy X r \<Longrightarrow> tidy X (prepend [c] r)"
  by (cases c) (auto simp: tidy_def)

lemma run_index_tidy: "tidy X (prepend [(CIndexOpen, True)] (run_index P W X fl idx))"
proof (cases rule: run_index_cases [of P W X fl idx])
  case (up r)
  have "list_ex (\<lambda>c. is_call CStoreClose c \<or> is_call CIndexClose c) (rnCalls r)" if "list_ex (is_call CStoreClose) (rnCalls r)"
    using that by (auto simp: list_ex_iff)
  moreover have "\<not> list_ex (\<lambda>c. c = (CIndexOpen, True)) (rnCalls r)" "\<not> list_ex (\<lambda>c. c = (CStoreOpen, True)) (rnCalls r)"
    using up(2) by (auto simp: orderly_def calls_to_def list_ex_iff is_call_def)
  ultimately show ?thesis using up by (auto simp: tidy_def orderly_def calls_to_def followed_absent)
next
  case (failed b)
  then show ?thesis by (simp add: tidy_def calls_to_def)
next
  case panic
  then show ?thesis by (simp add: tidy_def calls_to_def before_absent)
qed

lemma tidy_make_dirs: "make_dirs mk ps = (cs, ok) \<Longrightarrow> tidy X r \<Longrightarrow> tidy X (prepend cs r)"
proof (induction ps arbitrary: cs)
  case (Cons p ps)
  show ?case
  proof (cases "mk p")
    case True
    then obtain ds where ds: "make_dirs mk ps = (ds, ok)" "cs = (CMkdir p, True) # ds" using Cons.prems(1) by (auto split: prod.splits)
    then have "prepend cs r = prepend [(CMkdir p, True)] (prepend ds r)" by (simp add: prepend_def)
    then show ?thesis using tidy_prepend [of "(CMkdir p, True)"] Cons.IH [OF ds(1) Cons.prems(2)] by simp
  next
    case False
    then show ?thesis using Cons.prems tidy_prepend [of "(CMkdir p, False)"] by auto
  qed
qed simp

lemma tidy_short: "rnCalls r = [] \<or> (\<exists>b. rnCalls r = [(CIndexOpen, False)] \<and> rnExit r = 1 \<or> rnCalls r = [(CIndexOpen, False), (CTraceShutdown, b)] \<and> rnExit r = 2) \<Longrightarrow> tidy X r"
  by (auto simp: tidy_def calls_to_def)

lemma run_flags_tidy: "tidy X (run_flags P W R S U X fl)"
proof -
  obtain cs ok where d: "make_dirs (oMkdir X) [flHot fl, flCold fl, flMount fl] = (cs, ok)" by fastforce
  obtain idx r where o: "Index_Open P (oMigrate X) (oOpened X) (index_config fl) (oHotDir X) (oColdDir X) (oSeqNow X) (oOS X) = (idx, r)" by fastforce
  have t: "tidy X (prepend ((CTraceInit, True) # cs) run)" if "tidy X run" for run :: "'a run"
  proof -
    have "tidy X (prepend [(CTraceInit, True)] (prepend cs run))" using tidy_prepend [of "(CTraceInit, True)"] tidy_make_dirs [OF d that] by simp
    then show ?thesis by (simp add: prepend_def)
  qed
  have "tidy X (prepend [(CIndexOpen, False)] (fail_with [(CTraceShutdown, oTraceStop X)] e idx))" for e
    by (cases e) (auto intro: tidy_short)
  moreover have "tidy X \<lparr>rnCalls = (CTraceInit, True) # cs, rnExit = 1, rnIndex = None\<rparr>"
    using t [OF tidy_short [of "\<lparr>rnCalls = [], rnExit = 1, rnIndex = None\<rparr>"]] by (simp add: prepend_def)
  moreover have "tidy X \<lparr>rnCalls = [(CTraceInit, False)], rnExit = 1, rnIndex = None\<rparr>" "tidy X \<lparr>rnCalls = [], rnExit = 2, rnIndex = None\<rparr>"
    by (simp_all add: tidy_def calls_to_def)
  moreover have "tidy X (prepend ((CTraceInit, True) # cs) (prepend [(CIndexOpen, True)] (run_index P W X fl idx)))"
    by (rule t [OF run_index_tidy])
  ultimately show ?thesis using t
    by (cases ok; cases r) (auto simp: run_flags_def d o simp del: make_dirs.simps split: sum.split)
qed

section \<open>Properties\<close>

text \<open>
  A run that ends with status 0 after making any call has closed the store that the requests and
  the mover left: what is on disk then is what \<open>Store_Close\<close> made of it.
\<close>

lemma stop_and_close_index:
  assumes "rnExit (stop_and_close P W X mc exit mst) = 0"
  shows "\<exists>m idx ds st r. mover_run P mc (oLastTurns X) (fst mst, stIdx (snd mst)) = ((m, idx), ds) \<and>
    Store_Close P W ((snd mst)\<lparr>stIdx := idx\<rparr>) = (st, r) \<and> rnIndex (stop_and_close P W X mc exit mst) = Some (stIdx st)"
  using assms by (auto simp: stop_and_close_def split: prod.splits if_splits)

lemma stop_and_close_fails [simp]: "rnExit (stop_and_close P W X mc ([], Suc 0) mst) = 0 \<longleftrightarrow> False"
  using stop_and_close_calls [of P W X mc "([], Suc 0)" mst] by auto

lemma run_mount_index:
  assumes "rnExit (run_mount P W X fl mc mst) = 0"
  shows "\<exists>mst1 m idx ds st r. oServing X mst = Unmounted mst1 \<and>
    mover_run P mc (oLastTurns X) (fst mst1, stIdx (snd mst1)) = ((m, idx), ds) \<and>
    Store_Close P W ((snd mst1)\<lparr>stIdx := idx\<rparr>) = (st, r) \<and> rnIndex (run_mount P W X fl mc mst) = Some (stIdx st)"
proof -
  obtain mst1 where "oServing X mst = Unmounted mst1" "rnExit (stop_and_close P W X mc (deferred_calls X, 0) mst1) = 0"
      "rnIndex (run_mount P W X fl mc mst) = rnIndex (stop_and_close P W X mc (deferred_calls X, 0) mst1)"
    using assms by (auto simp: run_mount_def run_mounted_def split: if_splits ending.splits)
  then show ?thesis using stop_and_close_index [of P W X mc "(deferred_calls X, 0)" mst1] by (intro exI [of _ mst1]) simp
qed

theorem main_closes_store:
  assumes "main P W R S url_Parse F D ratio X args = r" "rnExit r = 0" "rnCalls r \<noteq> []"
  shows "\<exists>st0 fl rest mst m idx ds st rc. parse_flags F D ratio args = Parsed fl rest \<and> oServing X (zero_stats, st0) = Unmounted mst \<and>
    mover_run P (start_config (oFourFifths X) (mover_config fl)) (oLastTurns X) (fst mst, stIdx (snd mst)) = ((m, idx), ds) \<and>
    Store_Close P W ((snd mst)\<lparr>stIdx := idx\<rparr>) = (st, rc) \<and> rnIndex r = Some (stIdx st)"
proof -
  obtain fl rest where p: "parse_flags F D ratio args = Parsed fl rest" using assms by (auto simp: main_def split: parsed.splits)
  then have "run_flags P W R S url_Parse X fl = r" using assms(1) by (simp add: main_def)
  then obtain idx where i: "rnIndex r = rnIndex (run_index P W X fl idx)" "rnExit (run_index P W X fl idx) = 0"
    using assms(2)
    by (auto simp: run_flags_def split: sum.splits if_splits prod.splits bool.splits simp del: make_dirs.simps)
  then obtain st0 where s: "rnIndex r = rnIndex (run_store P W X fl st0)" "rnExit (run_store P W X fl st0) = 0"
    by (auto simp: run_index_def split: prod.splits sum.splits goerr.splits)
  then have "rnIndex r = rnIndex (run_mount P W X fl (start_config (oFourFifths X) (mover_config fl)) (zero_stats, st0))"
      "rnExit (run_mount P W X fl (start_config (oFourFifths X) (mover_config fl)) (zero_stats, st0)) = 0"
    by (auto simp: run_store_def Let_def split: if_splits sum.splits)
  then show ?thesis using run_mount_index [of P W X fl "start_config (oFourFifths X) (mover_config fl)" "(zero_stats, st0)"] p
    by (intro exI [of _ st0] exI [of _ fl] exI [of _ rest]) simp
qed

text \<open>
  C39: the order of a run of the program. Whatever the command line and the outside: the health
  check is told that the program is ready only after the file system is mounted; the store is
  closed only after the mover was stopped; and unless the program panics or the grace period
  of the shutdown runs out, an index that was opened is closed, and a store that was opened too.
  A run that ends with status 1 never shuts the tracer down, so its buffered spans are lost.
\<close>

theorem main_order:
  fixes X :: "('db, 'sem) outside"
  assumes "main P W R S url_Parse F D ratio X args = r"
  shows "before (\<lambda>c. c = (CMount, True)) (is_call CMarkReady) (rnCalls r) \<and>
    before (is_call CMoverStop) (is_call CStoreClose) (rnCalls r) \<and>
    (rnExit r = 1 \<longrightarrow> \<not> calls_to CTraceShutdown r) \<and>
    ((\<exists>mst. oServing X mst = GraceExceeded) \<or> rnExit r = 2 \<or>
     followed (\<lambda>c. c = (CIndexOpen, True)) (\<lambda>c. is_call CStoreClose c \<or> is_call CIndexClose c) (rnCalls r) \<and>
     followed (\<lambda>c. c = (CStoreOpen, True)) (is_call CStoreClose) (rnCalls r))"
proof -
  have "tidy X \<lparr>rnCalls = [], rnExit = n, rnIndex = None :: 'db Index option\<rparr>" for n by (simp add: tidy_def calls_to_def)
  then have "tidy X r" using run_flags_tidy assms by (auto simp: main_def split: parsed.splits)
  then show ?thesis by (simp add: tidy_def)
qed

definition plain_outside :: "(kvpair list, int \<times> int) outside" where
  "plain_outside = \<lparr>oMkdir = (\<lambda>_. True), oMigrate = Inr (), oOpened = ([], Inr ()), oHotDir = [], oColdDir = [], oSeqNow = 7, oOS = [],
     oNow = 5, oFourFifths = (\<lambda>x. x), oListen = Inr (), oMount = (\<lambda>_ _. True), oServing = Unmounted, oLastTurns = [None], oTraceStop = True\<rparr>"

definition plain_main :: "string list \<Rightarrow> kvpair list run" where
  "plain_main = main mem_pebble bounded_sem \<lparr>rBelow0 = (\<lambda>_. False), rAbove1 = (\<lambda>_. False)\<rparr>
     \<lparr>sNewExporter = (\<lambda>_ _. Inr ()), sResource = (\<lambda>_. Inr ()), sSchemaless = (\<lambda>_. ())\<rparr> (\<lambda>_. Inl (ErrText ''parse''))
     no_float (\<lambda>_. None) () plain_outside"

definition plain_args :: "string list" where
  "plain_args = [''-hot=/h'', ''-cold=/c'', ''-mount=/m'']"

definition plain_flags :: "unit Flags" where
  "plain_flags = (default_flags ())\<lparr>flHot := ''/h'', flCold := ''/c'', flMount := ''/m''\<rparr>"

lemma plain_parse: "parse_flags no_float (\<lambda>_. None) () plain_args = Parsed plain_flags []"
  by code_simp

lemma plain_logger: "makeLogger (flLogLevel plain_flags) (flLogFormat plain_flags) = Inr (TextHandler LevelInfo)"
  by code_simp

lemma plain_open: "snd (Index_Open mem_pebble (Inr ()) ([], Inr ()) (index_config plain_flags) [] [] 7 []) = Inr ()"
  by code_simp

definition plain_index :: "kvpair list Index" where
  "plain_index = fst (Index_Open mem_pebble (Inr ()) ([], Inr ()) (index_config plain_flags) [] [] 7 [])"

lemma plain_store: "\<exists>db. Store_Open mem_pebble W now idx = (idx\<lparr>ixDB := db\<rparr>, Inr \<lparr>stIdx = idx\<lparr>ixDB := db\<rparr>, stCo = Some (newCoalescer W)\<rparr>)"
proof -
  have "\<exists>v. DB_Get mem_pebble db k = Inr v" for db k by (simp add: DB_Get_def split: option.split)
  then obtain v rv where "DB_Get mem_pebble (ixDB idx) StoreNextInodeKey = Inr v" "DB_Get mem_pebble (ixDB idx) (NodeKey RootInode) = Inr rv"
    by blast
  then show ?thesis by (simp add: Store_Open_def commit_batch_def Batch_Commit_def Let_def) blast
qed

lemma plain_close: "snd (Index_Close mem_pebble (plain_index\<lparr>ixDB := db\<rparr>)) = Inr ()"
  by code_simp

lemma plain_stop:
  assumes "oLastTurns X = [None]" "stIdx (snd mst) = plain_index\<lparr>ixDB := db\<rparr>" "stCo (snd mst) = Some (newCoalescer W)"
  shows "\<exists>idx. stop_and_close mem_pebble W X mc exit mst = \<lparr>rnCalls = (CMoverStop, True) # (CStoreClose, True) # fst exit, rnExit = snd exit, rnIndex = Some idx\<rparr>"
proof -
  obtain idx where c: "Index_Close mem_pebble (plain_index\<lparr>ixDB := db\<rparr>) = (idx, Inr ())" using plain_close [of db] by (metis prod.collapse)
  have "coBuffers (newCoalescer W) = []" "coQueue (newCoalescer W) = []" by (simp_all add: newCoalescer_def newCoalescerWithOptions_def Let_def)
  then show ?thesis using assms c
    by (auto simp: stop_and_close_def mover_run_def Store_Close_def on_co_def on_idx_def co_Drain_def co_Close_def prepend_def)
qed

lemma plain_run:
  "\<exists>idx. plain_main plain_args = \<lparr>rnCalls = [(CTraceInit, True), (CMkdir ''/h'', True), (CMkdir ''/c'', True), (CMkdir ''/m'', True),
    (CIndexOpen, True), (CStoreOpen, True), (CMoverStart, True), (CAdminServe, True), (CMount, True), (CMarkReady, True),
    (CCancelAdmin, True), (CMoverStop, True), (CStoreClose, True), (CCancelAdmin, True), (CTraceShutdown, True)], rnExit = 0, rnIndex = Some idx\<rparr>"
proof -
  have f: "flHot plain_flags = ''/h''" "flCold plain_flags = ''/c''" "flMount plain_flags = ''/m''" "flOtelEndpoint plain_flags = []"
      "flAdminAddr plain_flags = '':9090''"
    by (simp_all add: plain_flags_def default_flags_def)
  have o: "Index_Open mem_pebble (Inr ()) ([], Inr ()) (index_config plain_flags) [] [] 7 [] = (plain_index, Inr ())"
    using plain_open unfolding plain_index_def by (metis prod.collapse)
  obtain db where s: "Store_Open mem_pebble bounded_sem 5 plain_index =
      (plain_index\<lparr>ixDB := db\<rparr>, Inr \<lparr>stIdx = plain_index\<lparr>ixDB := db\<rparr>, stCo = Some (newCoalescer bounded_sem)\<rparr>)"
    using plain_store by blast
  let ?st = "\<lparr>stIdx = plain_index\<lparr>ixDB := db\<rparr>, stCo = Some (newCoalescer bounded_sem)\<rparr>"
  have x: "oMkdir plain_outside = (\<lambda>_. True)" "oMigrate plain_outside = Inr ()" "oOpened plain_outside = ([], Inr ())" "oHotDir plain_outside = []"
      "oColdDir plain_outside = []" "oSeqNow plain_outside = 7" "oOS plain_outside = []" "oNow plain_outside = 5" "oListen plain_outside = Inr ()"
      "oMount plain_outside = (\<lambda>_ _. True)" "oServing plain_outside = Unmounted" "oLastTurns plain_outside = [None]" "oTraceStop plain_outside = True"
    by (simp_all add: plain_outside_def)
  obtain idx where c: "stop_and_close mem_pebble bounded_sem plain_outside (start_config (oFourFifths plain_outside) (mover_config plain_flags))
      (deferred_calls plain_outside, 0) (zero_stats, ?st) =
      \<lparr>rnCalls = (CMoverStop, True) # (CStoreClose, True) # deferred_calls plain_outside, rnExit = 0, rnIndex = Some idx\<rparr>"
    using plain_stop [of plain_outside "(zero_stats, ?st)" db bounded_sem "start_config (oFourFifths plain_outside) (mover_config plain_flags)"
        "(deferred_calls plain_outside, 0)"] x(12) by auto
  have "run_store mem_pebble bounded_sem plain_outside plain_flags ?st = \<lparr>rnCalls = [(CMoverStart, True), (CAdminServe, True), (CMount, True), (CMarkReady, True),
      (CCancelAdmin, True), (CMoverStop, True), (CStoreClose, True), (CCancelAdmin, True), (CTraceShutdown, True)], rnExit = 0, rnIndex = Some idx\<rparr>"
    using c f x by (simp add: run_store_def run_mount_def run_mounted_def Serve_def deferred_calls_def prepend_def Let_def)
  then show ?thesis using f o s x plain_parse plain_logger
    by (simp add: plain_main_def main_def run_flags_def run_index_def required_flags_def trace_Init_def trace_config_def prepend_def)
qed

theorem main_order_witness:
  "let r = plain_main plain_args in rnExit r = 0 \<and> calls_to CMarkReady r \<and>
     before (\<lambda>c. c = (CMount, True)) (is_call CMarkReady) (rnCalls r) \<and>
     followed (\<lambda>c. c = (CIndexOpen, True)) (\<lambda>c. is_call CStoreClose c \<or> is_call CIndexClose c) (rnCalls r)"
proof -
  have r: "rnExit (plain_main plain_args) = 0" "calls_to CMarkReady (plain_main plain_args)"
    using plain_run by (auto simp: calls_to_def)
  have "oServing plain_outside mst \<noteq> GraceExceeded" for mst by (simp add: plain_outside_def)
  then show ?thesis using r main_order [of mem_pebble bounded_sem "\<lparr>rBelow0 = (\<lambda>_. False), rAbove1 = (\<lambda>_. False)\<rparr>"
      "\<lparr>sNewExporter = (\<lambda>_ _. Inr ()), sResource = (\<lambda>_. Inr ()), sSchemaless = (\<lambda>_. ())\<rparr>" "\<lambda>_. Inl (ErrText ''parse'')"
      no_float "\<lambda>_. None" "()" plain_outside plain_args "plain_main plain_args"]
    by (simp add: plain_main_def Let_def)
qed

end
