(* ===== verification/Spec2Isabelle.thy ===== *)
theory Spec2Isabelle
  imports Prelude Encoding Keys Segment_Recovery Fragment_Plan KV Maintenance Mover_Safety Read_Through Move_Race Budget Rooted
    Recovery Shutdown KV_Handles Fuse Migrate Admin_Serve Tracing Flags Startup
begin

text \<open>
  placefs: a log-structured FUSE file system on two tiers of disks.

  \<^bold>\<open>The program.\<close> File data is cut into stripes of a fixed size. A write of a stripe is appended
  as a record to a segment file of one of two tiers (hot, cold), and the place of the record is
  committed to a Pebble database as a fragment: inode, stripe, sequence number, logical range,
  tier, segment, offset. The newest fragment (largest sequence number) wins for every byte. The
  file layer keeps nodes and directory entries in the same database and buffers writes in memory
  until they are flushed. A mover copies stripes from the hot to the cold tier and collects
  segments that no fragment names.

  \<^bold>\<open>Conventions.\<close> Go values have their types: \<open>uint64\<close>, \<open>uint32\<close>, \<open>byte\<close> are words, \<open>int64\<close> is an
  \<open>int\<close> with the wrap-around written out (\<open>i64\<close>), integer division truncates (\<open>go_div\<close>). A
  method with a state is a function to an \<open>outcome\<close>: the new state and either an error or a
  value; a panic is an error value of its own, so no function hides one. \<open>andThen\<close> is the early
  return on an error. Files, directories and system calls are explicit state with the list of
  results that the coming system calls have (\<open>os\<close>), so that every one may fail. Calls run one at a time; where the code
  lets go of a lock in the middle of a method (the flush of a buffer) the method is two steps.
  Code outside the repository is a parameter: Pebble is the record \<open>pebble\<close> with the locales
  \<open>pebble_engine\<close> (what is always true of it) and \<open>reliable_pebble\<close> (no call fails), the weighted
  semaphore the record \<open>weighted\<close> with the locale \<open>weighted_sem\<close>, bbolt and floating-point
  formatting are arguments. Each locale is interpreted by an executable instance, with which the
  witnesses compute.

  \<^bold>\<open>Theories, in the order of the code.\<close>

  \<^item> \<open>Prelude\<close>, \<open>Encoding\<close>: Go integers, errors, outcomes; byte codecs with their laws.
  \<^item> \<open>Keys\<close> (\<open>src/kv/keys.go\<close>): the key schema; a scanned range is exactly the keys meant, and
    keys sort as the scans need. \<open>KV\<close> (\<open>src/kv/db.go\<close>): the handle and its batches;
    \<open>KV_Handles\<close>: iterators and batches call by call, with the locale \<open>iterator\<close>, and that the
    loop over one yields the list that the other theories take it for.
  \<^item> \<open>Segment\<close> (\<open>src/segment/segment.go\<close>): records, append, scan, rotation, removal, repair.
    \<open>Segment_Records\<close>, \<open>Segment_Sets\<close>, \<open>Segment_Recovery\<close>: what a scan visits, what an append
    stores, that a repair after a crash keeps every whole record, and that an append after a
    partial write is misplaced. \<open>Segment_Reopen\<close> opens and repairs the directory that a crash left.
  \<^item> \<open>Fragment\<close> (\<open>src/index/fragment.go\<close>), \<open>Fragment_Plan\<close>: \<open>planRead\<close> tiles the range and gives each
    byte to the newest fragment; \<open>canonicalView\<close> is its disjoint equivalent.
  \<^item> \<open>Index\<close>, \<open>Maintenance\<close> (\<open>src/index/index.go\<close>): append, bulk sessions, reads, truncate,
    delete, move, collection, statistics, opening. \<open>Index_State\<close> defines the invariant \<open>index_ok\<close>
    (every fragment lies in its stripe and points at durable bytes) and the abstraction
    \<open>file_byte\<close> from the index to file contents; \<open>Index_Append\<close>, \<open>Index_Write\<close>, \<open>Index_Progress\<close>,
    \<open>Index_Read\<close>, \<open>Index_Edit\<close>, \<open>Index_Move\<close>, \<open>Index_GC\<close> show the effect of each operation on it, on
    every branch; \<open>Index_Machine\<close> puts them together: runs of the index with any failures refine
    an abstract machine on contents. \<open>Recovery\<close> adds crashes: the index that is opened after one
    has every file as it was, so histories with crashes and restarts refine the same machine.
    A crash keeps of each segment file a prefix with at least the synced bytes, and the database as
    it was committed; a crash inside an operation is failed system calls and then a crash.
  \<^item> \<open>Node\<close>, \<open>Store\<close> (\<open>src/store/store.go\<close>): modes, nodes, and every operation of the store.
    \<open>Namespace\<close> is the abstract file system tree. \<open>Store_Data\<close> has the case rules of the
    operations (what has been checked when one commits) and the locale \<open>data_relation\<close>: what an
    append, a truncation and a deletion keep of the database is kept by every buffered write,
    flush, \<open>Fsync\<close> and drop. It is used twice: \<open>Store_Namespace\<close> shows that each operation acts
    on the tree and \<open>Store_Machine\<close> that every reachable state is a proper file system; \<open>Schema\<close>
    shows that every entry of the database has the type its key says. \<open>Descent\<close> shows that the
    cycle check of \<open>Rename\<close> decides up to a thousand levels, and \<open>Rooted\<close> that up to that depth
    the namespace stays a tree: every directory is reached from the root.
  \<^item> \<open>Coalescer\<close> (\<open>src/store/coalescer.go\<close>): the write-back buffer. \<open>Buffer_Content\<close> and \<open>Write_Back\<close>
    define what readers see (\<open>seen\<close>) and show that writes change exactly their range of it,
    flushes nothing, and that \<open>Fsync\<close> makes it durable. \<open>Budget\<close> shows that the memory budget
    balances, \<open>Move_Race\<close> that a move between a write and its flush loses the write, \<open>Shutdown\<close>
    that closing the store brings everything readers saw to disk, unless a flush failed.
  \<^item> \<open>Handle\<close> (\<open>src/store/handle.go\<close>): open files. \<open>Read_Through\<close>: a read returns \<open>seen\<close>.
  \<^item> \<open>Mover\<close>, \<open>Mover_Safety\<close> (\<open>src/mover/mover.go\<close>): eviction, back-off, the loop with the
    delays it sleeps; no turn changes a file.
  \<^item> \<open>Fuse\<close> (\<open>src/fuselayer\<close>): counters, attributes, every entry point as a call on the store.
  \<^item> \<open>Migrate\<close> (\<open>src/kv/migrate.go\<close>): the migration of a bbolt database.
  \<^item> \<open>Admin\<close>, \<open>Admin_Serve\<close> (\<open>src/admin/admin.go\<close>): health, the text of the metrics, routes; no path
    leads to a profile unless they are enabled. \<open>Tracing\<close> (\<open>src/obs/tracing.go\<close>): \<open>Init\<close> and when
    TLS is used.
  \<^item> \<open>Decimal\<close>, \<open>Byte_Sizes\<close> (\<open>src/cmd/placefs/bytes.go\<close>), \<open>Flags\<close> and \<open>Startup\<close>
    (\<open>src/cmd/placefs/main.go\<close>): sizes, the command line, and \<open>main\<close> as the sequence of its calls into
    the models above, with the order it keeps on every path.

  \<^bold>\<open>What the properties say.\<close> Safety of data: no maintenance operation changes a file, an append
  or truncation changes exactly its range, a successful \<open>Fsync\<close> has everything on disk, a crash
  and the repair after it change no file, a clean shutdown loses nothing. Order in the namespace: link counts, entries and inodes. Errors:
  the places where the code does not do what it means to (a misplaced append after a partial
  write, dropped scan errors, reads inside a buffered extent, lost updates under the mover, a
  leak of the buffer budget, a wrong link count, a migration that is not resumed, cut symlinks,
  wrapping sizes) are theorems too, with the inputs that show them.

  \<^bold>\<open>Bounds.\<close> Statements about writes assume the offsets that a stripe number of 32 bits can
  address (\<open>max_off\<close>) and that the sequence counter does not reach \<open>2 ^ 64\<close> during the call;
  statements about link counts that they fit into 32 bits (\<open>ns_room\<close>). Loops are structural or
  have a termination proof with the length of the remaining input as measure; the only loops
  with a bound are \<open>climb\<close>, whose thousand levels are the code's own, and the loop over an iterator
  (\<open>iter_rest\<close>), for which any bound above the number of entries is enough; the loop of the
  mover runs over the list of its wake-ups.

  \<^bold>\<open>Not modelled.\<close> Locks, contexts, goroutines and their interleaving inside a call, tracing spans
  and log lines; the serving of HTTP requests and the profiles of \<open>net/http/pprof\<close>; the engine
  options of \<open>src/kv/db.go\<close>; \<open>sameFragments\<close> of \<open>src/index/index.go\<close>, which nothing calls. What
  happens between the mount and the unmount is one argument of \<open>main\<close>: the store's operations
  are the subject of the other theories.
\<close>

end
